(* ===== verification/Gem5_Prelude.thy ===== *)
theory Gem5_Prelude
  imports Main "HOL-Library.Word"
begin

text \<open>
  The prelude of the development: the machine types of the simulator's C++ sources, the
  outcomes of an operation that can stop the simulator, checked vector access, and the
  lemmas on words and lists that the component theories share.

  A C++ operation that contains an \<open>assert\<close>, a \<open>fatal\<close>, a \<open>panic\<close> or a
  vector access returns a value of type \<open>'a result\<close>: \<open>Inl e\<close> when the simulator
  stops (or when the C++ behaviour is undefined, as for an index out of range), \<open>Inr x\<close>
  when it returns.  A safety theorem of a component is then that the operation returns
  \<open>Inr\<close> in every well-formed state.
\<close>

section \<open>Machine types\<close>

type_synonym u8 = "8 word"
type_synonym u16 = "16 word"
type_synonym u32 = "32 word"
type_synonym u64 = "64 word"
type_synonym Addr = "64 word"
type_synonym ThreadID = nat
type_synonym InstSeqNum = "64 word"

definition MaxAddr :: Addr where
  "MaxAddr = - 1"

section \<open>Outcomes\<close>

datatype sim_error =
    Assert string   \<comment> \<open>a failed \<open>assert\<close>\<close>
  | Fatal string    \<comment> \<open>\<open>fatal\<close> / \<open>fatal_if\<close>: a user error\<close>
  | Panic string    \<comment> \<open>\<open>panic\<close>: a simulator error\<close>
  | OutOfRange      \<comment> \<open>\<open>std::out_of_range\<close>, thrown by \<open>at\<close>\<close>
  | Undefined       \<comment> \<open>undefined behaviour: an index out of range, division by zero\<close>

type_synonym 'a result = "sim_error + 'a"

definition bind_r :: "'a result \<Rightarrow> ('a \<Rightarrow> 'b result) \<Rightarrow> 'b result" where
  "bind_r m f = (case m of Inl e \<Rightarrow> Inl e | Inr x \<Rightarrow> f x)"

definition check :: "bool \<Rightarrow> sim_error \<Rightarrow> 'a result \<Rightarrow> 'a result" where
  "check b e k = (if b then k else Inl e)"

definition returns :: "'a result \<Rightarrow> bool" where
  "returns r = (case r of Inl _ \<Rightarrow> False | Inr _ \<Rightarrow> True)"

lemma bind_r_simps [simp]:
  "bind_r (Inr x) f = f x"
  "bind_r (Inl e) f = Inl e"
  by (simp_all add: bind_r_def)

lemma check_simps [simp]:
  "b \<Longrightarrow> check b e k = k"
  "\<not> b \<Longrightarrow> check b e k = Inl e"
  by (simp_all add: check_def)

lemma returns_simps [simp]:
  "returns (Inr x)"
  "\<not> returns (Inl e)"
  by (simp_all add: returns_def)

lemma returnsE: "returns r \<Longrightarrow> (\<And>x. r = Inr x \<Longrightarrow> P) \<Longrightarrow> P"
  by (cases r) auto

lemma bind_r_eq_Inr_iff:
  "bind_r m f = Inr y \<longleftrightarrow> (\<exists>x. m = Inr x \<and> f x = Inr y)"
  by (cases m) auto

lemma check_eq_Inr_iff: "check b e k = Inr y \<longleftrightarrow> b \<and> k = Inr y"
  by (simp add: check_def)

lemma bind_r_cong [fundef_cong]:
  assumes "m = m'" and "\<And>x. m' = Inr x \<Longrightarrow> f x = f' x"
  shows "bind_r m f = bind_r m' f'"
  using assms by (cases m') auto

lemma bind_r_assoc: "bind_r (bind_r m f) g = bind_r m (\<lambda>x. bind_r (f x) g)"
  by (cases m) auto

section \<open>Checked vector access\<close>

definition vec_get :: "'a list \<Rightarrow> nat \<Rightarrow> 'a result" where
  "vec_get xs i = (if i < length xs then Inr (xs ! i) else Inl Undefined)"

definition vec_set :: "'a list \<Rightarrow> nat \<Rightarrow> 'a \<Rightarrow> 'a list result" where
  "vec_set xs i v = (if i < length xs then Inr (xs[i := v]) else Inl Undefined)"

definition vec_at :: "'a list \<Rightarrow> nat \<Rightarrow> 'a result" where
  "vec_at xs i = (if i < length xs then Inr (xs ! i) else Inl OutOfRange)"

lemma vec_get_in [simp]: "i < length xs \<Longrightarrow> vec_get xs i = Inr (xs ! i)"
  by (simp add: vec_get_def)

lemma vec_set_in [simp]: "i < length xs \<Longrightarrow> vec_set xs i v = Inr (xs[i := v])"
  by (simp add: vec_set_def)

lemma vec_at_in [simp]: "i < length xs \<Longrightarrow> vec_at xs i = Inr (xs ! i)"
  by (simp add: vec_at_def)

lemma vec_get_eq_Inr_iff: "vec_get xs i = Inr x \<longleftrightarrow> i < length xs \<and> xs ! i = x"
  by (auto simp: vec_get_def)

lemma vec_set_eq_Inr_iff: "vec_set xs i v = Inr ys \<longleftrightarrow> i < length xs \<and> ys = xs[i := v]"
  by (auto simp: vec_set_def)

lemma vec_at_eq_Inr_iff: "vec_at xs i = Inr x \<longleftrightarrow> i < length xs \<and> xs ! i = x"
  by (auto simp: vec_at_def)

lemmas result_iffs =
  bind_r_eq_Inr_iff check_eq_Inr_iff vec_get_eq_Inr_iff vec_set_eq_Inr_iff vec_at_eq_Inr_iff

text \<open>Access to a C++ array with an \<open>int\<close> index.\<close>

definition arr_get :: "'a list \<Rightarrow> int \<Rightarrow> 'a result" where
  "arr_get xs i = (if 0 \<le> i then vec_get xs (nat i) else Inl Undefined)"

definition arr_set :: "'a list \<Rightarrow> int \<Rightarrow> 'a \<Rightarrow> 'a list result" where
  "arr_set xs i v = (if 0 \<le> i then vec_set xs (nat i) v else Inl Undefined)"

lemma arr_get_in [simp]: "0 \<le> i \<Longrightarrow> nat i < length xs \<Longrightarrow> arr_get xs i = Inr (xs ! nat i)"
  by (simp add: arr_get_def)

lemma arr_set_in [simp]: "0 \<le> i \<Longrightarrow> nat i < length xs \<Longrightarrow> arr_set xs i v = Inr (xs[nat i := v])"
  by (simp add: arr_set_def)

text \<open>
  \<open>(1 << k) - 1\<close> in the type \<open>int\<close>, the conversion of a value to \<open>int\<close> and to
  \<open>int8_t\<close>.  Values of the types \<open>int\<close> and \<open>int8_t\<close> are HOL integers in their range.
\<close>

definition int_ones :: "nat \<Rightarrow> int result" where
  "int_ones k = check (k < 31) Undefined (Inr (2 ^ k - 1))"

definition to_int :: "u64 \<Rightarrow> int" where
  "to_int x = sint (ucast x :: u32)"

definition to_int8 :: "int \<Rightarrow> int" where
  "to_int8 x = sint (word_of_int x :: u8)"

lemma int_ones_in [simp]: "k < 31 \<Longrightarrow> int_ones k = Inr (2 ^ k - 1)"
  by (simp add: int_ones_def)

section \<open>Loops\<close>

fun map_r :: "('a \<Rightarrow> 'b result) \<Rightarrow> 'a list \<Rightarrow> 'b list result" where
  "map_r f [] = Inr []"
| "map_r f (x # xs) = bind_r (f x) (\<lambda>y. bind_r (map_r f xs) (\<lambda>ys. Inr (y # ys)))"

fun fold_r :: "('a \<Rightarrow> 's \<Rightarrow> 's result) \<Rightarrow> 'a list \<Rightarrow> 's \<Rightarrow> 's result" where
  "fold_r f [] s = Inr s"
| "fold_r f (x # xs) s = bind_r (f x s) (fold_r f xs)"

lemma map_r_Inr: "(\<And>x. x \<in> set xs \<Longrightarrow> f x = Inr (g x)) \<Longrightarrow> map_r f xs = Inr (map g xs)"
  by (induction xs) simp_all

lemma map_r_eq_InrD: "map_r f xs = Inr ys \<Longrightarrow> list_all2 (\<lambda>x y. f x = Inr y) xs ys"
  by (induction xs arbitrary: ys) (auto simp: bind_r_eq_Inr_iff)

lemma map_r_total:
  assumes "\<And>x. x \<in> set xs \<Longrightarrow> \<exists>y. f x = Inr y \<and> P x y"
  shows "\<exists>ys. map_r f xs = Inr ys \<and> list_all2 P xs ys"
  using assms by (induction xs) fastforce+

lemma fold_r_append: "fold_r f (xs @ ys) s = bind_r (fold_r f xs s) (fold_r f ys)"
  by (induction xs arbitrary: s) (auto simp: bind_r_def split: sum.splits)

section \<open>Lists\<close>

lemma list_all_update:
  "list_all P xs \<Longrightarrow> P v \<Longrightarrow> list_all P (xs[i := v])"
  by (auto simp: list_all_iff dest: set_update_subset_insert [THEN subsetD])

lemma list_all_nthD: "list_all P xs \<Longrightarrow> i < length xs \<Longrightarrow> P (xs ! i)"
  by (simp add: list_all_length)

lemma list_all_replicate [simp]: "list_all P (replicate n x) \<longleftrightarrow> n = 0 \<or> P x"
  by (auto simp: list_all_iff)

section \<open>Words\<close>

unbundle bit_operations_syntax

lemma unat_and_le: "unat (x AND y) \<le> unat y"
  for x y :: "'a::len word"
  by (rule word_and_le1 [THEN word_le_nat_alt [THEN iffD1]])

lemma unat_and_le_left: "unat (x AND y) \<le> unat x"
  for x y :: "'a::len word"
  using unat_and_le [of y x] by (simp add: and.commute)

lemma unat_minus_one_less: "n \<noteq> 0 \<Longrightarrow> unat (n - 1) < unat n"
  for n :: "'a::len word"
  by (simp add: unat_minus_one unat_gt_0)

lemma unat_and_minus_one_less: "n \<noteq> 0 \<Longrightarrow> unat (x AND (n - 1)) < unat n"
  for x n :: "'a::len word"
  using unat_and_le [of x "n - 1"] unat_minus_one_less [of n] by linarith

lemma unat_take_bit_mod: "unat (take_bit k x) = unat x mod 2 ^ k"
  for x :: "'a::len word"
proof -
  have "unat (take_bit k x) = take_bit k (unat x)" by (rule unsigned_take_bit_eq)
  then show ?thesis by (simp only: take_bit_nat_def)
qed

lemma unat_drop_bit_div: "unat (drop_bit k x) = unat x div 2 ^ k"
  for x :: "'a::len word"
proof -
  have "unat (drop_bit k x) = drop_bit k (take_bit LENGTH('a) (unat x))"
    by (rule unsigned_drop_bit_eq)
  then show ?thesis by (simp add: drop_bit_nat_def take_bit_nat_eq_self)
qed

lemma unat_ucast_take_bit: "unat (ucast w :: 'b::len word) = take_bit LENGTH('b) (unat w)"
  for w :: "'a::len word"
  by (simp add: unsigned_ucast_eq unsigned_take_bit_eq)

lemma unat_ucast_le: "unat (ucast w :: 'b::len word) \<le> unat w"
  for w :: "'a::len word"
  by (simp add: unat_ucast_take_bit)

lemma unat_ucast_up: "LENGTH('a) \<le> LENGTH('b) \<Longrightarrow> unat (ucast w :: 'b::len word) = unat w"
  for w :: "'a::len word"
proof -
  assume le: "LENGTH('a) \<le> LENGTH('b)"
  have "unat w < 2 ^ LENGTH('a)" by (rule unsigned_less)
  also have "\<dots> \<le> 2 ^ LENGTH('b)" using le by simp
  finally show ?thesis by (simp add: unat_ucast_take_bit take_bit_nat_eq_self)
qed

text \<open>
  The shape of every table index of the predictors: a 64-bit value is masked with a 32-bit
  mask (promoted to 64 bits) and the result is truncated to \<open>unsigned\<close>.
\<close>

lemma unat_ucast_and_le: "unat (ucast (x AND ucast m) :: u32) \<le> unat m"
  for x :: u64 and m :: u32
proof -
  have "unat (x AND ucast m) \<le> unat (ucast m :: u64)" by (rule unat_and_le)
  also have "\<dots> = unat m" by (simp add: unat_ucast_up)
  finally have "unat (x AND ucast m) \<le> unat m" .
  moreover have "unat (ucast (x AND ucast m) :: u32) \<le> unat (x AND ucast m)"
    by (rule unat_ucast_le)
  ultimately show ?thesis by linarith
qed

lemma unat_ucast_and_minus_one_less:
  "n \<noteq> 0 \<Longrightarrow> unat (ucast (x AND ucast (n - 1)) :: u32) < unat n"
  for x :: u64 and n :: u32
  using unat_ucast_and_le [of x "n - 1"] unat_minus_one_less [of n] by linarith

text \<open>Conversions of values in range.\<close>

lemma to_int_less:
  assumes "unat x < 2 ^ 31"
  shows "to_int x = int (unat x)"
proof -
  have i: "int (unat x) = uint x" by simp
  have "int (unat x) < int (2 ^ 31)" using assms by (rule of_nat_less_iff [THEN iffD2])
  then have x: "uint x < 2 ^ 31" unfolding i of_nat_power of_nat_numeral .
  have "uint (ucast x :: u32) = take_bit 32 (uint x)" by (simp add: unsigned_ucast_eq)
  moreover have "take_bit 32 (uint x) = uint x"
    by (rule take_bit_int_eq_self) (use x in simp_all)
  moreover have "signed_take_bit 31 (uint x) = uint x"
  proof (rule signed_take_bit_int_eq_self [OF _ x])
    show "- (2 ^ 31) \<le> uint x" by (rule order_trans [OF _ uint_nonnegative]) simp
  qed
  ultimately show ?thesis unfolding to_int_def sint_uint i by simp
qed

lemma to_int8_range:
  assumes "- 128 \<le> x" and "x < 128"
  shows "to_int8 x = x"
proof -
  have "signed_take_bit 7 x = x" by (rule signed_take_bit_int_eq_self) (use assms in simp_all)
  then show ?thesis unfolding to_int8_def sint_sbintrunc' by simp
qed

end
