(* ===== verification/Bitfield_Intmath.thy ===== *)
theory Bitfield_Intmath
  imports Gem5_Prelude
begin

text \<open>
  The bit-field and integer helpers of \<open>base/bitfield.hh\<close> and \<open>base/intmath.hh\<close> that
  the predictors use, with what the predictors rely on: an index masked with a power of two minus
  one is the index modulo the table size, and \<open>floorLog2\<close> and \<open>ceilLog2\<close> are the
  logarithms.
\<close>

section \<open>base/bitfield.hh\<close>

definition mask_nbits :: "nat \<Rightarrow> u64" where
  "mask_nbits nbits = (if nbits \<ge> 64 then - 1 else push_bit nbits 1 - 1)"

definition bits_range :: "u64 \<Rightarrow> nat \<Rightarrow> nat \<Rightarrow> u64 result" where
  "bits_range val first lst =
     check (first \<ge> lst) (Assert ''first >= last'')
       (Inr (drop_bit lst val AND mask_nbits (first - lst + 1)))"

definition mbits :: "u64 \<Rightarrow> nat \<Rightarrow> nat \<Rightarrow> u64" where
  "mbits val first lst = val AND (mask_nbits (first + 1) AND NOT (mask_nbits lst))"

definition mask_range :: "nat \<Rightarrow> nat \<Rightarrow> u64" where
  "mask_range first lst = mbits (- 1) first lst"

definition insertBits :: "u64 \<Rightarrow> nat \<Rightarrow> nat \<Rightarrow> u64 \<Rightarrow> u64 result" where
  "insertBits val first lst bit_val =
     check (first \<ge> lst) (Assert ''first >= last'')
       (let bmask = mask_range first lst in
        Inr ((val AND NOT bmask) OR (push_bit lst bit_val AND bmask)))"

section \<open>base/intmath.hh\<close>

definition isPowerOf2 :: "'a::len word \<Rightarrow> bool" where
  "isPowerOf2 n \<longleftrightarrow> n \<noteq> 0 \<and> n AND (n - 1) = 0"

text \<open>
  \<open>floorLog2\<close> is a template over an integral type: \<open>ts\<close> is \<open>sizeof(T)\<close> and \<open>x\<close>
  the argument converted to its unsigned type and widened to 64 bits.  Every line of the
  source is one \<open>log2_step\<close>.
\<close>

definition log2_step :: "bool \<Rightarrow> u64 \<Rightarrow> nat \<Rightarrow> u64 \<times> nat \<Rightarrow> u64 \<times> nat" where
  "log2_step guard m w s =
     (case s of (ux, y) \<Rightarrow>
        if guard \<and> ux AND m \<noteq> 0 then (drop_bit w ux, y + w) else (ux, y))"

definition floorLog2 :: "nat \<Rightarrow> u64 \<Rightarrow> nat result" where
  "floorLog2 ts x =
     check (x > 0) (Assert ''x > 0'')
       (let s = (x, 0);
            s = log2_step (ts \<ge> 8) 0xffffffff00000000 32 s;
            s = log2_step (ts \<ge> 4) 0x00000000ffff0000 16 s;
            s = log2_step (ts \<ge> 2) 0x000000000000ff00 8 s;
            s = log2_step True 0x00000000000000f0 4 s;
            s = log2_step True 0x000000000000000c 2 s
        in Inr (snd s + (if fst s AND 0x0000000000000002 \<noteq> 0 then 1 else 0)))"

definition ceilLog2 :: "nat \<Rightarrow> u64 \<Rightarrow> nat result" where
  "ceilLog2 ts n =
     check (n > 0) (Assert ''n > 0'')
       (if n = 1 then Inr 0
        else bind_r (floorLog2 ts (n - 1)) (\<lambda>l. Inr (l + 1)))"

definition divCeil :: "'a::len word \<Rightarrow> 'a word \<Rightarrow> 'a word result" where
  "divCeil a b = check (b \<noteq> 0) Undefined (Inr ((a + b - 1) div b))"

definition roundUp :: "'a::len word \<Rightarrow> 'a word \<Rightarrow> 'a word result" where
  "roundUp val align =
     check (isPowerOf2 align) (Assert ''isPowerOf2(align)'')
       (let m = align - 1 in Inr ((val + m) AND NOT m))"

definition roundDown :: "'a::len word \<Rightarrow> 'a word \<Rightarrow> 'a word result" where
  "roundDown val align =
     check (isPowerOf2 align) (Assert ''isPowerOf2(align)'')
       (let m = align - 1 in Inr (val AND NOT m))"

section \<open>Masks\<close>

lemma mask_nbits_eq: "mask_nbits n = mask n"
  by (cases "n \<ge> 64")
    (simp_all add: mask_nbits_def mask_eq_exp_minus_1 push_bit_eq_mult exp_eq_0_imp_not_bit)

lemma and_mask_nbits: "x AND mask_nbits n = take_bit n x"
  by (simp add: mask_nbits_eq take_bit_eq_mask)

lemma unat_mask: "n \<le> LENGTH('a) \<Longrightarrow> unat (mask n :: 'a::len word) = 2 ^ n - 1"
proof -
  assume "n \<le> LENGTH('a)"
  then have "unat (mask n :: 'a word) = mask n"
    by (intro bit_eqI) (auto simp: bit_simps)
  then show ?thesis by (simp add: mask_eq_exp_minus_1)
qed

lemma unat_mask_nbits: "n \<le> 64 \<Longrightarrow> unat (mask_nbits n) = 2 ^ n - 1"
  by (simp add: mask_nbits_eq unat_mask)

lemma bits_range_bit:
  assumes "lst \<le> first" and "bits_range val first lst = Inr v"
  shows "bit v i \<longleftrightarrow> lst + i \<le> first \<and> bit val (lst + i)"
  using assms by (auto simp: bits_range_def and_mask_nbits bit_take_bit_iff bit_drop_bit_eq)

lemma mask_range_bit: "bit (mask_range first lst) i \<longleftrightarrow> lst \<le> i \<and> i \<le> first \<and> i < 64"
  by (auto simp: mask_range_def mbits_def mask_nbits_eq bit_simps)

lemma insertBits_bit:
  assumes "insertBits val first lst b = Inr v"
  shows "bit v i \<longleftrightarrow>
    (if lst \<le> i \<and> i \<le> first then i < 64 \<and> bit b (i - lst) else bit val i)"
  using assms bit_imp_le_length [of val i]
  by (auto simp: insertBits_def result_iffs Let_def bit_or_iff bit_and_iff bit_not_iff
      mask_range_bit bit_push_bit_iff)

section \<open>Powers of two\<close>

lemma nat_and_double:
  "(2 * a) AND (2 * b + 1) = 2 * (a AND b)"
  "(2 * a + 1) AND (2 * b) = 2 * (a AND b)" for a b :: nat
  by (subst and_rec, simp)+

lemma nat_and_pred_eq_0_iff:
  "0 < n \<Longrightarrow> n AND (n - 1) = 0 \<longleftrightarrow> (\<exists>k. n = 2 ^ k)" for n :: nat
proof (induction n rule: less_induct)
  case (less n)
  consider (even) m where "n = 2 * m" "0 < m" | (odd) m where "n = 2 * m + 1"
    using less.prems by (metis evenE gr0I mult_0_right oddE)
  then show ?case
  proof cases
    case even
    then have "n - 1 = 2 * (m - 1) + 1" by simp
    then have "n AND (n - 1) = 2 * (m AND (m - 1))"
      using even by (simp only: nat_and_double)
    moreover have "m AND (m - 1) = 0 \<longleftrightarrow> (\<exists>k. m = 2 ^ k)"
      using even less.IH [of m] by simp
    moreover have "(\<exists>k. n = 2 ^ k) \<longleftrightarrow> (\<exists>k. m = 2 ^ k)"
    proof
      assume "\<exists>k. n = 2 ^ k"
      then obtain k where k: "n = 2 ^ k" ..
      with even have "k \<noteq> 0" by (cases k) auto
      with k even show "\<exists>k. m = 2 ^ k" by (cases k) auto
    next
      assume "\<exists>k. m = 2 ^ k"
      then obtain k where "m = 2 ^ k" ..
      with even have "n = 2 ^ Suc k" by simp
      then show "\<exists>k. n = 2 ^ k" ..
    qed
    ultimately show ?thesis by simp
  next
    case odd
    then have "n AND (n - 1) = 2 * m"
      using nat_and_double(2) [of m m] by simp
    moreover have "(\<exists>k. n = 2 ^ k) \<longleftrightarrow> m = 0"
    proof
      assume "\<exists>k. n = 2 ^ k"
      then obtain k where k: "n = 2 ^ k" ..
      with odd have "odd (2 ^ k :: nat)" by simp
      then have "k = 0" by (cases k) auto
      with k odd show "m = 0" by simp
    next
      assume "m = 0"
      with odd have "n = 2 ^ 0" by simp
      then show "\<exists>k. n = 2 ^ k" ..
    qed
    ultimately show ?thesis by simp
  qed
qed

lemma isPowerOf2_unat: "isPowerOf2 n \<longleftrightarrow> (\<exists>k. unat n = 2 ^ k)"
  for n :: "'a::len word"
proof (cases "n = 0")
  case True
  then show ?thesis by (simp add: isPowerOf2_def)
next
  case False
  then have pos: "0 < unat n" by (simp add: unat_gt_0)
  have "unat (n AND (n - 1)) = unat n AND (unat n - 1)"
    using False by (simp add: unsigned_and_eq unat_minus_one)
  then have "n AND (n - 1) = 0 \<longleftrightarrow> unat n AND (unat n - 1) = 0"
    by (metis unat_0 unsigned_eq_0_iff)
  with False pos show ?thesis
    using nat_and_pred_eq_0_iff [OF pos] by (simp add: isPowerOf2_def)
qed

lemma isPowerOf2_exp:
  fixes n :: "'a::len word"
  assumes "isPowerOf2 n"
  obtains k where "k < LENGTH('a)" and "n = 2 ^ k" and "unat n = 2 ^ k" and "n - 1 = mask k"
proof -
  from assms obtain k where k: "unat n = 2 ^ k" by (auto simp: isPowerOf2_unat)
  have "(2::nat) ^ k < 2 ^ LENGTH('a)" using unsigned_less [of n] by (simp flip: k)
  then have lt: "k < LENGTH('a)" by simp
  have n: "n = 2 ^ k" using k by (metis of_nat_numeral of_nat_power of_nat_unat ucast_id)
  then have "n - 1 = mask k" by (simp add: mask_eq_exp_minus_1)
  with lt n k show thesis by (rule that)
qed

lemma unat_and_pow2_minus_one:
  fixes n :: "'a::len word"
  assumes "isPowerOf2 n"
  shows "unat (x AND (n - 1)) = unat x mod unat n"
proof -
  from assms obtain k where "unat n = 2 ^ k" and "n - 1 = mask k" by (rule isPowerOf2_exp)
  then show ?thesis by (simp add: unat_take_bit_mod flip: take_bit_eq_mask)
qed

section \<open>Logarithms\<close>

definition band :: "nat \<Rightarrow> u64" where
  "band w = push_bit w (mask w)"

lemma and_band_eq_0_iff:
  assumes "unat ux < 2 ^ (2 * w)"
  shows "ux AND band w = 0 \<longleftrightarrow> unat ux < 2 ^ w"
proof -
  have "ux = take_bit (2 * w) ux"
    using assms by (simp add: word_unat_eq_iff unsigned_take_bit_eq take_bit_nat_eq_self)
  then have hi: "bit ux n \<Longrightarrow> n < 2 * w" for n
    by (metis bit_take_bit_iff)
  have "ux AND band w = 0 \<longleftrightarrow> (\<forall>n. bit ux n \<longrightarrow> n < w)"
  proof
    assume "ux AND band w = 0"
    then have *: "\<not> bit (ux AND band w) n" for n by simp
    show "\<forall>n. bit ux n \<longrightarrow> n < w"
    proof (intro allI impI)
      fix n assume n: "bit ux n"
      then have "n < 2 * w" and "n < 64" using hi bit_imp_le_length by fastforce+
      with n * [of n] show "n < w" by (auto simp: band_def bit_simps)
    qed
  next
    assume "\<forall>n. bit ux n \<longrightarrow> n < w"
    then show "ux AND band w = 0" by (intro bit_word_eqI) (auto simp: band_def bit_simps)
  qed
  also have "\<dots> \<longleftrightarrow> take_bit w ux = ux"
    by (metis bit_eqI bit_take_bit_iff)
  also have "\<dots> \<longleftrightarrow> unat ux < 2 ^ w"
    by (simp add: word_unat_eq_iff unsigned_take_bit_eq take_bit_nat_eq_self_iff)
  finally show ?thesis .
qed

definition log2_inv :: "u64 \<Rightarrow> nat \<Rightarrow> u64 \<times> nat \<Rightarrow> bool" where
  "log2_inv x w s \<longleftrightarrow> unat (fst s) = unat x div 2 ^ snd s \<and> 0 < unat (fst s) \<and> unat (fst s) < 2 ^ w"

lemma log2_step_inv:
  assumes "log2_inv x (2 * w) s" and "m = band w"
  shows "log2_inv x w (log2_step True m w s)"
proof (cases "fst s AND m = 0")
  case True
  with assms show ?thesis
    by (auto simp: log2_inv_def log2_step_def and_band_eq_0_iff split: prod.splits)
next
  case False
  with assms have ge: "2 ^ w \<le> unat (fst s)"
    by (auto simp: log2_inv_def and_band_eq_0_iff not_less)
  have "unat (drop_bit w (fst s)) = unat (fst s) div 2 ^ w"
    by (rule unat_drop_bit_div)
  moreover from ge have "0 < unat (fst s) div 2 ^ w"
    by (simp add: div_greater_zero_iff)
  moreover have "unat (fst s) div 2 ^ w < 2 ^ w"
    using assms by (simp add: log2_inv_def less_mult_imp_div_less flip: power_add mult_2)
  ultimately show ?thesis
    using assms False
    by (auto simp: log2_inv_def log2_step_def div_mult2_eq power_add split: prod.splits)
qed

lemma log2_step_skip: "\<not> guard \<Longrightarrow> log2_step guard m w s = s"
  by (simp add: log2_step_def split: prod.splits)

lemma log2_bands:
  "0xffffffff00000000 = band 32" "0x00000000ffff0000 = band 16" "0x000000000000ff00 = band 8"
  "0x00000000000000f0 = band 4" "0x000000000000000c = band 2" "0x0000000000000002 = band 1"
  by (simp_all add: band_def mask_eq_exp_minus_1 push_bit_eq_mult)

lemma log2_inv_le2:
  assumes "log2_inv x 2 s"
  shows "2 ^ (snd s + (if fst s AND 0x2 \<noteq> 0 then 1 else 0)) \<le> unat x \<and>
    unat x < 2 ^ Suc (snd s + (if fst s AND 0x2 \<noteq> 0 then 1 else 0))"
proof -
  let ?s = "log2_step True 0x2 1 s"
  have "log2_inv x 1 ?s"
    using log2_step_inv [of x 1 s "0x2"] assms log2_bands(6) by simp
  then have d: "unat x div 2 ^ snd ?s = 1" by (simp add: log2_inv_def)
  have y: "snd ?s = snd s + (if fst s AND 0x2 \<noteq> 0 then 1 else 0)"
    by (auto simp: log2_step_def split: prod.splits)
  have "2 ^ snd ?s * 1 \<le> unat x" using d by (metis times_div_less_eq_dividend)
  moreover have "unat x < 2 ^ snd ?s * 2"
    using d by (metis dividend_less_times_div one_add_one mult_2_right distrib_left mult.right_neutral
        zero_less_power zero_less_numeral)
  ultimately show ?thesis by (simp flip: y)
qed

lemma floorLog2_correct:
  assumes "x \<noteq> 0" and "ts \<in> {1, 2, 4, 8}" and "unat x < 2 ^ (8 * ts)"
  shows "\<exists>y. floorLog2 ts x = Inr y \<and> 2 ^ y \<le> unat x \<and> unat x < 2 ^ Suc y"
proof -
  define s0 where "s0 = (x, 0 :: nat)"
  define s1 where "s1 = log2_step (ts \<ge> 8) 0xffffffff00000000 32 s0"
  define s2 where "s2 = log2_step (ts \<ge> 4) 0x00000000ffff0000 16 s1"
  define s3 where "s3 = log2_step (ts \<ge> 2) 0x000000000000ff00 8 s2"
  define s4 where "s4 = log2_step True 0x00000000000000f0 4 s3"
  define s5 where "s5 = log2_step True 0x000000000000000c 2 s4"
  have s0: "log2_inv x (8 * ts) s0"
    using assms by (simp add: log2_inv_def s0_def unat_gt_0)
  have s1: "log2_inv x (8 * min ts 4) s1"
    using assms(2) s0 log2_step_inv [of x 32 s0 "0xffffffff00000000"] log2_bands(1)
    by (auto simp: s1_def log2_step_skip)
  have s2: "log2_inv x (8 * min ts 2) s2"
    using assms(2) s1 log2_step_inv [of x 16 s1 "0x00000000ffff0000"] log2_bands(2)
    by (auto simp: s2_def log2_step_skip)
  have s3: "log2_inv x 8 s3"
    using assms(2) s2 log2_step_inv [of x 8 s2 "0x000000000000ff00"] log2_bands(3)
    by (auto simp: s3_def log2_step_skip)
  have s4: "log2_inv x 4 s4"
    using s3 log2_step_inv [of x 4 s3 "0x00000000000000f0"] log2_bands(4) by (simp add: s4_def)
  have "log2_inv x 2 s5"
    using s4 log2_step_inv [of x 2 s4 "0x000000000000000c"] log2_bands(5) by (simp add: s5_def)
  from log2_inv_le2 [OF this] show ?thesis
    using assms(1)
    by (auto simp: floorLog2_def Let_def word_gt_0 s5_def s4_def s3_def s2_def s1_def s0_def)
qed

lemma ceilLog2_correct:
  assumes "n \<noteq> 0" and "ts \<in> {1, 2, 4, 8}" and "unat n < 2 ^ (8 * ts)"
  shows "\<exists>c. ceilLog2 ts n = Inr c \<and> unat n \<le> 2 ^ c \<and> (c > 0 \<longrightarrow> 2 ^ (c - 1) < unat n)"
proof (cases "n = 1")
  case True
  then show ?thesis by (simp add: ceilLog2_def)
next
  case False
  have u: "unat (n - 1) = unat n - 1" using assms(1) by (simp add: unat_minus_one)
  have "n - 1 \<noteq> 0" using False by simp
  then obtain y where y: "floorLog2 ts (n - 1) = Inr y"
    and le: "2 ^ y \<le> unat (n - 1)" and lt: "unat (n - 1) < 2 ^ Suc y"
    using floorLog2_correct [of "n - 1" ts] assms u by fastforce
  have "unat n \<le> 2 ^ (y + 1)" using lt u by simp
  moreover have "2 ^ y < unat n" using le u assms(1) unat_gt_0 [of n] by linarith
  ultimately show ?thesis using y False assms(1) by (simp add: ceilLog2_def word_gt_0)
qed

lemma floorLog2_u32:
  fixes n :: u32
  assumes "n \<noteq> 0"
  obtains l where "floorLog2 4 (ucast n) = Inr l" and "2 ^ l \<le> unat n" and "unat n < 2 ^ Suc l"
    and "l < 32"
proof -
  have u: "unat (ucast n :: u64) = unat n" by (simp add: unat_ucast_up)
  have lt: "unat n < 2 ^ 32" using unsigned_less [of n] by simp
  have "(ucast n :: u64) \<noteq> 0" using assms u by (metis unat_eq_0)
  then obtain l where l: "floorLog2 4 (ucast n) = Inr l" "2 ^ l \<le> unat n" "unat n < 2 ^ Suc l"
    using floorLog2_correct [of "ucast n :: u64" 4] lt u by auto
  have "(2 :: nat) ^ l < 2 ^ 32" using l(2) lt by linarith
  then have "l < 32" by (rule power_less_imp_less_exp [rotated]) simp
  then show ?thesis using that l by blast
qed

lemma ceilLog2_pow2:
  assumes "unat n = 2 ^ k" and "ts \<in> {1, 2, 4, 8}" and "k < 8 * ts"
  shows "ceilLog2 ts n = Inr k"
proof -
  have "n \<noteq> 0" using assms(1) by auto
  moreover have "unat n < 2 ^ (8 * ts)" using assms(1,3) by simp
  ultimately obtain c where c: "ceilLog2 ts n = Inr c" and le: "unat n \<le> 2 ^ c"
    and lt: "c > 0 \<longrightarrow> 2 ^ (c - 1) < unat n"
    using ceilLog2_correct [of n ts] assms(2) by blast
  from le assms(1) have "k \<le> c" by (simp add: power_le_imp_le_exp)
  moreover from lt assms(1) have "c > 0 \<longrightarrow> c - 1 < k" by simp
  ultimately show ?thesis using c by (cases c) auto
qed

section \<open>Properties\<close>



end
