(* ===== verification/Markov_LVP.thy ===== *)
theory Markov_LVP
  imports Bitfield_Intmath
begin

text \<open>
  \<open>cpu/markov_lvp.hh\<close> and \<open>cpu/markov_lvp.cc\<close>: the Markov load value predictor, the
  component this project adds to the simulator.  Per load address the value history table
  (\<open>vht\<close>, an \<open>unordered_map\<close>) keeps the last value and a circular buffer of the last
  \<open>contextDepth\<close> strides; the buffer, hashed with the address, selects an entry of the
  direct-mapped \<open>markovTable\<close>, which holds the stride that followed that context last
  time and a confidence counter.

  The statistics are natural numbers.  \<open>predict\<close> returns its reference parameter as an
  \<open>option\<close>: \<open>Some v\<close> when the C++ function returns true and has stored \<open>v\<close>.
\<close>

section \<open>State\<close>

record VHTEntry =
  strides :: "u64 list"
  lastVal :: u64
  writePtr :: u32
  vht_valid :: bool
  strideValid :: bool
  hasPending :: bool
  pendingPred :: u64

definition VHTEntry_default :: VHTEntry where
  "VHTEntry_default =
     \<lparr>strides = [], lastVal = 0, writePtr = 0, vht_valid = False, strideValid = False,
      hasPending = False, pendingPred = 0\<rparr>"

record MarkovEntry =
  predictedStride :: u64
  confidence :: u8
  me_valid :: bool

definition MarkovEntry_default :: MarkovEntry where
  "MarkovEntry_default = \<lparr>predictedStride = 0, confidence = 0, me_valid = False\<rparr>"

record LVPStats =
  totalLoads :: nat
  predicted :: nat
  correct :: nat
  incorrect :: nat
  noHistory :: nat
  noStride :: nat
  lowConfidence :: nat
  pendingChecked :: nat

definition LVPStats_init :: LVPStats where
  "LVPStats_init =
     \<lparr>totalLoads = 0, predicted = 0, correct = 0, incorrect = 0, noHistory = 0,
      noStride = 0, lowConfidence = 0, pendingChecked = 0\<rparr>"

record MarkovLVPParams =
  table_size :: u32
  context_depth :: u32
  conf_threshold :: u32
  max_conf :: u32

record MarkovLVP =
  vht :: "Addr \<rightharpoonup> VHTEntry"
  markovTable :: "MarkovEntry list"
  tableSize :: u32
  contextDepth :: u32
  confThreshold :: u32
  maxConf :: u32
  indexMask :: u32
  stats :: LVPStats

section \<open>Operations\<close>

definition MarkovLVP_init :: "MarkovLVPParams \<Rightarrow> MarkovLVP result" where
  "MarkovLVP_init p =
     check (isPowerOf2 (table_size p)) (Assert ''isPowerOf2(tableSize)'')
       (check (context_depth p \<ge> 1) (Assert ''contextDepth >= 1'')
          (Inr \<lparr>vht = Map.empty,
                markovTable = replicate (unat (table_size p)) MarkovEntry_default,
                tableSize = table_size p, contextDepth = context_depth p,
                confThreshold = conf_threshold p, maxConf = max_conf p,
                indexMask = table_size p - 1, stats = LVPStats_init\<rparr>))"

definition hash_mix :: "u64 \<Rightarrow> u64 \<Rightarrow> u64" where
  "hash_mix s h = (let h = h XOR s * 2654435761 in push_bit 5 h OR drop_bit 59 h)"

text \<open>The loop of \<open>hashContext\<close>: \<open>n\<close> iterations are left, \<open>i\<close> is the loop variable.\<close>

primrec hashContext_loop :: "u32 \<Rightarrow> VHTEntry \<Rightarrow> nat \<Rightarrow> u32 \<Rightarrow> u64 \<Rightarrow> u64 result" where
  "hashContext_loop d e 0 i h = Inr h"
| "hashContext_loop d e (Suc n) i h =
     bind_r (vec_get (strides e) (unat ((writePtr e + d - 1 - i) mod d)))
       (\<lambda>s. hashContext_loop d e n (i + 1) (hash_mix s h))"

definition hashContext :: "MarkovLVP \<Rightarrow> Addr \<Rightarrow> VHTEntry \<Rightarrow> u32 result" where
  "hashContext m pc e =
     bind_r (hashContext_loop (contextDepth m) e (unat (contextDepth m)) 0
               (pc XOR drop_bit 32 pc))
       (\<lambda>h. Inr (ucast h AND indexMask m))"

definition MarkovLVP_predict :: "MarkovLVP \<Rightarrow> Addr \<Rightarrow> (u64 option \<times> MarkovLVP) result" where
  "MarkovLVP_predict m pc =
     (case vht m pc of
        None \<Rightarrow> Inr (None, m\<lparr>stats := (stats m)\<lparr>noHistory := noHistory (stats m) + 1\<rparr>\<rparr>)
      | Some e \<Rightarrow>
          if \<not> vht_valid e
          then Inr (None, m\<lparr>stats := (stats m)\<lparr>noHistory := noHistory (stats m) + 1\<rparr>\<rparr>)
          else if \<not> strideValid e
          then Inr (None, m\<lparr>stats := (stats m)\<lparr>noStride := noStride (stats m) + 1\<rparr>\<rparr>)
          else bind_r (hashContext m pc e) (\<lambda>mIdx.
               bind_r (vec_get (markovTable m) (unat mIdx)) (\<lambda>mEntry.
                 if \<not> me_valid mEntry \<or> ucast (confidence mEntry) < confThreshold m
                 then Inr (None,
                   m\<lparr>stats := (stats m)\<lparr>lowConfidence := lowConfidence (stats m) + 1\<rparr>\<rparr>)
                 else let predVal = lastVal e + predictedStride mEntry in
                   Inr (Some predVal,
                     m\<lparr>vht := (vht m)(pc \<mapsto> e\<lparr>hasPending := True, pendingPred := predVal\<rparr>),
                       stats := (stats m)\<lparr>predicted := predicted (stats m) + 1\<rparr>\<rparr>))))"

definition train_entry :: "u32 \<Rightarrow> u64 \<Rightarrow> MarkovEntry \<Rightarrow> MarkovEntry" where
  "train_entry mc stride me =
     (if \<not> me_valid me
      then me\<lparr>predictedStride := stride, confidence := 1, me_valid := True\<rparr>
      else if stride = predictedStride me
      then (if ucast (confidence me) < mc then me\<lparr>confidence := confidence me + 1\<rparr> else me)
      else let me = (if confidence me > 0 then me\<lparr>confidence := confidence me - 1\<rparr> else me) in
           if confidence me = 0 then me\<lparr>predictedStride := stride, confidence := 1\<rparr> else me)"

definition check_pending :: "u64 \<Rightarrow> VHTEntry \<Rightarrow> LVPStats \<Rightarrow> VHTEntry \<times> LVPStats" where
  "check_pending actualVal e st =
     (if hasPending e
      then (let st = st\<lparr>pendingChecked := pendingChecked st + 1\<rparr>;
                st = (if actualVal = pendingPred e then st\<lparr>correct := correct st + 1\<rparr>
                      else st\<lparr>incorrect := incorrect st + 1\<rparr>)
            in (e\<lparr>hasPending := False\<rparr>, st))
      else (e, st))"

definition push_stride :: "u32 \<Rightarrow> u64 \<Rightarrow> u64 \<Rightarrow> VHTEntry \<Rightarrow> VHTEntry result" where
  "push_stride d stride actualVal e =
     bind_r (vec_set (strides e) (unat (writePtr e)) stride) (\<lambda>ss.
       Inr (e\<lparr>strides := ss, writePtr := (writePtr e + 1) mod d, strideValid := True,
              lastVal := actualVal\<rparr>))"

definition MarkovLVP_update ::
  "MarkovLVP \<Rightarrow> Addr \<Rightarrow> u64 \<Rightarrow> bool \<Rightarrow> u64 \<Rightarrow> MarkovLVP result" where
  "MarkovLVP_update m pc actualVal wasPredicted predVal =
     (let m = m\<lparr>stats := (stats m)\<lparr>totalLoads := totalLoads (stats m) + 1\<rparr>\<rparr>;
          e = (case vht m pc of None \<Rightarrow> VHTEntry_default | Some e \<Rightarrow> e)
      in
      if \<not> vht_valid e
      then Inr (m\<lparr>vht := (vht m)(pc \<mapsto>
             e\<lparr>strides := replicate (unat (contextDepth m)) 0, writePtr := 0,
               vht_valid := True, strideValid := False, hasPending := False,
               lastVal := actualVal\<rparr>)\<rparr>)
      else
        let (e, st) = check_pending actualVal e (stats m);
            stride = actualVal - lastVal e
        in
        bind_r (if strideValid e
                then bind_r (hashContext m pc e) (\<lambda>mIdx.
                     bind_r (vec_get (markovTable m) (unat mIdx)) (\<lambda>mEntry.
                       vec_set (markovTable m) (unat mIdx)
                         (train_entry (maxConf m) stride mEntry)))
                else Inr (markovTable m)) (\<lambda>mt.
        bind_r (push_stride (contextDepth m) stride actualVal e) (\<lambda>e.
          Inr (m\<lparr>vht := (vht m)(pc \<mapsto> e), markovTable := mt, stats := st\<rparr>))))"

section \<open>Runs\<close>

text \<open>
  A run interleaves predictions and updates of any loads in any order; the other arguments of
  \<open>update\<close> are not read by the code.
\<close>

datatype lvp_event = Predict Addr | Update Addr u64

fun lvp_step :: "MarkovLVP \<Rightarrow> lvp_event \<Rightarrow> MarkovLVP result" where
  "lvp_step m (Predict pc) = bind_r (MarkovLVP_predict m pc) (\<lambda>r. Inr (snd r))"
| "lvp_step m (Update pc v) = MarkovLVP_update m pc v False 0"

fun lvp_run :: "MarkovLVP \<Rightarrow> lvp_event list \<Rightarrow> MarkovLVP result" where
  "lvp_run m [] = Inr m"
| "lvp_run m (ev # evs) = bind_r (lvp_step m ev) (\<lambda>m. lvp_run m evs)"

lemma lvp_run_append: "lvp_run m (xs @ ys) = bind_r (lvp_run m xs) (\<lambda>m. lvp_run m ys)"
  by (induction xs arbitrary: m) (auto simp: bind_r_assoc)

section \<open>Well-formed states\<close>

definition entry_wf :: "u32 \<Rightarrow> VHTEntry \<Rightarrow> bool" where
  "entry_wf d e \<longleftrightarrow> vht_valid e \<and> length (strides e) = unat d \<and> unat (writePtr e) < unat d"

definition lvp_wf :: "MarkovLVP \<Rightarrow> bool" where
  "lvp_wf m \<longleftrightarrow>
     isPowerOf2 (tableSize m) \<and> indexMask m = tableSize m - 1 \<and> contextDepth m \<ge> 1 \<and>
     length (markovTable m) = unat (tableSize m) \<and>
     (\<forall>pc e. vht m pc = Some e \<longrightarrow> entry_wf (contextDepth m) e)"

lemma lvp_wf_init: "MarkovLVP_init p = Inr m \<Longrightarrow> lvp_wf m"
  by (auto simp: MarkovLVP_init_def result_iffs lvp_wf_def)

lemma lvp_wf_stats [simp]: "lvp_wf (m\<lparr>stats := st\<rparr>) = lvp_wf m"
  by (simp add: lvp_wf_def)

lemma hashContext_loop_returns:
  assumes "length (strides e) = unat d" and "d \<noteq> 0"
  shows "\<exists>h'. hashContext_loop d e n i h = Inr h'"
  using assms
  by (induction n arbitrary: i h) (simp_all add: unat_mod unat_gt_0)

lemma hashContext_returns:
  assumes "lvp_wf m" and "vht m pc = Some e"
  shows "\<exists>i. hashContext m pc e = Inr i \<and> unat i < length (markovTable m)"
proof -
  have "contextDepth m \<noteq> 0" using assms(1) by (auto simp: lvp_wf_def)
  then obtain h where h: "hashContext_loop (contextDepth m) e (unat (contextDepth m)) 0
      (pc XOR drop_bit 32 pc) = Inr h"
    using assms hashContext_loop_returns by (fastforce simp: lvp_wf_def entry_wf_def)
  have "tableSize m \<noteq> 0" using assms(1) by (auto simp: lvp_wf_def isPowerOf2_def)
  then have "unat ((ucast h :: u32) AND (tableSize m - 1)) < unat (tableSize m)"
    by (rule unat_and_minus_one_less)
  then show ?thesis using assms(1) h by (simp add: hashContext_def lvp_wf_def)
qed

lemma hashContext_loop_cong:
  "strides e = strides e' \<Longrightarrow> writePtr e = writePtr e' \<Longrightarrow>
   hashContext_loop d e n i h = hashContext_loop d e' n i h"
  by (induction n arbitrary: i h) simp_all

lemma hashContext_cong:
  assumes "strides e = strides e'" and "writePtr e = writePtr e'"
    and "contextDepth m = contextDepth m'" and "indexMask m = indexMask m'"
  shows "hashContext m pc e = hashContext m' pc e'"
  using assms hashContext_loop_cong [of e e'] by (simp add: hashContext_def)

lemma check_pending_frame [simp]:
  "strides (fst (check_pending v e st)) = strides e"
  "writePtr (fst (check_pending v e st)) = writePtr e"
  "lastVal (fst (check_pending v e st)) = lastVal e"
  "vht_valid (fst (check_pending v e st)) = vht_valid e"
  "strideValid (fst (check_pending v e st)) = strideValid e"
  "hasPending (fst (check_pending v e st)) = False"
  by (simp_all add: check_pending_def Let_def)

lemma push_stride_wf:
  assumes "entry_wf d e"
  shows "\<exists>e'. push_stride d s v e = Inr e' \<and> entry_wf d e'"
  using assms by (auto simp: push_stride_def entry_wf_def unat_mod)

text \<open>
  The state that an \<open>update\<close> of a load with history leaves behind, with every vector access
  discharged: the facts below are what the later proofs unfold instead of the code.
\<close>

definition trained :: "MarkovLVP \<Rightarrow> VHTEntry \<Rightarrow> nat \<Rightarrow> u64 \<Rightarrow> MarkovEntry list" where
  "trained m e i v =
     (if strideValid e
      then (markovTable m)[i := train_entry (maxConf m) (v - lastVal e) (markovTable m ! i)]
      else markovTable m)"

definition pushed :: "u32 \<Rightarrow> VHTEntry \<Rightarrow> u64 \<Rightarrow> VHTEntry" where
  "pushed d e v =
     e\<lparr>hasPending := False, strides := (strides e)[unat (writePtr e) := v - lastVal e],
       writePtr := (writePtr e + 1) mod d, strideValid := True, lastVal := v\<rparr>"

lemma update_fresh:
  assumes "lvp_wf m" and "vht m pc = None"
  shows "MarkovLVP_update m pc v w p =
    Inr (m\<lparr>vht := (vht m)(pc \<mapsto>
           VHTEntry_default\<lparr>strides := replicate (unat (contextDepth m)) 0, vht_valid := True,
             lastVal := v\<rparr>),
         stats := (stats m)\<lparr>totalLoads := totalLoads (stats m) + 1\<rparr>\<rparr>)"
  using assms by (simp add: MarkovLVP_update_def VHTEntry_default_def)

lemma update_known:
  assumes wf: "lvp_wf m" and e: "vht m pc = Some e" and i: "hashContext m pc e = Inr i"
  shows "MarkovLVP_update m pc v w p =
    Inr (m\<lparr>vht := (vht m)(pc \<mapsto> pushed (contextDepth m) e v),
           markovTable := trained m e (unat i) v,
           stats := snd (check_pending v e
             ((stats m)\<lparr>totalLoads := totalLoads (stats m) + 1\<rparr>))\<rparr>)"
proof -
  let ?m = "m\<lparr>stats := (stats m)\<lparr>totalLoads := totalLoads (stats m) + 1\<rparr>\<rparr>"
  obtain e1 st where cp: "check_pending v e (stats ?m) = (e1, st)" by fastforce
  have e1: "e1 = e\<lparr>hasPending := False\<rparr>"
    using cp by (auto simp: check_pending_def Let_def split: if_splits)
  have wfe: "entry_wf (contextDepth m) e" using wf e by (auto simp: lvp_wf_def)
  have "hashContext ?m pc e1 = Inr i"
    using i hashContext_cong [of e1 e ?m m] by (simp add: e1)
  moreover have "unat i < length (markovTable m)"
    using hashContext_returns [OF wf e] i by simp
  ultimately show ?thesis
    using wfe e cp
    by (auto simp: MarkovLVP_update_def Let_def entry_wf_def push_stride_def e1 trained_def
        pushed_def)
qed

lemma entry_wf_pushed: "entry_wf d e \<Longrightarrow> entry_wf d (pushed d e v)"
  by (auto simp: entry_wf_def pushed_def unat_mod)

lemma update_wf:
  assumes wf: "lvp_wf m"
  shows "\<exists>m'. MarkovLVP_update m pc v w p = Inr m' \<and> lvp_wf m'"
proof (cases "vht m pc")
  case None
  have "0 < unat (contextDepth m)" using wf by (auto simp: lvp_wf_def unat_gt_0)
  with None wf show ?thesis
    by (auto simp: update_fresh lvp_wf_def entry_wf_def VHTEntry_default_def)
next
  case (Some e)
  obtain i where "hashContext m pc e = Inr i" using hashContext_returns [OF wf Some] by blast
  moreover have "entry_wf (contextDepth m) (pushed (contextDepth m) e v)"
    using wf Some by (auto simp: lvp_wf_def intro: entry_wf_pushed)
  ultimately show ?thesis
    using wf Some by (auto simp: update_known lvp_wf_def trained_def)
qed

lemma predict_known:
  assumes wf: "lvp_wf m" and e: "vht m pc = Some e" and sv: "strideValid e"
    and i: "hashContext m pc e = Inr i"
  defines "me \<equiv> markovTable m ! unat i"
  shows "MarkovLVP_predict m pc =
    Inr (if me_valid me \<and> confThreshold m \<le> ucast (confidence me)
         then (Some (lastVal e + predictedStride me),
               m\<lparr>vht := (vht m)(pc \<mapsto>
                   e\<lparr>hasPending := True, pendingPred := lastVal e + predictedStride me\<rparr>),
                 stats := (stats m)\<lparr>predicted := predicted (stats m) + 1\<rparr>\<rparr>)
         else (None,
               m\<lparr>stats := (stats m)\<lparr>lowConfidence := lowConfidence (stats m) + 1\<rparr>\<rparr>))"
proof -
  have "vht_valid e" using wf e by (auto simp: lvp_wf_def entry_wf_def)
  moreover have "unat i < length (markovTable m)"
    using hashContext_returns [OF wf e] i by simp
  ultimately show ?thesis
    using e sv i by (auto simp: MarkovLVP_predict_def Let_def me_def not_less)
qed

lemma predict_wf:
  assumes wf: "lvp_wf m"
  shows "\<exists>r m'. MarkovLVP_predict m pc = Inr (r, m') \<and> lvp_wf m'"
proof (cases "\<exists>e. vht m pc = Some e \<and> strideValid e")
  case True
  then obtain e where e: "vht m pc = Some e" "strideValid e" by blast
  then obtain i where i: "hashContext m pc e = Inr i" using hashContext_returns [OF wf] by blast
  have "entry_wf (contextDepth m) e" using wf e by (auto simp: lvp_wf_def)
  then show ?thesis
    using wf by (auto simp: predict_known [OF wf e i] lvp_wf_def entry_wf_def)
next
  case False
  then show ?thesis
    using wf by (auto simp: MarkovLVP_predict_def split: option.splits)
qed

lemma step_wf: "lvp_wf m \<Longrightarrow> \<exists>m'. lvp_step m ev = Inr m' \<and> lvp_wf m'"
proof (cases ev)
  case (Predict pc)
  assume "lvp_wf m"
  from predict_wf [OF this, of pc] Predict show ?thesis by auto
next
  case (Update pc v)
  assume "lvp_wf m"
  from update_wf [OF this] Update show ?thesis by simp
qed

lemma run_wf: "lvp_wf m \<Longrightarrow> \<exists>m'. lvp_run m evs = Inr m' \<and> lvp_wf m'"
proof (induction evs arbitrary: m)
  case (Cons ev evs)
  obtain m1 where "lvp_step m ev = Inr m1" "lvp_wf m1" using step_wf [OF Cons.prems] by blast
  with Cons.IH [of m1] show ?case by simp
qed simp

section \<open>Confidence\<close>

definition conf_ok :: "MarkovLVP \<Rightarrow> bool" where
  "conf_ok m \<longleftrightarrow> (\<forall>me \<in> set (markovTable m). me_valid me \<longrightarrow>
     1 \<le> unat (confidence me) \<and> unat (confidence me) \<le> max 1 (unat (maxConf m)))"

lemma train_entry_conf:
  assumes "unat mc \<le> 255"
    and "me_valid me \<longrightarrow> 1 \<le> unat (confidence me) \<and> unat (confidence me) \<le> max 1 (unat mc)"
  shows "me_valid (train_entry mc s me) \<and> 1 \<le> unat (confidence (train_entry mc s me)) \<and>
    unat (confidence (train_entry mc s me)) \<le> max 1 (unat mc)"
proof -
  let ?c = "confidence me"
  have up: "ucast ?c < mc \<longleftrightarrow> unat ?c < unat mc"
    by (simp add: word_less_nat_alt unat_ucast_up)
  have inc: "unat ?c < unat mc \<Longrightarrow> unat (?c + 1) = unat ?c + 1"
    using assms(1) by (subst unat_add_lem [THEN iffD1]) auto
  have dec: "?c \<noteq> 0 \<Longrightarrow> unat (?c - 1) = unat ?c - 1"
    by (rule unat_minus_one)
  have zero: "?c - 1 \<noteq> 0 \<Longrightarrow> ?c \<noteq> 0 \<Longrightarrow> 1 \<le> unat ?c - 1"
    using dec unat_gt_0 [of "?c - 1"] by simp
  show ?thesis
    using assms(2) inc dec zero
    by (auto simp: train_entry_def Let_def up word_gt_0)
qed

end
