(* ===== verification/Shift_History.thy ===== *)
theory Shift_History
  imports Gem5_Prelude
begin

text \<open>
  The interface of a bounded history: a buffer that remembers the last \<open>depth\<close> items, most
  recent first.  The value predictor's circular stride buffer and the direction history
  registers of the branch predictors are implementations of it; what is proved here holds for
  each of them through an interpretation in the theory of the component.
\<close>

locale shift_history =
  fixes depth :: nat
    and hist :: "'s \<Rightarrow> 'a list"
    and push :: "'a \<Rightarrow> 's \<Rightarrow> 's"
    and hinv :: "'s \<Rightarrow> bool"
  assumes hist_length: "hinv s \<Longrightarrow> length (hist s) = depth"
    and hist_push: "hinv s \<Longrightarrow> hist (push x s) = take depth (x # hist s)"
    and hinv_push: "hinv s \<Longrightarrow> hinv (push x s)"
begin

lemma hinv_pushes: "hinv s \<Longrightarrow> hinv (fold push xs s)"
  by (induction xs arbitrary: s) (auto intro: hinv_push)

lemma hist_pushes: "hinv s \<Longrightarrow> hist (fold push xs s) = take depth (rev xs @ hist s)"
proof (induction xs arbitrary: s)
  case Nil
  then show ?case by (simp add: hist_length)
next
  case (Cons x xs)
  have "hist (fold push xs (push x s)) = take depth (rev xs @ take depth (x # hist s))"
    using Cons.IH [OF hinv_push [OF Cons.prems]] hist_push [OF Cons.prems] by simp
  also have "\<dots> = take depth (rev xs @ x # hist s)"
    by (simp add: take_append min_def)
  finally show ?case by simp
qed

text \<open>Two buffers fed the same \<open>depth\<close> items agree, whatever they held before.\<close>

lemma hist_synchronises:
  assumes "hinv s" and "hinv t" and "depth \<le> length xs"
  shows "hist (fold push xs s) = hist (fold push xs t)"
  using assms by (simp add: hist_pushes)

lemma hist_replicate:
  assumes "hinv s" and "depth \<le> n"
  shows "hist (fold push (replicate n x) s) = replicate depth x"
  using assms hist_pushes [OF assms(1), of "replicate n x"] by (simp add: min_def)

end

end
