(* ===== verification/Markov_LVP_Learning.thy ===== *)
theory Markov_LVP_Learning
  imports Markov_LVP Shift_History
begin

text \<open>
  What the value predictor learns.  The circular stride buffer implements a bounded history
  (\<open>shift_history\<close>); the hash of a context is a function of that history alone; a load that
  walks with a constant stride is predicted exactly once its context has been trained to the
  confidence threshold; a run in which every stride is determined by its hashed context makes
  no wrong prediction.
\<close>

section \<open>The circular buffer as a history\<close>

definition stride_idx :: "nat \<Rightarrow> VHTEntry \<Rightarrow> nat \<Rightarrow> nat" where
  "stride_idx d e i = (unat (writePtr e) + d - 1 - i) mod d"

definition stride_hist :: "u32 \<Rightarrow> VHTEntry \<Rightarrow> u64 list" where
  "stride_hist d e = map (\<lambda>i. strides e ! stride_idx (unat d) e i) [0..<unat d]"

definition buffer_inv :: "u32 \<Rightarrow> VHTEntry \<Rightarrow> bool" where
  "buffer_inv d e \<longleftrightarrow> entry_wf d e \<and> unat d \<le> 2 ^ 31"

definition push_value :: "u32 \<Rightarrow> u64 \<Rightarrow> VHTEntry \<Rightarrow> VHTEntry" where
  "push_value d s e = pushed d e (lastVal e + s)"

lemma stride_hist_length [simp]: "length (stride_hist d e) = unat d"
  by (simp add: stride_hist_def)

lemma writePtr_next:
  assumes "buffer_inv d e"
  shows "unat ((writePtr e + 1) mod d) = (unat (writePtr e) + 1) mod unat d"
proof -
  have "unat (writePtr e) + 1 < 2 ^ 32"
    using assms by (auto simp: buffer_inv_def entry_wf_def)
  then have "unat (writePtr e + 1) = unat (writePtr e) + 1"
    by (simp add: unat_word_ariths)
  then show ?thesis by (simp add: unat_mod)
qed

lemma stride_idx_word:
  assumes "buffer_inv d e" and "unat i < unat d"
  shows "unat ((writePtr e + d - 1 - i) mod d) = stride_idx (unat d) e (unat i)"
proof -
  have b: "unat (writePtr e) < unat d" "unat d \<le> 2 ^ 31"
    using assms by (auto simp: buffer_inv_def entry_wf_def)
  have "unat (writePtr e + d) = unat (writePtr e) + unat d"
    using b by (subst unat_add_lem [THEN iffD1]) auto
  moreover have "writePtr e + d \<noteq> 0" using calculation b by (metis add_is_0 not_less0 unat_0)
  ultimately have s1: "unat (writePtr e + d - 1) = unat (writePtr e) + unat d - 1"
    by (simp add: unat_minus_one)
  have "i \<le> writePtr e + d - 1"
    using s1 assms(2) by (simp add: word_le_nat_alt)
  then have "unat (writePtr e + d - 1 - i) = unat (writePtr e) + unat d - 1 - unat i"
    using s1 by (simp add: unat_sub)
  then show ?thesis by (simp add: unat_mod stride_idx_def)
qed

lemma stride_idx_push:
  fixes w d i :: nat
  assumes "w < d" and "i < d"
  shows "((w + 1) mod d + d - 1 - i) mod d = (if i = 0 then w else (w + d - 1 - (i - 1)) mod d)"
proof (cases "w + 1 = d")
  case True
  have "(w + d - 1 - (i - 1)) mod d = d - 1 - i" if "i \<noteq> 0"
  proof -
    have "w + d - 1 - (i - 1) = (d - 1 - i) + d" using True assms that by simp
    then have "(w + d - 1 - (i - 1)) mod d = (d - 1 - i) mod d" by (simp only: mod_add_self2)
    then show ?thesis using assms by simp
  qed
  then show ?thesis using True assms by auto
next
  case False
  with assms have "(w + 1) mod d = w + 1" by simp
  moreover have "i \<noteq> 0 \<Longrightarrow> w + 1 + d - 1 - i = w + d - 1 - (i - 1)" using assms by simp
  ultimately show ?thesis using assms by simp
qed

lemma stride_idx_ne:
  fixes w d j :: nat
  assumes "w < d" and "Suc j < d"
  shows "(w + d - 1 - j) mod d \<noteq> w"
proof (cases "j < w")
  case True
  then have "w + d - 1 - j = (w - 1 - j) + d" by simp
  then have "(w + d - 1 - j) mod d = (w - 1 - j) mod d" by simp
  also have "\<dots> = w - 1 - j" using assms by simp
  finally show ?thesis using True by simp
next
  case False
  then have "(w + d - 1 - j) mod d = w + d - 1 - j" using assms by simp
  then show ?thesis using assms False by simp
qed

lemma stride_hist_pushed:
  assumes inv: "buffer_inv d e"
  shows "stride_hist d (pushed d e v) = take (unat d) ((v - lastVal e) # stride_hist d e)"
proof (rule nth_equalityI)
  let ?w = "unat (writePtr e)" and ?d = "unat d" and ?p = "pushed d e v"
  have w: "?w < ?d" and len: "length (strides e) = ?d"
    using inv by (auto simp: buffer_inv_def entry_wf_def)
  show "length (stride_hist d ?p) = length (take ?d ((v - lastVal e) # stride_hist d e))"
    by simp
  fix i assume "i < length (stride_hist d ?p)"
  then have i: "i < ?d" by simp
  have idx: "stride_idx ?d ?p i = (if i = 0 then ?w else stride_idx ?d e (i - 1))"
    using stride_idx_push [OF w i] writePtr_next [OF inv]
    by (simp add: stride_idx_def pushed_def)
  show "stride_hist d ?p ! i = take ?d ((v - lastVal e) # stride_hist d e) ! i"
  proof (cases i)
    case 0
    then show ?thesis using i idx w len by (simp add: stride_hist_def pushed_def)
  next
    case (Suc j)
    have "stride_idx ?d e j \<noteq> ?w" using stride_idx_ne [OF w] i Suc by (simp add: stride_idx_def)
    then show ?thesis using i idx Suc by (simp add: stride_hist_def pushed_def)
  qed
qed

interpretation lvp_hist: shift_history "unat d" "stride_hist d" "push_value d" "buffer_inv d" for d
proof
  fix e x assume inv: "buffer_inv d e"
  show "length (stride_hist d e) = unat d" by simp
  show "stride_hist d (push_value d x e) = take (unat d) (x # stride_hist d e)"
    using stride_hist_pushed [OF inv, of "lastVal e + x"] by (simp add: push_value_def)
  show "buffer_inv d (push_value d x e)"
    using inv by (simp add: buffer_inv_def push_value_def entry_wf_pushed)
qed

section \<open>The hash is a function of the history\<close>

definition hash_hist :: "Addr \<Rightarrow> u64 list \<Rightarrow> u64" where
  "hash_hist pc ss = fold hash_mix ss (pc XOR drop_bit 32 pc)"

lemma hashContext_loop_hist:
  assumes "buffer_inv d e" and "n + unat i \<le> unat d"
  shows "hashContext_loop d e n i h =
    Inr (fold hash_mix (map (\<lambda>j. strides e ! stride_idx (unat d) e j) [unat i..<unat i + n]) h)"
  using assms(2)
proof (induction n arbitrary: i h)
  case (Suc n)
  have len: "length (strides e) = unat d" and d: "0 < unat d" "unat d \<le> 2 ^ 31"
    using assms(1) by (auto simp: buffer_inv_def entry_wf_def)
  have i: "unat i < unat d" using Suc.prems by simp
  then have "unat i + 1 < 2 ^ 32" using d by simp
  then have i1: "unat (i + 1) = unat i + 1" by (simp add: unat_word_ariths)
  have upt: "[unat i..<unat i + Suc n] = unat i # [unat (i + 1)..<unat (i + 1) + n]"
    using i1 by (simp add: upt_conv_Cons del: upt_Suc)
  have "stride_idx (unat d) e (unat i) < unat d" using d by (simp add: stride_idx_def)
  then show ?case
    using Suc.IH [of "i + 1"] Suc.prems i1 len stride_idx_word [OF assms(1) i]
    unfolding upt by simp
qed simp

lemma hashContext_hist:
  assumes "buffer_inv (contextDepth m) e"
  shows "hashContext m pc e =
    Inr (ucast (hash_hist pc (stride_hist (contextDepth m) e)) AND indexMask m)"
  using hashContext_loop_hist [OF assms, of "unat (contextDepth m)" 0]
  by (simp add: hashContext_def hash_hist_def stride_hist_def)

section \<open>Statistics\<close>

definition pending_set :: "MarkovLVP \<Rightarrow> Addr set" where
  "pending_set m = {pc. \<exists>e. vht m pc = Some e \<and> hasPending e}"

definition stats_ok :: "MarkovLVP \<Rightarrow> bool" where
  "stats_ok m \<longleftrightarrow>
     finite (pending_set m) \<and>
     correct (stats m) + incorrect (stats m) = pendingChecked (stats m) \<and>
     pendingChecked (stats m) + card (pending_set m) \<le> predicted (stats m) \<and>
     pendingChecked (stats m) \<le> totalLoads (stats m)"

lemma stats_ok_init: "MarkovLVP_init p = Inr m \<Longrightarrow> stats_ok m"
  by (auto simp: MarkovLVP_init_def result_iffs stats_ok_def pending_set_def LVPStats_init_def)

lemma predict_cases:
  assumes wf: "lvp_wf m" and p: "MarkovLVP_predict m pc = Inr (r, m')"
  obtains (none) st where "r = None" and "m' = m\<lparr>stats := st\<rparr>"
      and "predicted st = predicted (stats m)" and "pendingChecked st = pendingChecked (stats m)"
      and "correct st = correct (stats m)" and "incorrect st = incorrect (stats m)"
      and "totalLoads st = totalLoads (stats m)"
    | (some) e i me where "vht m pc = Some e" and "strideValid e" and "hashContext m pc e = Inr i"
      and "unat i < length (markovTable m)" and "me = markovTable m ! unat i" and "me_valid me"
      and "confThreshold m \<le> ucast (confidence me)"
      and "r = Some (lastVal e + predictedStride me)"
      and "m' = m\<lparr>vht := (vht m)(pc \<mapsto>
             e\<lparr>hasPending := True, pendingPred := lastVal e + predictedStride me\<rparr>),
           stats := (stats m)\<lparr>predicted := predicted (stats m) + 1\<rparr>\<rparr>"
proof (cases "\<exists>e. vht m pc = Some e \<and> strideValid e")
  case True
  then obtain e where e: "vht m pc = Some e" "strideValid e" by blast
  then obtain i where i: "hashContext m pc e = Inr i" "unat i < length (markovTable m)"
    using hashContext_returns [OF wf] by blast
  show thesis
  proof (cases "me_valid (markovTable m ! unat i) \<and>
      confThreshold m \<le> ucast (confidence (markovTable m ! unat i))")
    case True
    then show thesis using some [OF e i refl] p by (simp add: predict_known [OF wf e i(1)])
  next
    case False
    then show thesis using none p by (auto simp: predict_known [OF wf e i(1)])
  qed
next
  case False
  then show thesis using none p
    by (auto simp: MarkovLVP_predict_def split: option.splits if_splits)
qed

lemma stats_ok_predict:
  assumes "lvp_wf m" and "stats_ok m" and "MarkovLVP_predict m pc = Inr (r, m')"
  shows "stats_ok m'"
  using assms(1,3)
proof (cases rule: predict_cases)
  case (none st)
  then have "pending_set m' = pending_set m" by (simp add: pending_set_def)
  with none assms(2) show ?thesis by (simp add: stats_ok_def)
next
  case (some e i me)
  then have "pending_set m' = insert pc (pending_set m)" by (auto simp: pending_set_def)
  with some assms(2) show ?thesis
    by (auto simp: stats_ok_def card_insert_if)
qed

lemma stats_ok_update:
  assumes wf: "lvp_wf m" and ok: "stats_ok m" and u: "MarkovLVP_update m pc v w p = Inr m'"
  shows "stats_ok m'"
proof (cases "vht m pc")
  case None
  then have "pending_set m' = pending_set m"
    using u update_fresh [OF wf None] by (auto simp: pending_set_def VHTEntry_default_def split: if_splits)
  then show ?thesis
    using u update_fresh [OF wf None] ok by (auto simp: stats_ok_def)
next
  case (Some e)
  obtain i where i: "hashContext m pc e = Inr i" using hashContext_returns [OF wf Some] by blast
  have m': "m' = m\<lparr>vht := (vht m)(pc \<mapsto> pushed (contextDepth m) e v),
           markovTable := trained m e (unat i) v,
           stats := snd (check_pending v e
             ((stats m)\<lparr>totalLoads := totalLoads (stats m) + 1\<rparr>))\<rparr>"
    using u update_known [OF wf Some i] by simp
  then have ps: "pending_set m' = pending_set m - {pc}"
    by (auto simp: pending_set_def pushed_def)
  have mem: "pc \<in> pending_set m \<longleftrightarrow> hasPending e" using Some by (simp add: pending_set_def)
  have fin: "finite (pending_set m)" "finite (pending_set m')" using ok ps by (auto simp: stats_ok_def)
  have card: "card (pending_set m) = (if hasPending e then 1 else 0) + card (pending_set m')"
  proof (cases "hasPending e")
    case True
    then have "Suc (card (pending_set m - {pc})) = card (pending_set m)"
      using mem fin by (intro card_Suc_Diff1) auto
    then show ?thesis using True by (simp only: ps if_True plus_1_eq_Suc)
  next
    case False
    then have "pending_set m - {pc} = pending_set m" using mem by auto
    then show ?thesis using False by (simp add: ps)
  qed
  have st: "stats m' = snd (check_pending v e ((stats m)\<lparr>totalLoads := totalLoads (stats m) + 1\<rparr>))"
    by (simp add: m')
  show ?thesis
    using ok card fin unfolding stats_ok_def st
    by (cases "hasPending e") (auto simp: check_pending_def Let_def)
qed

lemma stats_ok_step:
  "lvp_wf m \<Longrightarrow> stats_ok m \<Longrightarrow> lvp_step m ev = Inr m' \<Longrightarrow> stats_ok m'"
  by (cases ev) (auto simp: result_iffs intro: stats_ok_predict stats_ok_update)

lemma run_invariant:
  assumes step: "\<And>m ev m'. lvp_wf m \<Longrightarrow> I m \<Longrightarrow> lvp_step m ev = Inr m' \<Longrightarrow> I m'"
    and "lvp_wf m" and "I m" and "lvp_run m evs = Inr m'"
  shows "I m'"
  using assms(2-)
proof (induction evs arbitrary: m)
  case (Cons ev evs)
  obtain m1 where m1: "lvp_step m ev = Inr m1" "lvp_wf m1" using step_wf [OF Cons.prems(1)] by blast
  with Cons.prems have "lvp_run m1 evs = Inr m'" by simp
  moreover have "I m1" using step Cons.prems m1 by blast
  ultimately show ?case using Cons.IH m1(2) by blast
qed simp

section \<open>Runs whose strides are determined by their context\<close>

fun consistent :: "(nat \<Rightarrow> u64) \<Rightarrow> MarkovLVP \<Rightarrow> lvp_event \<Rightarrow> bool" where
  "consistent f m (Predict pc) = True"
| "consistent f m (Update pc v) =
     (case vht m pc of
        None \<Rightarrow> True
      | Some e \<Rightarrow> strideValid e \<longrightarrow>
          (case hashContext m pc e of Inl _ \<Rightarrow> False | Inr i \<Rightarrow> v - lastVal e = f (unat i)))"

fun consistent_run :: "(nat \<Rightarrow> u64) \<Rightarrow> MarkovLVP \<Rightarrow> lvp_event list \<Rightarrow> bool" where
  "consistent_run f m [] = True"
| "consistent_run f m (ev # evs) =
     (consistent f m ev \<and>
      (case lvp_step m ev of Inl _ \<Rightarrow> False | Inr m' \<Rightarrow> consistent_run f m' evs))"

definition agrees :: "(nat \<Rightarrow> u64) \<Rightarrow> MarkovLVP \<Rightarrow> bool" where
  "agrees f m \<longleftrightarrow>
     incorrect (stats m) = 0 \<and>
     (\<forall>i < length (markovTable m). me_valid (markovTable m ! i) \<longrightarrow>
        predictedStride (markovTable m ! i) = f i) \<and>
     (\<forall>pc e. vht m pc = Some e \<longrightarrow> hasPending e \<longrightarrow>
        strideValid e \<and>
        (\<exists>i. hashContext m pc e = Inr i \<and> pendingPred e = lastVal e + f (unat i)))"

lemma agrees_init: "MarkovLVP_init p = Inr m \<Longrightarrow> agrees f m"
  by (auto simp: MarkovLVP_init_def result_iffs agrees_def LVPStats_init_def MarkovEntry_default_def)

lemma agrees_stats:
  assumes "agrees f m" and "incorrect st = incorrect (stats m)"
  shows "agrees f (m\<lparr>stats := st\<rparr>)"
proof -
  have "hashContext (m\<lparr>stats := st\<rparr>) pc e = hashContext m pc e" for pc e
    by (rule hashContext_cong) simp_all
  with assms show ?thesis by (simp add: agrees_def)
qed

lemma agrees_predict:
  assumes "lvp_wf m" and "agrees f m" and "MarkovLVP_predict m pc = Inr (r, m')"
  shows "agrees f m'"
  using assms(1,3)
proof (cases rule: predict_cases)
  case (none st)
  then show ?thesis using assms(2) by (simp add: agrees_stats)
next
  case (some e i me)
  have h: "hashContext m' pc' e' = hashContext m pc' e'" for pc' e'
    by (rule hashContext_cong) (simp_all add: some)
  have i: "hashContext m pc (e\<lparr>hasPending := True, pendingPred := x\<rparr>) = Inr i" for x
    by (subst some(3) [symmetric], rule hashContext_cong) simp_all
  have "predictedStride me = f (unat i)" using assms(2) some by (simp add: agrees_def)
  then show ?thesis
    using assms(2) some(2) i unfolding agrees_def h by (auto simp: some split: if_splits)
qed

lemma train_entry_stride:
  "(me_valid me \<Longrightarrow> predictedStride me = s) \<Longrightarrow>
   me_valid (train_entry mc s me) \<and> predictedStride (train_entry mc s me) = s"
  by (auto simp: train_entry_def)

lemma agrees_update:
  assumes wf: "lvp_wf m" and ag: "agrees f m" and c: "consistent f m (Update pc v)"
    and u: "MarkovLVP_update m pc v w p = Inr m'"
  shows "agrees f m'"
proof (cases "vht m pc")
  case None
  have m': "m' = m\<lparr>vht := (vht m)(pc \<mapsto>
           VHTEntry_default\<lparr>strides := replicate (unat (contextDepth m)) 0, vht_valid := True,
             lastVal := v\<rparr>),
         stats := (stats m)\<lparr>totalLoads := totalLoads (stats m) + 1\<rparr>\<rparr>"
    using u update_fresh [OF wf None] by simp
  have h: "hashContext m' pc' e' = hashContext m pc' e'" for pc' e'
    by (rule hashContext_cong) (simp_all add: m')
  show ?thesis
    using ag unfolding agrees_def h by (auto simp: m' VHTEntry_default_def split: if_splits)
next
  case (Some e)
  obtain i where i: "hashContext m pc e = Inr i" "unat i < length (markovTable m)"
    using hashContext_returns [OF wf Some] by blast
  have m': "m' = m\<lparr>vht := (vht m)(pc \<mapsto> pushed (contextDepth m) e v),
           markovTable := trained m e (unat i) v,
           stats := snd (check_pending v e
             ((stats m)\<lparr>totalLoads := totalLoads (stats m) + 1\<rparr>))\<rparr>"
    using u update_known [OF wf Some i(1)] by simp
  have h: "hashContext m' pc' e' = hashContext m pc' e'" for pc' e'
    by (rule hashContext_cong) (simp_all add: m')
  have s: "strideValid e \<Longrightarrow> v - lastVal e = f (unat i)" using c Some i by simp
  have "hasPending e \<Longrightarrow> strideValid e \<and> pendingPred e = lastVal e + f (unat i)"
    using ag Some i(1) unfolding agrees_def by (metis sum.inject(2))
  then have pend: "hasPending e \<Longrightarrow> pendingPred e = v" using s by (metis add.commute diff_add_cancel)
  have tbl: "j < length (markovTable m) \<Longrightarrow> me_valid (trained m e (unat i) v ! j) \<Longrightarrow>
      predictedStride (trained m e (unat i) v ! j) = f j" for j
    using ag i s train_entry_stride [of "markovTable m ! j" "f j" "maxConf m"]
    by (cases "j = unat i") (auto simp: trained_def agrees_def split: if_splits)
  have len: "length (trained m e (unat i) v) = length (markovTable m)"
    by (simp add: trained_def)
  have inc: "incorrect (stats m') = 0"
    using ag pend by (auto simp: m' check_pending_def Let_def agrees_def)
  have pnd: "vht m' pc' = Some e' \<Longrightarrow> hasPending e' \<Longrightarrow> vht m pc' = Some e'" for pc' e'
    by (auto simp: m' pushed_def split: if_splits)
  have mt: "markovTable m' = trained m e (unat i) v" by (simp add: m')
  show ?thesis unfolding agrees_def h mt len
  proof (intro conjI allI impI)
    show "incorrect (stats m') = 0" by (rule inc)
  next
    fix j assume "j < length (markovTable m)" "me_valid (trained m e (unat i) v ! j)"
    then show "predictedStride (trained m e (unat i) v ! j) = f j" by (rule tbl)
  next
    fix pc' e' assume "vht m' pc' = Some e'" "hasPending e'"
    then show "strideValid e'"
      and "\<exists>i. hashContext m pc' e' = Inr i \<and> pendingPred e' = lastVal e' + f (unat i)"
      using pnd ag unfolding agrees_def by blast+
  qed
qed

lemma agrees_step:
  assumes "lvp_wf m" and "agrees f m" and "consistent f m ev" and "lvp_step m ev = Inr m'"
  shows "agrees f m'"
proof (cases ev)
  case (Predict pc)
  then obtain r where "MarkovLVP_predict m pc = Inr (r, m')"
    using assms(4) by (auto simp: result_iffs)
  then show ?thesis by (rule agrees_predict [OF assms(1,2)])
next
  case (Update pc v)
  then have "MarkovLVP_update m pc v False 0 = Inr m'" using assms(4) by simp
  then show ?thesis using agrees_update [OF assms(1,2)] assms(3) Update by blast
qed

lemma agrees_run:
  assumes "lvp_wf m" and "agrees f m" and "consistent_run f m evs"
  shows "\<exists>m'. lvp_run m evs = Inr m' \<and> agrees f m'"
  using assms
proof (induction evs arbitrary: m)
  case (Cons ev evs)
  obtain m1 where m1: "lvp_step m ev = Inr m1" "lvp_wf m1" using step_wf [OF Cons.prems(1)] by blast
  have c: "consistent f m ev" "consistent_run f m1 evs" using Cons.prems(3) m1 by auto
  have "agrees f m1" using agrees_step [OF Cons.prems(1,2) c(1) m1(1)] .
  with Cons.IH [OF m1(2) _ c(2)] m1 show ?case by simp
qed simp

section \<open>Training is independent of prediction\<close>

definition drop_pending :: "VHTEntry \<Rightarrow> VHTEntry" where
  "drop_pending e = e\<lparr>hasPending := False, pendingPred := 0\<rparr>"

definition same_training :: "MarkovLVP \<Rightarrow> MarkovLVP \<Rightarrow> bool" where
  "same_training m n \<longleftrightarrow>
     markovTable m = markovTable n \<and> contextDepth m = contextDepth n \<and>
     indexMask m = indexMask n \<and> maxConf m = maxConf n \<and>
     confThreshold m = confThreshold n \<and> totalLoads (stats m) = totalLoads (stats n) \<and>
     (\<forall>pc. map_option drop_pending (vht m pc) = map_option drop_pending (vht n pc))"

fun is_update :: "lvp_event \<Rightarrow> bool" where
  "is_update (Predict _) = False"
| "is_update (Update _ _) = True"

lemma same_training_predict:
  assumes "lvp_wf m" and "MarkovLVP_predict m pc = Inr (r, m')" and "same_training m n"
  shows "same_training m' n"
  using assms(1,2)
proof (cases rule: predict_cases)
  case (none st)
  then show ?thesis using assms(3) by (simp add: same_training_def)
next
  case (some e i me)
  have "map_option drop_pending (vht m' pc') = map_option drop_pending (vht m pc')" for pc'
    using some(1) by (auto simp: some(9) drop_pending_def)
  then show ?thesis using assms(3) by (simp add: same_training_def some(9))
qed

lemma drop_pending_eqD:
  assumes "drop_pending e = drop_pending e'"
  shows "strides e = strides e'" and "lastVal e = lastVal e'" and "writePtr e = writePtr e'"
    and "vht_valid e = vht_valid e'" and "strideValid e = strideValid e'"
  using assms by (cases e; cases e'; simp add: drop_pending_def)+

lemma drop_pending_pushed:
  assumes "drop_pending e = drop_pending e'"
  shows "drop_pending (pushed d e v) = drop_pending (pushed d e' v)"
  using assms by (cases e; cases e') (simp add: drop_pending_def pushed_def)

lemma same_training_update:
  assumes wf: "lvp_wf m" "lvp_wf n" and s: "same_training m n"
    and u: "MarkovLVP_update m pc v w p = Inr m'" "MarkovLVP_update n pc v w' p' = Inr n'"
  shows "same_training m' n'"
proof (cases "vht m pc")
  case None
  then have "vht n pc = None" using s by (metis map_option_is_None same_training_def)
  with None show ?thesis
    using u s by (auto simp: update_fresh wf same_training_def)
next
  case (Some e)
  then obtain e' where e': "vht n pc = Some e'" and d: "drop_pending e = drop_pending e'"
    using s unfolding same_training_def by (metis map_option_eq_Some option.sel option.map_sel)
  note d' = drop_pending_eqD [OF d]
  obtain i where i: "hashContext m pc e = Inr i" using hashContext_returns [OF wf(1) Some] by blast
  have "hashContext n pc e' = hashContext m pc e"
    by (rule hashContext_cong) (use s d' in \<open>simp_all add: same_training_def\<close>)
  then have i': "hashContext n pc e' = Inr i" using i by simp
  have m': "m' = m\<lparr>vht := (vht m)(pc \<mapsto> pushed (contextDepth m) e v),
           markovTable := trained m e (unat i) v,
           stats := snd (check_pending v e
             ((stats m)\<lparr>totalLoads := totalLoads (stats m) + 1\<rparr>))\<rparr>"
    using u update_known [OF wf(1) Some i] by simp
  have n': "n' = n\<lparr>vht := (vht n)(pc \<mapsto> pushed (contextDepth n) e' v),
           markovTable := trained n e' (unat i) v,
           stats := snd (check_pending v e'
             ((stats n)\<lparr>totalLoads := totalLoads (stats n) + 1\<rparr>))\<rparr>"
    using u update_known [OF wf(2) e' i'] by simp
  have tr: "trained m e (unat i) v = trained n e' (unat i) v"
    using s d' by (simp add: trained_def same_training_def)
  have tl: "totalLoads (snd (check_pending v x y)) = totalLoads y" for x y
    by (simp add: check_pending_def Let_def)
  have pu: "drop_pending (pushed (contextDepth m) e v) = drop_pending (pushed (contextDepth n) e' v)"
    using drop_pending_pushed [OF d] s by (simp add: same_training_def)
  show ?thesis
    using s tr pu unfolding m' n' same_training_def by (simp add: tl)
qed

lemma same_training_run:
  assumes "lvp_wf m" and "lvp_wf n" and "same_training m n"
    and "lvp_run m evs = Inr m'" and "lvp_run n (filter is_update evs) = Inr n'"
  shows "same_training m' n'"
  using assms
proof (induction evs arbitrary: m n)
  case (Cons ev evs)
  obtain m1 where m1: "lvp_step m ev = Inr m1" "lvp_wf m1" using step_wf [OF Cons.prems(1)] by blast
  show ?case
  proof (cases ev)
    case (Predict pc)
    then obtain r where "MarkovLVP_predict m pc = Inr (r, m1)"
      using m1 by (auto simp: result_iffs)
    then have "same_training m1 n" using Cons.prems same_training_predict by blast
    then show ?thesis using Cons.IH [of m1 n] Cons.prems m1 Predict by simp
  next
    case (Update pc v)
    obtain n1 where n1: "lvp_step n ev = Inr n1" "lvp_wf n1"
      using step_wf [OF Cons.prems(2)] by blast
    have "same_training m1 n1"
      using same_training_update [OF Cons.prems(1-3)] m1(1) n1(1) Update by simp
    then show ?thesis using Cons.IH [of m1 n1] Cons.prems m1 n1 Update by simp
  qed
qed simp

section \<open>Confidence along a run\<close>

lemma conf_ok_init: "MarkovLVP_init p = Inr m \<Longrightarrow> conf_ok m"
  by (auto simp: MarkovLVP_init_def result_iffs conf_ok_def MarkovEntry_default_def)

definition conf_inv :: "MarkovLVP \<Rightarrow> bool" where
  "conf_inv m \<longleftrightarrow> conf_ok m \<and> unat (maxConf m) \<le> 255"

lemma conf_inv_step:
  assumes wf: "lvp_wf m" and c: "conf_inv m" and s: "lvp_step m ev = Inr m'"
  shows "conf_inv m'"
proof (cases ev)
  case (Predict pc)
  then obtain r where "MarkovLVP_predict m pc = Inr (r, m')" using s by (auto simp: result_iffs)
  with wf show ?thesis using c
    by (cases rule: predict_cases) (simp_all add: conf_inv_def conf_ok_def)
next
  case (Update pc v)
  then have u: "MarkovLVP_update m pc v False 0 = Inr m'" using s by simp
  show ?thesis
  proof (cases "vht m pc")
    case None
    with u c show ?thesis by (auto simp: update_fresh [OF wf] conf_inv_def conf_ok_def)
  next
    case (Some e)
    obtain i where i: "hashContext m pc e = Inr i" "unat i < length (markovTable m)"
      using hashContext_returns [OF wf Some] by blast
    let ?me = "train_entry (maxConf m) (v - lastVal e) (markovTable m ! unat i)"
    have "1 \<le> unat (confidence ?me) \<and> unat (confidence ?me) \<le> max 1 (unat (maxConf m))"
      using train_entry_conf [of "maxConf m" "markovTable m ! unat i"] c i(2)
      by (simp add: conf_inv_def conf_ok_def)
    then have "\<forall>me \<in> set (trained m e (unat i) v). me_valid me \<longrightarrow>
        1 \<le> unat (confidence me) \<and> unat (confidence me) \<le> max 1 (unat (maxConf m))"
      using c unfolding trained_def conf_inv_def conf_ok_def
      by (auto dest!: subsetD [OF set_update_subset_insert])
    with u c show ?thesis
      by (auto simp: update_known [OF wf Some i(1)] conf_inv_def conf_ok_def)
  qed
qed

section \<open>Constant strides\<close>

text \<open>How far an entry is on its way to predicting the stride \<open>s\<close>.\<close>

definition progress :: "u64 \<Rightarrow> MarkovEntry \<Rightarrow> int" where
  "progress s me =
     (if \<not> me_valid me then 0
      else if predictedStride me = s then int (unat (confidence me))
      else 1 - int (unat (confidence me)))"

definition entry_conf :: "u32 \<Rightarrow> MarkovEntry \<Rightarrow> bool" where
  "entry_conf mc me \<longleftrightarrow>
     (me_valid me \<longrightarrow> 1 \<le> unat (confidence me) \<and> unat (confidence me) \<le> max 1 (unat mc))"

lemma progress_train:
  assumes "unat mc \<le> 255" and "entry_conf mc me"
  shows "entry_conf mc (train_entry mc s me)"
    and "progress s (train_entry mc s me) \<ge> min (progress s me + 1) (int (unat mc))"
proof -
  let ?c = "confidence me"
  show "entry_conf mc (train_entry mc s me)"
    using train_entry_conf [OF assms(1)] assms(2) by (simp add: entry_conf_def)
  have up: "ucast ?c < mc \<longleftrightarrow> unat ?c < unat mc"
    by (simp add: word_less_nat_alt unat_ucast_up)
  have inc: "unat ?c < unat mc \<Longrightarrow> unat (?c + 1) = unat ?c + 1"
    using assms(1) by (subst unat_add_lem [THEN iffD1]) auto
  have dec: "?c \<noteq> 0 \<Longrightarrow> unat (?c - 1) = unat ?c - 1"
    by (rule unat_minus_one)
  have nz: "me_valid me \<Longrightarrow> ?c \<noteq> 0" using assms(2) by (auto simp: entry_conf_def)
  have z: "?c - 1 = 0 \<Longrightarrow> me_valid me \<Longrightarrow> unat ?c = 1" using dec nz by auto
  consider "\<not> me_valid me" | "me_valid me" "s = predictedStride me" "unat ?c < unat mc"
    | "me_valid me" "s = predictedStride me" "\<not> unat ?c < unat mc"
    | "me_valid me" "s \<noteq> predictedStride me" "?c - 1 = 0"
    | "me_valid me" "s \<noteq> predictedStride me" "?c - 1 \<noteq> 0" by blast
  then show "progress s (train_entry mc s me) \<ge> min (progress s me + 1) (int (unat mc))"
  proof cases
    case 2
    then show ?thesis using inc by (simp add: progress_def train_entry_def up)
  next
    case 3
    then have "int (unat mc) \<le> int (unat ?c)" by (simp only: of_nat_le_iff not_less)
    then show ?thesis using 3 by (simp add: progress_def train_entry_def up)
  next
    case 4
    then show ?thesis using z nz by (simp add: progress_def train_entry_def Let_def word_gt_0)
  next
    case 5
    then have "unat (?c - 1) + 1 = unat ?c" using dec nz unat_gt_0 [of ?c] by simp
    then have "int (unat (?c - 1)) = int (unat ?c) - 1" by arith
    then show ?thesis
      using 5 nz by (simp add: progress_def train_entry_def Let_def word_gt_0 del: of_nat_unat)
  qed (simp add: progress_def train_entry_def)
qed

lemma progress_iter:
  assumes "unat mc \<le> 255" and "entry_conf mc me"
  shows "entry_conf mc ((train_entry mc s ^^ k) me) \<and>
    progress s ((train_entry mc s ^^ k) me) \<ge> min (progress s me + int k) (int (unat mc))"
proof (induction k)
  case (Suc k)
  then show ?case
    using progress_train [OF assms(1), of "(train_entry mc s ^^ k) me" s] by auto
qed (use assms in simp)

definition strided :: "Addr \<Rightarrow> u64 \<Rightarrow> u64 \<Rightarrow> nat \<Rightarrow> nat \<Rightarrow> lvp_event list" where
  "strided pc a s i j = map (\<lambda>k. Update pc (a + of_nat k * s)) [i..<j]"

definition same_params :: "MarkovLVP \<Rightarrow> MarkovLVP \<Rightarrow> bool" where
  "same_params m n \<longleftrightarrow>
     contextDepth m = contextDepth n \<and> indexMask m = indexMask n \<and> maxConf m = maxConf n \<and>
     confThreshold m = confThreshold n \<and> length (markovTable m) = length (markovTable n)"

lemma step_same_params:
  assumes wf: "lvp_wf m" and "lvp_step m ev = Inr m'"
  shows "same_params m' m"
proof (cases ev)
  case (Predict pc)
  then obtain r where "MarkovLVP_predict m pc = Inr (r, m')" using assms by (auto simp: result_iffs)
  with wf show ?thesis by (cases rule: predict_cases) (simp_all add: same_params_def)
next
  case (Update pc v)
  then have u: "MarkovLVP_update m pc v False 0 = Inr m'" using assms by simp
  show ?thesis
  proof (cases "vht m pc")
    case None
    with u show ?thesis by (auto simp: update_fresh [OF wf] same_params_def)
  next
    case (Some e)
    then obtain i where "hashContext m pc e = Inr i" using hashContext_returns [OF wf] by blast
    with u show ?thesis by (auto simp: update_known [OF wf Some] same_params_def trained_def)
  qed
qed

lemma run_same_params:
  assumes "lvp_wf m" and "lvp_run m evs = Inr m'"
  shows "same_params m' m"
  using assms
proof (induction evs arbitrary: m)
  case Nil
  then show ?case by (simp add: same_params_def)
next
  case (Cons ev evs)
  obtain m1 where m1: "lvp_step m ev = Inr m1" "lvp_wf m1" using step_wf [OF Cons.prems(1)] by blast
  then have "same_params m' m1" using Cons by simp
  then show ?case using step_same_params [OF Cons.prems(1) m1(1)] by (simp add: same_params_def)
qed

text \<open>
  One update of a load that has history: its entry receives the stride, and the table is trained
  at the index of the context the entry had before.
\<close>

lemma update_pushes:
  assumes wf: "lvp_wf m" and d: "unat (contextDepth m) \<le> 2 ^ 31" and e: "vht m pc = Some e"
  shows "\<exists>m'. lvp_step m (Update pc (lastVal e + s)) = Inr m' \<and> lvp_wf m' \<and>
    vht m' pc = Some (push_value (contextDepth m) s e) \<and>
    (strideValid e \<longrightarrow> (\<forall>i. i = unat (ucast (hash_hist pc (stride_hist (contextDepth m) e))
         AND indexMask m) \<longrightarrow>
       markovTable m' ! i = train_entry (maxConf m) s (markovTable m ! i)))"
proof -
  have "buffer_inv (contextDepth m) e" using assms by (auto simp: lvp_wf_def buffer_inv_def)
  note h = hashContext_hist [OF this, of pc]
  obtain m' where m': "lvp_step m (Update pc (lastVal e + s)) = Inr m'" "lvp_wf m'"
    using step_wf [OF wf] by blast
  have "unat (ucast (hash_hist pc (stride_hist (contextDepth m) e)) AND indexMask m)
      < length (markovTable m)"
    using hashContext_returns [OF wf e] h by simp
  then show ?thesis
    using m' e by (auto simp: update_known [OF wf e h] push_value_def trained_def)
qed

lemma push_value_iter:
  assumes "buffer_inv d e"
  shows "lastVal ((push_value d s ^^ k) e) = lastVal e + of_nat k * s"
    and "buffer_inv d ((push_value d s ^^ k) e)"
    and "strideValid e \<or> 0 < k \<Longrightarrow> strideValid ((push_value d s ^^ k) e)"
    and "unat d \<le> k \<Longrightarrow> stride_hist d ((push_value d s ^^ k) e) = replicate (unat d) s"
proof -
  show "lastVal ((push_value d s ^^ k) e) = lastVal e + of_nat k * s"
    by (induction k) (simp_all add: push_value_def pushed_def algebra_simps)
  show "buffer_inv d ((push_value d s ^^ k) e)"
    using lvp_hist.hinv_pushes [OF assms, of "replicate k s"] by (simp add: fold_replicate)
  show "strideValid ((push_value d s ^^ k) e)" if "strideValid e \<or> 0 < k"
    using that by (cases k) (simp_all add: push_value_def pushed_def)
  show "stride_hist d ((push_value d s ^^ k) e) = replicate (unat d) s" if "unat d \<le> k"
    using lvp_hist.hist_replicate [OF assms that, of s] by (simp add: fold_replicate)
qed

lemma strided_Suc: "i \<le> j \<Longrightarrow> strided pc a s i (Suc j) = strided pc a s i j @ [Update pc (a + of_nat j * s)]"
  by (simp add: strided_def)

lemma strided_pushes:
  assumes wf: "lvp_wf m" and d: "unat (contextDepth m) \<le> 2 ^ 31" and e: "vht m pc = Some e"
    and a: "lastVal e = a + of_nat i * s"
  shows "\<exists>m'. lvp_run m (strided pc a s (Suc i) (Suc i + k)) = Inr m' \<and> lvp_wf m' \<and>
    vht m' pc = Some ((push_value (contextDepth m) s ^^ k) e) \<and>
    (strideValid e \<and> stride_hist (contextDepth m) e = replicate (unat (contextDepth m)) s \<longrightarrow>
      (\<forall>x. x = unat (ucast (hash_hist pc (replicate (unat (contextDepth m)) s)) AND indexMask m) \<longrightarrow>
        markovTable m' ! x = (train_entry (maxConf m) s ^^ k) (markovTable m ! x)))"
proof (induction k)
  case 0
  then show ?case using assms by (simp add: strided_def)
next
  case (Suc k)
  let ?d = "contextDepth m" let ?e = "(push_value (contextDepth m) s ^^ k) e"
  obtain m1 where m1: "lvp_run m (strided pc a s (Suc i) (Suc i + k)) = Inr m1" "lvp_wf m1"
      "vht m1 pc = Some ?e" and tr: "strideValid e \<and> stride_hist ?d e = replicate (unat ?d) s \<Longrightarrow>
        markovTable m1 ! unat (ucast (hash_hist pc (replicate (unat ?d) s)) AND indexMask m) =
        (train_entry (maxConf m) s ^^ k)
          (markovTable m ! unat (ucast (hash_hist pc (replicate (unat ?d) s)) AND indexMask m))"
    using Suc.IH by blast
  have inv: "buffer_inv ?d e" using wf d e by (auto simp: lvp_wf_def buffer_inv_def)
  have p: "contextDepth m1 = ?d" "indexMask m1 = indexMask m" "maxConf m1 = maxConf m"
    using run_same_params [OF wf m1(1)] by (auto simp: same_params_def)
  have v: "lastVal ?e + s = a + of_nat (Suc i + k) * s"
    by (simp add: push_value_iter(1) [OF inv] a algebra_simps)
  have hist: "stride_hist ?d e = replicate (unat ?d) s \<Longrightarrow>
      stride_hist ?d ?e = replicate (unat ?d) s"
    using lvp_hist.hist_pushes [OF inv, of "replicate k s"]
    by (simp add: fold_replicate replicate_add [symmetric])
  obtain m2 where "lvp_step m1 (Update pc (lastVal ?e + s)) = Inr m2" "lvp_wf m2"
      "vht m2 pc = Some (push_value ?d s ?e)"
    and "strideValid ?e \<Longrightarrow> stride_hist ?d ?e = replicate (unat ?d) s \<Longrightarrow>
      markovTable m2 ! unat (ucast (hash_hist pc (replicate (unat ?d) s)) AND indexMask m) =
      train_entry (maxConf m) s (markovTable m1 !
        unat (ucast (hash_hist pc (replicate (unat ?d) s)) AND indexMask m))"
    using update_pushes [OF m1(2) _ m1(3), of s] d unfolding p by metis
  then show ?case
    using m1 tr hist v push_value_iter(3) [OF inv, of k s]
    by (auto simp: strided_Suc lvp_run_append)
qed

lemma strided_app:
  "i \<le> j \<Longrightarrow> j \<le> k \<Longrightarrow> strided pc a s i k = strided pc a s i j @ strided pc a s j k"
  using upt_add_eq_append [of i j "k - j"] by (simp add: strided_def)

lemma first_update:
  assumes wf: "lvp_wf m"
  shows "\<exists>m' e. lvp_run m (strided pc a s 0 1) = Inr m' \<and> lvp_wf m' \<and> vht m' pc = Some e \<and>
    lastVal e = a"
proof (cases "vht m pc")
  case None
  then show ?thesis using update_wf [OF wf, of pc a False 0]
    by (auto simp: strided_def update_fresh [OF wf])
next
  case (Some e)
  then obtain i where "hashContext m pc e = Inr i" using hashContext_returns [OF wf] by blast
  then show ?thesis using Some update_wf [OF wf, of pc a False 0]
    by (auto simp: strided_def update_known [OF wf Some] pushed_def)
qed

lemma predict_from_progress:
  assumes wf: "lvp_wf m" and e: "vht m pc = Some e" "strideValid e"
    and h: "hashContext m pc e = Inr i"
    and c: "entry_conf mc (markovTable m ! unat i)"
    and p: "progress s (markovTable m ! unat i) \<ge> max 1 (int (unat (confThreshold m)))"
  shows "\<exists>m'. MarkovLVP_predict m pc = Inr (Some (lastVal e + s), m')"
proof -
  let ?me = "markovTable m ! unat i"
  have v: "me_valid ?me" using p by (auto simp: progress_def split: if_splits)
  then have "1 \<le> unat (confidence ?me)" using c by (simp add: entry_conf_def)
  then have s: "predictedStride ?me = s"
    using p v by (auto simp: progress_def simp del: of_nat_unat split: if_splits)
  then have "int (unat (confThreshold m)) \<le> int (unat (confidence ?me))"
    using p v by (simp add: progress_def)
  then have "confThreshold m \<le> ucast (confidence ?me)"
    by (simp only: of_nat_le_iff) (simp add: word_le_nat_alt unat_ucast_up)
  then show ?thesis using v s by (simp add: predict_known [OF wf e h])
qed

lemma conf_inv_entry:
  "lvp_wf m \<Longrightarrow> conf_inv m \<Longrightarrow> i < length (markovTable m) \<Longrightarrow> entry_conf (maxConf m) (markovTable m ! i)"
  by (simp add: conf_inv_def conf_ok_def entry_conf_def)

text \<open>
  The steady phase: the context consists of \<open>s\<close> only, so that every further update trains
  the same entry.
\<close>

lemma steady_predicted:
  assumes wf: "lvp_wf m" and conf: "conf_inv m"
    and d: "unat (contextDepth m) \<le> 2 ^ 31"
    and mc: "1 \<le> unat (maxConf m)" and th: "unat (confThreshold m) \<le> unat (maxConf m)"
    and e: "vht m pc = Some e" "strideValid e"
      "stride_hist (contextDepth m) e = replicate (unat (contextDepth m)) s"
      "lastVal e = a + of_nat i * s"
    and k: "k \<ge> unat (maxConf m) + unat (confThreshold m)"
  shows "\<exists>m' m''. lvp_run m (strided pc a s (Suc i) (Suc i + k)) = Inr m' \<and>
    MarkovLVP_predict m' pc = Inr (Some (a + of_nat (Suc i + k) * s), m'')"
proof -
  let ?d = "contextDepth m" let ?w = "ucast (hash_hist pc (replicate (unat ?d) s)) AND indexMask m"
  let ?x = "unat ?w" let ?e = "(push_value ?d s ^^ k) e"
  obtain m1 where m1: "lvp_run m (strided pc a s (Suc i) (Suc i + k)) = Inr m1" "lvp_wf m1"
      "vht m1 pc = Some ?e"
      "markovTable m1 ! ?x = (train_entry (maxConf m) s ^^ k) (markovTable m ! ?x)"
    using strided_pushes [OF wf d e(1,4), of k] e(2,3) by blast
  note p1 = run_same_params [OF wf m1(1), unfolded same_params_def]
  have inv: "buffer_inv ?d e" using wf d e by (auto simp: lvp_wf_def buffer_inv_def)
  have hist: "stride_hist ?d ?e = replicate (unat ?d) s"
    using lvp_hist.hist_pushes [OF inv, of "replicate k s"] e(3)
    by (simp add: fold_replicate replicate_add [symmetric])
  have h: "hashContext m1 pc ?e = Inr ?w"
    using hashContext_hist [of m1 ?e pc] push_value_iter(2) [OF inv] hist p1 by simp
  have "?x < length (markovTable m)" using hashContext_returns [OF m1(2,3)] h p1 by simp
  note me = conf_inv_entry [OF wf conf this]
  have mc255: "unat (maxConf m) \<le> 255" using conf by (simp add: conf_inv_def)
  have "progress s (markovTable m ! ?x) \<ge> 1 - int (unat (maxConf m))"
    using me mc by (auto simp: progress_def entry_conf_def simp del: of_nat_unat)
  then have pr: "max 1 (int (unat (confThreshold m1))) \<le> progress s (markovTable m1 ! ?x)"
    using progress_iter [OF mc255 me, where s = s and k = k] k mc th p1 unfolding m1(4)
    by (simp add: min_def max_def del: of_nat_unat split: if_splits)
  have "entry_conf (maxConf m) (markovTable m1 ! ?x)"
    using progress_iter [OF mc255 me, where s = s and k = k] by (simp add: m1(4))
  moreover have "strideValid ?e" using push_value_iter(3) [OF inv] e(2) by blast
  ultimately obtain m2 where "MarkovLVP_predict m1 pc = Inr (Some (lastVal ?e + s), m2)"
    using predict_from_progress [OF m1(2,3) _ h _ pr] by blast
  then show ?thesis
    using m1(1) by (auto simp: push_value_iter(1) [OF inv] e(4) algebra_simps)
qed

lemma constant_stride_predicted:
  assumes wf: "lvp_wf m" and conf: "conf_inv m"
    and d: "unat (contextDepth m) \<le> 2 ^ 31"
    and mc: "1 \<le> unat (maxConf m)" and th: "unat (confThreshold m) \<le> unat (maxConf m)"
    and n: "n \<ge> unat (contextDepth m) + unat (maxConf m) + unat (confThreshold m) + 1"
  shows "\<exists>m' m''. lvp_run m (strided pc a s 0 n) = Inr m' \<and>
    MarkovLVP_predict m' pc = Inr (Some (a + of_nat n * s), m'')"
proof -
  let ?d = "contextDepth m" let ?k = "n - 1 - unat ?d"
  obtain m1 e1 where m1: "lvp_run m (strided pc a s 0 1) = Inr m1" "lvp_wf m1"
      "vht m1 pc = Some e1" "lastVal e1 = a"
    using first_update [OF wf] by blast
  note p1 = run_same_params [OF wf m1(1), unfolded same_params_def]
  have inv1: "buffer_inv ?d e1" using m1 p1 d by (auto simp: lvp_wf_def buffer_inv_def)
  let ?e2 = "(push_value ?d s ^^ unat ?d) e1"
  obtain m2 where m2: "lvp_run m1 (strided pc a s 1 (1 + unat ?d)) = Inr m2" "lvp_wf m2"
      "vht m2 pc = Some ?e2"
    using strided_pushes [OF m1(2) _ m1(3), of a 0 s "unat ?d"] p1 d m1(4) by auto
  have run2: "lvp_run m (strided pc a s 0 (1 + unat ?d)) = Inr m2"
    using m1(1) m2(1) by (subst strided_app [of 0 1]) (simp_all add: lvp_run_append)
  note p2 = run_same_params [OF wf run2, unfolded same_params_def]
  have "0 < unat ?d" using wf by (auto simp: lvp_wf_def unat_gt_0)
  then have e2: "strideValid ?e2" "stride_hist ?d ?e2 = replicate (unat ?d) s"
      "lastVal ?e2 = a + of_nat (unat ?d) * s"
    using push_value_iter [OF inv1, of "unat ?d" s] m1(4) by auto
  have c2: "conf_inv m2" using run_invariant [where I = conf_inv, OF conf_inv_step wf conf run2] .
  have "unat (maxConf m) + unat (confThreshold m) \<le> ?k" using n by arith
  with steady_predicted [OF m2(2) c2 _ _ _ m2(3), of s a "unat ?d" ?k]
  obtain m3 m4 where m3: "lvp_run m2 (strided pc a s (Suc (unat ?d)) (Suc (unat ?d) + ?k)) = Inr m3"
      "MarkovLVP_predict m3 pc = Inr (Some (a + of_nat (Suc (unat ?d) + ?k) * s), m4)"
    using e2 p2 d mc th by auto
  have "Suc (unat ?d) + ?k = n" using n by simp
  note m3 = m3 [unfolded this]
  have "lvp_run m (strided pc a s 0 n) = Inr m3"
    using run2 m3(1) n by (subst strided_app [of 0 "Suc (unat ?d)"]) (simp_all add: lvp_run_append)
  then show ?thesis using m3(2) by blast
qed

section \<open>Properties\<close>

lemma reach_wf: "MarkovLVP_init p = Inr m0 \<Longrightarrow> lvp_run m0 evs = Inr m \<Longrightarrow> lvp_wf m"
  using run_wf [OF lvp_wf_init] by (metis sum.inject(2))

lemma conf_inv_run:
  assumes "lvp_wf m" and "conf_inv m" and "lvp_run m evs = Inr m'"
  shows "conf_inv m'"
  by (rule run_invariant [where I = conf_inv, OF _ assms]) (rule conf_inv_step)

lemma stats_ok_run:
  assumes "lvp_wf m" and "stats_ok m" and "lvp_run m evs = Inr m'"
  shows "stats_ok m'"
  by (rule run_invariant [where I = stats_ok, OF _ assms]) (rule stats_ok_step)

lemma reach_params:
  assumes "MarkovLVP_init p = Inr m0" and "lvp_run m0 evs = Inr m"
  shows "contextDepth m = context_depth p" and "maxConf m = max_conf p"
    and "confThreshold m = conf_threshold p" and "tableSize m0 = table_size p"
  using run_same_params [OF lvp_wf_init [OF assms(1)] assms(2)] assms(1)
  by (auto simp: same_params_def MarkovLVP_init_def result_iffs)

lemma reach_conf_inv:
  assumes "MarkovLVP_init p = Inr m0" and "lvp_run m0 evs = Inr m" and "unat (max_conf p) \<le> 255"
  shows "conf_inv m"
proof -
  have "conf_inv m0"
    using assms(1,3) conf_ok_init [OF assms(1)] reach_params(2) [of p m0 "[]" m0]
    by (simp add: conf_inv_def)
  then show ?thesis by (rule conf_inv_run [OF lvp_wf_init [OF assms(1)] _ assms(2)])
qed

text \<open>C2: The constructor of the value predictor succeeds exactly for a power-of-two table and a
  context of at least one stride, and from then on every interleaving of predictions and updates
  runs to its end: no vector access is out of bounds, and the table keeps its size, the index mask
  its value and every history buffer its length.\<close>

theorem lvp_run_safe:
  "(if isPowerOf2 (table_size p) \<and> 1 \<le> context_depth p
    then \<exists>m0 m. MarkovLVP_init p = Inr m0 \<and> lvp_run m0 evs = Inr m \<and> lvp_wf m
    else \<exists>msg. MarkovLVP_init p = Inl (Assert msg))"
proof (cases "isPowerOf2 (table_size p) \<and> 1 \<le> context_depth p")
  case True
  then obtain m0 where m0: "MarkovLVP_init p = Inr m0" by (simp add: MarkovLVP_init_def)
  then show ?thesis using True run_wf [OF lvp_wf_init [OF m0], of evs] by auto
qed (auto simp: MarkovLVP_init_def check_def)

text \<open>C1: A load that walks with a constant stride is learned, whatever the predictor has seen
  before.  After \<open>context_depth + max_conf + conf_threshold + 1\<close> or more consecutive updates of one
  load by \<open>a, a + s, a + 2s, ...\<close> the predictor issues a prediction for it, and the
  predicted value is the next one of the sequence, modulo \<open>2 ^ 64\<close>.\<close>

theorem lvp_learns_constant_stride:
  assumes "MarkovLVP_init p = Inr m0" and "lvp_run m0 evs = Inr m"
    and "unat (context_depth p) \<le> 2 ^ 31"
    and "1 \<le> unat (max_conf p)" and "unat (max_conf p) \<le> 255"
    and "unat (conf_threshold p) \<le> unat (max_conf p)"
    and "n \<ge> unat (context_depth p) + unat (max_conf p) + unat (conf_threshold p) + 1"
  shows "\<exists>m' m''. lvp_run m (strided pc a s 0 n) = Inr m' \<and>
    MarkovLVP_predict m' pc = Inr (Some (a + of_nat n * s), m'')"
  using constant_stride_predicted [OF reach_wf [OF assms(1,2)] reach_conf_inv [OF assms(1,2,5)]]
    reach_params [OF assms(1,2)] assms(3-) by simp

definition params_small :: MarkovLVPParams where
  "params_small = \<lparr>table_size = 4, context_depth = 1, conf_threshold = 1, max_conf = 1\<rparr>"

definition state_small :: MarkovLVP where
  "state_small = \<lparr>vht = Map.empty, markovTable = replicate 4 MarkovEntry_default,
     tableSize = 4, contextDepth = 1, confThreshold = 1, maxConf = 1, indexMask = 3,
     stats = LVPStats_init\<rparr>"

lemma state_small_init: "MarkovLVP_init params_small = Inr state_small"
  by (simp add: MarkovLVP_init_def params_small_def isPowerOf2_def state_small_def)

theorem lvp_learns_constant_stride_witness:
  "\<exists>m0 m m' m''. MarkovLVP_init params_small = Inr m0 \<and>
     lvp_run m0 [Update 64 5, Update 8 7, Predict 64, Update 64 90] = Inr m \<and>
     lvp_run m (strided 64 10 3 0 4) = Inr m' \<and>
     MarkovLVP_predict m' 64 = Inr (Some 22, m'')"
proof -
  note m0 = state_small_init
  obtain m where m: "lvp_run state_small [Update 64 5, Update 8 7, Predict 64, Update 64 90] = Inr m"
    using run_wf [OF lvp_wf_init [OF m0]] by blast
  show ?thesis
    using lvp_learns_constant_stride [OF m0 m, of 4 64 10 3] m0 m by (simp add: params_small_def)
qed

text \<open>C3: If along a run every stride is determined by the table index its context hashes to (there
  is a function \<open>f\<close> from indices to strides that all trained updates obey), then the run returns
  and the predictor has made no wrong prediction.\<close>

theorem lvp_consistent_run_correct:
  assumes "MarkovLVP_init p = Inr m0" and "consistent_run f m0 evs"
  shows "\<exists>m. lvp_run m0 evs = Inr m \<and> incorrect (stats m) = 0 \<and>
    correct (stats m) = pendingChecked (stats m)"
proof -
  obtain m where m: "lvp_run m0 evs = Inr m" "agrees f m"
    using agrees_run [OF lvp_wf_init [OF assms(1)] agrees_init [OF assms(1)] assms(2)] by blast
  then have "stats_ok m"
    using stats_ok_run [OF lvp_wf_init [OF assms(1)] stats_ok_init [OF assms(1)]] by blast
  then show ?thesis using m by (auto simp: agrees_def stats_ok_def)
qed

theorem lvp_consistent_run_correct_witness:
  "\<exists>m0 m. MarkovLVP_init params_small = Inr m0 \<and>
     lvp_run m0 (strided 64 10 3 0 4 @ [Predict 64, Update 64 22]) = Inr m \<and>
     incorrect (stats m) = 0"
proof -
  note m0 = state_small_init
  have "consistent_run (\<lambda>_. 3) state_small (strided 64 10 3 0 4 @ [Predict 64, Update 64 22])"
    by code_simp
  from lvp_consistent_run_correct [OF m0 this] m0 show ?thesis by blast
qed

text \<open>C4: Predictions never disturb training.  Deleting every \<open>predict\<close> call from a run leaves
  the same table, the same value histories up to the pending-prediction fields, and the same number
  of loads; so what the predictor learns depends on the committed values alone.\<close>

theorem lvp_training_ignores_predictions:
  assumes "MarkovLVP_init p = Inr m0"
  shows "\<exists>m n. lvp_run m0 evs = Inr m \<and> lvp_run m0 (filter is_update evs) = Inr n \<and>
    same_training m n"
proof -
  note wf = lvp_wf_init [OF assms]
  obtain m n where "lvp_run m0 evs = Inr m" "lvp_run m0 (filter is_update evs) = Inr n"
    using run_wf [OF wf] by blast
  moreover have "same_training m0 m0" by (simp add: same_training_def)
  ultimately show ?thesis using same_training_run [OF wf wf] by blast
qed

theorem lvp_training_ignores_predictions_witness:
  "\<exists>m0 m n. MarkovLVP_init params_small = Inr m0 \<and>
     lvp_run m0 [Update 64 5, Predict 64, Update 64 7] = Inr m \<and>
     lvp_run m0 [Update 64 5, Update 64 7] = Inr n \<and> same_training m n"
proof -
  note m0 = state_small_init
  show ?thesis
    using lvp_training_ignores_predictions [OF m0, of "[Update 64 5, Predict 64, Update 64 7]"] m0
    by simp
qed

text \<open>C6: The statistics are consistent in every reachable state: the checked predictions split
  into correct and incorrect ones, every check belongs to a prediction that was issued and to a load
  that was counted, and the predictions still unchecked are at least as many as the loads with a
  pending prediction.\<close>

theorem lvp_statistics_consistent:
  assumes "MarkovLVP_init p = Inr m0" and "lvp_run m0 evs = Inr m"
  shows "correct (stats m) + incorrect (stats m) = pendingChecked (stats m) \<and>
    pendingChecked (stats m) + card (pending_set m) \<le> predicted (stats m) \<and>
    pendingChecked (stats m) \<le> totalLoads (stats m)"
  using stats_ok_run [OF lvp_wf_init [OF assms(1)] stats_ok_init [OF assms(1)] assms(2)]
  by (auto simp: stats_ok_def)

theorem lvp_statistics_consistent_witness:
  "\<exists>m0 m. MarkovLVP_init params_small = Inr m0 \<and>
     lvp_run m0 (strided 64 10 3 0 4 @ [Predict 64, Update 64 21]) = Inr m \<and>
     correct (stats m) + incorrect (stats m) = pendingChecked (stats m)"
proof -
  note m0 = state_small_init
  obtain m where m: "lvp_run state_small (strided 64 10 3 0 4 @ [Predict 64, Update 64 21]) = Inr m"
    using run_wf [OF lvp_wf_init [OF m0]] by blast
  show ?thesis using lvp_statistics_consistent [OF m0 m] m0 m by blast
qed

text \<open>C5: What a prediction is, in every reachable state with at most \<open>2 ^ 31\<close> strides of
  context.  \<open>predict\<close> issues a value exactly when the load has been seen twice, the entry that
  its stride history hashes to is valid and has reached the threshold; the value is the load's last
  value plus the stride of that entry.\<close>

theorem lvp_predict_spec:
  assumes "MarkovLVP_init p = Inr m0" and "lvp_run m0 evs = Inr m"
    and "unat (context_depth p) \<le> 2 ^ 31" and "vht m pc = Some e"
    and "me = markovTable m !
      unat (ucast (hash_hist pc (stride_hist (contextDepth m) e)) AND indexMask m)"
  shows "\<exists>m'. MarkovLVP_predict m pc =
    Inr (if strideValid e \<and> me_valid me \<and> unat (conf_threshold p) \<le> unat (confidence me)
         then Some (lastVal e + predictedStride me) else None, m')"
proof -
  note wf = reach_wf [OF assms(1,2)]
  have inv: "buffer_inv (contextDepth m) e"
    using wf assms(3,4) reach_params [OF assms(1,2)] by (auto simp: lvp_wf_def buffer_inv_def)
  then have v: "vht_valid e" by (simp add: buffer_inv_def entry_wf_def)
  show ?thesis
  proof (cases "strideValid e")
    case True
    then show ?thesis
      using predict_known [OF wf assms(4) _ hashContext_hist [OF inv]] reach_params [OF assms(1,2)]
      by (auto simp: assms(5) word_le_nat_alt unat_ucast_up)
  next
    case False
    then show ?thesis using v by (simp add: MarkovLVP_predict_def assms(4))
  qed
qed

lemma known_after_update:
  assumes "MarkovLVP_init p = Inr m0"
  shows "\<exists>m e. lvp_run m0 [Update pc v] = Inr m \<and> vht m pc = Some e \<and> \<not> strideValid e"
  using assms update_fresh [OF lvp_wf_init [OF assms], of pc v False 0]
  by (auto simp: MarkovLVP_init_def result_iffs VHTEntry_default_def)

theorem lvp_predict_spec_witness:
  "\<exists>m0 m m'. MarkovLVP_init params_small = Inr m0 \<and> lvp_run m0 [Update 64 5] = Inr m \<and>
     MarkovLVP_predict m 64 = Inr (None, m')"
proof -
  note m0 = state_small_init
  obtain m e where m: "lvp_run state_small [Update 64 5] = Inr m" "vht m 64 = Some e" "\<not> strideValid e"
    using known_after_update [OF m0] by blast
  have "unat (context_depth params_small) \<le> 2 ^ 31" by (simp add: params_small_def)
  from lvp_predict_spec [OF m0 m(1) this m(2) refl] show ?thesis using m0 m by simp
qed

text \<open>C7: Confidence never wraps: with \<open>max_conf\<close> at most 255, every valid entry of a
  reachable state has a confidence between 1 and \<open>max 1 max_conf\<close>.\<close>

theorem lvp_confidence_bounds:
  assumes "MarkovLVP_init p = Inr m0" and "lvp_run m0 evs = Inr m" and "unat (max_conf p) \<le> 255"
    and "me \<in> set (markovTable m)" and "me_valid me"
  shows "1 \<le> unat (confidence me) \<and> unat (confidence me) \<le> max 1 (unat (max_conf p))"
  using reach_conf_inv [OF assms(1-3)] assms(4,5) reach_params(2) [OF assms(1,2)]
  by (simp add: conf_inv_def conf_ok_def)

definition entry_valid :: "MarkovLVP result \<Rightarrow> nat \<Rightarrow> bool" where
  "entry_valid r i = (case r of Inl _ \<Rightarrow> False
     | Inr m \<Rightarrow> i < length (markovTable m) \<and> me_valid (markovTable m ! i))"

theorem lvp_confidence_bounds_witness:
  "\<exists>m me. lvp_run state_small (strided 64 10 3 0 3) = Inr m \<and> me \<in> set (markovTable m) \<and>
     me_valid me \<and> unat (confidence me) = 1"
proof -
  obtain m where m: "lvp_run state_small (strided 64 10 3 0 3) = Inr m"
    using run_wf [OF lvp_wf_init [OF state_small_init]] by blast
  have "entry_valid (lvp_run state_small (strided 64 10 3 0 3)) 0" by code_simp
  then have me: "markovTable m ! 0 \<in> set (markovTable m)" "me_valid (markovTable m ! 0)"
    by (simp_all add: entry_valid_def m)
  from lvp_confidence_bounds [OF state_small_init m _ me] show ?thesis
    using m me by (auto simp: params_small_def)
qed

lemma lvp_confidence_wraps:
  "256 \<le> mc \<Longrightarrow>
   confidence (train_entry mc s \<lparr>predictedStride = s, confidence = 255, me_valid = True\<rparr>) = 0"
  by (simp add: train_entry_def word_less_nat_alt word_le_nat_alt)

end
