(* ===== verification/LVP_Pipeline.thy ===== *)
theory LVP_Pipeline
  imports Markov_LVP_Learning
begin

text \<open>
  How the out-of-order pipeline drives the value predictor: \<open>DynInst::peekIntResult\<close> and the
  predicted-value accessors of \<open>cpu/o3/dyn_inst.hh\<close>, the dispatch and write-back hooks of
  \<open>cpu/o3/iew.cc\<close>, and \<open>commitLoad\<close> and \<open>commitLoads\<close> of
  \<open>cpu/o3/lsq_unit.cc\<close>.  The hooks refine runs of the predictor, so that the results on runs
  apply to the pipeline.

  A dynamic instruction is modelled by the fields those functions read or write.
  \<open>memData\<close> is a null pointer or a buffer of bytes; a \<open>memcpy\<close> that reads past the
  buffer is undefined.  The host is little-endian.  The latency histogram and the occupancy
  statistics of \<open>commitLoad\<close> are not modelled.
\<close>

section \<open>Instructions\<close>

record InstResult =
  isValid :: bool
  isBlob :: bool
  asRegVal :: u64

record DynInst =
  instAddr :: Addr
  seqNum :: InstSeqNum
  isLoad :: bool
  isMicroop :: bool
  isSquashed :: bool
  isExecuted :: bool
  noFault :: bool
  effSize :: u32
  memData :: "u8 list option"
  instResult :: "InstResult list"
  hasPredictedValue :: bool
  predictedValue :: u64

definition load_bytes :: "u32 \<Rightarrow> nat" where
  "load_bytes sz = (if 0 < sz \<and> sz \<le> 8 then unat sz else 8)"

definition bytes_to_u64 :: "u8 list \<Rightarrow> u64" where
  "bytes_to_u64 bs = foldr (\<lambda>b acc. push_bit 8 acc OR ucast b) bs 0"

definition memcpy_u64 :: "u8 list \<Rightarrow> nat \<Rightarrow> u64 result" where
  "memcpy_u64 data n = (if n \<le> length data then Inr (bytes_to_u64 (take n data)) else Inl Undefined)"

definition peekIntResult :: "DynInst \<Rightarrow> u64 option result" where
  "peekIntResult inst =
     (case memData inst of
        Some data \<Rightarrow> bind_r (memcpy_u64 data (load_bytes (effSize inst))) (\<lambda>v. Inr (Some v))
      | None \<Rightarrow>
          (case instResult inst of
             [] \<Rightarrow> Inr None
           | r # _ \<Rightarrow> Inr (if isValid r \<and> \<not> isBlob r then Some (asRegVal r) else None)))"

definition setPredictedValue :: "u64 \<Rightarrow> DynInst \<Rightarrow> DynInst" where
  "setPredictedValue v inst = inst\<lparr>hasPredictedValue := True, predictedValue := v\<rparr>"

section \<open>Hooks\<close>

text \<open>\<open>cpu->valuePred\<close> is a pointer that may be null.\<close>

definition dispatch_predict ::
  "MarkovLVP option \<Rightarrow> DynInst \<Rightarrow> (MarkovLVP option \<times> DynInst) result" where
  "dispatch_predict vp inst =
     (case vp of
        Some m \<Rightarrow>
          if isLoad inst \<and> \<not> isMicroop inst
          then bind_r (MarkovLVP_predict m (instAddr inst)) (\<lambda>(r, m).
                 Inr (Some m, case r of Some v \<Rightarrow> setPredictedValue v inst | None \<Rightarrow> inst))
          else Inr (Some m, inst)
      | None \<Rightarrow> Inr (None, inst))"

definition writeback_update :: "MarkovLVP option \<Rightarrow> DynInst \<Rightarrow> MarkovLVP option result" where
  "writeback_update vp inst =
     (if \<not> isSquashed inst \<and> isExecuted inst \<and> noFault inst
      then (case vp of
              Some m \<Rightarrow>
                if isLoad inst \<and> \<not> isMicroop inst
                then bind_r (peekIntResult inst) (\<lambda>r.
                       case r of
                         Some v \<Rightarrow>
                           bind_r (MarkovLVP_update m (instAddr inst) v
                                     (hasPredictedValue inst) (predictedValue inst))
                             (\<lambda>m. Inr (Some m))
                       | None \<Rightarrow> Inr (Some m))
                else Inr (Some m)
            | None \<Rightarrow> Inr None)
      else Inr vp)"

definition commitLoad ::
  "MarkovLVP option \<Rightarrow> DynInst list \<Rightarrow> (MarkovLVP option \<times> DynInst list \<times> DynInst) result" where
  "commitLoad vp loadQueue =
     (case loadQueue of
        [] \<Rightarrow> Inl (Assert ''loadQueue.front().valid()'')
      | inst # rest \<Rightarrow>
          (case vp of
             Some m \<Rightarrow>
               (case memData inst of
                  Some data \<Rightarrow>
                    bind_r (memcpy_u64 data (load_bytes (effSize inst))) (\<lambda>actual_val.
                    bind_r (MarkovLVP_update m (instAddr inst) actual_val
                              (hasPredictedValue inst) (predictedValue inst)) (\<lambda>m.
                    bind_r (MarkovLVP_predict m (instAddr inst)) (\<lambda>(r, m).
                      Inr (Some m, rest,
                           case r of Some v \<Rightarrow> setPredictedValue v inst | None \<Rightarrow> inst))))
                | None \<Rightarrow> Inr (vp, rest, inst))
           | None \<Rightarrow> Inr (vp, rest, inst)))"

fun commitLoads ::
  "MarkovLVP option \<Rightarrow> DynInst list \<Rightarrow> InstSeqNum \<Rightarrow> (MarkovLVP option \<times> DynInst list) result" where
  "commitLoads vp [] youngest = Inr (vp, [])"
| "commitLoads vp (inst # rest) youngest =
     (if seqNum inst \<le> youngest
      then bind_r (commitLoad vp (inst # rest)) (\<lambda>(vp, q, _). commitLoads vp rest youngest)
      else Inr (vp, inst # rest))"

section \<open>The hooks as runs of the predictor\<close>

definition inst_ok :: "DynInst \<Rightarrow> bool" where
  "inst_ok inst \<longleftrightarrow>
     (case memData inst of None \<Rightarrow> True | Some data \<Rightarrow> load_bytes (effSize inst) \<le> length data)"

definition mem_value :: "DynInst \<Rightarrow> u64" where
  "mem_value inst = bytes_to_u64 (take (load_bytes (effSize inst)) (the (memData inst)))"

definition commit_events :: "DynInst \<Rightarrow> lvp_event list" where
  "commit_events inst =
     (if memData inst = None then []
      else [Update (instAddr inst) (mem_value inst), Predict (instAddr inst)])"

lemma update_args:
  "lvp_wf m \<Longrightarrow> MarkovLVP_update m pc v w p = MarkovLVP_update m pc v False 0"
  by (simp add: MarkovLVP_update_def)

lemma commitLoad_run:
  assumes wf: "lvp_wf m" and ok: "inst_ok inst"
  shows "\<exists>m' inst'. commitLoad (Some m) (inst # q) = Inr (Some m', q, inst') \<and>
    lvp_run m (commit_events inst) = Inr m'"
proof (cases "memData inst")
  case None
  then show ?thesis by (simp add: commitLoad_def commit_events_def)
next
  case (Some data)
  have v: "memcpy_u64 data (load_bytes (effSize inst)) = Inr (mem_value inst)"
    using ok Some by (simp add: inst_ok_def memcpy_u64_def mem_value_def)
  obtain m1 where m1: "MarkovLVP_update m (instAddr inst) (mem_value inst)
      (hasPredictedValue inst) (predictedValue inst) = Inr m1" "lvp_wf m1"
    using update_wf [OF wf] by blast
  obtain r m2 where "MarkovLVP_predict m1 (instAddr inst) = Inr (r, m2)"
    using predict_wf [OF m1(2)] by blast
  with m1 show ?thesis
    using v Some update_args [OF wf, of "instAddr inst" "mem_value inst" "hasPredictedValue inst"
        "predictedValue inst"]
    by (simp add: commitLoad_def commit_events_def)
qed

lemma commitLoads_run:
  assumes "lvp_wf m" and "list_all inst_ok q"
  shows "\<exists>m'. commitLoads (Some m) q y =
      Inr (Some m', dropWhile (\<lambda>i. seqNum i \<le> y) q) \<and>
    lvp_run m (concat (map commit_events (takeWhile (\<lambda>i. seqNum i \<le> y) q))) = Inr m'"
  using assms
proof (induction q arbitrary: m)
  case (Cons inst q)
  obtain m1 inst' where c: "commitLoad (Some m) (inst # q) = Inr (Some m1, q, inst')"
      "lvp_run m (commit_events inst) = Inr m1"
    using commitLoad_run Cons.prems by fastforce
  then have "lvp_wf m1" using run_wf [OF Cons.prems(1)] by (metis sum.inject(2))
  then show ?case using Cons.IH [of m1] Cons.prems c by (auto simp: lvp_run_append)
qed simp

lemma writeback_run:
  assumes wf: "lvp_wf m" and ok: "inst_ok inst" and "memData inst \<noteq> None"
    and "\<not> isSquashed inst" "isExecuted inst" "noFault inst" "isLoad inst" "\<not> isMicroop inst"
  shows "writeback_update (Some m) inst =
    bind_r (MarkovLVP_update m (instAddr inst) (mem_value inst) False 0) (\<lambda>m. Inr (Some m))"
  using assms(2-) update_args [OF wf, of _ _ "hasPredictedValue inst" "predictedValue inst"]
  by (auto simp: writeback_update_def peekIntResult_def memcpy_u64_def inst_ok_def mem_value_def
      Let_def split: option.splits)

lemma update_hist:
  assumes wf: "lvp_wf m" and d: "unat (contextDepth m) \<le> 2 ^ 31" and e: "vht m pc = Some e"
  shows "\<exists>m' e'. MarkovLVP_update m pc v False 0 = Inr m' \<and> lvp_wf m' \<and>
    contextDepth m' = contextDepth m \<and> vht m' pc = Some e' \<and> lastVal e' = v \<and>
    stride_hist (contextDepth m) e' =
      take (unat (contextDepth m)) ((v - lastVal e) # stride_hist (contextDepth m) e)"
proof -
  have inv: "buffer_inv (contextDepth m) e" using wf d e by (auto simp: lvp_wf_def buffer_inv_def)
  obtain i where i: "hashContext m pc e = Inr i" using hashContext_returns [OF wf e] by blast
  show ?thesis
    using update_wf [OF wf, of pc v False 0] stride_hist_pushed [OF inv, of v]
    by (auto simp: update_known [OF wf e i] pushed_def)
qed

lemma predict_frame:
  assumes "lvp_wf m" and "MarkovLVP_predict m pc = Inr (r, m')" and "vht m pc = Some e"
  shows "\<exists>e'. vht m' pc = Some e' \<and> stride_hist d e' = stride_hist d e \<and> lastVal e' = lastVal e"
  using assms(1,2)
proof (cases rule: predict_cases)
  case (some e2 i me)
  then show ?thesis using assms(3) by (simp add: stride_hist_def stride_idx_def)
qed (use assms(3) in simp)

section \<open>Properties\<close>


definition load_small :: DynInst where
  "load_small = \<lparr>instAddr = 64, seqNum = 7, isLoad = True, isMicroop = False, isSquashed = False,
     isExecuted = True, noFault = True, effSize = 2, memData = Some [5, 1], instResult = [],
     hasPredictedValue = False, predictedValue = 0\<rparr>"


text \<open>C9: A load that is not a micro-operation is trained twice with the same value, once at
  write-back and once at commit.  The second training pushes the stride zero, so that the context of
  the load's next instance starts with zero followed by the true stride.\<close>

theorem load_trained_twice:
  assumes "MarkovLVP_init p = Inr m0" and "lvp_run m0 evs = Inr m"
    and "unat (context_depth p) \<le> 2 ^ 31" and "vht m (instAddr inst) = Some e"
    and "inst_ok inst" and "memData inst \<noteq> None"
    and "\<not> isSquashed inst" and "isExecuted inst" and "noFault inst" and "isLoad inst"
    and "\<not> isMicroop inst"
  shows "\<exists>m1 m2 inst' e2. writeback_update (Some m) inst = Inr (Some m1) \<and>
    commitLoad (Some m1) [inst] = Inr (Some m2, [], inst') \<and> vht m2 (instAddr inst) = Some e2 \<and>
    stride_hist (context_depth p) e2 = take (unat (context_depth p))
      (0 # (mem_value inst - lastVal e) # stride_hist (context_depth p) e)"
proof -
  let ?pc = "instAddr inst" and ?v = "mem_value inst"
  note wf = reach_wf [OF assms(1,2)] note prm = reach_params [OF assms(1,2)]
  have d: "unat (contextDepth m) \<le> 2 ^ 31" using assms(3) prm by simp
  obtain m1 e1 where m1: "MarkovLVP_update m ?pc ?v False 0 = Inr m1" "lvp_wf m1"
      "contextDepth m1 = contextDepth m" "vht m1 ?pc = Some e1" "lastVal e1 = ?v"
      "stride_hist (contextDepth m) e1 =
        take (unat (contextDepth m)) ((?v - lastVal e) # stride_hist (contextDepth m) e)"
    using update_hist [OF wf d assms(4)] by blast
  have wb: "writeback_update (Some m) inst = Inr (Some m1)"
    using writeback_run [OF wf assms(5-)] m1(1) by simp
  obtain m1' e1' where m1': "MarkovLVP_update m1 ?pc ?v False 0 = Inr m1'" "lvp_wf m1'"
      "vht m1' ?pc = Some e1'"
      "stride_hist (contextDepth m) e1' =
        take (unat (contextDepth m)) (0 # stride_hist (contextDepth m) e1)"
    using update_hist [OF m1(2) _ m1(4), of ?v] d m1(3,5) by auto
  obtain m2 inst' where c: "commitLoad (Some m1) [inst] = Inr (Some m2, [], inst')"
      "lvp_run m1 (commit_events inst) = Inr m2"
    using commitLoad_run [OF m1(2) assms(5)] by blast
  then obtain r where "MarkovLVP_predict m1' ?pc = Inr (r, m2)"
    using m1'(1) assms(6) by (auto simp: commit_events_def result_iffs)
  then obtain e2 where "vht m2 ?pc = Some e2"
      "stride_hist (contextDepth m) e2 = stride_hist (contextDepth m) e1'"
    using predict_frame [OF m1'(2) _ m1'(3)] by blast
  moreover have "take n (x # take n xs) = take n (x # xs)" for n and x :: u64 and xs
    by (cases n) (simp_all add: min_def)
  ultimately show ?thesis using wb c(1) m1(6) m1'(4) prm by auto
qed

theorem load_trained_twice_witness:
  "\<exists>m m1 m2 inst' e2. lvp_run state_small [Update 64 5] = Inr m \<and>
    writeback_update (Some m) load_small = Inr (Some m1) \<and>
    commitLoad (Some m1) [load_small] = Inr (Some m2, [], inst') \<and>
    vht m2 64 = Some e2 \<and> stride_hist 1 e2 = [0]"
proof -
  obtain m e where m: "lvp_run state_small [Update 64 5] = Inr m" "vht m 64 = Some e"
    using known_after_update [OF state_small_init] by blast
  have e: "vht m (instAddr load_small) = Some e" using m(2) by (simp add: load_small_def)
  have "inst_ok load_small" by (simp add: load_small_def inst_ok_def load_bytes_def)
  with load_trained_twice [OF state_small_init m(1) _ e] m(1) show ?thesis
    by (simp add: params_small_def load_small_def)
qed

end
