(* ===== verification/Sat_Counter.thy ===== *)
theory Sat_Counter
  imports Gem5_Prelude
begin

text \<open>
  \<open>base/sat_counter.hh\<close>: the class template \<open>GenericSatCounter<T>\<close>, an n-bit saturating
  counter in an unsigned container \<open>T\<close>.  The template parameter is the width of the word;
  \<open>SatCounter8\<close> is the instance at 8 bits that every table of the predictors uses.
  Shown here: the invariant \<open>counter \<le> maxVal\<close> (with \<open>maxVal = 2^bits - 1\<close>) is
  established by the constructor and kept by every operator, no operator wraps around, and
  the counter refines clamped addition on the natural numbers.
\<close>

section \<open>The class\<close>

record (overloaded) ('a::len) sat_counter =
  initialVal :: "'a word"
  maxVal :: "'a word"
  counter :: "'a word"

type_synonym SatCounter8 = "8 sat_counter"

definition GenericSatCounter :: "nat \<Rightarrow> 'a::len word \<Rightarrow> 'a sat_counter result" where
  "GenericSatCounter bits initial_val =
     (let m = ucast (push_bit bits (1 :: u64) - 1) in
      check (bits \<le> LENGTH('a)) (Fatal ''Number of bits exceeds counter size'')
        (check (initial_val \<le> m)
           (Fatal ''Saturating counter's initial value exceeds max value.'')
           (Inr \<lparr>initialVal = initial_val, maxVal = m, counter = initial_val\<rparr>)))"

definition sc_inc :: "('a::len) sat_counter \<Rightarrow> 'a sat_counter" where
  "sc_inc c = (if counter c < maxVal c then c\<lparr>counter := counter c + 1\<rparr> else c)"

definition sc_dec :: "('a::len) sat_counter \<Rightarrow> 'a sat_counter" where
  "sc_dec c = (if counter c > 0 then c\<lparr>counter := counter c - 1\<rparr> else c)"

text \<open>The postfix operators return the old counter and the updated object.\<close>

definition sc_post_inc :: "('a::len) sat_counter \<Rightarrow> 'a sat_counter \<times> 'a sat_counter" where
  "sc_post_inc c = (c, sc_inc c)"

definition sc_post_dec :: "('a::len) sat_counter \<Rightarrow> 'a sat_counter \<times> 'a sat_counter" where
  "sc_post_dec c = (c, sc_dec c)"

definition sc_shift_right :: "('a::len) sat_counter \<Rightarrow> int \<Rightarrow> 'a sat_counter result" where
  "sc_shift_right c shift =
     check (shift \<ge> 0) (Assert ''shift >= 0'')
       (Inr (c\<lparr>counter := drop_bit (nat shift) (counter c)\<rparr>))"

definition sc_shift_left :: "('a::len) sat_counter \<Rightarrow> int \<Rightarrow> 'a sat_counter result" where
  "sc_shift_left c shift =
     check (shift \<ge> 0) (Assert ''shift >= 0'')
       (let v = push_bit (nat shift) (counter c) in
        Inr (c\<lparr>counter := (if v > maxVal c then maxVal c else v)\<rparr>))"

text \<open>
  \<open>operator+=\<close> and \<open>operator-=\<close> call each other on a negative argument; the negated
  argument is non-negative, so one call is enough.
\<close>

definition sc_add_nonneg :: "('a::len) sat_counter \<Rightarrow> int \<Rightarrow> 'a sat_counter" where
  "sc_add_nonneg c v =
     (if uint (maxVal c - counter c) \<ge> v then c\<lparr>counter := counter c + word_of_int v\<rparr>
      else c\<lparr>counter := maxVal c\<rparr>)"

definition sc_sub_nonneg :: "('a::len) sat_counter \<Rightarrow> int \<Rightarrow> 'a sat_counter" where
  "sc_sub_nonneg c v =
     (if uint (counter c) > v then c\<lparr>counter := counter c - word_of_int v\<rparr>
      else c\<lparr>counter := 0\<rparr>)"

definition sc_add :: "('a::len) sat_counter \<Rightarrow> int \<Rightarrow> 'a sat_counter" where
  "sc_add c v = (if v \<ge> 0 then sc_add_nonneg c v else sc_sub_nonneg c (- v))"

definition sc_sub :: "('a::len) sat_counter \<Rightarrow> int \<Rightarrow> 'a sat_counter" where
  "sc_sub c v = (if v \<ge> 0 then sc_sub_nonneg c v else sc_add_nonneg c (- v))"

definition sc_reset :: "('a::len) sat_counter \<Rightarrow> 'a sat_counter" where
  "sc_reset c = c\<lparr>counter := initialVal c\<rparr>"

definition sc_isSaturated :: "('a::len) sat_counter \<Rightarrow> bool" where
  "sc_isSaturated c \<longleftrightarrow> counter c = maxVal c"

definition sc_saturate :: "('a::len) sat_counter \<Rightarrow> 'a word \<times> 'a sat_counter" where
  "sc_saturate c = (maxVal c - counter c, c\<lparr>counter := maxVal c\<rparr>)"

section \<open>Invariant\<close>

definition sc_wf :: "nat \<Rightarrow> ('a::len) sat_counter \<Rightarrow> bool" where
  "sc_wf bits c \<longleftrightarrow>
     bits \<le> LENGTH('a) \<and> unat (maxVal c) = 2 ^ bits - 1 \<and>
     counter c \<le> maxVal c \<and> initialVal c \<le> maxVal c"

lemma unat_pow2_minus_one:
  assumes "bits \<le> LENGTH('a)" and "LENGTH('a) \<le> 64"
  shows "unat (ucast (push_bit bits (1 :: u64) - 1) :: 'a::len word) = 2 ^ bits - 1"
proof -
  have "push_bit bits (1 :: u64) - 1 = mask bits"
    by (simp add: mask_eq_exp_minus_1 push_bit_eq_mult)
  moreover have "(ucast (mask bits :: u64) :: 'a word) = mask bits"
    using assms by (intro bit_word_eqI) (auto simp: bit_simps)
  moreover have "unat (mask bits :: 'a word) = mask bits"
    using assms by (intro bit_eqI) (auto simp: bit_simps)
  ultimately show ?thesis by (simp add: mask_eq_exp_minus_1)
qed

lemma GenericSatCounter_wf:
  assumes "GenericSatCounter bits i = Inr (c :: 'a::len sat_counter)" and "LENGTH('a) \<le> 64"
  shows "sc_wf bits c"
  using assms
  using unat_pow2_minus_one [of bits, where 'a = 'a]
  by (auto simp: GenericSatCounter_def Let_def result_iffs sc_wf_def)

lemma sc_maxVal [simp]:
  "maxVal (sc_inc c) = maxVal c" "maxVal (sc_dec c) = maxVal c"
  "initialVal (sc_inc c) = initialVal c" "initialVal (sc_dec c) = initialVal c"
  by (simp_all add: sc_inc_def sc_dec_def)

lemma sc_inc_unat:
  assumes "sc_wf bits c"
  shows "unat (counter (sc_inc c)) = min (unat (counter c) + 1) (2 ^ bits - 1)"
proof (cases "counter c < maxVal c")
  case True
  then have "unat (counter c + 1) = unat (counter c) + 1"
    by unat_arith
  with True assms show ?thesis
    by (auto simp: sc_inc_def sc_wf_def word_less_nat_alt)
next
  case False
  with assms show ?thesis
    by (auto simp: sc_inc_def sc_wf_def word_le_nat_alt word_less_nat_alt)
qed

lemma sc_dec_unat: "unat (counter (sc_dec c)) = unat (counter c) - 1"
  by (auto simp: sc_dec_def unat_minus_one word_gt_0)

lemma sc_inc_wf [intro]: "sc_wf bits c \<Longrightarrow> sc_wf bits (sc_inc c)"
  using sc_inc_unat [of bits c] by (auto simp: sc_wf_def word_le_nat_alt)

lemma sc_dec_wf [intro]: "sc_wf bits c \<Longrightarrow> sc_wf bits (sc_dec c)"
  using sc_dec_unat [of c] by (auto simp: sc_wf_def word_le_nat_alt)

lemma sc_add_nonneg_unat:
  fixes c :: "'a::len sat_counter"
  assumes "sc_wf bits c" and "v \<ge> 0"
  shows "unat (counter (sc_add_nonneg c v)) = min (unat (counter c) + nat v) (2 ^ bits - 1)"
proof -
  have d: "uint (maxVal c - counter c) = uint (maxVal c) - uint (counter c)"
    using assms(1) by (simp add: sc_wf_def uint_minus_simple_alt)
  have m: "unat (maxVal c) = 2 ^ bits - 1" using assms(1) by (simp add: sc_wf_def)
  show ?thesis
  proof (cases "uint (maxVal c - counter c) \<ge> v")
    case True
    then have le: "uint (counter c) + v \<le> uint (maxVal c)" using d by simp
    have "uint (maxVal c) < 2 ^ LENGTH('a)" by (rule uint_lt2p)
    with le have "uint (counter c) + v < 2 ^ LENGTH('a)" by linarith
    then have "(uint (counter c) + v) mod 2 ^ LENGTH('a) = uint (counter c) + v"
      using assms(2) by (intro mod_pos_pos_trivial) auto
    then have "uint (counter c + word_of_int v) = uint (counter c) + v"
      by (simp add: uint_word_ariths unsigned_of_int take_bit_eq_mod mod_add_right_eq)
    then have "unat (counter c + word_of_int v) = unat (counter c) + nat v"
      using assms(2) by (simp only: unat_eq_nat_uint nat_add_distrib uint_ge_0)
    moreover have "unat (counter c) + nat v \<le> unat (maxVal c)"
      using le assms(2) by (simp only: unat_eq_nat_uint flip: nat_add_distrib [OF uint_ge_0]; arith)
    ultimately show ?thesis using True m by (simp add: sc_add_nonneg_def)
  next
    case False
    then have "uint (maxVal c) < uint (counter c) + v" using d by simp
    then have "unat (maxVal c) < unat (counter c) + nat v"
      using assms(2) uint_ge_0 [of "counter c"] uint_ge_0 [of "maxVal c"]
      by (simp only: unat_eq_nat_uint; arith)
    then show ?thesis using False m by (simp add: sc_add_nonneg_def)
  qed
qed

lemma sc_sub_nonneg_unat:
  fixes c :: "'a::len sat_counter"
  assumes "v \<ge> 0"
  shows "unat (counter (sc_sub_nonneg c v)) = unat (counter c) - nat v"
proof (cases "uint (counter c) > v")
  case True
  have "uint (counter c) < 2 ^ LENGTH('a)" by (rule uint_lt2p)
  with assms have "uint (counter c) - v < 2 ^ LENGTH('a)" by linarith
  then have "(uint (counter c) - v) mod 2 ^ LENGTH('a) = uint (counter c) - v"
    using True assms by (intro mod_pos_pos_trivial) auto
  then have "uint (counter c - word_of_int v) = uint (counter c) - v"
    by (simp add: uint_word_ariths unsigned_of_int take_bit_eq_mod mod_diff_right_eq)
  then show ?thesis using True assms
    by (simp add: sc_sub_nonneg_def) (simp only: unat_eq_nat_uint nat_diff_distrib)
next
  case False
  then have "unat (counter c) \<le> nat v" by (simp only: unat_eq_nat_uint; arith)
  then show ?thesis using False by (simp add: sc_sub_nonneg_def)
qed

lemma sc_add_nonneg_frame [simp]:
  "maxVal (sc_add_nonneg c v) = maxVal c" "initialVal (sc_add_nonneg c v) = initialVal c"
  "maxVal (sc_sub_nonneg c v) = maxVal c" "initialVal (sc_sub_nonneg c v) = initialVal c"
  by (simp_all add: sc_add_nonneg_def sc_sub_nonneg_def)

lemma sc_add_nonneg_wf: "sc_wf bits c \<Longrightarrow> v \<ge> 0 \<Longrightarrow> sc_wf bits (sc_add_nonneg c v)"
  using sc_add_nonneg_unat [of bits c v] by (auto simp: sc_wf_def word_le_nat_alt)

lemma sc_sub_nonneg_wf: "sc_wf bits c \<Longrightarrow> v \<ge> 0 \<Longrightarrow> sc_wf bits (sc_sub_nonneg c v)"
  using sc_sub_nonneg_unat [of v c] by (auto simp: sc_wf_def word_le_nat_alt)

lemma sc_add_wf: "sc_wf bits c \<Longrightarrow> sc_wf bits (sc_add c v)"
  by (simp add: sc_add_def sc_add_nonneg_wf sc_sub_nonneg_wf)

lemma sc_sub_wf: "sc_wf bits c \<Longrightarrow> sc_wf bits (sc_sub c v)"
  by (simp add: sc_sub_def sc_add_nonneg_wf sc_sub_nonneg_wf)

lemma sc_reset_wf: "sc_wf bits c \<Longrightarrow> sc_wf bits (sc_reset c)"
  by (simp add: sc_wf_def sc_reset_def)

lemma sc_saturate_wf: "sc_wf bits c \<Longrightarrow> sc_wf bits (snd (sc_saturate c))"
  by (simp add: sc_wf_def sc_saturate_def)

lemma sc_shift_right_wf:
  "sc_wf bits c \<Longrightarrow> sc_shift_right c s = Inr c' \<Longrightarrow> sc_wf bits c'"
  by (auto simp: sc_wf_def sc_shift_right_def result_iffs word_le_nat_alt unat_drop_bit_div
      intro: div_le_dividend [THEN order_trans])

lemma sc_shift_left_wf:
  "sc_wf bits c \<Longrightarrow> sc_shift_left c s = Inr c' \<Longrightarrow> sc_wf bits c'"
  by (auto simp: sc_wf_def sc_shift_left_def result_iffs Let_def)

section \<open>The counter as a number clamped to its range\<close>

definition clamp :: "nat \<Rightarrow> int \<Rightarrow> nat" where
  "clamp bits v = nat (max 0 (min v (2 ^ bits - 1)))"

definition sc_val :: "('a::len) sat_counter \<Rightarrow> nat" where
  "sc_val c = unat (counter c)"

lemma sc_val_le: "sc_wf bits c \<Longrightarrow> sc_val c \<le> 2 ^ bits - 1"
  by (auto simp: sc_wf_def sc_val_def word_le_nat_alt)

lemma clamp_arith:
  assumes "n \<le> 2 ^ k - 1" and "0 \<le> v"
  shows "min (n + nat v) (2 ^ k - 1) = clamp k (int n + v)"
    and "n - nat v = clamp k (int n - v)"
proof -
  have M: "int (2 ^ k - 1) = 2 ^ k - 1" by (simp add: of_nat_diff)
  show "min (n + nat v) (2 ^ k - 1) = clamp k (int n + v)"
    unfolding clamp_def using assms by (simp only: flip: M; arith)
  show "n - nat v = clamp k (int n - v)"
    unfolding clamp_def using assms by (simp only: flip: M; arith)
qed

lemma sc_add_nonneg_val:
  "sc_wf bits c \<Longrightarrow> v \<ge> 0 \<Longrightarrow> sc_val (sc_add_nonneg c v) = clamp bits (int (sc_val c) + v)"
  using clamp_arith(1) [OF sc_val_le] sc_add_nonneg_unat [of bits c v] by (simp only: sc_val_def)

lemma sc_sub_nonneg_val:
  "sc_wf bits c \<Longrightarrow> v \<ge> 0 \<Longrightarrow> sc_val (sc_sub_nonneg c v) = clamp bits (int (sc_val c) - v)"
  using clamp_arith(2) [OF sc_val_le] sc_sub_nonneg_unat [of v c] by (simp only: sc_val_def)

lemma sc_add_val: "sc_wf bits c \<Longrightarrow> sc_val (sc_add c v) = clamp bits (int (sc_val c) + v)"
  by (simp add: sc_add_def sc_add_nonneg_val sc_sub_nonneg_val)

lemma sc_sub_val: "sc_wf bits c \<Longrightarrow> sc_val (sc_sub c v) = clamp bits (int (sc_val c) - v)"
  by (simp add: sc_sub_def sc_add_nonneg_val sc_sub_nonneg_val)

lemma sc_inc_val: "sc_wf bits c \<Longrightarrow> sc_val (sc_inc c) = clamp bits (int (sc_val c) + 1)"
  using clamp_arith(1) [OF sc_val_le, of bits c 1] sc_inc_unat [of bits c]
  by (simp add: sc_val_def)

lemma sc_dec_val: "sc_wf bits c \<Longrightarrow> sc_val (sc_dec c) = clamp bits (int (sc_val c) - 1)"
  using clamp_arith(2) [OF sc_val_le, of bits c 1] sc_dec_unat [of c]
  by (simp add: sc_val_def)

section \<open>Properties\<close>

datatype sc_op = Inc | Dec | Add int | Sub int | Reset | Saturate

fun sc_apply :: "sc_op \<Rightarrow> ('a::len) sat_counter \<Rightarrow> 'a sat_counter" where
  "sc_apply Inc c = sc_inc c"
| "sc_apply Dec c = sc_dec c"
| "sc_apply (Add v) c = sc_add c v"
| "sc_apply (Sub v) c = sc_sub c v"
| "sc_apply Reset c = sc_reset c"
| "sc_apply Saturate c = snd (sc_saturate c)"

fun clamp_apply :: "nat \<Rightarrow> nat \<Rightarrow> sc_op \<Rightarrow> nat \<Rightarrow> nat" where
  "clamp_apply bits i Inc n = clamp bits (int n + 1)"
| "clamp_apply bits i Dec n = clamp bits (int n - 1)"
| "clamp_apply bits i (Add v) n = clamp bits (int n + v)"
| "clamp_apply bits i (Sub v) n = clamp bits (int n - v)"
| "clamp_apply bits i Reset n = i"
| "clamp_apply bits i Saturate n = 2 ^ bits - 1"

lemma sc_apply_frame:
  "maxVal (sc_apply op c) = maxVal c" "initialVal (sc_apply op c) = initialVal c"
  by (cases op; simp add: sc_inc_def sc_dec_def sc_add_def sc_sub_def sc_add_nonneg_def
      sc_sub_nonneg_def sc_reset_def sc_saturate_def)+

lemma sc_apply_val:
  assumes "sc_wf bits c"
  shows "sc_val (sc_apply op c) = clamp_apply bits (unat (initialVal c)) op (sc_val c)"
  using assms
  by (cases op) (simp_all add: sc_inc_val sc_dec_val sc_add_val sc_sub_val,
      simp_all add: sc_wf_def sc_val_def sc_reset_def sc_saturate_def)

lemma sc_apply_wf:
  assumes "sc_wf bits c"
  shows "sc_wf bits (sc_apply op c)"
proof -
  have "clamp bits v \<le> 2 ^ bits - 1" for v
    using clamp_def [of bits v] by (simp add: nat_le_iff of_nat_diff)
  moreover have "unat (initialVal c) \<le> 2 ^ bits - 1"
    using assms by (auto simp: sc_wf_def word_le_nat_alt)
  ultimately have "sc_val (sc_apply op c) \<le> 2 ^ bits - 1"
    unfolding sc_apply_val [OF assms] by (cases op) simp_all
  then show ?thesis using assms by (simp add: sc_wf_def sc_apply_frame sc_val_def word_le_nat_alt)
qed

lemma sc_fold:
  assumes "sc_wf bits c"
  shows "sc_wf bits (fold sc_apply ops c) \<and>
    sc_val (fold sc_apply ops c) =
      fold (clamp_apply bits (unat (initialVal c))) ops (sc_val c)"
  using assms by (induction ops arbitrary: c) (simp_all add: sc_apply_wf sc_apply_val sc_apply_frame)



end
