(* ===== verification/Counter_Table.thy ===== *)
theory Counter_Table
  imports Sat_Counter Bitfield_Intmath
begin

text \<open>
  Tables of saturating counters indexed by a masked value, as every table-based predictor of
  \<open>cpu/pred\<close> has them: training one entry, reading its prediction, and the index
  arithmetic.  A counter predicts taken when it is above the middle of its range; training with
  the same direction half a range of times in a row makes it predict that direction.
\<close>

definition ctr_step :: "bool \<Rightarrow> ('a::len) sat_counter \<Rightarrow> 'a sat_counter" where
  "ctr_step taken c = (if taken then sc_inc c else sc_dec c)"

definition ctr_train :: "bool \<Rightarrow> SatCounter8 list \<Rightarrow> nat \<Rightarrow> SatCounter8 list result" where
  "ctr_train taken cs i = bind_r (vec_get cs i) (\<lambda>c. vec_set cs i (ctr_step taken c))"

definition ctr_threshold :: "u32 \<Rightarrow> u32" where
  "ctr_threshold bits = ucast (push_bit (unat (bits - 1)) (1 :: u64) - 1)"

text \<open>As computed by the constructors: a shift by 64 or more is undefined.\<close>

definition ctr_threshold_r :: "u32 \<Rightarrow> u32 result" where
  "ctr_threshold_r bits = check (unat (bits - 1) < 64) Undefined (Inr (ctr_threshold bits))"

lemma ctr_threshold_r_eq_Inr_iff:
  "ctr_threshold_r bits = Inr t \<longleftrightarrow> unat (bits - 1) < 64 \<and> t = ctr_threshold bits"
  by (auto simp: ctr_threshold_r_def result_iffs)

lemma counter_bits_ok:
  fixes bits :: u32
  assumes "GenericSatCounter (unat bits) (0 :: u8) = Inr c" and "unat (bits - 1) < 64"
  shows "1 \<le> bits" and "unat bits \<le> 8"
proof -
  show "unat bits \<le> 8" using assms(1) by (simp add: GenericSatCounter_def Let_def result_iffs)
  have "unat (- 1 :: u32) = 2 ^ 32 - 1"
    by (simp add: unsigned_minus_1_eq_mask mask_eq_exp_minus_1)
  then have "bits \<noteq> 0" using assms(2) by auto
  then show "1 \<le> bits" by (simp add: word_le_nat_alt Suc_le_eq unat_gt_0)
qed

abbreviation ctrs_wf :: "nat \<Rightarrow> SatCounter8 list \<Rightarrow> bool" where
  "ctrs_wf bits cs \<equiv> list_all (sc_wf bits) cs"

lemma sc_wf_ctr_step: "sc_wf bits c \<Longrightarrow> sc_wf bits (ctr_step taken c)"
  using sc_apply_wf [of bits c Inc] sc_apply_wf [of bits c Dec] by (simp add: ctr_step_def)

lemma sc_val_ctr_step:
  "sc_wf bits c \<Longrightarrow> sc_val (ctr_step taken c) = clamp bits (int (sc_val c) + (if taken then 1 else - 1))"
  by (simp add: ctr_step_def sc_inc_val sc_dec_val)

lemma ctr_train_in:
  "i < length cs \<Longrightarrow> ctr_train taken cs i = Inr (cs[i := ctr_step taken (cs ! i)])"
  by (simp add: ctr_train_def)

lemma ctrs_wf_train:
  "ctrs_wf bits cs \<Longrightarrow> i < length cs \<Longrightarrow> ctrs_wf bits (cs[i := ctr_step taken (cs ! i)])"
  by (simp add: list_all_update sc_wf_ctr_step list_all_nthD)

lemma GenericSatCounter_ok:
  assumes "bits \<le> 8"
  shows "\<exists>c. GenericSatCounter bits (0 :: u8) = Inr c \<and> sc_wf bits c \<and> sc_val c = 0"
proof -
  have "GenericSatCounter bits (0 :: u8) =
      Inr \<lparr>initialVal = 0, maxVal = ucast (push_bit bits (1 :: u64) - 1), counter = 0\<rparr>"
    using assms by (simp add: GenericSatCounter_def Let_def)
  then show ?thesis using GenericSatCounter_wf [of bits "0 :: u8"] by (simp add: sc_val_def)
qed

section \<open>The prediction of a counter\<close>

definition predicts_taken :: "nat \<Rightarrow> SatCounter8 \<Rightarrow> bool" where
  "predicts_taken bits c \<longleftrightarrow> 2 ^ (bits - 1) \<le> sc_val c"

lemma unat_ctr_threshold:
  assumes "1 \<le> bits" and "unat bits \<le> 8"
  shows "unat (ctr_threshold bits) = 2 ^ (unat bits - 1) - 1"
proof -
  have "unat (bits - 1) = unat bits - 1"
    using assms(1) by (intro unat_minus_one) (auto simp: word_le_nat_alt)
  then show ?thesis
    using unat_pow2_minus_one [of "unat (bits - 1)", where 'a = 32] assms(2)
    by (simp add: ctr_threshold_def)
qed

lemma above_threshold:
  assumes "1 \<le> bits" and "unat bits \<le> 8"
  shows "ctr_threshold bits < ucast (counter c) \<longleftrightarrow> predicts_taken (unat bits) (c :: SatCounter8)"
proof -
  have "(1 :: nat) \<le> 2 ^ (unat bits - 1)" by simp
  then show ?thesis
    unfolding word_less_nat_alt unat_ctr_threshold [OF assms] predicts_taken_def sc_val_def
    by (subst unat_ucast_up) (simp, linarith)
qed

lemma msb_predicts:
  fixes bits :: u32
  assumes "1 \<le> bits" and "unat bits \<le> 8"
  shows "drop_bit (unat (bits - 1)) (counter c) \<noteq> 0 \<longleftrightarrow>
    predicts_taken (unat bits) (c :: SatCounter8)"
proof -
  have "unat (bits - 1) = unat bits - 1"
    using assms(1) by (intro unat_minus_one) (auto simp: word_le_nat_alt)
  then have "unat (drop_bit (unat (bits - 1)) (counter c)) = sc_val c div 2 ^ (unat bits - 1)"
    by (simp add: unat_drop_bit_div sc_val_def)
  moreover have "drop_bit (unat (bits - 1)) (counter c) \<noteq> 0 \<longleftrightarrow>
      unat (drop_bit (unat (bits - 1)) (counter c)) \<noteq> 0"
    by (simp add: unat_eq_0)
  ultimately show ?thesis by (simp add: predicts_taken_def div_eq_0_iff not_less)
qed

section \<open>Training\<close>

definition ctr_outcomes :: "nat \<Rightarrow> bool list \<Rightarrow> nat \<Rightarrow> nat" where
  "ctr_outcomes bits ts n = fold (\<lambda>t n. clamp bits (int n + (if t then 1 else - 1))) ts n"

lemma ctr_steps:
  assumes "sc_wf bits c"
  shows "sc_wf bits (fold ctr_step ts c) \<and>
    sc_val (fold ctr_step ts c) = ctr_outcomes bits ts (sc_val c)"
  using assms
  by (induction ts arbitrary: c) (simp_all add: ctr_outcomes_def sc_wf_ctr_step sc_val_ctr_step)

lemma clamp_up: "n \<le> 2 ^ k - 1 \<Longrightarrow> clamp k (int n + 1) = min (n + 1) (2 ^ k - 1)"
  using clamp_arith(1) [of n k 1] by simp

lemma clamp_down: "n \<le> 2 ^ k - 1 \<Longrightarrow> clamp k (int n + - 1) = n - 1"
  using clamp_arith(2) [of n k 1] by simp

lemma min_step: "min (min (n + 1) M + k) M = min (n + Suc k) (M :: nat)"
  by arith

lemma ctr_outcomes_replicate:
  assumes "n \<le> 2 ^ bits - 1"
  shows "ctr_outcomes bits (replicate k t) n = (if t then min (n + k) (2 ^ bits - 1) else n - k)"
  using assms
proof (induction k arbitrary: n)
  case (Suc k)
  show ?case
  proof (cases t)
    case True
    have "min (n + 1) (2 ^ bits - 1) \<le> 2 ^ bits - 1" by simp
    from Suc.IH [OF this] show ?thesis
      using True Suc.prems min_step [of n "2 ^ bits - 1" k] by (simp add: ctr_outcomes_def clamp_up)
  next
    case False
    have "n - 1 \<le> 2 ^ bits - 1" using Suc.prems by simp
    from Suc.IH [OF this] show ?thesis
      using False Suc.prems clamp_down [OF Suc.prems] by (simp add: ctr_outcomes_def)
  qed
qed (simp add: ctr_outcomes_def)

lemma half_range_arith:
  fixes H v n k :: nat
  assumes "0 < H" and "v = (if t then min (n + k) (2 * H - 1) else n - k)" and "H \<le> k"
    and "n \<le> 2 * H - 1"
  shows "(H \<le> v) = t"
  using assms by (cases t) auto

text \<open>Half a range of equal outcomes fixes the prediction, whatever the counter held before.\<close>

lemma half_range_learns:
  assumes "sc_wf bits c" and "1 \<le> bits" and "2 ^ (bits - 1) \<le> k"
  shows "predicts_taken bits (fold ctr_step (replicate k t) (c :: SatCounter8)) = t"
proof -
  have two: "(2 :: nat) ^ bits = 2 * 2 ^ (bits - 1)"
    using assms(2) by (cases bits) simp_all
  have le: "sc_val c \<le> 2 ^ bits - 1" by (rule sc_val_le [OF assms(1)])
  have "(0 :: nat) < 2 ^ (bits - 1)" by simp
  moreover have "sc_val (fold ctr_step (replicate k t) c) =
      (if t then min (sc_val c + k) (2 ^ bits - 1) else sc_val c - k)"
    using ctr_steps [OF assms(1), of "replicate k t"] ctr_outcomes_replicate [OF le, of k t]
    by (simp only:)
  ultimately show ?thesis
    using half_range_arith [OF _ _ assms(3)] le unfolding predicts_taken_def two by blast
qed

lemma fold_list_update_nth:
  "i < length cs \<Longrightarrow>
   fold (\<lambda>t cs. cs[i := f t (cs ! i)]) ts cs = cs[i := fold f ts (cs ! i)]"
  by (induction ts arbitrary: cs) simp_all

text \<open>What a direction counter still has to move until it predicts \<open>t\<close>.\<close>

definition debt :: "nat \<Rightarrow> bool \<Rightarrow> SatCounter8 \<Rightarrow> nat" where
  "debt b t c = (if t then 2 ^ (b - 1) - sc_val c else Suc (sc_val c) - 2 ^ (b - 1))"

lemma debt_arith:
  fixes H v v' :: nat
  assumes "0 < H" and "v \<le> 2 * H - 1"
    and "v' = (if t then min (v + 1) (2 * H - 1) else v - 1)"
  shows "(if t then H - v' else Suc v' - H) + (if (H \<le> v) = t then 0 else 1)
    \<le> (if t then H - v else Suc v - H)"
    and "(if t then H - v else Suc v - H) \<le> H"
    and "(if t then H - v' else Suc v' - H) \<le> (if t then H - v else Suc v - H) - 1"
    and "(H \<le> v) = t \<longleftrightarrow> (if t then H - v else Suc v - H) = 0"
  using assms by (cases t; auto)+

lemma debt_step:
  assumes wf: "sc_wf b c" and b: "1 \<le> b"
  shows "debt b t (ctr_step t c) + (if predicts_taken b c = t then 0 else 1) \<le> debt b t c"
    and "debt b t c \<le> 2 ^ (b - 1)"
    and "debt b t (ctr_step t c) \<le> debt b t c - 1"
    and "predicts_taken b c = t \<longleftrightarrow> debt b t c = 0"
proof -
  have two: "(2 :: nat) ^ b = 2 * 2 ^ (b - 1)" using b by (cases b) simp_all
  have H: "(0 :: nat) < 2 ^ (b - 1)" by simp
  have le: "sc_val c \<le> 2 ^ b - 1" by (rule sc_val_le [OF wf])
  have "sc_val (ctr_step t c) =
      (if t then min (sc_val c + 1) (2 * 2 ^ (b - 1) - 1) else sc_val c - 1)"
    using sc_val_ctr_step [OF wf, of t] clamp_up [OF le] clamp_down [OF le]
    unfolding two by (cases t) simp_all
  note ar = debt_arith [OF H le [unfolded two] this]
  show "debt b t (ctr_step t c) + (if predicts_taken b c = t then 0 else 1) \<le> debt b t c"
    using ar(1) unfolding debt_def predicts_taken_def .
  show "debt b t c \<le> 2 ^ (b - 1)" using ar(2) unfolding debt_def .
  show "debt b t (ctr_step t c) \<le> debt b t c - 1" using ar(3) unfolding debt_def .
  show "predicts_taken b c = t \<longleftrightarrow> debt b t c = 0"
    using ar(4) unfolding debt_def predicts_taken_def .
qed

definition train_at :: "bool \<Rightarrow> SatCounter8 list \<Rightarrow> nat \<Rightarrow> SatCounter8 list" where
  "train_at t cs i = cs[i := ctr_step t (cs ! i)]"

lemma ctrs_wf_train_at: "ctrs_wf b cs \<Longrightarrow> i < length cs \<Longrightarrow> ctrs_wf b (train_at t cs i)"
  by (simp add: train_at_def ctrs_wf_train)

lemma train_at_length [simp]: "length (train_at t cs i) = length cs"
  by (simp add: train_at_def)

section \<open>Index arithmetic\<close>

text \<open>The index \<open>(addr >> shift) & mask\<close>, computed in 64 bits and stored in an \<open>unsigned\<close>.\<close>

definition pc_index :: "u32 \<Rightarrow> u32 \<Rightarrow> Addr \<Rightarrow> u32" where
  "pc_index shift msk addr = ucast (drop_bit (unat shift) addr AND ucast msk)"

lemma unat_pc_index_less:
  assumes "n \<noteq> 0"
  shows "unat (pc_index shift (n - 1) addr) < unat n"
  unfolding pc_index_def by (rule unat_ucast_and_minus_one_less [OF assms])

lemma isPowerOf2_nonzero: "isPowerOf2 n \<Longrightarrow> n \<noteq> 0"
  by (simp add: isPowerOf2_def)

end
