(* ===== verification/Conditional_Predictor.thy ===== *)
theory Conditional_Predictor
  imports Gem5_Prelude
begin

text \<open>
  \<open>cpu/pred/conditional.hh\<close> and \<open>cpu/pred/branch_type.hh\<close>: the interface of the
  conditional branch predictors, and what the branch prediction unit relies on.

  The C++ class is abstract: its virtual methods are the fields of the record
  \<open>ConditionalPredictor\<close>.  The opaque pointer \<open>bp_history\<close> is an
  \<open>'h option\<close>, \<open>None\<close> for the null pointer.

  The locale \<open>speculative_history\<close> states the contract of a predictor's speculative
  history.  The part of the state that prediction changes speculatively is its \<open>view\<close>;
  \<open>push\<close> is the effect of one branch on it, \<open>undo\<close> the effect of a squash.  From
  the laws of the four operations the locale derives, once for all predictors, that under any
  sequence of predictions, squashes, repairs after a misprediction and commits the view is the
  result of pushing the committed branches and then the branches in flight, each with its final
  direction and target.
\<close>

section \<open>Branch types\<close>

record StaticInst =
  isReturn :: bool
  isCall :: bool
  isDirectCtrl :: bool
  isIndirectCtrl :: bool
  isCondCtrl :: bool
  isUncondCtrl :: bool

datatype BranchType =
    NoBranch | Return | CallDirect | CallIndirect | DirectCond | DirectUncond
  | IndirectCond | IndirectUncond

definition getBranchType :: "StaticInst \<Rightarrow> BranchType" where
  "getBranchType inst =
     (if isReturn inst then Return
      else if isCall inst then (if isDirectCtrl inst then CallDirect else CallIndirect)
      else if isDirectCtrl inst then (if isCondCtrl inst then DirectCond else DirectUncond)
      else if isIndirectCtrl inst then (if isCondCtrl inst then IndirectCond else IndirectUncond)
      else NoBranch)"

section \<open>The virtual methods\<close>

record ('s, 'h) ConditionalPredictor =
  cp_lookup :: "'s \<Rightarrow> ThreadID \<Rightarrow> Addr \<Rightarrow> 'h option \<Rightarrow> (bool \<times> 's \<times> 'h option) result"
  cp_updateHistories ::
    "'s \<Rightarrow> ThreadID \<Rightarrow> Addr \<Rightarrow> bool \<Rightarrow> bool \<Rightarrow> Addr \<Rightarrow> StaticInst \<Rightarrow> 'h option \<Rightarrow>
     ('s \<times> 'h option) result"
  cp_squash :: "'s \<Rightarrow> ThreadID \<Rightarrow> 'h option \<Rightarrow> ('s \<times> 'h option) result"
  cp_update ::
    "'s \<Rightarrow> ThreadID \<Rightarrow> Addr \<Rightarrow> bool \<Rightarrow> 'h option \<Rightarrow> bool \<Rightarrow> StaticInst \<Rightarrow> Addr \<Rightarrow>
     ('s \<times> 'h option) result"
  cp_branchPlaceholder ::
    "'s \<Rightarrow> ThreadID \<Rightarrow> Addr \<Rightarrow> bool \<Rightarrow> 'h option \<Rightarrow> ('s \<times> 'h option) result"

text \<open>The default of \<open>branchPlaceholder\<close>.\<close>

definition branchPlaceholder_default ::
  "'s \<Rightarrow> ThreadID \<Rightarrow> Addr \<Rightarrow> bool \<Rightarrow> 'h option \<Rightarrow> ('s \<times> 'h option) result" where
  "branchPlaceholder_default s tid pc uncond bp_history =
     Inl (Panic ''BPredUnit::branchPlaceholder() not implemented for this BP.'')"

section \<open>Branches in flight\<close>

text \<open>
  How the branch prediction unit uses the methods for one branch: the lookup for a conditional
  branch, then \<open>updateHistories\<close> with the direction and target chosen for it.
\<close>

record branch =
  br_tid :: ThreadID
  br_pc :: Addr
  br_uncond :: bool
  br_inst :: StaticInst
  br_taken :: bool
  br_target :: Addr

definition speculate ::
  "('s, 'h) ConditionalPredictor \<Rightarrow> 's \<Rightarrow> branch \<Rightarrow> (bool \<times> 's \<times> 'h option) result" where
  "speculate cp s br =
     (if br_uncond br
      then bind_r (cp_updateHistories cp s (br_tid br) (br_pc br) True (br_taken br)
                     (br_target br) (br_inst br) None) (\<lambda>(s, h). Inr (True, s, h))
      else bind_r (cp_lookup cp s (br_tid br) (br_pc br) None) (\<lambda>(pred, s, h).
           bind_r (cp_updateHistories cp s (br_tid br) (br_pc br) False (br_taken br)
                     (br_target br) (br_inst br) h) (\<lambda>(s, h). Inr (pred, s, h))))"

text \<open>
  The operations on the branches in flight (youngest first): a new branch is predicted; the
  youngest is squashed; the youngest turns out to be mispredicted and is repaired with its real
  direction and target; the oldest commits.
\<close>

datatype cp_event = Speculate branch | Squash | Repair bool Addr | Commit

fun cp_step ::
  "('s, 'h) ConditionalPredictor \<Rightarrow> 's \<times> (branch \<times> 'h option) list \<Rightarrow> cp_event \<Rightarrow>
   ('s \<times> (branch \<times> 'h option) list) result" where
  "cp_step cp (s, fl) (Speculate br) =
     bind_r (speculate cp s br) (\<lambda>(_, s, h). Inr (s, (br, h) # fl))"
| "cp_step cp (s, []) Squash = Inr (s, [])"
| "cp_step cp (s, (br, h) # fl) Squash =
     bind_r (cp_squash cp s (br_tid br) h) (\<lambda>(s, _). Inr (s, fl))"
| "cp_step cp (s, []) (Repair taken target) = Inr (s, [])"
| "cp_step cp (s, (br, h) # fl) (Repair taken target) =
     bind_r (cp_update cp s (br_tid br) (br_pc br) taken h True (br_inst br) target) (\<lambda>(s, h).
       Inr (s, (br\<lparr>br_taken := taken, br_target := target\<rparr>, h) # fl))"
| "cp_step cp (s, fl) Commit =
     (if fl = [] then Inr (s, [])
      else case last fl of (br, h) \<Rightarrow>
        bind_r (cp_update cp s (br_tid br) (br_pc br) (br_taken br) h False (br_inst br)
                  (br_target br)) (\<lambda>(s, _). Inr (s, butlast fl)))"

fun cp_run ::
  "('s, 'h) ConditionalPredictor \<Rightarrow> 's \<times> (branch \<times> 'h option) list \<Rightarrow> cp_event list \<Rightarrow>
   ('s \<times> (branch \<times> 'h option) list) result" where
  "cp_run cp st [] = Inr st"
| "cp_run cp st (ev # evs) = bind_r (cp_step cp st ev) (\<lambda>st. cp_run cp st evs)"

text \<open>The same run on branches alone: the branches in flight and the committed ones.\<close>

fun br_step :: "branch list \<times> branch list \<Rightarrow> cp_event \<Rightarrow> branch list \<times> branch list" where
  "br_step (fl, done) (Speculate br) = (br # fl, done)"
| "br_step (fl, done) Squash = (tl fl, done)"
| "br_step (fl, done) (Repair taken target) =
     (case fl of [] \<Rightarrow> [] | br # fl \<Rightarrow> br\<lparr>br_taken := taken, br_target := target\<rparr> # fl, done)"
| "br_step (fl, done) Commit = (if fl = [] then (fl, done) else (butlast fl, last fl # done))"

definition br_run :: "branch list \<times> branch list \<Rightarrow> cp_event list \<Rightarrow> branch list \<times> branch list" where
  "br_run = foldl br_step"

fun event_ok :: "(branch \<Rightarrow> bool) \<Rightarrow> cp_event \<Rightarrow> bool" where
  "event_ok P (Speculate br) = P br"
| "event_ok P _ = True"

text \<open>A run on two threads that exercises every event: two wrong-path branches are squashed, the
  older one is repaired and commits, and a new branch is predicted.\<close>

definition cond_branch :: "ThreadID \<Rightarrow> Addr \<Rightarrow> bool \<Rightarrow> branch" where
  "cond_branch tid pc taken = \<lparr>br_tid = tid, br_pc = pc, br_uncond = False,
     br_inst = \<lparr>isReturn = False, isCall = False, isDirectCtrl = True, isIndirectCtrl = False,
       isCondCtrl = True, isUncondCtrl = False\<rparr>, br_taken = taken, br_target = pc + 64\<rparr>"

definition demo_events :: "cp_event list" where
  "demo_events =
     [Speculate (cond_branch 1 64 True), Speculate (cond_branch 0 80 True),
      Speculate (cond_branch 1 96 True), Squash, Squash, Repair False 68, Commit,
      Speculate (cond_branch 1 68 True)]"

lemma demo_br_run:
  "br_run ([], []) demo_events =
     ([cond_branch 1 68 True], [(cond_branch 1 64 True)\<lparr>br_taken := False, br_target := 68\<rparr>])"
  by (simp add: br_run_def demo_events_def)

lemma demo_events_ok:
  "(\<And>pc t. P (cond_branch 0 pc t)) \<Longrightarrow> (\<And>pc t. P (cond_branch 1 pc t)) \<Longrightarrow>
   list_all (event_ok P) demo_events"
  by (simp add: demo_events_def)

section \<open>The contract\<close>

locale speculative_history =
  fixes cp :: "('s, 'h) ConditionalPredictor"
    and inv :: "'s \<Rightarrow> bool"
    and cfg :: "'s \<Rightarrow> 'c"
    and br_ok :: "'c \<Rightarrow> branch \<Rightarrow> bool"
    and hist_ok :: "'c \<Rightarrow> branch \<Rightarrow> 'h option \<Rightarrow> bool"
    and view :: "'s \<Rightarrow> 'v"
    and push :: "'c \<Rightarrow> branch \<Rightarrow> 'v \<Rightarrow> 'v"
    and undo :: "'c \<Rightarrow> branch \<Rightarrow> 'h option \<Rightarrow> 'v \<Rightarrow> 'v"
  assumes hist_ok_repair:
      "hist_ok c br h \<Longrightarrow> hist_ok c (br\<lparr>br_taken := t, br_target := a\<rparr>) h"
    and br_ok_repair: "br_ok c br \<Longrightarrow> br_ok c (br\<lparr>br_taken := t, br_target := a\<rparr>)"
    and undo_repair: "undo c (br\<lparr>br_taken := t, br_target := a\<rparr>) h v = undo c br h v"
    and speculate_law:
      "inv s \<Longrightarrow> br_ok (cfg s) br \<Longrightarrow>
       \<exists>b s' h. speculate cp s br = Inr (b, s', h) \<and> inv s' \<and> cfg s' = cfg s \<and>
         hist_ok (cfg s) br h \<and> view s' = push (cfg s) br (view s) \<and>
         (\<forall>t a. undo (cfg s) br h
            (push (cfg s) (br\<lparr>br_taken := t, br_target := a\<rparr>) (view s)) = view s)"
    and squash_law:
      "inv s \<Longrightarrow> br_ok (cfg s) br \<Longrightarrow> hist_ok (cfg s) br h \<Longrightarrow>
       \<exists>s'. cp_squash cp s (br_tid br) h = Inr (s', None) \<and> inv s' \<and> cfg s' = cfg s \<and>
         view s' = undo (cfg s) br h (view s)"
    and repair_law:
      "inv s \<Longrightarrow> br_ok (cfg s) br \<Longrightarrow> hist_ok (cfg s) br h \<Longrightarrow>
       \<exists>s'. cp_update cp s (br_tid br) (br_pc br) (br_taken br) h True (br_inst br)
           (br_target br) = Inr (s', h) \<and>
         inv s' \<and> cfg s' = cfg s \<and> view s' = push (cfg s) br (undo (cfg s) br h (view s))"
    and commit_law:
      "inv s \<Longrightarrow> br_ok (cfg s) br \<Longrightarrow> hist_ok (cfg s) br h \<Longrightarrow>
       \<exists>s'. cp_update cp s (br_tid br) (br_pc br) (br_taken br) h False (br_inst br)
           (br_target br) = Inr (s', None) \<and>
         inv s' \<and> cfg s' = cfg s \<and> view s' = view s"
begin

text \<open>
  \<open>linked c v fl\<close>: the history record of every branch in flight undoes that branch, whatever
  its direction, on top of the older ones; \<open>v\<close> is the view below the oldest.
\<close>

fun linked :: "'c \<Rightarrow> 'v \<Rightarrow> (branch \<times> 'h option) list \<Rightarrow> bool" where
  "linked c v [] = True"
| "linked c v ((br, h) # fl) =
     (br_ok c br \<and> hist_ok c br h \<and>
      (\<forall>t a. undo c br h (push c (br\<lparr>br_taken := t, br_target := a\<rparr>)
                            (foldr (push c) (map fst fl) v)) = foldr (push c) (map fst fl) v) \<and>
      linked c v fl)"

lemma linked_undo:
  assumes "linked c v ((br, h) # fl)"
  shows "undo c br h (push c br (foldr (push c) (map fst fl) v)) = foldr (push c) (map fst fl) v"
proof -
  have "br\<lparr>br_taken := br_taken br, br_target := br_target br\<rparr> = br" by simp
  then show ?thesis using assms unfolding linked.simps by metis
qed

lemma linked_repair:
  assumes "linked c v ((br, h) # fl)"
  shows "linked c v ((br\<lparr>br_taken := t, br_target := a\<rparr>, h) # fl)"
proof -
  have "br\<lparr>br_taken := t, br_target := a, br_taken := t', br_target := a'\<rparr> =
      br\<lparr>br_taken := t', br_target := a'\<rparr>" for t' a' by simp
  then show ?thesis using assms by (simp add: hist_ok_repair br_ok_repair undo_repair)
qed

lemma linked_snoc:
  assumes "linked c v (fl @ [(br, h)])"
  shows "linked c (push c br v) fl" and "br_ok c br" and "hist_ok c br h"
proof -
  show "linked c (push c br v) fl" using assms by (induction fl) auto
  show "br_ok c br" "hist_ok c br h" using assms by (induction fl) auto
qed

text \<open>The simulation between the predictor and the plain list of branches.\<close>

definition tracks :: "'c \<Rightarrow> 'v \<Rightarrow> 's \<times> (branch \<times> 'h option) list \<Rightarrow> branch list \<times> branch list \<Rightarrow> bool"
  where
  "tracks c v0 st brs \<longleftrightarrow>
     inv (fst st) \<and> cfg (fst st) = c \<and> map fst (snd st) = fst brs \<and>
     view (fst st) = foldr (push c) (fst brs) (foldr (push c) (snd brs) v0) \<and>
     linked c (foldr (push c) (snd brs) v0) (snd st)"

lemma tracks_speculate:
  assumes "tracks c v0 (s, fl) (bl, dn)" and "br_ok c br"
  shows "\<exists>b s' h. speculate cp s br = Inr (b, s', h) \<and> tracks c v0 (s', (br, h) # fl) (br # bl, dn)"
proof -
  have i: "inv s" and c: "cfg s = c" using assms(1) by (simp_all add: tracks_def)
  have "br_ok (cfg s) br" using assms(2) c by simp
  from speculate_law [OF i this] obtain b s' h where
    "speculate cp s br = Inr (b, s', h)" "inv s'" "cfg s' = c" "hist_ok c br h"
    "view s' = push c br (view s)"
    "\<forall>t a. undo c br h (push c (br\<lparr>br_taken := t, br_target := a\<rparr>) (view s)) = view s"
    unfolding c by blast
  then show ?thesis using assms by (auto simp: tracks_def)
qed

lemma tracks_squash:
  assumes "tracks c v0 (s, (br, h) # fl) (bl, dn)"
  shows "\<exists>s'. cp_squash cp s (br_tid br) h = Inr (s', None) \<and> tracks c v0 (s', fl) (tl bl, dn)"
proof -
  let ?v = "foldr (push c) dn v0"
  have i: "inv s" and c: "cfg s = c" and l: "linked c ?v ((br, h) # fl)"
    using assms by (simp_all add: tracks_def)
  obtain s' where "cp_squash cp s (br_tid br) h = Inr (s', None)" "inv s'" "cfg s' = c"
      "view s' = undo c br h (view s)"
    using squash_law [OF i, of br h] l c by auto
  then show ?thesis using assms linked_undo [OF l] by (auto simp: tracks_def)
qed

lemma tracks_repair:
  fixes taken :: bool and target :: Addr
  assumes "tracks c v0 (s, (br, h) # fl) (bl, dn)"
  defines "br' \<equiv> br\<lparr>br_taken := taken, br_target := target\<rparr>"
  shows "\<exists>s'. cp_update cp s (br_tid br) (br_pc br) taken h True (br_inst br) target = Inr (s', h) \<and>
    tracks c v0 (s', (br', h) # fl) (br' # tl bl, dn)"
proof -
  let ?v = "foldr (push c) dn v0"
  have i: "inv s" and c: "cfg s = c" and l: "linked c ?v ((br, h) # fl)"
    using assms(1) by (simp_all add: tracks_def)
  have l': "linked c ?v ((br', h) # fl)" unfolding br'_def by (rule linked_repair [OF l])
  obtain s' where "cp_update cp s (br_tid br) (br_pc br) taken h True (br_inst br) target =
        Inr (s', h)" "inv s'" "cfg s' = c" "view s' = push c br' (undo c br' h (view s))"
    using repair_law [OF i, of br' h] l' c by (auto simp: br'_def)
  moreover have "undo c br' h (view s) = foldr (push c) (map fst fl) ?v"
    using linked_undo [OF l] assms(1) undo_repair by (auto simp: tracks_def br'_def)
  ultimately show ?thesis using l' assms(1) by (auto simp: tracks_def)
qed

lemma tracks_commit:
  assumes "tracks c v0 (s, fl @ [(br, h)]) (bl, dn)"
  shows "\<exists>s'. cp_update cp s (br_tid br) (br_pc br) (br_taken br) h False (br_inst br) (br_target br) =
      Inr (s', None) \<and> tracks c v0 (s', fl) (butlast bl, br # dn)"
proof -
  have i: "inv s" and c: "cfg s = c" and l: "linked c (foldr (push c) dn v0) (fl @ [(br, h)])"
    using assms by (simp_all add: tracks_def)
  note lk = linked_snoc [OF l]
  obtain s' where "cp_update cp s (br_tid br) (br_pc br) (br_taken br) h False (br_inst br)
        (br_target br) = Inr (s', None)" "inv s'" "cfg s' = c" "view s' = view s"
    using commit_law [OF i, of br h] lk c by auto
  then show ?thesis using assms lk by (auto simp: tracks_def)
qed

lemma step_tracks:
  assumes "tracks c v0 (s, fl) (bl, dn)" and ok: "event_ok (br_ok c) ev"
  shows "\<exists>st'. cp_step cp (s, fl) ev = Inr st' \<and> tracks c v0 st' (br_step (bl, dn) ev)"
proof (cases ev)
  case (Speculate br)
  then show ?thesis using tracks_speculate [OF assms(1), of br] ok by auto
next
  case Squash
  show ?thesis
  proof (cases fl)
    case (Cons e fl')
    then show ?thesis using Squash assms(1) tracks_squash [of c v0 s "fst e" "snd e" fl' bl dn]
      by (cases e) auto
  qed (use Squash assms(1) in \<open>simp add: tracks_def\<close>)
next
  case (Repair taken target)
  show ?thesis
  proof (cases fl)
    case (Cons e fl')
    then show ?thesis using Repair assms(1) tracks_repair [of c v0 s "fst e" "snd e" fl' bl dn taken target]
      by (cases e; cases bl) (auto simp: tracks_def)
  qed (use Repair assms(1) in \<open>simp add: tracks_def\<close>)
next
  case Commit
  show ?thesis
  proof (cases fl rule: rev_cases)
    case (snoc fl' e)
    then have "bl \<noteq> []" "last bl = fst e" using assms(1) by (auto simp: tracks_def)
    then show ?thesis using Commit snoc assms(1) tracks_commit [of c v0 s fl' "fst e" "snd e" bl dn]
      by (cases e) auto
  qed (use Commit assms(1) in \<open>simp add: tracks_def\<close>)
qed

lemma run_tracks:
  assumes "tracks c v0 st brs" and "list_all (event_ok (br_ok c)) evs"
  shows "\<exists>st'. cp_run cp st evs = Inr st' \<and> tracks c v0 st' (br_run brs evs)"
  using assms
proof (induction evs arbitrary: st brs)
  case (Cons ev evs)
  then obtain st1 where "cp_step cp st ev = Inr st1" "tracks c v0 st1 (br_step brs ev)"
    using step_tracks [of c v0 "fst st" "snd st" "fst brs" "snd brs" ev] by auto
  with Cons.IH [of st1 "br_step brs ev"] Cons.prems show ?case by (simp add: br_run_def)
qed (simp add: br_run_def)

theorem history_refinement:
  assumes "inv s" and "list_all (event_ok (br_ok (cfg s))) evs"
  shows "\<exists>s' fl. cp_run cp (s, []) evs = Inr (s', fl) \<and> inv s' \<and> cfg s' = cfg s \<and>
    map fst fl = fst (br_run ([], []) evs) \<and>
    view s' = foldr (push (cfg s)) (fst (br_run ([], []) evs))
      (foldr (push (cfg s)) (snd (br_run ([], []) evs)) (view s))"
proof -
  have "tracks (cfg s) (view s) (s, []) ([], [])" using assms(1) by (simp add: tracks_def)
  from run_tracks [OF this assms(2)] show ?thesis by (auto simp: tracks_def)
qed

end

end
