(* ===== verification/Local_BP.thy ===== *)
theory Local_BP
  imports Counter_Table Conditional_Predictor
begin

text \<open>
  \<open>cpu/pred/2bit_local.cc\<close>: the local predictor, a table of saturating counters indexed by
  the branch address.  It keeps no speculative history, so that its \<open>bp_history\<close> is always
  the null pointer.  Shown here: every reachable state is well formed and every operation returns;
  the predictor refines one clamped counter per set; half a range of equal outcomes is learned.
\<close>

section \<open>The class\<close>

record LocalBPParams =
  lbp_localPredictorSize :: u32
  lbp_localCtrBits :: u32
  lbp_instShiftAmt :: u32

record LocalBP =
  lb_instShiftAmt :: u32
  lb_localPredictorSize :: u32
  lb_localCtrBits :: u32
  lb_localPredictorSets :: u32
  lb_localCtrs :: "SatCounter8 list"
  lb_indexMask :: u32

definition LocalBP_init :: "LocalBPParams \<Rightarrow> LocalBP result" where
  "LocalBP_init params =
     check (lbp_localCtrBits params \<noteq> 0) Undefined
       (let sets = lbp_localPredictorSize params div lbp_localCtrBits params in
        bind_r (GenericSatCounter (unat (lbp_localCtrBits params)) 0) (\<lambda>c.
          check (isPowerOf2 (lbp_localPredictorSize params))
            (Fatal ''Invalid local predictor size!'')
            (check (isPowerOf2 sets)
               (Fatal ''Invalid number of local predictor sets! Check localCtrBits.'')
               (Inr \<lparr>lb_instShiftAmt = lbp_instShiftAmt params,
                     lb_localPredictorSize = lbp_localPredictorSize params,
                     lb_localCtrBits = lbp_localCtrBits params,
                     lb_localPredictorSets = sets,
                     lb_localCtrs = replicate (unat sets) c,
                     lb_indexMask = sets - 1\<rparr>))))"

definition LocalBP_getPrediction :: "LocalBP \<Rightarrow> u8 \<Rightarrow> bool" where
  "LocalBP_getPrediction s count = (drop_bit (unat (lb_localCtrBits s - 1)) count \<noteq> 0)"

definition LocalBP_getLocalIndex :: "LocalBP \<Rightarrow> Addr \<Rightarrow> u32" where
  "LocalBP_getLocalIndex s branch_addr = pc_index (lb_instShiftAmt s) (lb_indexMask s) branch_addr"

definition LocalBP_branchPlaceholder ::
  "LocalBP \<Rightarrow> ThreadID \<Rightarrow> Addr \<Rightarrow> bool \<Rightarrow> unit option \<Rightarrow> (LocalBP \<times> unit option) result" where
  "LocalBP_branchPlaceholder s tid pc uncond bpHistory = Inr (s, bpHistory)"

definition LocalBP_updateHistories ::
  "LocalBP \<Rightarrow> ThreadID \<Rightarrow> Addr \<Rightarrow> bool \<Rightarrow> bool \<Rightarrow> Addr \<Rightarrow> StaticInst \<Rightarrow> unit option \<Rightarrow>
   (LocalBP \<times> unit option) result" where
  "LocalBP_updateHistories s tid pc uncond taken target inst bp_history = Inr (s, bp_history)"

definition LocalBP_lookup ::
  "LocalBP \<Rightarrow> ThreadID \<Rightarrow> Addr \<Rightarrow> unit option \<Rightarrow> (bool \<times> LocalBP \<times> unit option) result" where
  "LocalBP_lookup s tid branch_addr bp_history =
     bind_r (vec_get (lb_localCtrs s) (unat (LocalBP_getLocalIndex s branch_addr)))
       (\<lambda>c. Inr (LocalBP_getPrediction s (counter c), s, bp_history))"

definition LocalBP_update ::
  "LocalBP \<Rightarrow> ThreadID \<Rightarrow> Addr \<Rightarrow> bool \<Rightarrow> unit option \<Rightarrow> bool \<Rightarrow> StaticInst \<Rightarrow> Addr \<Rightarrow>
   (LocalBP \<times> unit option) result" where
  "LocalBP_update s tid branch_addr taken bp_history squashed inst target =
     check (bp_history = None) (Assert ''bp_history == NULL'')
       (if squashed then Inr (s, bp_history)
        else bind_r (ctr_train taken (lb_localCtrs s)
                       (unat (LocalBP_getLocalIndex s branch_addr)))
               (\<lambda>cs. Inr (s\<lparr>lb_localCtrs := cs\<rparr>, bp_history)))"

definition LocalBP_squash ::
  "LocalBP \<Rightarrow> ThreadID \<Rightarrow> unit option \<Rightarrow> (LocalBP \<times> unit option) result" where
  "LocalBP_squash s tid bp_history =
     check (bp_history = None) (Assert ''bp_history == NULL'') (Inr (s, bp_history))"

definition LocalBP_ops :: "(LocalBP, unit) ConditionalPredictor" where
  "LocalBP_ops =
     \<lparr>cp_lookup = LocalBP_lookup, cp_updateHistories = LocalBP_updateHistories,
      cp_squash = LocalBP_squash, cp_update = LocalBP_update,
      cp_branchPlaceholder = LocalBP_branchPlaceholder\<rparr>"

section \<open>Invariant\<close>

definition LocalBP_wf :: "LocalBP \<Rightarrow> bool" where
  "LocalBP_wf s \<longleftrightarrow>
     1 \<le> lb_localCtrBits s \<and> unat (lb_localCtrBits s) \<le> 8 \<and>
     lb_localPredictorSets s \<noteq> 0 \<and> lb_indexMask s = lb_localPredictorSets s - 1 \<and>
     length (lb_localCtrs s) = unat (lb_localPredictorSets s) \<and>
     ctrs_wf (unat (lb_localCtrBits s)) (lb_localCtrs s)"

lemma LocalBP_init_wf:
  assumes "LocalBP_init p = Inr s"
  shows "LocalBP_wf s"
    and "\<And>i. i < length (lb_localCtrs s) \<Longrightarrow> sc_val (lb_localCtrs s ! i) = 0"
proof -
  obtain c where c: "GenericSatCounter (unat (lbp_localCtrBits p)) (0 :: u8) = Inr c"
    and s: "lb_localCtrs s = replicate (unat (lb_localPredictorSets s)) c"
      "lb_localCtrBits s = lbp_localCtrBits p" "lb_localPredictorSets s \<noteq> 0"
      "lb_indexMask s = lb_localPredictorSets s - 1" "lbp_localCtrBits p \<noteq> 0"
    using assms by (auto simp: LocalBP_init_def result_iffs Let_def dest: isPowerOf2_nonzero)
  have b: "unat (lbp_localCtrBits p) \<le> 8"
    using c by (simp add: GenericSatCounter_def Let_def result_iffs)
  obtain c' where "GenericSatCounter (unat (lbp_localCtrBits p)) (0 :: u8) = Inr c'"
      "sc_wf (unat (lbp_localCtrBits p)) c'" "sc_val c' = 0"
    using GenericSatCounter_ok [OF b] by blast
  moreover have "1 \<le> lbp_localCtrBits p"
    using s(5) by (simp add: word_le_nat_alt Suc_le_eq unat_gt_0)
  ultimately show "LocalBP_wf s"
    and "\<And>i. i < length (lb_localCtrs s) \<Longrightarrow> sc_val (lb_localCtrs s ! i) = 0"
    using s b c by (auto simp: LocalBP_wf_def)
qed

lemma LocalBP_index:
  assumes "LocalBP_wf s"
  shows "unat (LocalBP_getLocalIndex s pc) < length (lb_localCtrs s)"
  using assms unat_pc_index_less [of "lb_localPredictorSets s"]
  by (simp add: LocalBP_getLocalIndex_def LocalBP_wf_def)

lemma LocalBP_lookup_eq:
  assumes "LocalBP_wf s"
  shows "LocalBP_lookup s tid pc h =
    Inr (predicts_taken (unat (lb_localCtrBits s))
           (lb_localCtrs s ! unat (LocalBP_getLocalIndex s pc)), s, h)"
  using LocalBP_index [OF assms] assms
  by (simp add: LocalBP_lookup_def LocalBP_getPrediction_def msb_predicts LocalBP_wf_def)

lemma LocalBP_update_eq:
  assumes "LocalBP_wf s"
  shows "LocalBP_update s tid pc taken None squashed inst target =
    Inr (if squashed then s
         else s\<lparr>lb_localCtrs := (lb_localCtrs s)[unat (LocalBP_getLocalIndex s pc) :=
           ctr_step taken (lb_localCtrs s ! unat (LocalBP_getLocalIndex s pc))]\<rparr>, None)"
  using LocalBP_index [OF assms] by (simp add: LocalBP_update_def ctr_train_in)

lemma LocalBP_train_wf:
  "LocalBP_wf s \<Longrightarrow> i < length (lb_localCtrs s) \<Longrightarrow>
   LocalBP_wf (s\<lparr>lb_localCtrs := (lb_localCtrs s)[i := ctr_step taken (lb_localCtrs s ! i)]\<rparr>)"
  by (simp add: LocalBP_wf_def ctrs_wf_train)

interpretation local_bp: speculative_history LocalBP_ops LocalBP_wf "\<lambda>_. ()" "\<lambda>_ _. True"
  "\<lambda>_ _ h. h = None" "\<lambda>_. ()" "\<lambda>_ _ v. v" "\<lambda>_ _ _ v. v"
proof (unfold_locales, goal_cases)
  case (4 s br)
  then show ?case
    by (auto simp: speculate_def LocalBP_ops_def LocalBP_updateHistories_def LocalBP_lookup_eq)
next
  case (5 s br h)
  then show ?case by (simp add: LocalBP_ops_def LocalBP_squash_def)
next
  case (6 s br h)
  then show ?case by (simp add: LocalBP_ops_def LocalBP_update_eq)
next
  case (7 s br h)
  then show ?case
    by (simp add: LocalBP_ops_def LocalBP_update_eq LocalBP_train_wf LocalBP_index)
qed simp_all

section \<open>Commits\<close>

fun LocalBP_commits :: "LocalBP \<Rightarrow> (ThreadID \<times> Addr \<times> bool \<times> StaticInst \<times> Addr) list \<Rightarrow> LocalBP result" where
  "LocalBP_commits s [] = Inr s"
| "LocalBP_commits s ((tid, pc, taken, inst, target) # us) =
     bind_r (LocalBP_update s tid pc taken None False inst target)
       (\<lambda>(s, _). LocalBP_commits s us)"

definition outcomes_at :: "LocalBP \<Rightarrow> nat \<Rightarrow> (ThreadID \<times> Addr \<times> bool \<times> StaticInst \<times> Addr) list \<Rightarrow> bool list" where
  "outcomes_at s i us =
     map (\<lambda>(_, _, t, _). t) (filter (\<lambda>(_, pc, _). unat (LocalBP_getLocalIndex s pc) = i) us)"

lemma LocalBP_commits_counters:
  assumes "LocalBP_wf s"
  shows "\<exists>s'. LocalBP_commits s us = Inr s' \<and> LocalBP_wf s' \<and>
    lb_localCtrBits s' = lb_localCtrBits s \<and>
    (\<forall>pc. LocalBP_getLocalIndex s' pc = LocalBP_getLocalIndex s pc) \<and>
    (\<forall>i < length (lb_localCtrs s).
       lb_localCtrs s' ! i = fold ctr_step (outcomes_at s i us) (lb_localCtrs s ! i))"
  using assms
proof (induction us arbitrary: s)
  case Nil
  then show ?case by (simp add: outcomes_at_def)
next
  case (Cons u us)
  obtain tid pc taken inst target where u: "u = (tid, pc, taken, inst, target)" by (cases u) auto
  let ?i = "unat (LocalBP_getLocalIndex s pc)"
  let ?s = "s\<lparr>lb_localCtrs := (lb_localCtrs s)[?i := ctr_step taken (lb_localCtrs s ! ?i)]\<rparr>"
  have i: "?i < length (lb_localCtrs s)" by (rule LocalBP_index [OF Cons.prems])
  have idx: "LocalBP_getLocalIndex ?s = LocalBP_getLocalIndex s"
    by (simp add: LocalBP_getLocalIndex_def fun_eq_iff)
  have "LocalBP_wf ?s" by (rule LocalBP_train_wf [OF Cons.prems i])
  from Cons.IH [OF this] obtain s' where s': "LocalBP_commits ?s us = Inr s'" "LocalBP_wf s'"
      "lb_localCtrBits s' = lb_localCtrBits s"
      "\<forall>pc. LocalBP_getLocalIndex s' pc = LocalBP_getLocalIndex s pc"
      "\<forall>j < length (lb_localCtrs s). lb_localCtrs s' ! j =
         fold ctr_step (outcomes_at ?s j us) (lb_localCtrs ?s ! j)"
    by (auto simp: idx)
  have "outcomes_at ?s = outcomes_at s" by (simp add: outcomes_at_def fun_eq_iff idx)
  then have "lb_localCtrs s' ! j = fold ctr_step (outcomes_at s j (u # us)) (lb_localCtrs s ! j)"
    if "j < length (lb_localCtrs s)" for j
    using s'(5) that i by (cases "j = ?i") (auto simp: outcomes_at_def u)
  then show ?case
    using s' Cons.prems by (simp add: u LocalBP_update_eq)
qed

section \<open>Properties\<close>

text \<open>C12: The local predictor refines one clamped counter per set.  After any sequence of committed
  branches, starting from a constructed predictor, all operations return, and the prediction for an
  address is taken exactly when the outcomes of the branches of its set, counted up and down from
  zero and clamped to the counter's range, leave the upper half of the range.\<close>

theorem LocalBP_refines_counters:
  assumes "LocalBP_init p = Inr s0"
  shows "\<exists>s. LocalBP_commits s0 us = Inr s \<and>
    LocalBP_lookup s tid pc h =
      Inr (2 ^ (unat (lb_localCtrBits s0) - 1) \<le>
             ctr_outcomes (unat (lb_localCtrBits s0))
               (outcomes_at s0 (unat (LocalBP_getLocalIndex s0 pc)) us) 0, s, h)"
proof -
  note wf = LocalBP_init_wf(1) [OF assms]
  let ?i = "unat (LocalBP_getLocalIndex s0 pc)" let ?b = "unat (lb_localCtrBits s0)"
  have i: "?i < length (lb_localCtrs s0)" by (rule LocalBP_index [OF wf])
  obtain s where s: "LocalBP_commits s0 us = Inr s" "LocalBP_wf s"
      "lb_localCtrBits s = lb_localCtrBits s0" "LocalBP_getLocalIndex s pc = LocalBP_getLocalIndex s0 pc"
      "lb_localCtrs s ! ?i = fold ctr_step (outcomes_at s0 ?i us) (lb_localCtrs s0 ! ?i)"
    using LocalBP_commits_counters [OF wf, of us] i by blast
  have c: "sc_wf ?b (lb_localCtrs s0 ! ?i)" using wf i by (simp add: LocalBP_wf_def list_all_nthD)
  have "sc_val (lb_localCtrs s ! ?i) = ctr_outcomes ?b (outcomes_at s0 ?i us) 0"
    using ctr_steps [OF c, of "outcomes_at s0 ?i us"] LocalBP_init_wf(2) [OF assms i] s(5) by simp
  then show ?thesis
    using s by (simp add: LocalBP_lookup_eq predicts_taken_def)
qed

definition lbp_small :: LocalBPParams where
  "lbp_small = \<lparr>lbp_localPredictorSize = 8, lbp_localCtrBits = 2, lbp_instShiftAmt = 2\<rparr>"

definition inst_cond :: StaticInst where
  "inst_cond = \<lparr>isReturn = False, isCall = False, isDirectCtrl = True, isIndirectCtrl = False,
     isCondCtrl = True, isUncondCtrl = False\<rparr>"

definition lb_small :: LocalBP where
  "lb_small = \<lparr>lb_instShiftAmt = 2, lb_localPredictorSize = 8, lb_localCtrBits = 2,
     lb_localPredictorSets = 4,
     lb_localCtrs = replicate 4 \<lparr>initialVal = 0, maxVal = 3, counter = 0\<rparr>, lb_indexMask = 3\<rparr>"

lemma lb_small_init: "LocalBP_init lbp_small = Inr lb_small"
  by (simp add: LocalBP_init_def lbp_small_def lb_small_def Let_def isPowerOf2_def
      GenericSatCounter_def)

theorem LocalBP_refines_counters_witness:
  "\<exists>s. LocalBP_commits lb_small
     [(0, 64, True, inst_cond, 0), (0, 68, False, inst_cond, 0), (0, 64, True, inst_cond, 0)] = Inr s \<and>
     LocalBP_lookup s 0 64 None = Inr (True, s, None)"
  using LocalBP_refines_counters [OF lb_small_init, of "[(0, 64, True, inst_cond, 0),
      (0, 68, False, inst_cond, 0), (0, 64, True, inst_cond, 0)]" 0 64 None]
  by (simp add: lb_small_def outcomes_at_def LocalBP_getLocalIndex_def pc_index_def
      ctr_outcomes_def clamp_def)

end
