(* ===== verification/Global_History.thy ===== *)
theory Global_History
  imports Counter_Table Conditional_Predictor Shift_History
begin

text \<open>
  Global history registers: an \<open>unsigned\<close> per thread into which directions are shifted, masked
  to the history length.  A register implements the bounded history of its length, and the
  vector of registers of all threads, read through the mask, is the view that the global-history
  predictors share.
\<close>

section \<open>One register\<close>

definition shift_in :: "u32 \<Rightarrow> bool \<Rightarrow> u32" where
  "shift_in reg taken = push_bit 1 reg OR (if taken then 1 else 0)"

definition shift_masked :: "u32 \<Rightarrow> u32 \<Rightarrow> bool \<Rightarrow> u32" where
  "shift_masked msk reg taken = shift_in reg taken AND msk"

lemma bit_shift_in:
  "bit (shift_in r t) i \<longleftrightarrow> i < 32 \<and> (if i = 0 then t else bit r (i - 1))"
  by (simp only: shift_in_def bit_or_iff bit_push_bit_iff) (auto simp: bit_1_iff)

lemma shift_masked_and:
  "shift_masked (mask k) (r AND mask k) t = shift_masked (mask k) r t"
  by (rule bit_word_eqI) (auto simp: shift_masked_def bit_shift_in bit_simps)

lemma shift_masked_idem [simp]: "shift_masked m r t AND m = shift_masked m r t"
  by (simp add: shift_masked_def and.assoc)

text \<open>A register of \<open>k\<close> bits is a history of the last \<open>k\<close> directions.\<close>

definition reg_hist :: "nat \<Rightarrow> u32 \<Rightarrow> bool list" where
  "reg_hist k r = map (bit r) [0..<k]"

lemma reg_hist_length [simp]: "length (reg_hist k r) = k"
  by (simp add: reg_hist_def)

lemma reg_hist_shift:
  assumes "k \<le> 32"
  shows "reg_hist k (shift_masked (mask k) r t) = take k (t # reg_hist k r)"
proof (rule nth_equalityI)
  fix i assume "i < length (reg_hist k (shift_masked (mask k) r t))"
  then have "i < k" by simp
  with assms show "reg_hist k (shift_masked (mask k) r t) ! i = take k (t # reg_hist k r) ! i"
    by (cases i) (simp_all add: reg_hist_def shift_masked_def bit_simps bit_shift_in)
qed simp

lemma reg_hist_inject:
  assumes "k \<le> 32" and "reg_hist k r = reg_hist k r'"
  shows "r AND mask k = r' AND mask k"
proof (rule bit_word_eqI)
  fix i
  show "bit (r AND mask k) i \<longleftrightarrow> bit (r' AND mask k) i"
  proof (cases "i < k")
    case True
    then have "reg_hist k r ! i = reg_hist k r' ! i" using assms(2) by simp
    then show ?thesis using True by (simp add: reg_hist_def bit_simps)
  qed (simp add: bit_simps)
qed

definition reg_push :: "nat \<Rightarrow> bool \<Rightarrow> u32 \<Rightarrow> u32" where
  "reg_push k t r = shift_masked (mask k) r t"

interpretation reg_history: shift_history "min k 32" "reg_hist (min k 32)" "reg_push (min k 32)"
  "\<lambda>_. True" for k
  by unfold_locales (simp_all add: reg_push_def reg_hist_shift)

section \<open>Hashed index\<close>

text \<open>The index \<open>((addr >> shift) ^ reg) & mask\<close>.\<close>

definition xor_index :: "u32 \<Rightarrow> u32 \<Rightarrow> Addr \<Rightarrow> u32 \<Rightarrow> u32" where
  "xor_index shift msk addr reg = ucast ((drop_bit (unat shift) addr XOR ucast reg) AND ucast msk)"

lemma unat_xor_index_less: "n \<noteq> 0 \<Longrightarrow> unat (xor_index shift (n - 1) addr reg) < unat n"
  unfolding xor_index_def by (rule unat_ucast_and_minus_one_less)

lemma xor_index_masked: "xor_index shift m addr (reg AND m) = xor_index shift m addr reg"
  by (rule bit_word_eqI) (auto simp: xor_index_def bit_simps)

section \<open>The registers of all threads\<close>

definition masked_regs :: "u32 \<Rightarrow> u32 list \<Rightarrow> u32 list" where
  "masked_regs msk rs = map (\<lambda>r. r AND msk) rs"

definition push_reg :: "u32 \<Rightarrow> branch \<Rightarrow> u32 list \<Rightarrow> u32 list" where
  "push_reg msk br v = v[br_tid br := shift_masked msk (v ! br_tid br) (br_taken br)]"

lemma masked_regs_length [simp]: "length (masked_regs m rs) = length rs"
  by (simp add: masked_regs_def)

lemma masked_regs_nth: "i < length rs \<Longrightarrow> masked_regs m rs ! i = rs ! i AND m"
  by (simp add: masked_regs_def)

lemma masked_regs_update: "masked_regs m (rs[i := r]) = (masked_regs m rs)[i := r AND m]"
  by (simp add: masked_regs_def map_update)

lemma push_reg_masked:
  assumes "br_tid br < length rs"
  shows "push_reg (mask k) br (masked_regs (mask k) rs) =
    masked_regs (mask k) (rs[br_tid br := shift_in (rs ! br_tid br) (br_taken br)])"
  using assms shift_masked_and [of k "rs ! br_tid br" "br_taken br"]
  by (simp add: push_reg_def masked_regs_update masked_regs_nth shift_masked_def)

lemma push_reg_shift:
  assumes "br_tid br < length rs"
  shows "masked_regs (mask k) (rs[br_tid br := shift_masked (mask k) (rs ! br_tid br) (br_taken br)]) =
    push_reg (mask k) br (masked_regs (mask k) rs)"
  using assms shift_masked_and [of k "rs ! br_tid br" "br_taken br"]
  by (simp add: push_reg_def masked_regs_update masked_regs_nth)

lemma push_reg_undo:
  assumes "br_tid br' = br_tid br" and "br_tid br < length rs"
  shows "(push_reg m br' (masked_regs m rs))[br_tid br := rs ! br_tid br AND m] = masked_regs m rs"
  using assms by (simp add: push_reg_def masked_regs_nth [symmetric])

lemma push_reg_length [simp]: "length (push_reg m br v) = length v"
  by (simp add: push_reg_def)

lemma foldr_push_reg_length [simp]: "length (foldr (push_reg m) brs v) = length v"
  by (induction brs) simp_all

lemma reg_hist_and_mask: "reg_hist k (r AND mask k) = reg_hist k r"
  by (auto simp: reg_hist_def bit_simps dest: bit_imp_le_length)

lemma reg_hist_zero: "reg_hist k 0 = replicate k False"
  by (rule nth_equalityI) (simp_all add: reg_hist_def)

text \<open>What the registers hold after a list of branches (youngest first) has been pushed.\<close>

lemma reg_hist_foldr_push:
  assumes "k \<le> 32" and "tid < length v"
  shows "reg_hist k (foldr (push_reg (mask k)) brs v ! tid) =
    take k (map br_taken (filter (\<lambda>br. br_tid br = tid) brs) @ reg_hist k (v ! tid))"
proof (induction brs)
  case (Cons br brs)
  let ?v = "foldr (push_reg (mask k)) brs v"
  show ?case
  proof (cases "br_tid br = tid")
    case True
    then have "reg_hist k (foldr (push_reg (mask k)) (br # brs) v ! tid) =
        take k (br_taken br # reg_hist k (?v ! tid))"
      using assms by (simp add: push_reg_def reg_hist_shift)
    then show ?thesis using Cons.IH True by (cases k) (simp_all add: min_def)
  next
    case False
    then show ?thesis using Cons.IH by (simp add: push_reg_def)
  qed
qed simp

lemma view_to_hist:
  assumes "k \<le> 32" and "tid < n" and "length rs = n"
    and "masked_regs (mask k) rs = foldr (push_reg (mask k)) brs (replicate n 0)"
  shows "reg_hist k (rs ! tid) =
    take k (map br_taken (filter (\<lambda>br. br_tid br = tid) brs) @ replicate k False)"
proof -
  have "rs ! tid AND mask k = foldr (push_reg (mask k)) brs (replicate n 0) ! tid"
    using assms by (simp flip: masked_regs_nth)
  then show ?thesis
    using reg_hist_foldr_push [of k tid "replicate n 0" brs] assms(1,2)
    by (metis length_replicate nth_replicate reg_hist_and_mask reg_hist_zero)
qed

lemma mask_pow2:
  assumes "isPowerOf2 (n :: u32)" and "ceilLog2 4 (ucast n) = Inr k"
  shows "ucast (mask_nbits k) = n - 1" and "n - 1 = mask k" and "k < 32"
proof -
  from assms(1) obtain j where j: "j < LENGTH(32)" "unat n = 2 ^ j" "n - 1 = mask j"
    by (rule isPowerOf2_exp)
  have "unat (ucast n :: u64) = 2 ^ j" using j by (simp add: unat_ucast_up)
  then have "ceilLog2 4 (ucast n) = Inr j" using ceilLog2_pow2 [of "ucast n" j 4] j(1) by simp
  then have k: "k = j" using assms(2) by simp
  show "n - 1 = mask k" "k < 32" using j k by simp_all
  have "(ucast (mask_nbits k) :: u32) = mask k"
    by (rule bit_word_eqI) (auto simp: mask_nbits_eq bit_simps)
  then show "ucast (mask_nbits k) = n - 1" using j k by simp
qed

end
