(* ===== verification/Gshare_BP.thy ===== *)
theory Gshare_BP
  imports Global_History
begin

text \<open>
  \<open>cpu/pred/gshare.cc\<close>: a table of saturating counters indexed by the branch address
  xor the global history.  Shown here: safety of every reachable state, the refinement of the
  speculative history registers to the list of branches (\<open>speculative_history\<close>), and that a
  branch is learned in the context it was predicted in.
\<close>

section \<open>The class\<close>

record GshareBPParams =
  gsp_numThreads :: u32
  gsp_global_predictor_size :: u32
  gsp_global_counter_bits :: u32
  gsp_instShiftAmt :: u32

record GshareBPHistory =
  gsh_globalHistoryReg :: u32
  gsh_finalPred :: bool

record GshareBP =
  gs_instShiftAmt :: u32
  gs_globalHistoryReg :: "u32 list"
  gs_globalHistoryBits :: u32
  gs_historyRegisterMask :: u32
  gs_globalPredictorSize :: u32
  gs_globalCtrBits :: u32
  gs_globalHistoryMask :: u32
  gs_globalCtrs :: "SatCounter8 list"
  gs_takenThreshold :: u32

definition GshareBP_init :: "GshareBPParams \<Rightarrow> GshareBP result" where
  "GshareBP_init params =
     (let size = gsp_global_predictor_size params in
      bind_r (ceilLog2 4 (ucast size)) (\<lambda>hbits.
      bind_r (GenericSatCounter (unat (gsp_global_counter_bits params)) 0) (\<lambda>c.
        check (isPowerOf2 size) (Fatal ''Invalid global history predictor size.'')
          (bind_r (ctr_threshold_r (gsp_global_counter_bits params)) (\<lambda>threshold. Inr \<lparr>gs_instShiftAmt = gsp_instShiftAmt params,
                gs_globalHistoryReg = replicate (unat (gsp_numThreads params)) 0,
                gs_globalHistoryBits = of_nat hbits,
                gs_historyRegisterMask = ucast (mask_nbits hbits),
                gs_globalPredictorSize = size,
                gs_globalCtrBits = gsp_global_counter_bits params,
                gs_globalHistoryMask = size - 1,
                gs_globalCtrs = replicate (unat size) c,
                gs_takenThreshold = threshold\<rparr>)))))"

definition GshareBP_uncondBranch ::
  "GshareBP \<Rightarrow> ThreadID \<Rightarrow> Addr \<Rightarrow> GshareBPHistory option result" where
  "GshareBP_uncondBranch s tid pc =
     bind_r (vec_get (gs_globalHistoryReg s) tid) (\<lambda>r.
       Inr (Some \<lparr>gsh_globalHistoryReg = r, gsh_finalPred = True\<rparr>))"

definition GshareBP_updateGlobalHistReg :: "GshareBP \<Rightarrow> ThreadID \<Rightarrow> bool \<Rightarrow> GshareBP result" where
  "GshareBP_updateGlobalHistReg s tid taken =
     bind_r (vec_get (gs_globalHistoryReg s) tid) (\<lambda>r.
       let r = (if taken then push_bit 1 r OR 1 else push_bit 1 r);
           r = r AND gs_historyRegisterMask s in
       bind_r (vec_set (gs_globalHistoryReg s) tid r) (\<lambda>rs.
         Inr (s\<lparr>gs_globalHistoryReg := rs\<rparr>)))"

definition GshareBP_updateHistories ::
  "GshareBP \<Rightarrow> ThreadID \<Rightarrow> Addr \<Rightarrow> bool \<Rightarrow> bool \<Rightarrow> Addr \<Rightarrow> StaticInst \<Rightarrow> GshareBPHistory option \<Rightarrow>
   (GshareBP \<times> GshareBPHistory option) result" where
  "GshareBP_updateHistories s tid pc uncond taken target inst bp_history =
     check (uncond \<or> bp_history \<noteq> None) (Assert ''uncond || bp_history'')
       (bind_r (if uncond then GshareBP_uncondBranch s tid pc else Inr bp_history) (\<lambda>h.
        bind_r (GshareBP_updateGlobalHistReg s tid taken) (\<lambda>s. Inr (s, h))))"

definition GshareBP_squash ::
  "GshareBP \<Rightarrow> ThreadID \<Rightarrow> GshareBPHistory option \<Rightarrow>
   (GshareBP \<times> GshareBPHistory option) result" where
  "GshareBP_squash s tid bp_history =
     (case bp_history of
        None \<Rightarrow> Inl Undefined
      | Some history \<Rightarrow>
          bind_r (vec_set (gs_globalHistoryReg s) tid (gsh_globalHistoryReg history)) (\<lambda>rs.
            Inr (s\<lparr>gs_globalHistoryReg := rs\<rparr>, None)))"

definition GshareBP_lookup ::
  "GshareBP \<Rightarrow> ThreadID \<Rightarrow> Addr \<Rightarrow> GshareBPHistory option \<Rightarrow>
   (bool \<times> GshareBP \<times> GshareBPHistory option) result" where
  "GshareBP_lookup s tid branchAddr bp_history =
     bind_r (vec_get (gs_globalHistoryReg s) tid) (\<lambda>r.
       let idx = xor_index (gs_instShiftAmt s) (gs_globalHistoryMask s) branchAddr r in
       check (idx < gs_globalPredictorSize s) (Assert ''globalHistoryIdx < globalPredictorSize'')
         (bind_r (vec_get (gs_globalCtrs s) (unat idx)) (\<lambda>c.
            let final_prediction = gs_takenThreshold s < ucast (counter c) in
            Inr (final_prediction, s,
                 Some \<lparr>gsh_globalHistoryReg = r, gsh_finalPred = final_prediction\<rparr>))))"

definition GshareBP_update ::
  "GshareBP \<Rightarrow> ThreadID \<Rightarrow> Addr \<Rightarrow> bool \<Rightarrow> GshareBPHistory option \<Rightarrow> bool \<Rightarrow> StaticInst \<Rightarrow> Addr \<Rightarrow>
   (GshareBP \<times> GshareBPHistory option) result" where
  "GshareBP_update s tid branchAddr taken bp_history squashed inst target =
     (case bp_history of
        None \<Rightarrow> Inl (Assert ''bp_history'')
      | Some history \<Rightarrow>
          if squashed
          then bind_r (vec_set (gs_globalHistoryReg s) tid
                         (shift_in (gsh_globalHistoryReg history) taken)) (\<lambda>rs.
                 Inr (s\<lparr>gs_globalHistoryReg := rs\<rparr>, bp_history))
          else
            let idx = xor_index (gs_instShiftAmt s) (gs_globalHistoryMask s) branchAddr
                        (gsh_globalHistoryReg history) in
            check (idx < gs_globalPredictorSize s)
              (Assert ''globalHistoryIdx < globalPredictorSize'')
              (bind_r (ctr_train taken (gs_globalCtrs s) (unat idx)) (\<lambda>cs.
                 Inr (s\<lparr>gs_globalCtrs := cs\<rparr>, None))))"

definition GshareBP_ops :: "(GshareBP, GshareBPHistory) ConditionalPredictor" where
  "GshareBP_ops =
     \<lparr>cp_lookup = GshareBP_lookup, cp_updateHistories = GshareBP_updateHistories,
      cp_squash = GshareBP_squash, cp_update = GshareBP_update,
      cp_branchPlaceholder = branchPlaceholder_default\<rparr>"

section \<open>Invariant\<close>

definition GshareBP_wf :: "GshareBP \<Rightarrow> bool" where
  "GshareBP_wf s \<longleftrightarrow>
     1 \<le> gs_globalCtrBits s \<and> unat (gs_globalCtrBits s) \<le> 8 \<and> gs_globalPredictorSize s \<noteq> 0 \<and>
     unat (gs_globalHistoryBits s) < 32 \<and>
     gs_globalHistoryMask s = gs_globalPredictorSize s - 1 \<and>
     gs_historyRegisterMask s = gs_globalPredictorSize s - 1 \<and>
     gs_globalPredictorSize s - 1 = mask (unat (gs_globalHistoryBits s)) \<and>
     gs_takenThreshold s = ctr_threshold (gs_globalCtrBits s) \<and>
     length (gs_globalCtrs s) = unat (gs_globalPredictorSize s) \<and>
     ctrs_wf (unat (gs_globalCtrBits s)) (gs_globalCtrs s)"

definition gshare_view :: "GshareBP \<Rightarrow> u32 list" where
  "gshare_view s = masked_regs (gs_historyRegisterMask s) (gs_globalHistoryReg s)"

lemma GshareBP_init_wf:
  assumes "GshareBP_init p = Inr s"
  shows "GshareBP_wf s" and "length (gs_globalHistoryReg s) = unat (gsp_numThreads p)"
    and "gshare_view s = replicate (unat (gsp_numThreads p)) 0"
proof -
  obtain k c where k: "ceilLog2 4 (ucast (gsp_global_predictor_size p)) = Inr k"
    and c: "GenericSatCounter (unat (gsp_global_counter_bits p)) (0 :: u8) = Inr c"
    and pow: "isPowerOf2 (gsp_global_predictor_size p)"
    and th: "unat (gsp_global_counter_bits p - 1) < 64"
    and s: "s = \<lparr>gs_instShiftAmt = gsp_instShiftAmt p,
                gs_globalHistoryReg = replicate (unat (gsp_numThreads p)) 0,
                gs_globalHistoryBits = of_nat k,
                gs_historyRegisterMask = ucast (mask_nbits k),
                gs_globalPredictorSize = gsp_global_predictor_size p,
                gs_globalCtrBits = gsp_global_counter_bits p,
                gs_globalHistoryMask = gsp_global_predictor_size p - 1,
                gs_globalCtrs = replicate (unat (gsp_global_predictor_size p)) c,
                gs_takenThreshold = ctr_threshold (gsp_global_counter_bits p)\<rparr>"
    using assms by (auto simp: GshareBP_init_def result_iffs ctr_threshold_r_eq_Inr_iff Let_def)
  note m = mask_pow2 [OF pow k]
  note b = counter_bits_ok [OF c th]
  have "sc_wf (unat (gsp_global_counter_bits p)) c" using GenericSatCounter_wf [OF c] by simp
  moreover have "unat (of_nat k :: u32) = k" using m(3) by (simp add: unat_of_nat)
  ultimately show "GshareBP_wf s"
    using b m isPowerOf2_nonzero [OF pow] by (simp add: GshareBP_wf_def s)
  show "length (gs_globalHistoryReg s) = unat (gsp_numThreads p)"
    and "gshare_view s = replicate (unat (gsp_numThreads p)) 0"
    by (simp_all add: s gshare_view_def masked_regs_def)
qed

definition gshare_idx :: "GshareBP \<Rightarrow> Addr \<Rightarrow> u32 \<Rightarrow> nat" where
  "gshare_idx s pc r = unat (xor_index (gs_instShiftAmt s) (gs_globalHistoryMask s) pc r)"

lemma gshare_idx_less:
  assumes "GshareBP_wf s"
  shows "gshare_idx s pc r < length (gs_globalCtrs s)"
  using assms unat_xor_index_less [of "gs_globalPredictorSize s"]
  by (simp add: gshare_idx_def GshareBP_wf_def)

lemma GshareBP_lookup_eq:
  fixes pc :: Addr
  assumes "GshareBP_wf s" and "tid < length (gs_globalHistoryReg s)"
  defines "r \<equiv> gs_globalHistoryReg s ! tid"
  defines "p \<equiv> predicts_taken (unat (gs_globalCtrBits s)) (gs_globalCtrs s ! gshare_idx s pc r)"
  shows "GshareBP_lookup s tid pc h =
    Inr (p, s, Some \<lparr>gsh_globalHistoryReg = r, gsh_finalPred = p\<rparr>)"
  using assms(1,2) gshare_idx_less [OF assms(1), of pc r]
  by (simp add: GshareBP_lookup_def Let_def p_def r_def gshare_idx_def word_less_nat_alt
      GshareBP_wf_def above_threshold [unfolded word_less_nat_alt])

lemma GshareBP_updateGlobalHistReg_eq:
  assumes "tid < length (gs_globalHistoryReg s)"
  shows "GshareBP_updateGlobalHistReg s tid taken =
    Inr (s\<lparr>gs_globalHistoryReg := (gs_globalHistoryReg s)[tid :=
      shift_masked (gs_historyRegisterMask s) (gs_globalHistoryReg s ! tid) taken]\<rparr>)"
  using assms
  by (simp add: GshareBP_updateGlobalHistReg_def Let_def shift_masked_def shift_in_def)

lemma GshareBP_update_eq:
  assumes "GshareBP_wf s"
  shows "GshareBP_update s tid pc taken (Some h) False inst target =
    Inr (s\<lparr>gs_globalCtrs := (gs_globalCtrs s)[gshare_idx s pc (gsh_globalHistoryReg h) :=
        ctr_step taken (gs_globalCtrs s ! gshare_idx s pc (gsh_globalHistoryReg h))]\<rparr>, None)"
  using assms gshare_idx_less [OF assms, of pc "gsh_globalHistoryReg h"]
  by (simp add: GshareBP_update_def Let_def gshare_idx_def word_less_nat_alt ctr_train_in
      GshareBP_wf_def)

lemma GshareBP_train_wf:
  assumes "GshareBP_wf s" and "i < length (gs_globalCtrs s)"
  shows "GshareBP_wf (s\<lparr>gs_globalCtrs := (gs_globalCtrs s)[i :=
    ctr_step taken (gs_globalCtrs s ! i)]\<rparr>)"
  using assms by (simp add: GshareBP_wf_def ctrs_wf_train)

lemma GshareBP_reg_wf [simp]:
  "GshareBP_wf (s\<lparr>gs_globalHistoryReg := rs\<rparr>) = GshareBP_wf s"
  by (simp add: GshareBP_wf_def)

section \<open>Speculative history\<close>

text \<open>The static part of the state: the parameters and the number of threads.\<close>

definition gshare_cfg :: "GshareBP \<Rightarrow> GshareBP" where
  "gshare_cfg s = s\<lparr>gs_globalHistoryReg := replicate (length (gs_globalHistoryReg s)) 0,
     gs_globalCtrs := []\<rparr>"

definition gshare_undo :: "GshareBP \<Rightarrow> branch \<Rightarrow> GshareBPHistory option \<Rightarrow> u32 list \<Rightarrow> u32 list" where
  "gshare_undo c br h v =
     v[br_tid br := (case h of None \<Rightarrow> 0 | Some h \<Rightarrow> gsh_globalHistoryReg h) AND gs_historyRegisterMask c]"

lemma gshare_mask:
  assumes "GshareBP_wf s"
  shows "gs_historyRegisterMask s = mask (unat (gs_globalHistoryBits s))"
  using assms by (simp add: GshareBP_wf_def)

lemma gshare_speculate:
  assumes wf: "GshareBP_wf s" and t: "br_tid br < length (gs_globalHistoryReg s)"
  shows "\<exists>b h. speculate GshareBP_ops s br =
    Inr (b, s\<lparr>gs_globalHistoryReg := (gs_globalHistoryReg s)[br_tid br :=
        shift_masked (gs_historyRegisterMask s) (gs_globalHistoryReg s ! br_tid br) (br_taken br)]\<rparr>,
      Some h) \<and> gsh_globalHistoryReg h = gs_globalHistoryReg s ! br_tid br"
  using t
  by (cases "br_uncond br")
    (auto simp: speculate_def GshareBP_ops_def GshareBP_updateHistories_def
      GshareBP_uncondBranch_def GshareBP_updateGlobalHistReg_eq GshareBP_lookup_eq [OF wf])

interpretation gshare: speculative_history GshareBP_ops GshareBP_wf gshare_cfg
  "\<lambda>c br. br_tid br < length (gs_globalHistoryReg c)" "\<lambda>_ _ h. h \<noteq> None" gshare_view
  "\<lambda>c. push_reg (gs_historyRegisterMask c)" gshare_undo
proof (unfold_locales, goal_cases)
  case (4 s br)
  then have t: "br_tid br < length (gs_globalHistoryReg s)" by (simp add: gshare_cfg_def)
  from gshare_speculate [OF 4(1) t] show ?case
    using 4 t gshare_mask [OF 4(1)]
    by (auto simp: gshare_cfg_def gshare_view_def push_reg_shift gshare_undo_def push_reg_undo)
next
  case (5 s br h)
  then show ?case
    by (auto simp: GshareBP_ops_def GshareBP_squash_def gshare_cfg_def gshare_view_def
        gshare_undo_def masked_regs_update)
next
  case (6 s br h)
  then obtain h' where h: "h = Some h'" by auto
  have t: "br_tid br < length (gs_globalHistoryReg s)" using 6 by (simp add: gshare_cfg_def)
  let ?k = "unat (gs_globalHistoryBits s)"
  have "push_reg (mask ?k) br (masked_regs (mask ?k)
      ((gs_globalHistoryReg s)[br_tid br := gsh_globalHistoryReg h'])) =
    masked_regs (mask ?k) ((gs_globalHistoryReg s)[br_tid br :=
      shift_in (gsh_globalHistoryReg h') (br_taken br)])"
    using push_reg_masked [of br "(gs_globalHistoryReg s)[br_tid br := gsh_globalHistoryReg h']" ?k] t
    by simp
  then show ?case
    using 6(1) t gshare_mask [OF 6(1)]
    by (auto simp: h GshareBP_ops_def GshareBP_update_def gshare_cfg_def gshare_view_def
        gshare_undo_def masked_regs_update)
next
  case (7 s br h)
  then show ?case
    by (auto simp: GshareBP_ops_def GshareBP_update_eq GshareBP_train_wf gshare_idx_less
        gshare_cfg_def gshare_view_def)
qed (simp_all add: gshare_undo_def)

section \<open>Properties\<close>

text \<open>C13: The history registers of gshare are exact under speculation.  From a constructed
  predictor, any sequence of predictions, squashes of the youngest branch, repairs after a
  misprediction and in-order commits, on any threads, returns; and afterwards the register of each
  thread holds the final directions of the last branches of that thread, those in flight first and
  then the committed ones, youngest first, with zeros below.\<close>

theorem gshare_history_exact:
  assumes "GshareBP_init p = Inr s"
    and "list_all (event_ok (\<lambda>br. br_tid br < unat (gsp_numThreads p))) evs"
    and "br_run ([], []) evs = (inflight, committed)" and "tid < unat (gsp_numThreads p)"
  shows "\<exists>s' fl. cp_run GshareBP_ops (s, []) evs = Inr (s', fl) \<and> GshareBP_wf s' \<and>
    reg_hist (unat (gs_globalHistoryBits s)) (gs_globalHistoryReg s' ! tid) =
      take (unat (gs_globalHistoryBits s))
        (map br_taken (filter (\<lambda>br. br_tid br = tid) (inflight @ committed)) @
         replicate (unat (gs_globalHistoryBits s)) False)"
proof -
  note wf = GshareBP_init_wf [OF assms(1)]
  let ?k = "unat (gs_globalHistoryBits s)"
  have c: "gs_historyRegisterMask (gshare_cfg s) = mask ?k"
      "length (gs_globalHistoryReg (gshare_cfg s)) = unat (gsp_numThreads p)"
    using gshare_mask [OF wf(1)] wf(2) by (simp_all add: gshare_cfg_def)
  have k: "?k \<le> 32" using wf(1) by (simp add: GshareBP_wf_def)
  obtain s' fl where run: "cp_run GshareBP_ops (s, []) evs = Inr (s', fl)" "GshareBP_wf s'"
      "gshare_cfg s' = gshare_cfg s"
      "gshare_view s' = foldr (push_reg (mask ?k)) (inflight @ committed) (gshare_view s)"
    using gshare.history_refinement [OF wf(1), of evs] assms(2,3) by (auto simp: c)
  have c': "gs_historyRegisterMask s' = mask ?k"
      "length (gs_globalHistoryReg s') = unat (gsp_numThreads p)"
    using arg_cong [OF run(3), of gs_historyRegisterMask]
      arg_cong [OF run(3), of "\<lambda>s. length (gs_globalHistoryReg s)"] c
    by (simp_all add: gshare_cfg_def)
  show ?thesis
    using run c' view_to_hist [OF k assms(4) c'(2)] wf(3) by (metis gshare_view_def)
qed

definition gsp_small :: GshareBPParams where
  "gsp_small = \<lparr>gsp_numThreads = 2, gsp_global_predictor_size = 8, gsp_global_counter_bits = 2,
     gsp_instShiftAmt = 2\<rparr>"

definition gs_small :: GshareBP where
  "gs_small = \<lparr>gs_instShiftAmt = 2, gs_globalHistoryReg = [0, 0], gs_globalHistoryBits = 3,
     gs_historyRegisterMask = 7, gs_globalPredictorSize = 8, gs_globalCtrBits = 2,
     gs_globalHistoryMask = 7,
     gs_globalCtrs = replicate 8 \<lparr>initialVal = 0, maxVal = 3, counter = 0\<rparr>,
     gs_takenThreshold = 1\<rparr>"

lemma gs_small_init: "GshareBP_init gsp_small = Inr gs_small"
proof -
  have "ceilLog2 4 8 = Inr 3" using ceilLog2_pow2 [of 8 3 4] by simp
  moreover have "replicate 2 (0 :: u32) = [0, 0]" by (simp add: numeral_2_eq_2)
  ultimately show ?thesis
    by (simp add: GshareBP_init_def gsp_small_def gs_small_def Let_def isPowerOf2_def
        GenericSatCounter_def ctr_threshold_r_def ctr_threshold_def mask_nbits_def)
qed

theorem gshare_history_exact_witness:
  "\<exists>s' fl. cp_run GshareBP_ops (gs_small, []) demo_events = Inr (s', fl) \<and>
     reg_hist 3 (gs_globalHistoryReg s' ! 1) = [True, False, False]"
proof -
  have "list_all (event_ok (\<lambda>br. br_tid br < unat (gsp_numThreads gsp_small))) demo_events"
    by (rule demo_events_ok) (simp_all add: cond_branch_def gsp_small_def)
  moreover have "unat (gs_globalHistoryBits gs_small) = 3" by (simp add: gs_small_def)
  moreover have "replicate 3 False = [False, False, False]" by (simp add: numeral_3_eq_3)
  ultimately show ?thesis
    using gshare_history_exact [OF gs_small_init _ demo_br_run, of 1]
    by (auto simp: gsp_small_def cond_branch_def)
qed

fun GshareBP_commits ::
  "GshareBP \<Rightarrow> ThreadID \<Rightarrow> Addr \<Rightarrow> bool list \<Rightarrow> GshareBPHistory option \<Rightarrow> StaticInst \<Rightarrow> Addr \<Rightarrow>
   GshareBP result" where
  "GshareBP_commits s tid pc [] h inst target = Inr s"
| "GshareBP_commits s tid pc (t # ts) h inst target =
     bind_r (GshareBP_update s tid pc t h False inst target)
       (\<lambda>(s, _). GshareBP_commits s tid pc ts h inst target)"

lemma GshareBP_commits_eq:
  assumes "GshareBP_wf s"
  defines "i \<equiv> \<lambda>h pc. gshare_idx s pc (gsh_globalHistoryReg h)"
  shows "GshareBP_commits s tid pc ts (Some h) inst target =
      Inr (s\<lparr>gs_globalCtrs := (gs_globalCtrs s)[i h pc := fold ctr_step ts (gs_globalCtrs s ! i h pc)]\<rparr>)"
  using assms(1) unfolding i_def
proof (induction ts arbitrary: s)
  case (Cons t ts)
  let ?i = "gshare_idx s pc (gsh_globalHistoryReg h)"
  let ?s = "s\<lparr>gs_globalCtrs := (gs_globalCtrs s)[?i := ctr_step t (gs_globalCtrs s ! ?i)]\<rparr>"
  have i: "?i < length (gs_globalCtrs s)" by (rule gshare_idx_less [OF Cons.prems])
  have "gshare_idx ?s pc (gsh_globalHistoryReg h) = ?i" by (simp add: gshare_idx_def)
  then show ?case
    using Cons.IH [OF GshareBP_train_wf [OF Cons.prems i, of t]] i
    by (simp add: GshareBP_update_eq [OF Cons.prems])
qed simp

text \<open>C14: Gshare trains the counter that made the prediction: after a lookup in any reachable state,
  half a counter range of commits of that branch with one outcome under the recorded history makes
  the next lookup of the branch predict that outcome, whatever the table held before.\<close>

theorem gshare_learns:
  assumes "GshareBP_init p = Inr s0" and "cp_run GshareBP_ops (s0, []) evs = Inr (s, fl)"
    and "list_all (event_ok (\<lambda>br. br_tid br < unat (gsp_numThreads p))) evs"
    and "tid < unat (gsp_numThreads p)"
    and "GshareBP_lookup s tid pc None = Inr (b, s1, h)"
    and "2 ^ (unat (gsp_global_counter_bits p) - 1) \<le> n"
  shows "\<exists>s2 h2. GshareBP_commits s1 tid pc (replicate n t) h inst target = Inr s2 \<and>
    GshareBP_lookup s2 tid pc None = Inr (t, s2, h2)"
proof -
  note wf0 = GshareBP_init_wf [OF assms(1)]
  have c: "length (gs_globalHistoryReg (gshare_cfg s0)) = unat (gsp_numThreads p)"
    using wf0(2) by (simp add: gshare_cfg_def)
  have wf: "GshareBP_wf s" and cfg: "gshare_cfg s = gshare_cfg s0"
    using gshare.history_refinement [OF wf0(1), of evs] assms(2,3) by (auto simp: c)
  have tid: "tid < length (gs_globalHistoryReg s)"
    and bits: "gs_globalCtrBits s = gsp_global_counter_bits p"
    using arg_cong [OF cfg, of "\<lambda>s. length (gs_globalHistoryReg s)"]
      arg_cong [OF cfg, of gs_globalCtrBits] assms(1,4) wf0(2)
    by (auto simp: gshare_cfg_def GshareBP_init_def result_iffs Let_def)
  let ?r = "gs_globalHistoryReg s ! tid" let ?i = "gshare_idx s pc ?r"
  let ?b = "unat (gs_globalCtrBits s)"
  have i: "?i < length (gs_globalCtrs s)" by (rule gshare_idx_less [OF wf])
  have s1: "s1 = s" and h: "\<exists>h'. h = Some h' \<and> gsh_globalHistoryReg h' = ?r"
    using assms(5) GshareBP_lookup_eq [OF wf tid, of pc None] by auto
  define s2 where "s2 = s\<lparr>gs_globalCtrs := (gs_globalCtrs s)[?i :=
    fold ctr_step (replicate n t) (gs_globalCtrs s ! ?i)]\<rparr>"
  have com: "GshareBP_commits s1 tid pc (replicate n t) h inst target = Inr s2"
    using h s1 GshareBP_commits_eq [OF wf] by (auto simp: s2_def)
  have ci: "sc_wf ?b (gs_globalCtrs s ! ?i)" using wf i by (simp add: GshareBP_wf_def list_all_nthD)
  have "sc_wf ?b (fold ctr_step (replicate n t) (gs_globalCtrs s ! ?i))"
    using ctr_steps [OF ci] by blast
  then have wf2: "GshareBP_wf s2"
    using wf i by (simp add: GshareBP_wf_def s2_def list_all_update del: fold_replicate)
  have "1 \<le> ?b" using wf by (simp add: GshareBP_wf_def word_le_nat_alt)
  then have "predicts_taken ?b (gs_globalCtrs s2 ! ?i) = t"
    using half_range_learns [OF ci] assms(6) bits i by (simp add: s2_def del: fold_replicate)
  moreover have "gshare_idx s2 pc ?r = ?i" "gs_globalHistoryReg s2 = gs_globalHistoryReg s"
    "gs_globalCtrBits s2 = gs_globalCtrBits s"
    by (simp_all add: gshare_idx_def s2_def)
  ultimately show ?thesis
    using com GshareBP_lookup_eq [OF wf2, of tid pc None] tid by auto
qed

theorem gshare_learns_witness:
  "\<exists>s1 h s2 h2. GshareBP_lookup gs_small 1 64 None = Inr (False, s1, h) \<and>
     GshareBP_commits s1 1 64 [True, True] h (br_inst (cond_branch 1 64 True)) 0 = Inr s2 \<and>
     GshareBP_lookup s2 1 64 None = Inr (True, s2, h2)"
proof -
  have l: "GshareBP_lookup gs_small 1 64 None =
      Inr (False, gs_small, Some \<lparr>gsh_globalHistoryReg = 0, gsh_finalPred = False\<rparr>)"
    by (simp add: GshareBP_lookup_def gs_small_def xor_index_def Let_def)
  have r: "replicate 2 True = [True, True]" by (simp add: numeral_2_eq_2)
  have "1 < unat (gsp_numThreads gsp_small)" "2 ^ (unat (gsp_global_counter_bits gsp_small) - 1) \<le> (2 :: nat)"
    by (simp_all add: gsp_small_def)
  from gshare_learns [OF gs_small_init _ _ this(1) l this(2), of "[]" "[]" True] l
  show ?thesis by (auto simp: r)
qed

end
