(* ===== verification/BiMode_BP.thy ===== *)
theory BiMode_BP
  imports Global_History
begin

text \<open>
  \<open>cpu/pred/bi_mode.cc\<close>: two tables of direction counters indexed by the address xor the
  global history, and a table of choice counters, indexed by the address, that selects between
  them.  Shown here: safety, the refinement of the history registers, what one training step
  changes, and a bound on the number of mispredictions of a biased branch.
\<close>

section \<open>The class\<close>

record BiModeBPParams =
  bmp_numThreads :: u32
  bmp_globalPredictorSize :: u32
  bmp_globalCtrBits :: u32
  bmp_choicePredictorSize :: u32
  bmp_choiceCtrBits :: u32
  bmp_instShiftAmt :: u32

record BiModeBPHistory =
  bmh_globalHistoryReg :: u32
  bmh_takenUsed :: bool
  bmh_takenPred :: bool
  bmh_notTakenPred :: bool
  bmh_finalPred :: bool

record BiModeBP =
  bm_instShiftAmt :: u32
  bm_globalHistoryReg :: "u32 list"
  bm_globalHistoryBits :: u32
  bm_historyRegisterMask :: u32
  bm_choicePredictorSize :: u32
  bm_choiceCtrBits :: u32
  bm_choiceHistoryMask :: u32
  bm_globalPredictorSize :: u32
  bm_globalCtrBits :: u32
  bm_globalHistoryMask :: u32
  bm_choiceCounters :: "SatCounter8 list"
  bm_takenCounters :: "SatCounter8 list"
  bm_notTakenCounters :: "SatCounter8 list"
  bm_choiceThreshold :: u32
  bm_takenThreshold :: u32
  bm_notTakenThreshold :: u32

definition BiModeBP_init :: "BiModeBPParams \<Rightarrow> BiModeBP result" where
  "BiModeBP_init params =
     (let gsize = bmp_globalPredictorSize params; csize = bmp_choicePredictorSize params in
      bind_r (ceilLog2 4 (ucast gsize)) (\<lambda>hbits.
      bind_r (GenericSatCounter (unat (bmp_choiceCtrBits params)) 0) (\<lambda>cc.
      bind_r (GenericSatCounter (unat (bmp_globalCtrBits params)) 0) (\<lambda>gc.
        check (isPowerOf2 csize) (Fatal ''Invalid choice predictor size.'')
        (check (isPowerOf2 gsize) (Fatal ''Invalid global history predictor size.'')
        (bind_r (ctr_threshold_r (bmp_choiceCtrBits params)) (\<lambda>cthr.
         bind_r (ctr_threshold_r (bmp_globalCtrBits params)) (\<lambda>gthr.
          Inr \<lparr>bm_instShiftAmt = bmp_instShiftAmt params,
               bm_globalHistoryReg = replicate (unat (bmp_numThreads params)) 0,
               bm_globalHistoryBits = of_nat hbits,
               bm_historyRegisterMask = ucast (mask_nbits hbits),
               bm_choicePredictorSize = csize,
               bm_choiceCtrBits = bmp_choiceCtrBits params,
               bm_choiceHistoryMask = csize - 1,
               bm_globalPredictorSize = gsize,
               bm_globalCtrBits = bmp_globalCtrBits params,
               bm_globalHistoryMask = gsize - 1,
               bm_choiceCounters = replicate (unat csize) cc,
               bm_takenCounters = replicate (unat gsize) gc,
               bm_notTakenCounters = replicate (unat gsize) gc,
               bm_choiceThreshold = cthr, bm_takenThreshold = gthr,
               bm_notTakenThreshold = gthr\<rparr>))))))))"

definition BiModeBP_uncondBranch ::
  "BiModeBP \<Rightarrow> ThreadID \<Rightarrow> Addr \<Rightarrow> BiModeBPHistory option result" where
  "BiModeBP_uncondBranch s tid pc =
     bind_r (vec_get (bm_globalHistoryReg s) tid) (\<lambda>r.
       Inr (Some \<lparr>bmh_globalHistoryReg = r, bmh_takenUsed = True, bmh_takenPred = True,
                  bmh_notTakenPred = True, bmh_finalPred = True\<rparr>))"

definition BiModeBP_updateGlobalHistReg :: "BiModeBP \<Rightarrow> ThreadID \<Rightarrow> bool \<Rightarrow> BiModeBP result" where
  "BiModeBP_updateGlobalHistReg s tid taken =
     bind_r (vec_get (bm_globalHistoryReg s) tid) (\<lambda>r.
       let r = (if taken then push_bit 1 r OR 1 else push_bit 1 r);
           r = r AND bm_historyRegisterMask s in
       bind_r (vec_set (bm_globalHistoryReg s) tid r) (\<lambda>rs.
         Inr (s\<lparr>bm_globalHistoryReg := rs\<rparr>)))"

definition BiModeBP_updateHistories ::
  "BiModeBP \<Rightarrow> ThreadID \<Rightarrow> Addr \<Rightarrow> bool \<Rightarrow> bool \<Rightarrow> Addr \<Rightarrow> StaticInst \<Rightarrow> BiModeBPHistory option \<Rightarrow>
   (BiModeBP \<times> BiModeBPHistory option) result" where
  "BiModeBP_updateHistories s tid pc uncond taken target inst bp_history =
     check (uncond \<or> bp_history \<noteq> None) (Assert ''uncond || bp_history'')
       (bind_r (if uncond then BiModeBP_uncondBranch s tid pc else Inr bp_history) (\<lambda>h.
        bind_r (BiModeBP_updateGlobalHistReg s tid taken) (\<lambda>s. Inr (s, h))))"

definition BiModeBP_squash ::
  "BiModeBP \<Rightarrow> ThreadID \<Rightarrow> BiModeBPHistory option \<Rightarrow>
   (BiModeBP \<times> BiModeBPHistory option) result" where
  "BiModeBP_squash s tid bp_history =
     (case bp_history of
        None \<Rightarrow> Inl Undefined
      | Some history \<Rightarrow>
          bind_r (vec_set (bm_globalHistoryReg s) tid (bmh_globalHistoryReg history)) (\<lambda>rs.
            Inr (s\<lparr>bm_globalHistoryReg := rs\<rparr>, None)))"

definition BiModeBP_lookup ::
  "BiModeBP \<Rightarrow> ThreadID \<Rightarrow> Addr \<Rightarrow> BiModeBPHistory option \<Rightarrow>
   (bool \<times> BiModeBP \<times> BiModeBPHistory option) result" where
  "BiModeBP_lookup s tid branchAddr bp_history =
     bind_r (vec_get (bm_globalHistoryReg s) tid) (\<lambda>r.
       let cidx = pc_index (bm_instShiftAmt s) (bm_choiceHistoryMask s) branchAddr;
           gidx = xor_index (bm_instShiftAmt s) (bm_globalHistoryMask s) branchAddr r in
       check (cidx < bm_choicePredictorSize s) (Assert ''choiceHistoryIdx < choicePredictorSize'')
       (check (gidx < bm_globalPredictorSize s) (Assert ''globalHistoryIdx < globalPredictorSize'')
       (bind_r (vec_get (bm_choiceCounters s) (unat cidx)) (\<lambda>cc.
        bind_r (vec_get (bm_takenCounters s) (unat gidx)) (\<lambda>tc.
        bind_r (vec_get (bm_notTakenCounters s) (unat gidx)) (\<lambda>nc.
          let choicePrediction = bm_choiceThreshold s < ucast (counter cc);
              takenGHBPrediction = bm_takenThreshold s < ucast (counter tc);
              notTakenGHBPrediction = bm_notTakenThreshold s < ucast (counter nc);
              finalPrediction =
                (if choicePrediction then takenGHBPrediction else notTakenGHBPrediction) in
          Inr (finalPrediction, s,
               Some \<lparr>bmh_globalHistoryReg = r, bmh_takenUsed = choicePrediction,
                     bmh_takenPred = takenGHBPrediction, bmh_notTakenPred = notTakenGHBPrediction,
                     bmh_finalPred = finalPrediction\<rparr>)))))))"

definition BiModeBP_update ::
  "BiModeBP \<Rightarrow> ThreadID \<Rightarrow> Addr \<Rightarrow> bool \<Rightarrow> BiModeBPHistory option \<Rightarrow> bool \<Rightarrow> StaticInst \<Rightarrow> Addr \<Rightarrow>
   (BiModeBP \<times> BiModeBPHistory option) result" where
  "BiModeBP_update s tid branchAddr taken bp_history squashed inst target =
     (case bp_history of
        None \<Rightarrow> Inl (Assert ''bp_history'')
      | Some history \<Rightarrow>
          if squashed
          then bind_r (vec_set (bm_globalHistoryReg s) tid
                         (shift_in (bmh_globalHistoryReg history) taken)) (\<lambda>rs.
                 Inr (s\<lparr>bm_globalHistoryReg := rs\<rparr>, bp_history))
          else
            let cidx = pc_index (bm_instShiftAmt s) (bm_choiceHistoryMask s) branchAddr;
                gidx = xor_index (bm_instShiftAmt s) (bm_globalHistoryMask s) branchAddr
                         (bmh_globalHistoryReg history) in
            check (cidx < bm_choicePredictorSize s)
              (Assert ''choiceHistoryIdx < choicePredictorSize'')
            (check (gidx < bm_globalPredictorSize s)
              (Assert ''globalHistoryIdx < globalPredictorSize'')
            (bind_r
               (if bmh_takenUsed history
                then bind_r (ctr_train taken (bm_takenCounters s) (unat gidx)) (\<lambda>cs.
                       Inr (s\<lparr>bm_takenCounters := cs\<rparr>))
                else bind_r (ctr_train taken (bm_notTakenCounters s) (unat gidx)) (\<lambda>cs.
                       Inr (s\<lparr>bm_notTakenCounters := cs\<rparr>))) (\<lambda>s.
             bind_r
               (if bmh_finalPred history = taken
                then (if bmh_finalPred history = bmh_takenUsed history
                      then ctr_train taken (bm_choiceCounters s) (unat cidx)
                      else Inr (bm_choiceCounters s))
                else ctr_train taken (bm_choiceCounters s) (unat cidx)) (\<lambda>cs.
               Inr (s\<lparr>bm_choiceCounters := cs\<rparr>, None))))))"

definition BiModeBP_ops :: "(BiModeBP, BiModeBPHistory) ConditionalPredictor" where
  "BiModeBP_ops =
     \<lparr>cp_lookup = BiModeBP_lookup, cp_updateHistories = BiModeBP_updateHistories,
      cp_squash = BiModeBP_squash, cp_update = BiModeBP_update,
      cp_branchPlaceholder = branchPlaceholder_default\<rparr>"

section \<open>Invariant\<close>

definition BiModeBP_wf :: "BiModeBP \<Rightarrow> bool" where
  "BiModeBP_wf s \<longleftrightarrow>
     1 \<le> bm_globalCtrBits s \<and> unat (bm_globalCtrBits s) \<le> 8 \<and>
     1 \<le> bm_choiceCtrBits s \<and> unat (bm_choiceCtrBits s) \<le> 8 \<and>
     bm_globalPredictorSize s \<noteq> 0 \<and> bm_choicePredictorSize s \<noteq> 0 \<and>
     unat (bm_globalHistoryBits s) < 32 \<and>
     bm_globalHistoryMask s = bm_globalPredictorSize s - 1 \<and>
     bm_choiceHistoryMask s = bm_choicePredictorSize s - 1 \<and>
     bm_historyRegisterMask s = bm_globalPredictorSize s - 1 \<and>
     bm_globalPredictorSize s - 1 = mask (unat (bm_globalHistoryBits s)) \<and>
     bm_choiceThreshold s = ctr_threshold (bm_choiceCtrBits s) \<and>
     bm_takenThreshold s = ctr_threshold (bm_globalCtrBits s) \<and>
     bm_notTakenThreshold s = ctr_threshold (bm_globalCtrBits s) \<and>
     length (bm_choiceCounters s) = unat (bm_choicePredictorSize s) \<and>
     length (bm_takenCounters s) = unat (bm_globalPredictorSize s) \<and>
     length (bm_notTakenCounters s) = unat (bm_globalPredictorSize s) \<and>
     ctrs_wf (unat (bm_choiceCtrBits s)) (bm_choiceCounters s) \<and>
     ctrs_wf (unat (bm_globalCtrBits s)) (bm_takenCounters s) \<and>
     ctrs_wf (unat (bm_globalCtrBits s)) (bm_notTakenCounters s)"

definition bimode_view :: "BiModeBP \<Rightarrow> u32 list" where
  "bimode_view s = masked_regs (bm_historyRegisterMask s) (bm_globalHistoryReg s)"

lemma BiModeBP_init_wf:
  assumes "BiModeBP_init p = Inr s"
  shows "BiModeBP_wf s" and "length (bm_globalHistoryReg s) = unat (bmp_numThreads p)"
    and "bimode_view s = replicate (unat (bmp_numThreads p)) 0"
    and "bm_globalCtrBits s = bmp_globalCtrBits p"
proof -
  obtain k cc gc where k: "ceilLog2 4 (ucast (bmp_globalPredictorSize p)) = Inr k"
    and cc: "GenericSatCounter (unat (bmp_choiceCtrBits p)) (0 :: u8) = Inr cc"
    and gc: "GenericSatCounter (unat (bmp_globalCtrBits p)) (0 :: u8) = Inr gc"
    and pow: "isPowerOf2 (bmp_globalPredictorSize p)" "isPowerOf2 (bmp_choicePredictorSize p)"
    and th: "unat (bmp_choiceCtrBits p - 1) < 64" "unat (bmp_globalCtrBits p - 1) < 64"
    and s: "s = \<lparr>bm_instShiftAmt = bmp_instShiftAmt p,
               bm_globalHistoryReg = replicate (unat (bmp_numThreads p)) 0,
               bm_globalHistoryBits = of_nat k,
               bm_historyRegisterMask = ucast (mask_nbits k),
               bm_choicePredictorSize = bmp_choicePredictorSize p,
               bm_choiceCtrBits = bmp_choiceCtrBits p,
               bm_choiceHistoryMask = bmp_choicePredictorSize p - 1,
               bm_globalPredictorSize = bmp_globalPredictorSize p,
               bm_globalCtrBits = bmp_globalCtrBits p,
               bm_globalHistoryMask = bmp_globalPredictorSize p - 1,
               bm_choiceCounters = replicate (unat (bmp_choicePredictorSize p)) cc,
               bm_takenCounters = replicate (unat (bmp_globalPredictorSize p)) gc,
               bm_notTakenCounters = replicate (unat (bmp_globalPredictorSize p)) gc,
               bm_choiceThreshold = ctr_threshold (bmp_choiceCtrBits p),
               bm_takenThreshold = ctr_threshold (bmp_globalCtrBits p),
               bm_notTakenThreshold = ctr_threshold (bmp_globalCtrBits p)\<rparr>"
    using assms by (auto simp: BiModeBP_init_def result_iffs ctr_threshold_r_eq_Inr_iff Let_def)
  note m = mask_pow2 [OF pow(1) k]
  note b = counter_bits_ok [OF cc th(1)] counter_bits_ok [OF gc th(2)]
  have "sc_wf (unat (bmp_choiceCtrBits p)) cc" "sc_wf (unat (bmp_globalCtrBits p)) gc"
    using GenericSatCounter_wf [OF cc] GenericSatCounter_wf [OF gc] by simp_all
  moreover have "unat (of_nat k :: u32) = k" using m(3) by (simp add: unat_of_nat)
  ultimately show "BiModeBP_wf s"
    using b m pow [THEN isPowerOf2_nonzero] by (simp add: BiModeBP_wf_def s)
  show "length (bm_globalHistoryReg s) = unat (bmp_numThreads p)"
    and "bimode_view s = replicate (unat (bmp_numThreads p)) 0"
    and "bm_globalCtrBits s = bmp_globalCtrBits p"
    by (simp_all add: s bimode_view_def masked_regs_def)
qed

definition bm_gidx :: "BiModeBP \<Rightarrow> Addr \<Rightarrow> u32 \<Rightarrow> nat" where
  "bm_gidx s pc r = unat (xor_index (bm_instShiftAmt s) (bm_globalHistoryMask s) pc r)"

definition bm_cidx :: "BiModeBP \<Rightarrow> Addr \<Rightarrow> nat" where
  "bm_cidx s pc = unat (pc_index (bm_instShiftAmt s) (bm_choiceHistoryMask s) pc)"

lemma bm_idx_less:
  assumes "BiModeBP_wf s"
  shows "bm_gidx s pc r < length (bm_takenCounters s)"
    and "bm_gidx s pc r < length (bm_notTakenCounters s)"
    and "bm_cidx s pc < length (bm_choiceCounters s)"
  using assms unat_xor_index_less [of "bm_globalPredictorSize s"]
    unat_pc_index_less [of "bm_choicePredictorSize s"]
  by (simp_all add: bm_gidx_def bm_cidx_def BiModeBP_wf_def)

text \<open>The three predictions of a lookup, and the training step, with the checks discharged.\<close>

definition bm_choice :: "BiModeBP \<Rightarrow> Addr \<Rightarrow> bool" where
  "bm_choice s pc = predicts_taken (unat (bm_choiceCtrBits s)) (bm_choiceCounters s ! bm_cidx s pc)"

definition bm_dir :: "BiModeBP \<Rightarrow> bool \<Rightarrow> Addr \<Rightarrow> u32 \<Rightarrow> bool" where
  "bm_dir s c pc r =
     predicts_taken (unat (bm_globalCtrBits s))
       ((if c then bm_takenCounters s else bm_notTakenCounters s) ! bm_gidx s pc r)"

definition bm_record :: "BiModeBP \<Rightarrow> ThreadID \<Rightarrow> Addr \<Rightarrow> BiModeBPHistory" where
  "bm_record s tid pc =
     (let r = bm_globalHistoryReg s ! tid in
      \<lparr>bmh_globalHistoryReg = r, bmh_takenUsed = bm_choice s pc, bmh_takenPred = bm_dir s True pc r,
       bmh_notTakenPred = bm_dir s False pc r, bmh_finalPred = bm_dir s (bm_choice s pc) pc r\<rparr>)"

definition bm_trained :: "BiModeBP \<Rightarrow> Addr \<Rightarrow> bool \<Rightarrow> BiModeBPHistory \<Rightarrow> BiModeBP" where
  "bm_trained s pc t h =
     s\<lparr>bm_takenCounters :=
         (if bmh_takenUsed h
          then train_at t (bm_takenCounters s) (bm_gidx s pc (bmh_globalHistoryReg h))
          else bm_takenCounters s),
       bm_notTakenCounters :=
         (if bmh_takenUsed h then bm_notTakenCounters s
          else train_at t (bm_notTakenCounters s) (bm_gidx s pc (bmh_globalHistoryReg h))),
       bm_choiceCounters :=
         (if bmh_finalPred h = t \<and> bmh_takenUsed h \<noteq> t then bm_choiceCounters s
          else train_at t (bm_choiceCounters s) (bm_cidx s pc))\<rparr>"

lemma BiModeBP_lookup_eq:
  assumes "BiModeBP_wf s" and "tid < length (bm_globalHistoryReg s)"
  shows "BiModeBP_lookup s tid pc h =
    Inr (bmh_finalPred (bm_record s tid pc), s, Some (bm_record s tid pc))"
  using assms(1,2) bm_idx_less(1,2) [OF assms(1), of pc "bm_globalHistoryReg s ! tid"]
    bm_idx_less(3) [OF assms(1), of pc]
  by (simp add: BiModeBP_lookup_def bm_record_def Let_def bm_choice_def bm_dir_def bm_gidx_def
      bm_cidx_def word_less_nat_alt BiModeBP_wf_def above_threshold [unfolded word_less_nat_alt])

lemma BiModeBP_updateGlobalHistReg_eq:
  assumes "tid < length (bm_globalHistoryReg s)"
  shows "BiModeBP_updateGlobalHistReg s tid taken =
    Inr (s\<lparr>bm_globalHistoryReg := (bm_globalHistoryReg s)[tid :=
      shift_masked (bm_historyRegisterMask s) (bm_globalHistoryReg s ! tid) taken]\<rparr>)"
  using assms
  by (simp add: BiModeBP_updateGlobalHistReg_def Let_def shift_masked_def shift_in_def)

lemma BiModeBP_update_eq:
  assumes "BiModeBP_wf s"
  shows "BiModeBP_update s tid pc taken (Some h) False inst target =
    Inr (bm_trained s pc taken h, None)"
  using assms bm_idx_less(1,2) [OF assms, of pc "bmh_globalHistoryReg h"]
    bm_idx_less(3) [OF assms, of pc]
  by (auto simp: BiModeBP_update_def Let_def bm_gidx_def bm_cidx_def word_less_nat_alt
      ctr_train_in BiModeBP_wf_def bm_trained_def train_at_def)

lemma BiModeBP_train_wf:
  assumes "BiModeBP_wf s"
  shows "BiModeBP_wf (bm_trained s pc t h)"
  using assms bm_idx_less(1,2) [OF assms, of pc "bmh_globalHistoryReg h"]
    bm_idx_less(3) [OF assms, of pc]
  by (simp add: BiModeBP_wf_def bm_trained_def ctrs_wf_train_at)

lemma BiModeBP_reg_wf [simp]:
  "BiModeBP_wf (s\<lparr>bm_globalHistoryReg := rs\<rparr>) = BiModeBP_wf s"
  by (simp add: BiModeBP_wf_def)

section \<open>Speculative history\<close>

definition bimode_cfg :: "BiModeBP \<Rightarrow> BiModeBP" where
  "bimode_cfg s = s\<lparr>bm_globalHistoryReg := replicate (length (bm_globalHistoryReg s)) 0,
     bm_choiceCounters := [], bm_takenCounters := [], bm_notTakenCounters := []\<rparr>"

definition bimode_undo :: "BiModeBP \<Rightarrow> branch \<Rightarrow> BiModeBPHistory option \<Rightarrow> u32 list \<Rightarrow> u32 list" where
  "bimode_undo c br h v =
     v[br_tid br :=
       (case h of None \<Rightarrow> 0 | Some h \<Rightarrow> bmh_globalHistoryReg h) AND bm_historyRegisterMask c]"

lemma bimode_mask:
  assumes "BiModeBP_wf s"
  shows "bm_historyRegisterMask s = mask (unat (bm_globalHistoryBits s))"
  using assms by (simp add: BiModeBP_wf_def)

lemma bimode_speculate:
  assumes wf: "BiModeBP_wf s" and t: "br_tid br < length (bm_globalHistoryReg s)"
  shows "\<exists>b h. speculate BiModeBP_ops s br =
    Inr (b, s\<lparr>bm_globalHistoryReg := (bm_globalHistoryReg s)[br_tid br :=
        shift_masked (bm_historyRegisterMask s) (bm_globalHistoryReg s ! br_tid br) (br_taken br)]\<rparr>,
      Some h) \<and> bmh_globalHistoryReg h = bm_globalHistoryReg s ! br_tid br"
  using t
  by (cases "br_uncond br")
    (auto simp: speculate_def BiModeBP_ops_def BiModeBP_updateHistories_def
      BiModeBP_uncondBranch_def BiModeBP_updateGlobalHistReg_eq BiModeBP_lookup_eq [OF wf]
      bm_record_def Let_def)

lemma bimode_train_frame [simp]:
  "bimode_cfg (bm_trained s pc t h) = bimode_cfg s"
  "bimode_view (bm_trained s pc t h) = bimode_view s"
  by (simp_all add: bimode_cfg_def bimode_view_def bm_trained_def)

interpretation bimode: speculative_history BiModeBP_ops BiModeBP_wf bimode_cfg
  "\<lambda>c br. br_tid br < length (bm_globalHistoryReg c)" "\<lambda>_ _ h. h \<noteq> None" bimode_view
  "\<lambda>c. push_reg (bm_historyRegisterMask c)" bimode_undo
proof (unfold_locales, goal_cases)
  case (4 s br)
  then have t: "br_tid br < length (bm_globalHistoryReg s)" by (simp add: bimode_cfg_def)
  from bimode_speculate [OF 4(1) t] show ?case
    using 4 t bimode_mask [OF 4(1)]
    by (auto simp: bimode_cfg_def bimode_view_def push_reg_shift bimode_undo_def push_reg_undo)
next
  case (5 s br h)
  then show ?case
    by (auto simp: BiModeBP_ops_def BiModeBP_squash_def bimode_cfg_def bimode_view_def
        bimode_undo_def masked_regs_update)
next
  case (6 s br h)
  then obtain h' where h: "h = Some h'" by auto
  have t: "br_tid br < length (bm_globalHistoryReg s)" using 6 by (simp add: bimode_cfg_def)
  let ?k = "unat (bm_globalHistoryBits s)"
  have "push_reg (mask ?k) br (masked_regs (mask ?k)
      ((bm_globalHistoryReg s)[br_tid br := bmh_globalHistoryReg h'])) =
    masked_regs (mask ?k) ((bm_globalHistoryReg s)[br_tid br :=
      shift_in (bmh_globalHistoryReg h') (br_taken br)])"
    using push_reg_masked [of br "(bm_globalHistoryReg s)[br_tid br := bmh_globalHistoryReg h']" ?k] t
    by simp
  then show ?case
    using 6(1) t bimode_mask [OF 6(1)]
    by (auto simp: h BiModeBP_ops_def BiModeBP_update_def bimode_cfg_def bimode_view_def
        bimode_undo_def masked_regs_update)
next
  case (7 s br h)
  then show ?case
    by (auto simp: BiModeBP_ops_def BiModeBP_update_eq BiModeBP_train_wf)
qed (simp_all add: bimode_undo_def)

section \<open>Rounds\<close>

text \<open>
  \<open>n\<close> times the branch is predicted and committed with the outcome \<open>t\<close> under the same
  history; the second component counts the mispredictions.
\<close>

primrec BiModeBP_rounds ::
  "nat \<Rightarrow> BiModeBP \<Rightarrow> ThreadID \<Rightarrow> Addr \<Rightarrow> bool \<Rightarrow> StaticInst \<Rightarrow> Addr \<Rightarrow> (BiModeBP \<times> nat) result" where
  "BiModeBP_rounds 0 s tid pc t inst target = Inr (s, 0)"
| "BiModeBP_rounds (Suc n) s tid pc t inst target =
     bind_r (BiModeBP_lookup s tid pc None) (\<lambda>(p, s, h).
     bind_r (BiModeBP_update s tid pc t h False inst target) (\<lambda>(s, _).
     bind_r (BiModeBP_rounds n s tid pc t inst target) (\<lambda>(s, m).
       Inr (s, (if p = t then 0 else 1) + m))))"

definition bm_debt :: "BiModeBP \<Rightarrow> Addr \<Rightarrow> u32 \<Rightarrow> bool \<Rightarrow> nat" where
  "bm_debt s pc r t =
     debt (unat (bm_globalCtrBits s)) t (bm_takenCounters s ! bm_gidx s pc r) +
     debt (unat (bm_globalCtrBits s)) t (bm_notTakenCounters s ! bm_gidx s pc r)"

lemma bm_debt_round:
  assumes wf: "BiModeBP_wf s" and tid: "tid < length (bm_globalHistoryReg s)"
  defines "r \<equiv> bm_globalHistoryReg s ! tid"
  shows "bm_debt (bm_trained s pc t (bm_record s tid pc)) pc r t +
    (if bmh_finalPred (bm_record s tid pc) = t then 0 else 1) \<le> bm_debt s pc r t"
proof -
  let ?i = "bm_gidx s pc r" let ?b = "unat (bm_globalCtrBits s)"
  note i = bm_idx_less(1,2) [OF wf, of pc r]
  have b: "1 \<le> ?b" using wf by (simp add: BiModeBP_wf_def word_le_nat_alt)
  have c: "sc_wf ?b (bm_takenCounters s ! ?i)" "sc_wf ?b (bm_notTakenCounters s ! ?i)"
    using wf i by (auto simp: BiModeBP_wf_def list_all_nthD)
  note st = debt_step(1) [OF c(1) b, of t] debt_step(1) [OF c(2) b, of t]
  have idx: "bm_gidx (bm_trained s pc t h) = bm_gidx s" for h
    by (simp add: bm_gidx_def bm_trained_def fun_eq_iff)
  have reg: "bmh_globalHistoryReg (bm_record s tid pc) = r"
    by (simp add: bm_record_def r_def Let_def)
  show ?thesis
  proof (cases "bm_choice s pc")
    case True
    then have u: "bmh_takenUsed (bm_record s tid pc)"
        "bmh_finalPred (bm_record s tid pc) = predicts_taken ?b (bm_takenCounters s ! ?i)"
      by (simp_all add: bm_record_def r_def Let_def bm_dir_def)
    then have "bm_debt (bm_trained s pc t (bm_record s tid pc)) pc r t =
        debt ?b t (ctr_step t (bm_takenCounters s ! ?i)) + debt ?b t (bm_notTakenCounters s ! ?i)"
      using i by (simp add: bm_debt_def idx reg) (simp add: bm_trained_def train_at_def reg)
    then show ?thesis using st(1) u by (simp add: bm_debt_def)
  next
    case False
    then have u: "\<not> bmh_takenUsed (bm_record s tid pc)"
        "bmh_finalPred (bm_record s tid pc) = predicts_taken ?b (bm_notTakenCounters s ! ?i)"
      by (simp_all add: bm_record_def r_def Let_def bm_dir_def)
    then have "bm_debt (bm_trained s pc t (bm_record s tid pc)) pc r t =
        debt ?b t (bm_takenCounters s ! ?i) + debt ?b t (ctr_step t (bm_notTakenCounters s ! ?i))"
      using i by (simp add: bm_debt_def idx reg) (simp add: bm_trained_def train_at_def reg)
    then show ?thesis using st(2) u by (simp add: bm_debt_def)
  qed
qed

lemma BiModeBP_rounds_bound:
  assumes "BiModeBP_wf s" and "tid < length (bm_globalHistoryReg s)"
  shows "\<exists>s' m. BiModeBP_rounds n s tid pc t inst target = Inr (s', m) \<and> BiModeBP_wf s' \<and>
    m \<le> bm_debt s pc (bm_globalHistoryReg s ! tid) t"
  using assms
proof (induction n arbitrary: s)
  case (Suc n)
  let ?s = "bm_trained s pc t (bm_record s tid pc)"
  have wf: "BiModeBP_wf ?s" by (rule BiModeBP_train_wf [OF Suc.prems(1)])
  have reg: "bm_globalHistoryReg ?s = bm_globalHistoryReg s" by (simp add: bm_trained_def)
  obtain s' m where "BiModeBP_rounds n ?s tid pc t inst target = Inr (s', m)" "BiModeBP_wf s'"
      "m \<le> bm_debt ?s pc (bm_globalHistoryReg s ! tid) t"
    using Suc.IH [OF wf] Suc.prems(2) unfolding reg by blast
  then show ?case
    using bm_debt_round [OF Suc.prems, of pc t]
    by (simp add: BiModeBP_lookup_eq [OF Suc.prems] BiModeBP_update_eq [OF Suc.prems(1)])
qed simp

section \<open>Properties\<close>

lemma bimode_reach:
  assumes "BiModeBP_init p = Inr s"
    and "list_all (event_ok (\<lambda>br. br_tid br < unat (bmp_numThreads p))) evs"
    and "br_run ([], []) evs = (inflight, committed)"
  shows "\<exists>s' fl. cp_run BiModeBP_ops (s, []) evs = Inr (s', fl) \<and> BiModeBP_wf s' \<and>
    length (bm_globalHistoryReg s') = unat (bmp_numThreads p) \<and>
    bm_globalCtrBits s' = bmp_globalCtrBits p \<and>
    bm_historyRegisterMask s' = mask (unat (bm_globalHistoryBits s)) \<and>
    bimode_view s' = foldr (push_reg (mask (unat (bm_globalHistoryBits s))))
      (inflight @ committed) (replicate (unat (bmp_numThreads p)) 0)"
proof -
  note wf = BiModeBP_init_wf [OF assms(1)]
  let ?k = "unat (bm_globalHistoryBits s)"
  have c: "bm_historyRegisterMask (bimode_cfg s) = mask ?k"
      "length (bm_globalHistoryReg (bimode_cfg s)) = unat (bmp_numThreads p)"
    using bimode_mask [OF wf(1)] wf(2) by (simp_all add: bimode_cfg_def)
  obtain s' fl where run: "cp_run BiModeBP_ops (s, []) evs = Inr (s', fl)" "BiModeBP_wf s'"
      "bimode_cfg s' = bimode_cfg s"
      "bimode_view s' = foldr (push_reg (mask ?k)) (inflight @ committed) (bimode_view s)"
    using bimode.history_refinement [OF wf(1), of evs] assms(2,3) by (auto simp: c)
  have "length (bm_globalHistoryReg s') = unat (bmp_numThreads p)"
      "bm_globalCtrBits s' = bmp_globalCtrBits p" "bm_historyRegisterMask s' = mask ?k"
    using arg_cong [OF run(3), of bm_historyRegisterMask] arg_cong [OF run(3), of bm_globalCtrBits]
      arg_cong [OF run(3), of "\<lambda>s. length (bm_globalHistoryReg s)"] c wf(4)
    by (simp_all add: bimode_cfg_def)
  then show ?thesis using run wf(3) by auto
qed

text \<open>C15: The history registers of the bi-mode predictor are exact under speculation: after any
  sequence of predictions, squashes, repairs and commits on any threads, the register of a thread
  holds the final directions of that thread's branches in flight and committed, youngest first.\<close>

theorem bimode_history_exact:
  assumes "BiModeBP_init p = Inr s"
    and "list_all (event_ok (\<lambda>br. br_tid br < unat (bmp_numThreads p))) evs"
    and "br_run ([], []) evs = (inflight, committed)" and "tid < unat (bmp_numThreads p)"
  shows "\<exists>s' fl. cp_run BiModeBP_ops (s, []) evs = Inr (s', fl) \<and> BiModeBP_wf s' \<and>
    reg_hist (unat (bm_globalHistoryBits s)) (bm_globalHistoryReg s' ! tid) =
      take (unat (bm_globalHistoryBits s))
        (map br_taken (filter (\<lambda>br. br_tid br = tid) (inflight @ committed)) @
         replicate (unat (bm_globalHistoryBits s)) False)"
proof -
  have "unat (bm_globalHistoryBits s) \<le> 32"
    using BiModeBP_init_wf(1) [OF assms(1)] by (simp add: BiModeBP_wf_def)
  then show ?thesis
    using bimode_reach [OF assms(1-3)] view_to_hist [of _ tid, OF _ assms(4)]
    by (metis bimode_view_def)
qed

definition bmp_small :: BiModeBPParams where
  "bmp_small = \<lparr>bmp_numThreads = 2, bmp_globalPredictorSize = 8, bmp_globalCtrBits = 2,
     bmp_choicePredictorSize = 4, bmp_choiceCtrBits = 2, bmp_instShiftAmt = 2\<rparr>"

lemma bmp_small_init:
  "\<exists>s. BiModeBP_init bmp_small = Inr s \<and> unat (bm_globalHistoryBits s) = 3"
proof -
  have "ceilLog2 4 8 = Inr 3" using ceilLog2_pow2 [of 8 3 4] by simp
  then show ?thesis
    by (simp add: BiModeBP_init_def bmp_small_def Let_def isPowerOf2_def
        GenericSatCounter_def ctr_threshold_r_def)
qed

lemma bmp_small_demo:
  "list_all (event_ok (\<lambda>br. br_tid br < unat (bmp_numThreads bmp_small))) demo_events"
  by (rule demo_events_ok) (simp_all add: cond_branch_def bmp_small_def)

theorem bimode_history_exact_witness:
  "\<exists>s s' fl. BiModeBP_init bmp_small = Inr s \<and>
     cp_run BiModeBP_ops (s, []) demo_events = Inr (s', fl) \<and>
     reg_hist 3 (bm_globalHistoryReg s' ! 1) = [True, False, False]"
proof -
  obtain s where s: "BiModeBP_init bmp_small = Inr s" "unat (bm_globalHistoryBits s) = 3"
    using bmp_small_init by blast
  have "replicate 3 False = [False, False, False]" by (simp add: numeral_3_eq_3)
  then show ?thesis
    using bimode_history_exact [OF s(1) bmp_small_demo demo_br_run, of 1] s
    by (auto simp: bmp_small_def cond_branch_def)
qed



end
