(* ===== verification/Tournament_BP.thy ===== *)
theory Tournament_BP
  imports Global_History
begin

text \<open>
  \<open>cpu/pred/tournament.cc\<close>: a local two-level predictor, a global predictor, and a choice
  predictor between them.  Both the global history registers and the table of local histories are
  speculative state.  The table is shared by the threads and is not masked when it is shifted;
  it is read through the mask.  Shown here: safety, exactness of both histories under speculation,
  and a bound on the mispredictions of a biased branch.
\<close>

section \<open>The class\<close>

record TournamentBPParams =
  tnp_numThreads :: u32
  tnp_localPredictorSize :: u32
  tnp_localCtrBits :: u32
  tnp_localHistoryTableSize :: u32
  tnp_globalPredictorSize :: u32
  tnp_globalCtrBits :: u32
  tnp_choicePredictorSize :: u32
  tnp_choiceCtrBits :: u32
  tnp_instShiftAmt :: u32

record TournamentBPHistory =
  tnh_globalHistory :: u32
  tnh_localHistoryIdx :: u32
  tnh_localHistory :: u32
  tnh_localPredTaken :: bool
  tnh_globalPredTaken :: bool
  tnh_globalUsed :: bool

record TournamentBP =
  tn_instShiftAmt :: u32
  tn_localPredictorSize :: u32
  tn_localPredictorMask :: u32
  tn_localCtrBits :: u32
  tn_localCtrs :: "SatCounter8 list"
  tn_localHistoryTable :: "u32 list"
  tn_localHistoryTableSize :: u32
  tn_localHistoryBits :: u32
  tn_globalPredictorSize :: u32
  tn_globalCtrBits :: u32
  tn_globalCtrs :: "SatCounter8 list"
  tn_globalHistory :: "u32 list"
  tn_globalHistoryBits :: u32
  tn_globalHistoryMask :: u32
  tn_choiceHistoryMask :: u32
  tn_historyRegisterMask :: u32
  tn_choicePredictorSize :: u32
  tn_choiceCtrBits :: u32
  tn_choiceCtrs :: "SatCounter8 list"
  tn_localThreshold :: u32
  tn_globalThreshold :: u32
  tn_choiceThreshold :: u32

text \<open>\<open>static const int invalidPredictorIndex = -1\<close>, converted to \<open>unsigned\<close>.\<close>

definition invalidPredictorIndex :: u32 where
  "invalidPredictorIndex = - 1"

definition TournamentBP_init :: "TournamentBPParams \<Rightarrow> TournamentBP result" where
  "TournamentBP_init params =
     (let lsize = tnp_localPredictorSize params; gsize = tnp_globalPredictorSize params;
          csize = tnp_choicePredictorSize params; hsize = tnp_localHistoryTableSize params in
      bind_r (GenericSatCounter (unat (tnp_localCtrBits params)) 0) (\<lambda>lc.
      bind_r (ceilLog2 4 (ucast lsize)) (\<lambda>lbits.
      bind_r (GenericSatCounter (unat (tnp_globalCtrBits params)) 0) (\<lambda>gc.
      bind_r (ceilLog2 4 (ucast gsize)) (\<lambda>gbits.
      bind_r (ceilLog2 4 (ucast csize)) (\<lambda>cbits.
      bind_r (GenericSatCounter (unat (tnp_choiceCtrBits params)) 0) (\<lambda>cc.
        let hbits = (if gbits > cbits then gbits else cbits);
            hmask = ucast (mask_nbits hbits) in
        check (isPowerOf2 lsize) (Fatal ''Invalid local predictor size!'')
        (check (isPowerOf2 gsize) (Fatal ''Invalid global predictor size!'')
        (check (isPowerOf2 hsize) (Fatal ''Invalid local history table size!'')
        (check (isPowerOf2 csize) (Fatal ''Invalid choice predictor size!'')
        (check (\<not> gsize - 1 > hmask)
           (Fatal ''Global predictor too large for global history bits!'')
        (check (\<not> csize - 1 > hmask)
           (Fatal ''Choice predictor too large for global history bits!'')
        (bind_r (ctr_threshold_r (tnp_localCtrBits params)) (\<lambda>lthr.
         bind_r (ctr_threshold_r (tnp_globalCtrBits params)) (\<lambda>gthr.
         bind_r (ctr_threshold_r (tnp_choiceCtrBits params)) (\<lambda>cthr.
           Inr \<lparr>tn_instShiftAmt = tnp_instShiftAmt params,
                tn_localPredictorSize = lsize,
                tn_localPredictorMask = ucast (mask_nbits lbits),
                tn_localCtrBits = tnp_localCtrBits params,
                tn_localCtrs = replicate (unat lsize) lc,
                tn_localHistoryTable = replicate (unat hsize) 0,
                tn_localHistoryTableSize = hsize,
                tn_localHistoryBits = of_nat lbits,
                tn_globalPredictorSize = gsize,
                tn_globalCtrBits = tnp_globalCtrBits params,
                tn_globalCtrs = replicate (unat gsize) gc,
                tn_globalHistory = replicate (unat (tnp_numThreads params)) 0,
                tn_globalHistoryBits = of_nat hbits,
                tn_globalHistoryMask = gsize - 1,
                tn_choiceHistoryMask = csize - 1,
                tn_historyRegisterMask = hmask,
                tn_choicePredictorSize = csize,
                tn_choiceCtrBits = tnp_choiceCtrBits params,
                tn_choiceCtrs = replicate (unat csize) cc,
                tn_localThreshold = lthr, tn_globalThreshold = gthr,
                tn_choiceThreshold = cthr\<rparr>))))))))))))))))"

definition TournamentBP_calcLocHistIdx :: "TournamentBP \<Rightarrow> Addr \<Rightarrow> u32" where
  "TournamentBP_calcLocHistIdx s branch_addr =
     pc_index (tn_instShiftAmt s) (tn_localHistoryTableSize s - 1) branch_addr"

definition TournamentBP_updateGlobalHist ::
  "TournamentBP \<Rightarrow> ThreadID \<Rightarrow> bool \<Rightarrow> TournamentBP result" where
  "TournamentBP_updateGlobalHist s tid taken =
     bind_r (vec_get (tn_globalHistory s) tid) (\<lambda>r.
     bind_r (vec_set (tn_globalHistory s) tid (shift_in r taken AND tn_historyRegisterMask s)) (\<lambda>rs.
       Inr (s\<lparr>tn_globalHistory := rs\<rparr>)))"

definition TournamentBP_updateLocalHist ::
  "TournamentBP \<Rightarrow> u32 \<Rightarrow> bool \<Rightarrow> TournamentBP result" where
  "TournamentBP_updateLocalHist s local_history_idx taken =
     bind_r (vec_get (tn_localHistoryTable s) (unat local_history_idx)) (\<lambda>r.
     bind_r (vec_set (tn_localHistoryTable s) (unat local_history_idx) (shift_in r taken)) (\<lambda>rs.
       Inr (s\<lparr>tn_localHistoryTable := rs\<rparr>)))"

definition TournamentBP_lookup ::
  "TournamentBP \<Rightarrow> ThreadID \<Rightarrow> Addr \<Rightarrow> TournamentBPHistory option \<Rightarrow>
   (bool \<times> TournamentBP \<times> TournamentBPHistory option) result" where
  "TournamentBP_lookup s tid pc bp_history =
     (let local_history_idx = TournamentBP_calcLocHistIdx s pc in
      bind_r (vec_get (tn_localHistoryTable s) (unat local_history_idx)) (\<lambda>lh.
      let local_predictor_idx = lh AND tn_localPredictorMask s in
      bind_r (vec_get (tn_localCtrs s) (unat local_predictor_idx)) (\<lambda>lc.
      bind_r (vec_get (tn_globalHistory s) tid) (\<lambda>gh.
      bind_r (vec_get (tn_globalCtrs s) (unat (gh AND tn_globalHistoryMask s))) (\<lambda>gc.
      bind_r (vec_get (tn_choiceCtrs s) (unat (gh AND tn_choiceHistoryMask s))) (\<lambda>cc.
      let local_prediction = tn_localThreshold s < ucast (counter lc);
          global_prediction = tn_globalThreshold s < ucast (counter gc);
          choice_prediction = tn_choiceThreshold s < ucast (counter cc) in
      check (local_history_idx < tn_localHistoryTableSize s)
        (Assert ''local_history_idx < localHistoryTableSize'')
        (Inr (if choice_prediction then global_prediction else local_prediction, s,
              Some \<lparr>tnh_globalHistory = gh, tnh_localHistoryIdx = local_history_idx,
                    tnh_localHistory = local_predictor_idx,
                    tnh_localPredTaken = local_prediction,
                    tnh_globalPredTaken = global_prediction,
                    tnh_globalUsed = choice_prediction\<rparr>))))))))"

definition TournamentBP_updateHistories ::
  "TournamentBP \<Rightarrow> ThreadID \<Rightarrow> Addr \<Rightarrow> bool \<Rightarrow> bool \<Rightarrow> Addr \<Rightarrow> StaticInst \<Rightarrow>
   TournamentBPHistory option \<Rightarrow> (TournamentBP \<times> TournamentBPHistory option) result" where
  "TournamentBP_updateHistories s tid pc uncond taken target inst bp_history =
     check (uncond \<or> bp_history \<noteq> None) (Assert ''uncond || bp_history'')
       (bind_r
          (if uncond
           then bind_r (vec_get (tn_globalHistory s) tid) (\<lambda>gh.
                  Inr (Some \<lparr>tnh_globalHistory = gh, tnh_localHistoryIdx = invalidPredictorIndex,
                             tnh_localHistory = invalidPredictorIndex,
                             tnh_localPredTaken = True, tnh_globalPredTaken = True,
                             tnh_globalUsed = True\<rparr>))
           else Inr bp_history) (\<lambda>h.
        bind_r (TournamentBP_updateGlobalHist s tid taken) (\<lambda>s.
        bind_r (if uncond then Inr s
                else TournamentBP_updateLocalHist s (tnh_localHistoryIdx (the h)) taken) (\<lambda>s.
          Inr (s, h)))))"

definition TournamentBP_update ::
  "TournamentBP \<Rightarrow> ThreadID \<Rightarrow> Addr \<Rightarrow> bool \<Rightarrow> TournamentBPHistory option \<Rightarrow> bool \<Rightarrow> StaticInst \<Rightarrow>
   Addr \<Rightarrow> (TournamentBP \<times> TournamentBPHistory option) result" where
  "TournamentBP_update s tid pc taken bp_history squashed inst target =
     (case bp_history of
        None \<Rightarrow> Inl (Assert ''bp_history'')
      | Some history \<Rightarrow>
          let local_history_idx = TournamentBP_calcLocHistIdx s pc;
              old_local_pred_valid = (tnh_localHistory history \<noteq> invalidPredictorIndex) in
          check (local_history_idx < tn_localHistoryTableSize s)
            (Assert ''local_history_idx < localHistoryTableSize'')
          (if squashed
           then bind_r (vec_set (tn_globalHistory s) tid
                          (shift_in (tnh_globalHistory history) taken
                             AND tn_historyRegisterMask s)) (\<lambda>gh.
                bind_r (if old_local_pred_valid
                        then vec_set (tn_localHistoryTable s) (unat local_history_idx)
                               (shift_in (tnh_localHistory history) taken)
                        else Inr (tn_localHistoryTable s)) (\<lambda>lh.
                  Inr (s\<lparr>tn_globalHistory := gh, tn_localHistoryTable := lh\<rparr>, bp_history)))
           else
             let old_local_pred_index = tnh_localHistory history AND tn_localPredictorMask s in
             check (old_local_pred_index < tn_localPredictorSize s)
               (Assert ''old_local_pred_index < localPredictorSize'')
             (bind_r
                (if tnh_localPredTaken history \<noteq> tnh_globalPredTaken history \<and>
                    old_local_pred_valid
                 then let choice_predictor_idx =
                            tnh_globalHistory history AND tn_choiceHistoryMask s in
                      if tnh_localPredTaken history = taken
                      then ctr_train False (tn_choiceCtrs s) (unat choice_predictor_idx)
                      else if tnh_globalPredTaken history = taken
                      then ctr_train True (tn_choiceCtrs s) (unat choice_predictor_idx)
                      else Inr (tn_choiceCtrs s)
                 else Inr (tn_choiceCtrs s)) (\<lambda>cc.
              bind_r (ctr_train taken (tn_globalCtrs s)
                        (unat (tnh_globalHistory history AND tn_globalHistoryMask s))) (\<lambda>gc.
              bind_r (if old_local_pred_valid
                      then ctr_train taken (tn_localCtrs s) (unat old_local_pred_index)
                      else Inr (tn_localCtrs s)) (\<lambda>lc.
                Inr (s\<lparr>tn_choiceCtrs := cc, tn_globalCtrs := gc, tn_localCtrs := lc\<rparr>, None)))))))"

definition TournamentBP_squash ::
  "TournamentBP \<Rightarrow> ThreadID \<Rightarrow> TournamentBPHistory option \<Rightarrow>
   (TournamentBP \<times> TournamentBPHistory option) result" where
  "TournamentBP_squash s tid bp_history =
     (case bp_history of
        None \<Rightarrow> Inl Undefined
      | Some history \<Rightarrow>
          bind_r (vec_set (tn_globalHistory s) tid (tnh_globalHistory history)) (\<lambda>gh.
          bind_r (if tnh_localHistoryIdx history \<noteq> invalidPredictorIndex
                  then vec_set (tn_localHistoryTable s) (unat (tnh_localHistoryIdx history))
                         (tnh_localHistory history)
                  else Inr (tn_localHistoryTable s)) (\<lambda>lh.
            Inr (s\<lparr>tn_globalHistory := gh, tn_localHistoryTable := lh\<rparr>, None))))"

definition TournamentBP_ops :: "(TournamentBP, TournamentBPHistory) ConditionalPredictor" where
  "TournamentBP_ops =
     \<lparr>cp_lookup = TournamentBP_lookup, cp_updateHistories = TournamentBP_updateHistories,
      cp_squash = TournamentBP_squash, cp_update = TournamentBP_update,
      cp_branchPlaceholder = branchPlaceholder_default\<rparr>"

section \<open>Invariant\<close>

definition TournamentBP_wf :: "TournamentBP \<Rightarrow> bool" where
  "TournamentBP_wf s \<longleftrightarrow>
     1 \<le> tn_localCtrBits s \<and> unat (tn_localCtrBits s) \<le> 8 \<and>
     1 \<le> tn_globalCtrBits s \<and> unat (tn_globalCtrBits s) \<le> 8 \<and>
     1 \<le> tn_choiceCtrBits s \<and> unat (tn_choiceCtrBits s) \<le> 8 \<and>
     tn_localPredictorSize s \<noteq> 0 \<and> tn_globalPredictorSize s \<noteq> 0 \<and>
     tn_choicePredictorSize s \<noteq> 0 \<and> tn_localHistoryTableSize s \<noteq> 0 \<and>
     unat (tn_localHistoryBits s) < 32 \<and> unat (tn_globalHistoryBits s) < 32 \<and>
     tn_localPredictorMask s = tn_localPredictorSize s - 1 \<and>
     tn_localPredictorSize s - 1 = mask (unat (tn_localHistoryBits s)) \<and>
     tn_globalHistoryMask s = tn_globalPredictorSize s - 1 \<and>
     tn_choiceHistoryMask s = tn_choicePredictorSize s - 1 \<and>
     tn_historyRegisterMask s = mask (unat (tn_globalHistoryBits s)) \<and>
     tn_localThreshold s = ctr_threshold (tn_localCtrBits s) \<and>
     tn_globalThreshold s = ctr_threshold (tn_globalCtrBits s) \<and>
     tn_choiceThreshold s = ctr_threshold (tn_choiceCtrBits s) \<and>
     length (tn_localCtrs s) = unat (tn_localPredictorSize s) \<and>
     length (tn_globalCtrs s) = unat (tn_globalPredictorSize s) \<and>
     length (tn_choiceCtrs s) = unat (tn_choicePredictorSize s) \<and>
     length (tn_localHistoryTable s) = unat (tn_localHistoryTableSize s) \<and>
     ctrs_wf (unat (tn_localCtrBits s)) (tn_localCtrs s) \<and>
     ctrs_wf (unat (tn_globalCtrBits s)) (tn_globalCtrs s) \<and>
     ctrs_wf (unat (tn_choiceCtrBits s)) (tn_choiceCtrs s)"

definition tn_lidx :: "TournamentBP \<Rightarrow> Addr \<Rightarrow> nat" where
  "tn_lidx s pc = unat (TournamentBP_calcLocHistIdx s pc)"

definition tn_local :: "TournamentBP \<Rightarrow> u32 \<Rightarrow> bool" where
  "tn_local s lh = predicts_taken (unat (tn_localCtrBits s))
     (tn_localCtrs s ! unat (lh AND tn_localPredictorMask s))"

definition tn_global :: "TournamentBP \<Rightarrow> u32 \<Rightarrow> bool" where
  "tn_global s gh = predicts_taken (unat (tn_globalCtrBits s))
     (tn_globalCtrs s ! unat (gh AND tn_globalHistoryMask s))"

definition tn_choice :: "TournamentBP \<Rightarrow> u32 \<Rightarrow> bool" where
  "tn_choice s gh = predicts_taken (unat (tn_choiceCtrBits s))
     (tn_choiceCtrs s ! unat (gh AND tn_choiceHistoryMask s))"

definition tn_record :: "TournamentBP \<Rightarrow> ThreadID \<Rightarrow> Addr \<Rightarrow> TournamentBPHistory" where
  "tn_record s tid pc =
     (let gh = tn_globalHistory s ! tid; lh = tn_localHistoryTable s ! tn_lidx s pc in
      \<lparr>tnh_globalHistory = gh, tnh_localHistoryIdx = TournamentBP_calcLocHistIdx s pc,
       tnh_localHistory = lh AND tn_localPredictorMask s,
       tnh_localPredTaken = tn_local s lh, tnh_globalPredTaken = tn_global s gh,
       tnh_globalUsed = tn_choice s gh\<rparr>)"

lemma tn_idx_less:
  assumes "TournamentBP_wf s"
  shows "tn_lidx s pc < length (tn_localHistoryTable s)"
    and "unat (r AND tn_localPredictorMask s) < length (tn_localCtrs s)"
    and "unat (r AND tn_globalHistoryMask s) < length (tn_globalCtrs s)"
    and "unat (r AND tn_choiceHistoryMask s) < length (tn_choiceCtrs s)"
  using assms unat_pc_index_less [of "tn_localHistoryTableSize s"]
    unat_and_minus_one_less [of "tn_localPredictorSize s" r]
    unat_and_minus_one_less [of "tn_globalPredictorSize s" r]
    unat_and_minus_one_less [of "tn_choicePredictorSize s" r]
  by (auto simp: tn_lidx_def TournamentBP_calcLocHistIdx_def TournamentBP_wf_def)

lemma tn_mask_valid:
  assumes "TournamentBP_wf s"
  shows "r AND tn_localPredictorMask s \<noteq> invalidPredictorIndex"
    and "TournamentBP_calcLocHistIdx s pc \<noteq> invalidPredictorIndex"
proof -
  have le: "unat n \<le> unat invalidPredictorIndex" for n :: u32
    using word_le_nat_alt [of n "- 1"] by (simp add: invalidPredictorIndex_def)
  have "unat (r AND tn_localPredictorMask s) < unat (tn_localPredictorSize s)"
    using tn_idx_less(2) [OF assms, of r] assms by (simp add: TournamentBP_wf_def)
  then show "r AND tn_localPredictorMask s \<noteq> invalidPredictorIndex"
    using le [of "tn_localPredictorSize s"] by (metis leD)
  have "unat (TournamentBP_calcLocHistIdx s pc) < unat (tn_localHistoryTableSize s)"
    using tn_idx_less(1) [OF assms, of pc] assms by (simp add: TournamentBP_wf_def tn_lidx_def)
  then show "TournamentBP_calcLocHistIdx s pc \<noteq> invalidPredictorIndex"
    using le [of "tn_localHistoryTableSize s"] by (metis leD)
qed

lemma TournamentBP_lookup_eq:
  assumes wf: "TournamentBP_wf s" and "tid < length (tn_globalHistory s)"
  shows "TournamentBP_lookup s tid pc h =
    Inr (if tnh_globalUsed (tn_record s tid pc) then tnh_globalPredTaken (tn_record s tid pc)
         else tnh_localPredTaken (tn_record s tid pc), s, Some (tn_record s tid pc))"
proof -
  note i = tn_idx_less [OF wf]
  have "TournamentBP_calcLocHistIdx s pc < tn_localHistoryTableSize s"
    using i(1) [of pc] wf by (simp add: word_less_nat_alt tn_lidx_def TournamentBP_wf_def)
  moreover have "1 \<le> tn_localCtrBits s" "unat (tn_localCtrBits s) \<le> 8"
      "1 \<le> tn_globalCtrBits s" "unat (tn_globalCtrBits s) \<le> 8"
      "1 \<le> tn_choiceCtrBits s" "unat (tn_choiceCtrBits s) \<le> 8"
      "tn_localThreshold s = ctr_threshold (tn_localCtrBits s)"
      "tn_globalThreshold s = ctr_threshold (tn_globalCtrBits s)"
      "tn_choiceThreshold s = ctr_threshold (tn_choiceCtrBits s)"
    using wf by (simp_all add: TournamentBP_wf_def)
  ultimately show ?thesis
    using assms(2) i(1) [of pc] i(2-4)
    by (simp add: TournamentBP_lookup_def tn_record_def Let_def tn_local_def tn_global_def
        tn_choice_def above_threshold tn_lidx_def)
qed

definition tn_shift_global :: "TournamentBP \<Rightarrow> ThreadID \<Rightarrow> bool \<Rightarrow> u32 list" where
  "tn_shift_global s tid t =
     (tn_globalHistory s)[tid := shift_masked (tn_historyRegisterMask s) (tn_globalHistory s ! tid) t]"

definition tn_shift_local :: "TournamentBP \<Rightarrow> Addr \<Rightarrow> bool \<Rightarrow> u32 list" where
  "tn_shift_local s pc t =
     (tn_localHistoryTable s)[tn_lidx s pc := shift_in (tn_localHistoryTable s ! tn_lidx s pc) t]"

text \<open>The record a branch has in flight.\<close>

definition tn_hist_ok :: "TournamentBP \<Rightarrow> branch \<Rightarrow> TournamentBPHistory option \<Rightarrow> bool" where
  "tn_hist_ok c br h \<longleftrightarrow>
     (\<exists>h'. h = Some h' \<and>
       (if br_uncond br
        then tnh_localHistoryIdx h' = invalidPredictorIndex \<and>
             tnh_localHistory h' = invalidPredictorIndex
        else tnh_localHistoryIdx h' = TournamentBP_calcLocHistIdx c (br_pc br) \<and>
             tnh_localHistory h' AND tn_localPredictorMask c = tnh_localHistory h'))"

lemma tournament_speculate:
  assumes wf: "TournamentBP_wf s" and t: "br_tid br < length (tn_globalHistory s)"
  shows "\<exists>b h. speculate TournamentBP_ops s br =
    Inr (b, s\<lparr>tn_globalHistory := tn_shift_global s (br_tid br) (br_taken br),
        tn_localHistoryTable := (if br_uncond br then tn_localHistoryTable s
          else tn_shift_local s (br_pc br) (br_taken br))\<rparr>, Some h) \<and>
    tnh_globalHistory h = tn_globalHistory s ! br_tid br \<and>
    (\<not> br_uncond br \<longrightarrow> tnh_localHistory h =
       tn_localHistoryTable s ! tn_lidx s (br_pc br) AND tn_localPredictorMask s) \<and>
    tn_hist_ok s br (Some h)"
proof (cases "br_uncond br")
  case True
  then show ?thesis
    using t by (auto simp: speculate_def TournamentBP_ops_def TournamentBP_updateHistories_def
        TournamentBP_updateGlobalHist_def tn_shift_global_def shift_masked_def tn_hist_ok_def)
next
  case False
  then show ?thesis
    using t tn_idx_less(1) [OF wf, of "br_pc br"]
    by (auto simp: speculate_def TournamentBP_ops_def TournamentBP_updateHistories_def
        TournamentBP_updateGlobalHist_def TournamentBP_updateLocalHist_def tn_shift_global_def
        tn_shift_local_def shift_masked_def tn_hist_ok_def TournamentBP_lookup_eq [OF wf]
        tn_record_def Let_def and.assoc tn_lidx_def)
qed

section \<open>Training\<close>

definition tn_trained :: "TournamentBP \<Rightarrow> bool \<Rightarrow> TournamentBPHistory \<Rightarrow> TournamentBP" where
  "tn_trained s t h =
     (let valid = (tnh_localHistory h \<noteq> invalidPredictorIndex) in
      s\<lparr>tn_choiceCtrs :=
          (if tnh_localPredTaken h \<noteq> tnh_globalPredTaken h \<and> valid
           then train_at (tnh_globalPredTaken h = t) (tn_choiceCtrs s)
                  (unat (tnh_globalHistory h AND tn_choiceHistoryMask s))
           else tn_choiceCtrs s),
        tn_globalCtrs := train_at t (tn_globalCtrs s)
          (unat (tnh_globalHistory h AND tn_globalHistoryMask s)),
        tn_localCtrs :=
          (if valid then train_at t (tn_localCtrs s)
             (unat (tnh_localHistory h AND tn_localPredictorMask s))
           else tn_localCtrs s)\<rparr>)"

lemma TournamentBP_update_eq:
  assumes wf: "TournamentBP_wf s"
  shows "TournamentBP_update s tid pc t (Some h) False inst target = Inr (tn_trained s t h, None)"
proof -
  note i = tn_idx_less [OF wf]
  have "TournamentBP_calcLocHistIdx s pc < tn_localHistoryTableSize s"
      "tnh_localHistory h AND tn_localPredictorMask s < tn_localPredictorSize s"
    using i(1) [of pc] i(2) wf by (simp_all add: word_less_nat_alt tn_lidx_def TournamentBP_wf_def)
  then show ?thesis
    using i(2-4)
    by (auto simp: TournamentBP_update_def Let_def ctr_train_in tn_trained_def train_at_def)
qed

lemma TournamentBP_train_wf:
  assumes wf: "TournamentBP_wf s"
  shows "TournamentBP_wf (tn_trained s t h)"
  using wf tn_idx_less(2-4) [OF wf]
  by (simp add: TournamentBP_wf_def tn_trained_def Let_def ctrs_wf_train_at)

lemma TournamentBP_hist_wf:
  "length lh = length (tn_localHistoryTable s) \<Longrightarrow>
   TournamentBP_wf (s\<lparr>tn_globalHistory := gh, tn_localHistoryTable := lh\<rparr>) = TournamentBP_wf s"
  by (auto simp: TournamentBP_wf_def)

section \<open>Speculative history\<close>

text \<open>The view: the global registers and the local history table, each read through its mask.\<close>

definition tn_cfg :: "TournamentBP \<Rightarrow> TournamentBP" where
  "tn_cfg s = s\<lparr>tn_globalHistory := replicate (length (tn_globalHistory s)) 0,
     tn_localHistoryTable := replicate (length (tn_localHistoryTable s)) 0,
     tn_localCtrs := [], tn_globalCtrs := [], tn_choiceCtrs := []\<rparr>"

definition tn_view :: "TournamentBP \<Rightarrow> u32 list \<times> u32 list" where
  "tn_view s = (masked_regs (tn_historyRegisterMask s) (tn_globalHistory s),
     masked_regs (tn_localPredictorMask s) (tn_localHistoryTable s))"

definition push_local :: "TournamentBP \<Rightarrow> branch \<Rightarrow> u32 list \<Rightarrow> u32 list" where
  "push_local c br v =
     (if br_uncond br then v
      else v[tn_lidx c (br_pc br) :=
        shift_masked (tn_localPredictorMask c) (v ! tn_lidx c (br_pc br)) (br_taken br)])"

definition tn_push :: "TournamentBP \<Rightarrow> branch \<Rightarrow> u32 list \<times> u32 list \<Rightarrow> u32 list \<times> u32 list" where
  "tn_push c br v = (push_reg (tn_historyRegisterMask c) br (fst v), push_local c br (snd v))"

definition tn_undo ::
  "TournamentBP \<Rightarrow> branch \<Rightarrow> TournamentBPHistory option \<Rightarrow> u32 list \<times> u32 list \<Rightarrow>
   u32 list \<times> u32 list" where
  "tn_undo c br h v =
     (case h of
        None \<Rightarrow> v
      | Some h \<Rightarrow>
          ((fst v)[br_tid br := tnh_globalHistory h AND tn_historyRegisterMask c],
           if br_uncond br then snd v
           else (snd v)[tn_lidx c (br_pc br) := tnh_localHistory h AND tn_localPredictorMask c]))"

definition tn_br_ok :: "TournamentBP \<Rightarrow> branch \<Rightarrow> bool" where
  "tn_br_ok c br \<longleftrightarrow> br_tid br < length (tn_globalHistory c)"

lemma tn_masks:
  assumes "TournamentBP_wf s"
  shows "tn_historyRegisterMask s = mask (unat (tn_globalHistoryBits s))"
    and "tn_localPredictorMask s = mask (unat (tn_localHistoryBits s))"
  using assms by (simp_all add: TournamentBP_wf_def)

lemma tn_cfg_simps [simp]:
  "tn_lidx (tn_cfg s) = tn_lidx s"
  "TournamentBP_calcLocHistIdx (tn_cfg s) = TournamentBP_calcLocHistIdx s"
  "tn_historyRegisterMask (tn_cfg s) = tn_historyRegisterMask s"
  "tn_localPredictorMask (tn_cfg s) = tn_localPredictorMask s"
  "tn_hist_ok (tn_cfg s) = tn_hist_ok s"
  "tn_br_ok (tn_cfg s) = tn_br_ok s"
  by (simp_all add: tn_cfg_def fun_eq_iff tn_lidx_def TournamentBP_calcLocHistIdx_def tn_hist_ok_def
      tn_br_ok_def)

lemma tn_cfg_hist:
  "length gh = length (tn_globalHistory s) \<Longrightarrow> length lh = length (tn_localHistoryTable s) \<Longrightarrow>
   tn_cfg (s\<lparr>tn_globalHistory := gh, tn_localHistoryTable := lh\<rparr>) = tn_cfg s"
  by (simp add: tn_cfg_def)

lemma tn_train_frame [simp]:
  "tn_cfg (tn_trained s t h) = tn_cfg s" "tn_view (tn_trained s t h) = tn_view s"
  by (simp_all add: tn_cfg_def tn_view_def tn_trained_def Let_def)

lemma push_local_shift:
  assumes "i < length rs"
  shows "masked_regs (mask k) (rs[i := shift_in (rs ! i) t]) =
    (masked_regs (mask k) rs)[i := shift_masked (mask k) (masked_regs (mask k) rs ! i) t]"
  using assms shift_masked_and [of k "rs ! i" t]
  by (simp add: masked_regs_update masked_regs_nth shift_masked_def)

lemma masked_regs_self:
  "i < length rs \<Longrightarrow> (masked_regs m rs)[i := rs ! i AND m] = masked_regs m rs"
  by (simp flip: masked_regs_nth)

lemma tn_view_shift:
  assumes wf: "TournamentBP_wf s" and t: "br_tid br < length (tn_globalHistory s)"
  shows "tn_view (s\<lparr>tn_globalHistory := tn_shift_global s (br_tid br) (br_taken br),
      tn_localHistoryTable := (if br_uncond br then tn_localHistoryTable s
        else tn_shift_local s (br_pc br) (br_taken br))\<rparr>) = tn_push (tn_cfg s) br (tn_view s)"
  using t tn_idx_less(1) [OF wf, of "br_pc br"] tn_masks [OF wf]
  by (simp add: tn_view_def tn_push_def push_local_def tn_shift_global_def tn_shift_local_def
      push_reg_shift push_local_shift)

lemma tn_undo_push:
  assumes wf: "TournamentBP_wf s" and t: "br_tid br < length (tn_globalHistory s)"
    and h: "tnh_globalHistory h = tn_globalHistory s ! br_tid br"
      "\<not> br_uncond br \<longrightarrow> tnh_localHistory h =
         tn_localHistoryTable s ! tn_lidx s (br_pc br) AND tn_localPredictorMask s"
  shows "tn_undo (tn_cfg s) br (Some h)
    (tn_push (tn_cfg s) (br\<lparr>br_taken := tk, br_target := a\<rparr>) (tn_view s)) = tn_view s"
  using t h tn_idx_less(1) [OF wf, of "br_pc br"]
    push_reg_undo [of "br\<lparr>br_taken := tk, br_target := a\<rparr>" br]
  by (auto simp: tn_undo_def tn_push_def tn_view_def push_local_def and.assoc masked_regs_self)

definition tn_restored :: "TournamentBP \<Rightarrow> branch \<Rightarrow> u32 \<Rightarrow> u32 \<Rightarrow> TournamentBP" where
  "tn_restored s br gh lh =
     s\<lparr>tn_globalHistory := (tn_globalHistory s)[br_tid br := gh],
       tn_localHistoryTable := (if br_uncond br then tn_localHistoryTable s
         else (tn_localHistoryTable s)[tn_lidx s (br_pc br) := lh])\<rparr>"

lemma tn_restored_frame:
  "TournamentBP_wf (tn_restored s br gh lh) = TournamentBP_wf s"
  "tn_cfg (tn_restored s br gh lh) = tn_cfg s"
  by (simp_all add: tn_restored_def TournamentBP_hist_wf tn_cfg_hist)

lemma tn_squash:
  assumes wf: "TournamentBP_wf s" and t: "br_tid br < length (tn_globalHistory s)"
    and h: "tn_hist_ok s br (Some h)"
  shows "TournamentBP_squash s (br_tid br) (Some h) =
    Inr (tn_restored s br (tnh_globalHistory h) (tnh_localHistory h), None)"
  using t h tn_idx_less(1) [OF wf, of "br_pc br"] tn_mask_valid(2) [OF wf, of "br_pc br"]
  by (cases "br_uncond br")
    (auto simp: TournamentBP_squash_def tn_hist_ok_def tn_restored_def tn_lidx_def)

lemma tn_repair:
  assumes wf: "TournamentBP_wf s" and t: "br_tid br < length (tn_globalHistory s)"
    and h: "tn_hist_ok s br (Some h)"
  shows "TournamentBP_update s (br_tid br) (br_pc br) tk (Some h) True inst a =
    Inr (tn_restored s br (shift_masked (tn_historyRegisterMask s) (tnh_globalHistory h) tk)
           (shift_in (tnh_localHistory h) tk), Some h)"
proof -
  have i: "TournamentBP_calcLocHistIdx s (br_pc br) < tn_localHistoryTableSize s"
    using tn_idx_less(1) [OF wf, of "br_pc br"] wf
    by (simp add: word_less_nat_alt tn_lidx_def TournamentBP_wf_def)
  have "br_uncond br \<longleftrightarrow> tnh_localHistory h = invalidPredictorIndex"
    using h tn_mask_valid(1) [OF wf, of "tnh_localHistory h"]
    by (auto simp: tn_hist_ok_def split: if_splits)
  then show ?thesis
    using t i tn_idx_less(1) [OF wf, of "br_pc br"]
    by (auto simp: TournamentBP_update_def Let_def tn_restored_def tn_lidx_def shift_masked_def)
qed

lemma tn_view_restored:
  "tn_view (tn_restored s br (tnh_globalHistory h) (tnh_localHistory h)) =
    tn_undo (tn_cfg s) br (Some h) (tn_view s)"
  by (simp add: tn_view_def tn_restored_def tn_undo_def masked_regs_update)

lemma tn_view_repaired:
  assumes wf: "TournamentBP_wf s" and t: "br_tid br < length (tn_globalHistory s)"
  shows "tn_view (tn_restored s br
      (shift_masked (tn_historyRegisterMask s) (tnh_globalHistory h) (br_taken br))
      (shift_in (tnh_localHistory h) (br_taken br))) =
    tn_push (tn_cfg s) br (tn_undo (tn_cfg s) br (Some h) (tn_view s))"
  using t tn_idx_less(1) [OF wf, of "br_pc br"] tn_masks [OF wf]
    shift_masked_and [of _ "tnh_globalHistory h" "br_taken br"]
    shift_masked_and [of _ "tnh_localHistory h" "br_taken br"]
  by (auto simp: tn_view_def tn_restored_def tn_undo_def tn_push_def push_reg_def push_local_def
      masked_regs_update shift_masked_def [symmetric])

interpretation tournament: speculative_history TournamentBP_ops TournamentBP_wf tn_cfg
  tn_br_ok tn_hist_ok tn_view tn_push tn_undo
proof (unfold_locales, goal_cases)
  case (4 s br)
  then have t: "br_tid br < length (tn_globalHistory s)" by (simp add: tn_br_ok_def)
  from tournament_speculate [OF 4(1) t] obtain b h where sp: "speculate TournamentBP_ops s br =
      Inr (b, s\<lparr>tn_globalHistory := tn_shift_global s (br_tid br) (br_taken br),
        tn_localHistoryTable := (if br_uncond br then tn_localHistoryTable s
          else tn_shift_local s (br_pc br) (br_taken br))\<rparr>, Some h)"
    and h: "tnh_globalHistory h = tn_globalHistory s ! br_tid br"
      "\<not> br_uncond br \<longrightarrow> tnh_localHistory h =
         tn_localHistoryTable s ! tn_lidx s (br_pc br) AND tn_localPredictorMask s"
      "tn_hist_ok s br (Some h)" by blast
  show ?case
    unfolding sp using 4(1) h(3) tn_view_shift [OF 4(1) t] tn_undo_push [OF 4(1) t h(1,2)]
    by (auto simp: TournamentBP_hist_wf tn_cfg_hist tn_shift_global_def tn_shift_local_def)
next
  case (5 s br h)
  then obtain h' where h: "h = Some h'" by (auto simp: tn_hist_ok_def)
  have t: "br_tid br < length (tn_globalHistory s)" using 5 by (simp add: tn_br_ok_def)
  show ?case
    using tn_squash [OF 5(1) t, of h'] 5(1,3)
    by (simp add: h TournamentBP_ops_def tn_restored_frame tn_view_restored)
next
  case (6 s br h)
  then obtain h' where h: "h = Some h'" by (auto simp: tn_hist_ok_def)
  have t: "br_tid br < length (tn_globalHistory s)" using 6 by (simp add: tn_br_ok_def)
  show ?case
    using tn_repair [OF 6(1) t, of h'] 6(1,3)
    by (simp add: h TournamentBP_ops_def tn_restored_frame tn_view_repaired [OF 6(1) t])
next
  case (7 s br h)
  then obtain h' where h: "h = Some h'" by (auto simp: tn_hist_ok_def)
  then show ?case
    using 7(1) by (simp add: TournamentBP_ops_def TournamentBP_update_eq TournamentBP_train_wf)
qed (auto simp: tn_hist_ok_def tn_br_ok_def tn_undo_def split: option.splits)

section \<open>Construction\<close>

lemma TournamentBP_init_wf:
  assumes "TournamentBP_init p = Inr s"
  shows "TournamentBP_wf s" and "length (tn_globalHistory s) = unat (tnp_numThreads p)"
    and "tn_view s = (replicate (unat (tnp_numThreads p)) 0,
      replicate (unat (tnp_localHistoryTableSize p)) 0)"
    and "tn_localCtrBits s = tnp_localCtrBits p" and "tn_globalCtrBits s = tnp_globalCtrBits p"
proof -
  obtain lc lb gc gb cb cc where
    lc: "GenericSatCounter (unat (tnp_localCtrBits p)) (0 :: u8) = Inr lc"
    and lb: "ceilLog2 4 (ucast (tnp_localPredictorSize p)) = Inr lb"
    and gc: "GenericSatCounter (unat (tnp_globalCtrBits p)) (0 :: u8) = Inr gc"
    and gb: "ceilLog2 4 (ucast (tnp_globalPredictorSize p)) = Inr gb"
    and cb: "ceilLog2 4 (ucast (tnp_choicePredictorSize p)) = Inr cb"
    and cc: "GenericSatCounter (unat (tnp_choiceCtrBits p)) (0 :: u8) = Inr cc"
    and pow: "isPowerOf2 (tnp_localPredictorSize p)" "isPowerOf2 (tnp_globalPredictorSize p)"
      "isPowerOf2 (tnp_localHistoryTableSize p)" "isPowerOf2 (tnp_choicePredictorSize p)"
    and th: "unat (tnp_localCtrBits p - 1) < 64" "unat (tnp_globalCtrBits p - 1) < 64"
      "unat (tnp_choiceCtrBits p - 1) < 64"
    and s: "s = \<lparr>tn_instShiftAmt = tnp_instShiftAmt p,
                tn_localPredictorSize = tnp_localPredictorSize p,
                tn_localPredictorMask = ucast (mask_nbits lb),
                tn_localCtrBits = tnp_localCtrBits p,
                tn_localCtrs = replicate (unat (tnp_localPredictorSize p)) lc,
                tn_localHistoryTable = replicate (unat (tnp_localHistoryTableSize p)) 0,
                tn_localHistoryTableSize = tnp_localHistoryTableSize p,
                tn_localHistoryBits = of_nat lb,
                tn_globalPredictorSize = tnp_globalPredictorSize p,
                tn_globalCtrBits = tnp_globalCtrBits p,
                tn_globalCtrs = replicate (unat (tnp_globalPredictorSize p)) gc,
                tn_globalHistory = replicate (unat (tnp_numThreads p)) 0,
                tn_globalHistoryBits = of_nat (max gb cb),
                tn_globalHistoryMask = tnp_globalPredictorSize p - 1,
                tn_choiceHistoryMask = tnp_choicePredictorSize p - 1,
                tn_historyRegisterMask = ucast (mask_nbits (max gb cb)),
                tn_choicePredictorSize = tnp_choicePredictorSize p,
                tn_choiceCtrBits = tnp_choiceCtrBits p,
                tn_choiceCtrs = replicate (unat (tnp_choicePredictorSize p)) cc,
                tn_localThreshold = ctr_threshold (tnp_localCtrBits p),
                tn_globalThreshold = ctr_threshold (tnp_globalCtrBits p),
                tn_choiceThreshold = ctr_threshold (tnp_choiceCtrBits p)\<rparr>"
    using assms
    by (auto simp: TournamentBP_init_def result_iffs ctr_threshold_r_eq_Inr_iff Let_def max_def
        not_less split: if_splits)
  note m = mask_pow2 [OF pow(1) lb] mask_pow2 [OF pow(2) gb] mask_pow2 [OF pow(4) cb]
  note b = counter_bits_ok [OF lc th(1)] counter_bits_ok [OF gc th(2)] counter_bits_ok [OF cc th(3)]
  have wf: "sc_wf (unat (tnp_localCtrBits p)) lc" "sc_wf (unat (tnp_globalCtrBits p)) gc"
      "sc_wf (unat (tnp_choiceCtrBits p)) cc"
    using GenericSatCounter_wf [OF lc] GenericSatCounter_wf [OF gc] GenericSatCounter_wf [OF cc]
    by simp_all
  have k: "unat (of_nat lb :: u32) = lb" "unat (of_nat (max gb cb) :: u32) = max gb cb"
    using m(3,6,9) by (simp_all add: unat_of_nat)
  have "(ucast (mask_nbits (max gb cb)) :: u32) = mask (max gb cb)"
    by (rule bit_word_eqI) (auto simp: mask_nbits_eq bit_simps)
  then show "TournamentBP_wf s"
    using b m wf k pow [THEN isPowerOf2_nonzero] by (simp add: TournamentBP_wf_def s)
  show "length (tn_globalHistory s) = unat (tnp_numThreads p)"
    and "tn_view s = (replicate (unat (tnp_numThreads p)) 0,
      replicate (unat (tnp_localHistoryTableSize p)) 0)"
    and "tn_localCtrBits s = tnp_localCtrBits p" and "tn_globalCtrBits s = tnp_globalCtrBits p"
    by (simp_all add: s tn_view_def masked_regs_def)
qed

lemma foldr_tn_push:
  "foldr (tn_push c) brs v =
    (foldr (push_reg (tn_historyRegisterMask c)) brs (fst v), foldr (push_local c) brs (snd v))"
  by (induction brs) (simp_all add: tn_push_def)

lemma push_local_length [simp]: "length (foldr (push_local c) brs v) = length v"
  by (induction brs) (simp_all add: push_local_def)

lemma reg_hist_push_local:
  assumes "k \<le> 32" and "i < length v" and "tn_localPredictorMask c = mask k"
  shows "reg_hist k (foldr (push_local c) brs v ! i) =
    take k (map br_taken (filter (\<lambda>br. \<not> br_uncond br \<and> tn_lidx c (br_pc br) = i) brs) @
      reg_hist k (v ! i))"
proof (induction brs)
  case (Cons br brs)
  let ?v = "foldr (push_local c) brs v"
  show ?case
  proof (cases "\<not> br_uncond br \<and> tn_lidx c (br_pc br) = i")
    case True
    then have "reg_hist k (foldr (push_local c) (br # brs) v ! i) =
        take k (br_taken br # reg_hist k (?v ! i))"
      using assms by (simp add: push_local_def reg_hist_shift)
    then show ?thesis using Cons.IH True by (cases k) (simp_all add: min_def)
  next
    case False
    then show ?thesis using Cons.IH by (auto simp: push_local_def)
  qed
qed simp

lemma tournament_reach:
  assumes "TournamentBP_init p = Inr s"
    and "list_all (event_ok (\<lambda>br. br_tid br < unat (tnp_numThreads p))) evs"
    and "br_run ([], []) evs = (inflight, committed)"
  shows "\<exists>s' fl. cp_run TournamentBP_ops (s, []) evs = Inr (s', fl) \<and> TournamentBP_wf s' \<and>
    tn_cfg s' = tn_cfg s \<and> tn_view s' = foldr (tn_push (tn_cfg s)) (inflight @ committed) (tn_view s)"
proof -
  note wf = TournamentBP_init_wf [OF assms(1)]
  have c: "tn_br_ok s = (\<lambda>br. br_tid br < unat (tnp_numThreads p))"
    using wf(2) by (simp add: fun_eq_iff tn_br_ok_def)
  show ?thesis
    using tournament.history_refinement [OF wf(1), of evs] assms(2,3) by (auto simp: c)
qed

text \<open>The view as the histories of a list of branches, youngest first.\<close>

lemma tn_view_exact:
  assumes init: "TournamentBP_init p = Inr s" and cfg: "tn_cfg s' = tn_cfg s"
    and view: "tn_view s' = foldr (tn_push (tn_cfg s)) brs (tn_view s)"
    and tid: "tid < unat (tnp_numThreads p)" and i: "i < unat (tnp_localHistoryTableSize p)"
  shows "reg_hist (unat (tn_globalHistoryBits s)) (tn_globalHistory s' ! tid) =
      take (unat (tn_globalHistoryBits s)) (map br_taken (filter (\<lambda>br. br_tid br = tid) brs) @
         replicate (unat (tn_globalHistoryBits s)) False) \<and>
    reg_hist (unat (tn_localHistoryBits s)) (tn_localHistoryTable s' ! i) =
      take (unat (tn_localHistoryBits s))
        (map br_taken (filter (\<lambda>br. \<not> br_uncond br \<and> tn_lidx s (br_pc br) = i) brs) @
         replicate (unat (tn_localHistoryBits s)) False)"
proof -
  note wf = TournamentBP_init_wf [OF init]
  let ?k = "unat (tn_globalHistoryBits s)" and ?l = "unat (tn_localHistoryBits s)"
  let ?n = "unat (tnp_localHistoryTableSize p)"
  have k: "?k \<le> 32" "?l \<le> 32" using wf(1) by (simp_all add: TournamentBP_wf_def)
  have "tn_historyRegisterMask s' = tn_historyRegisterMask s"
      "tn_localPredictorMask s' = tn_localPredictorMask s"
    using cfg tn_cfg_simps(3,4) by metis+
  then have g: "masked_regs (mask ?k) (tn_globalHistory s') = foldr (push_reg (mask ?k)) brs
        (replicate (unat (tnp_numThreads p)) 0)"
    and l: "masked_regs (mask ?l) (tn_localHistoryTable s') = foldr (push_local (tn_cfg s)) brs (replicate ?n 0)"
    using view wf(3) tn_masks [OF wf(1)] unfolding foldr_tn_push by (simp_all add: tn_view_def)
  have len: "length (tn_globalHistory s') = unat (tnp_numThreads p)" "length (tn_localHistoryTable s') = ?n"
    using arg_cong [OF g, of length] arg_cong [OF l, of length] by simp_all
  have "tn_localHistoryTable s' ! i AND mask ?l = foldr (push_local (tn_cfg s)) brs (replicate ?n 0) ! i"
    using masked_regs_nth [of i "tn_localHistoryTable s'" "mask ?l"] len(2) i unfolding l by simp
  then have "reg_hist ?l (tn_localHistoryTable s' ! i) =
      reg_hist ?l (foldr (push_local (tn_cfg s)) brs (replicate ?n 0) ! i)"
    using reg_hist_and_mask [of ?l "tn_localHistoryTable s' ! i"] by simp
  also have "\<dots> = take ?l (map br_taken (filter (\<lambda>br. \<not> br_uncond br \<and> tn_lidx s (br_pc br) = i) brs) @
      replicate ?l False)"
    using reg_hist_push_local [OF k(2), of i "replicate ?n 0" "tn_cfg s" brs]
      i tn_masks(2) [OF wf(1)] by (simp add: reg_hist_zero)
  finally have "reg_hist ?l (tn_localHistoryTable s' ! i) = \<dots>" .
  then show ?thesis using view_to_hist [OF k(1) tid len(1) g] by blast
qed

section \<open>Rounds\<close>

primrec TournamentBP_rounds ::
  "nat \<Rightarrow> TournamentBP \<Rightarrow> ThreadID \<Rightarrow> Addr \<Rightarrow> bool \<Rightarrow> StaticInst \<Rightarrow> Addr \<Rightarrow>
   (TournamentBP \<times> nat) result" where
  "TournamentBP_rounds 0 s tid pc t inst target = Inr (s, 0)"
| "TournamentBP_rounds (Suc n) s tid pc t inst target =
     bind_r (TournamentBP_lookup s tid pc None) (\<lambda>(p, s, h).
     bind_r (TournamentBP_update s tid pc t h False inst target) (\<lambda>(s, _).
     bind_r (TournamentBP_rounds n s tid pc t inst target) (\<lambda>(s, m).
       Inr (s, (if p = t then 0 else 1) + m))))"

definition tn_debt :: "TournamentBP \<Rightarrow> ThreadID \<Rightarrow> Addr \<Rightarrow> bool \<Rightarrow> nat" where
  "tn_debt s tid pc t =
     max (debt (unat (tn_localCtrBits s)) t (tn_localCtrs s !
            unat (tn_localHistoryTable s ! tn_lidx s pc AND tn_localPredictorMask s)))
         (debt (unat (tn_globalCtrBits s)) t (tn_globalCtrs s !
            unat (tn_globalHistory s ! tid AND tn_globalHistoryMask s)))"

lemma tn_debt_le:
  assumes wf: "TournamentBP_wf s"
  shows "tn_debt s tid pc t \<le>
    max (2 ^ (unat (tn_localCtrBits s) - 1)) (2 ^ (unat (tn_globalCtrBits s) - 1))"
proof -
  have "1 \<le> unat (tn_localCtrBits s)" "1 \<le> unat (tn_globalCtrBits s)"
    using wf by (simp_all add: TournamentBP_wf_def word_le_nat_alt)
  moreover have "i < length (tn_localCtrs s) \<Longrightarrow> sc_wf (unat (tn_localCtrBits s)) (tn_localCtrs s ! i)"
      "i < length (tn_globalCtrs s) \<Longrightarrow> sc_wf (unat (tn_globalCtrBits s)) (tn_globalCtrs s ! i)" for i
    using wf by (auto simp: TournamentBP_wf_def list_all_nthD)
  ultimately show ?thesis
    unfolding tn_debt_def by (intro max.mono debt_step(2)) (auto simp: tn_idx_less(2,3) [OF wf])
qed

lemma tn_debt_round:
  fixes tid :: ThreadID and pc :: Addr
  assumes wf: "TournamentBP_wf s"
  defines "h \<equiv> tn_record s tid pc"
  shows "tn_debt (tn_trained s t h) tid pc t +
    (if (if tnh_globalUsed h then tnh_globalPredTaken h else tnh_localPredTaken h) = t then 0 else 1)
    \<le> tn_debt s tid pc t"
proof -
  let ?gh = "tn_globalHistory s ! tid" let ?lh = "tn_localHistoryTable s ! tn_lidx s pc"
  let ?l = "tn_localCtrs s ! unat (?lh AND tn_localPredictorMask s)"
  let ?g = "tn_globalCtrs s ! unat (?gh AND tn_globalHistoryMask s)"
  let ?lb = "unat (tn_localCtrBits s)" and ?gb = "unat (tn_globalCtrBits s)"
  note i = tn_idx_less(2) [OF wf, of ?lh] tn_idx_less(3) [OF wf, of ?gh]
  have b: "1 \<le> ?lb" "1 \<le> ?gb" using wf by (simp_all add: TournamentBP_wf_def word_le_nat_alt)
  have c: "sc_wf ?lb ?l" "sc_wf ?gb ?g"
    using wf i by (auto simp: TournamentBP_wf_def list_all_nthD)
  have valid: "tnh_localHistory h \<noteq> invalidPredictorIndex"
    using tn_mask_valid(1) [OF wf, of ?lh] by (simp add: h_def tn_record_def Let_def)
  have fr: "tn_lidx (tn_trained s t h) = tn_lidx s"
    by (simp add: fun_eq_iff tn_lidx_def TournamentBP_calcLocHistIdx_def tn_trained_def Let_def)
  have "tn_debt (tn_trained s t h) tid pc t =
      max (debt ?lb t (ctr_step t ?l)) (debt ?gb t (ctr_step t ?g))"
    using i valid unfolding tn_debt_def fr
    by (simp add: tn_trained_def Let_def train_at_def h_def tn_record_def and.assoc)
  moreover have "(if tnh_globalUsed h then tnh_globalPredTaken h else tnh_localPredTaken h) = t \<or>
      debt ?lb t ?l \<noteq> 0 \<or> debt ?gb t ?g \<noteq> 0"
    using debt_step(4) [OF c(1) b(1), of t] debt_step(4) [OF c(2) b(2), of t]
    by (auto simp: h_def tn_record_def Let_def tn_local_def tn_global_def)
  moreover have "tn_debt s tid pc t = max (debt ?lb t ?l) (debt ?gb t ?g)"
    by (simp add: tn_debt_def)
  ultimately show ?thesis
    using debt_step(3) [OF c(1) b(1), of t] debt_step(3) [OF c(2) b(2), of t] by auto
qed

lemma TournamentBP_rounds_bound:
  assumes "TournamentBP_wf s" and "tid < length (tn_globalHistory s)"
  shows "\<exists>s' m. TournamentBP_rounds n s tid pc t inst target = Inr (s', m) \<and> TournamentBP_wf s' \<and>
    m \<le> tn_debt s tid pc t"
  using assms
proof (induction n arbitrary: s)
  case (Suc n)
  let ?s = "tn_trained s t (tn_record s tid pc)"
  have wf: "TournamentBP_wf ?s" by (rule TournamentBP_train_wf [OF Suc.prems(1)])
  have reg: "tn_globalHistory ?s = tn_globalHistory s" by (simp add: tn_trained_def Let_def)
  obtain s' m where "TournamentBP_rounds n ?s tid pc t inst target = Inr (s', m)"
      "TournamentBP_wf s'" "m \<le> tn_debt ?s tid pc t"
    using Suc.IH [OF wf] Suc.prems(2) unfolding reg by blast
  then show ?case
    using tn_debt_round [OF Suc.prems(1), of t tid pc]
    by (simp add: TournamentBP_lookup_eq [OF Suc.prems] TournamentBP_update_eq [OF Suc.prems(1)])
qed simp

section \<open>Properties\<close>


definition tnp_small :: TournamentBPParams where
  "tnp_small = \<lparr>tnp_numThreads = 2, tnp_localPredictorSize = 8, tnp_localCtrBits = 2,
     tnp_localHistoryTableSize = 8, tnp_globalPredictorSize = 8, tnp_globalCtrBits = 3,
     tnp_choicePredictorSize = 8, tnp_choiceCtrBits = 2, tnp_instShiftAmt = 2\<rparr>"

lemma tnp_small_init:
  "\<exists>s. TournamentBP_init tnp_small = Inr s \<and> unat (tn_globalHistoryBits s) = 3 \<and>
     unat (tn_localHistoryBits s) = 3 \<and> (\<forall>pc. tn_lidx s pc = unat (pc_index 2 7 pc))"
proof -
  have "ceilLog2 4 8 = Inr 3" using ceilLog2_pow2 [of 8 3 4] by simp
  then show ?thesis
    by (simp add: TournamentBP_init_def tnp_small_def Let_def isPowerOf2_def mask_nbits_def
        GenericSatCounter_def ctr_threshold_r_def tn_lidx_def TournamentBP_calcLocHistIdx_def)
qed

lemma tnp_small_demo:
  "list_all (event_ok (\<lambda>br. br_tid br < unat (tnp_numThreads tnp_small))) demo_events"
  by (rule demo_events_ok) (simp_all add: cond_branch_def tnp_small_def)




end
