(* ===== verification/Speculation.thy ===== *)
theory Speculation
  imports Gem5_Prelude
begin

text \<open>
  Speculative operations with a history per branch.  Several components of the branch prediction
  unit are used in the same way: an operation is performed for a branch when it is predicted and
  leaves a history object; the operations of younger branches are undone from their histories when
  they are squashed; the operation of the youngest branch is corrected when the branch turns out to
  be mispredicted; and the history of the oldest branch is retired when the branch commits.

  A component is the record \<open>spec_ops\<close> of the four operations.  The locale \<open>speculation\<close>
  is its contract: the state follows a view per thread, and the laws say how each operation moves
  the view.  The locale derives that after any interleaving of the operations on any threads the
  view of a thread is the one obtained by performing exactly the operations that were neither undone
  nor replaced.
\<close>

section \<open>Operations and runs\<close>

record ('s, 'op, 'r, 'h) spec_ops =
  so_do :: "'s \<Rightarrow> ThreadID \<Rightarrow> 'op \<Rightarrow> ('r \<times> 's \<times> 'h option) result"
  so_undo :: "'s \<Rightarrow> ThreadID \<Rightarrow> 'op \<Rightarrow> 'h option \<Rightarrow> ('s \<times> 'h option) result"
  so_redo :: "'s \<Rightarrow> ThreadID \<Rightarrow> 'op \<Rightarrow> 'op \<Rightarrow> 'h option \<Rightarrow> ('s \<times> 'h option) result"
  so_retire :: "'s \<Rightarrow> ThreadID \<Rightarrow> bool \<Rightarrow> 'op \<Rightarrow> 'h option \<Rightarrow> ('s \<times> 'h option) result"

text \<open>
  The operations in flight of a thread are listed youngest first with their histories.  An event
  performs a new operation, undoes the youngest, corrects the youngest, or retires the oldest.
\<close>

datatype 'op spec_event =
    Do ThreadID 'op | Undo ThreadID | Redo ThreadID 'op | Retire ThreadID bool

type_synonym ('op, 'h) inflight = "ThreadID \<Rightarrow> ('op \<times> 'h option) list"

fun spec_step ::
  "('s, 'op, 'r, 'h) spec_ops \<Rightarrow> 's \<times> ('op, 'h) inflight \<Rightarrow> 'op spec_event \<Rightarrow>
   ('s \<times> ('op, 'h) inflight) result" where
  "spec_step so (s, fl) (Do tid op) =
     bind_r (so_do so s tid op) (\<lambda>(_, s, h). Inr (s, fl(tid := (op, h) # fl tid)))"
| "spec_step so (s, fl) (Undo tid) =
     (case fl tid of [] \<Rightarrow> Inr (s, fl)
      | (op, h) # f \<Rightarrow> bind_r (so_undo so s tid op h) (\<lambda>(s, _). Inr (s, fl(tid := f))))"
| "spec_step so (s, fl) (Redo tid op') =
     (case fl tid of [] \<Rightarrow> Inr (s, fl)
      | (op, h) # f \<Rightarrow> bind_r (so_redo so s tid op op' h) (\<lambda>(s, h). Inr (s, fl(tid := (op', h) # f))))"
| "spec_step so (s, fl) (Retire tid misp) =
     (if fl tid = [] then Inr (s, fl)
      else case last (fl tid) of (op, h) \<Rightarrow>
        bind_r (so_retire so s tid misp op h) (\<lambda>(s, _). Inr (s, fl(tid := butlast (fl tid)))))"

fun spec_run ::
  "('s, 'op, 'r, 'h) spec_ops \<Rightarrow> 's \<times> ('op, 'h) inflight \<Rightarrow> 'op spec_event list \<Rightarrow>
   ('s \<times> ('op, 'h) inflight) result" where
  "spec_run so st [] = Inr st"
| "spec_run so st (ev # evs) = bind_r (spec_step so st ev) (\<lambda>st. spec_run so st evs)"

text \<open>The same run on operations alone, for one thread: in flight and retired.\<close>

fun op_step :: "ThreadID \<Rightarrow> 'op list \<times> 'op list \<Rightarrow> 'op spec_event \<Rightarrow> 'op list \<times> 'op list" where
  "op_step tid (fl, done) (Do t op) = (if t = tid then (op # fl, done) else (fl, done))"
| "op_step tid (fl, done) (Undo t) = (if t = tid then (tl fl, done) else (fl, done))"
| "op_step tid (fl, done) (Redo t op) =
     (if t = tid \<and> fl \<noteq> [] then (op # tl fl, done) else (fl, done))"
| "op_step tid (fl, done) (Retire t _) =
     (if t = tid \<and> fl \<noteq> [] then (butlast fl, last fl # done) else (fl, done))"

definition op_run :: "ThreadID \<Rightarrow> 'op spec_event list \<Rightarrow> 'op list \<times> 'op list" where
  "op_run tid evs = foldl (op_step tid) ([], []) evs"

text \<open>The operations of a thread that count: those in flight and those retired.\<close>

definition live_ops :: "ThreadID \<Rightarrow> 'op spec_event list \<Rightarrow> 'op list" where
  "live_ops tid evs = fst (op_run tid evs) @ snd (op_run tid evs)"

text \<open>
  Every new operation of the run satisfies \<open>can\<close> in the state it starts from, and every
  correction \<open>can_redo\<close> with respect to the operation it replaces.
\<close>

definition event_allowed ::
  "('s \<Rightarrow> ThreadID \<Rightarrow> 'op \<Rightarrow> bool) \<Rightarrow> ('op \<Rightarrow> 'op \<Rightarrow> bool) \<Rightarrow> 's \<times> ('op, 'h) inflight \<Rightarrow>
   'op spec_event \<Rightarrow> bool" where
  "event_allowed can can_redo st ev \<longleftrightarrow>
     (case ev of
        Do tid op \<Rightarrow> can (fst st) tid op
      | Redo tid op' \<Rightarrow> (case snd st tid of [] \<Rightarrow> True | (op, _) # _ \<Rightarrow> can_redo op op')
      | _ \<Rightarrow> True)"

fun ops_allowed ::
  "('s \<Rightarrow> ThreadID \<Rightarrow> 'op \<Rightarrow> bool) \<Rightarrow> ('op \<Rightarrow> 'op \<Rightarrow> bool) \<Rightarrow> ('s, 'op, 'r, 'h) spec_ops \<Rightarrow>
   's \<times> ('op, 'h) inflight \<Rightarrow> 'op spec_event list \<Rightarrow> bool" where
  "ops_allowed can can_redo so st [] \<longleftrightarrow> True"
| "ops_allowed can can_redo so st (ev # evs) \<longleftrightarrow>
     event_allowed can can_redo st ev \<and>
     (case spec_step so st ev of Inl _ \<Rightarrow> True | Inr st \<Rightarrow> ops_allowed can can_redo so st evs)"

fun event_tid :: "'op spec_event \<Rightarrow> ThreadID" where
  "event_tid (Do tid _) = tid"
| "event_tid (Undo tid) = tid"
| "event_tid (Redo tid _) = tid"
| "event_tid (Retire tid _) = tid"

lemma ops_allowed_snoc:
  assumes "spec_run so st evs = Inr st'" and "ops_allowed can can_redo so st evs"
    and "event_allowed can can_redo st' ev"
  shows "ops_allowed can can_redo so st (evs @ [ev])"
  using assms
proof (induction evs arbitrary: st)
  case Nil
  then show ?case by (auto split: sum.splits)
qed (auto simp: result_iffs)

lemma map_butlast_last: "fl \<noteq> [] \<Longrightarrow> map f (butlast fl) @ f (last fl) # d = map f fl @ d"
  by (induction fl) auto

section \<open>The contract\<close>

text \<open>
  \<open>tracks s V\<close> says that the state agrees with the views \<open>V\<close> of the threads;
  \<open>apply_op\<close> is the effect of one operation on a view, and \<open>hist_ok op h v\<close> that
  \<open>h\<close> is a history of \<open>op\<close> performed at the view \<open>v\<close>.
\<close>

locale speculation =
  fixes so :: "('s, 'op, 'r, 'h) spec_ops"
    and can :: "'s \<Rightarrow> ThreadID \<Rightarrow> 'op \<Rightarrow> bool"
    and can_redo :: "'op \<Rightarrow> 'op \<Rightarrow> bool"
    and tracks :: "'s \<Rightarrow> (ThreadID \<Rightarrow> 'v) \<Rightarrow> bool"
    and hist_ok :: "'op \<Rightarrow> 'h option \<Rightarrow> 'v \<Rightarrow> bool"
    and apply_op :: "'op \<Rightarrow> 'v \<Rightarrow> 'v"
    and tid_ok :: "ThreadID \<Rightarrow> bool"
  assumes do_law: "\<lbrakk>tracks s V; tid_ok tid; can s tid op\<rbrakk> \<Longrightarrow>
      \<exists>r s' h. so_do so s tid op = Inr (r, s', h) \<and> tracks s' (V(tid := apply_op op (V tid))) \<and>
        hist_ok op h (V tid)"
    and undo_law: "\<lbrakk>tracks s V; tid_ok tid; V tid = apply_op op v; hist_ok op h v\<rbrakk> \<Longrightarrow>
      \<exists>s'. so_undo so s tid op h = Inr (s', None) \<and> tracks s' (V(tid := v))"
    and redo_law: "\<lbrakk>tracks s V; tid_ok tid; V tid = apply_op op v; hist_ok op h v; can_redo op op'\<rbrakk> \<Longrightarrow>
      \<exists>s' h'. so_redo so s tid op op' h = Inr (s', h') \<and> tracks s' (V(tid := apply_op op' v)) \<and>
        hist_ok op' h' v"
    and retire_law: "\<lbrakk>tracks s V; tid_ok tid; hist_ok op h v\<rbrakk> \<Longrightarrow>
      \<exists>s'. so_retire so s tid misp op h = Inr (s', None) \<and> tracks s' V"
begin

definition view_of :: "'v \<Rightarrow> 'op list \<Rightarrow> 'v" where
  "view_of v0 ops = foldr apply_op ops v0"

primrec linked :: "'v \<Rightarrow> 'op list \<Rightarrow> ('op \<times> 'h option) list \<Rightarrow> bool" where
  "linked v0 done [] \<longleftrightarrow> True"
| "linked v0 done (e # fl) \<longleftrightarrow>
     hist_ok (fst e) (snd e) (view_of v0 (map fst fl @ done)) \<and> linked v0 done fl"

lemma linked_retire:
  "linked v0 done fl \<Longrightarrow> fl \<noteq> [] \<Longrightarrow> linked v0 (fst (last fl) # done) (butlast fl)"
  by (induction fl) (simp_all add: map_butlast_last)

lemma linked_last:
  "linked v0 done fl \<Longrightarrow> fl \<noteq> [] \<Longrightarrow>
   hist_ok (fst (last fl)) (snd (last fl)) (view_of v0 done)"
  by (induction fl) (auto split: if_splits)

definition views :: "'v \<Rightarrow> ('op, 'h) inflight \<Rightarrow> (ThreadID \<Rightarrow> 'op list) \<Rightarrow> ThreadID \<Rightarrow> 'v" where
  "views v0 fl dn tid = view_of v0 (map fst (fl tid) @ dn tid)"

definition ghost :: "'v \<Rightarrow> 's \<times> ('op, 'h) inflight \<Rightarrow> (ThreadID \<Rightarrow> 'op list) \<Rightarrow> bool" where
  "ghost v0 st dn \<longleftrightarrow> tracks (fst st) (views v0 (snd st) dn) \<and>
     (\<forall>tid. linked v0 (dn tid) (snd st tid))"

lemma views_update:
  "views v0 (fl(tid := f)) dn = (views v0 fl dn)(tid := view_of v0 (map fst f @ dn tid))"
  by (auto simp: fun_eq_iff views_def)

lemma ghost_do:
  assumes "ghost v0 (s, fl) dn" and "tid_ok tid" and "can s tid op"
  shows "\<exists>r s' h. so_do so s tid op = Inr (r, s', h) \<and> ghost v0 (s', fl(tid := (op, h) # fl tid)) dn"
proof -
  have tr: "tracks s (views v0 fl dn)" and li: "\<forall>tid. linked v0 (dn tid) (fl tid)"
    using assms(1) by (simp_all add: ghost_def)
  from do_law [OF tr assms(2,3)] obtain r s' h where "so_do so s tid op = Inr (r, s', h)"
      "hist_ok op h (views v0 fl dn tid)"
      "tracks s' ((views v0 fl dn)(tid := apply_op op (views v0 fl dn tid)))" by blast
  then show ?thesis using li
    by (intro exI [of _ r] exI [of _ s'] exI [of _ h])
      (simp add: ghost_def views_update, simp add: views_def view_of_def)
qed

lemma ghost_top:
  assumes "ghost v0 (s, fl) dn" and "fl tid = (op, h) # f"
  shows "tracks s (views v0 fl dn)"
    and "views v0 fl dn tid = apply_op op (view_of v0 (map fst f @ dn tid))"
    and "hist_ok op h (view_of v0 (map fst f @ dn tid))" and "linked v0 (dn tid) f"
proof -
  have "linked v0 (dn tid) (fl tid)" using assms(1) by (simp add: ghost_def)
  then show "hist_ok op h (view_of v0 (map fst f @ dn tid))" and "linked v0 (dn tid) f"
    using assms(2) by simp_all
  show "tracks s (views v0 fl dn)" using assms(1) by (simp add: ghost_def)
  show "views v0 fl dn tid = apply_op op (view_of v0 (map fst f @ dn tid))"
    using assms(2) by (simp add: views_def view_of_def)
qed

lemma ghost_undo:
  assumes "ghost v0 (s, fl) dn" and "tid_ok tid" and "fl tid = (op, h) # f"
  shows "\<exists>s'. so_undo so s tid op h = Inr (s', None) \<and> ghost v0 (s', fl(tid := f)) dn"
proof -
  note top = ghost_top [OF assms(1,3)]
  from undo_law [OF top(1) assms(2) top(2,3)]
  obtain s' where "so_undo so s tid op h = Inr (s', None)"
      "tracks s' ((views v0 fl dn)(tid := view_of v0 (map fst f @ dn tid)))" by blast
  then show ?thesis using assms(1,3) top(4) by (auto simp: ghost_def views_update)
qed

lemma ghost_redo:
  assumes "ghost v0 (s, fl) dn" and "tid_ok tid" and "fl tid = (op, h) # f" and "can_redo op op'"
  shows "\<exists>s' h'. so_redo so s tid op op' h = Inr (s', h') \<and> ghost v0 (s', fl(tid := (op', h') # f)) dn"
proof -
  note top = ghost_top [OF assms(1,3)]
  from redo_law [OF top(1) assms(2) top(2,3) assms(4)]
  obtain s' h' where "so_redo so s tid op op' h = Inr (s', h')"
      "tracks s' ((views v0 fl dn)(tid := apply_op op' (view_of v0 (map fst f @ dn tid))))"
      "hist_ok op' h' (view_of v0 (map fst f @ dn tid))" by blast
  then show ?thesis using assms(1,3) top(4)
    by (auto simp: ghost_def views_update) (auto simp: view_of_def)
qed

lemma ghost_retire:
  assumes "ghost v0 (s, fl) dn" and "tid_ok tid" and "fl tid \<noteq> []"
  shows "\<exists>s'. so_retire so s tid misp (fst (last (fl tid))) (snd (last (fl tid))) = Inr (s', None) \<and>
    ghost v0 (s', fl(tid := butlast (fl tid))) (dn(tid := fst (last (fl tid)) # dn tid))"
proof -
  let ?fl = "fl(tid := butlast (fl tid))" and ?dn = "dn(tid := fst (last (fl tid)) # dn tid)"
  have tr: "tracks s (views v0 fl dn)" and li: "\<forall>tid. linked v0 (dn tid) (fl tid)"
    using assms(1) by (simp_all add: ghost_def)
  have l: "linked v0 (dn tid) (fl tid)" using li by blast
  from retire_law [OF tr assms(2) linked_last [OF l assms(3)]]
  obtain s' where s': "so_retire so s tid misp (fst (last (fl tid))) (snd (last (fl tid))) = Inr (s', None)"
      "tracks s' (views v0 fl dn)" by blast
  have "views v0 ?fl ?dn = views v0 fl dn"
    using assms(3) by (auto simp: fun_eq_iff views_def map_butlast_last)
  then have "ghost v0 (s', ?fl) ?dn"
    using s'(2) li linked_retire [OF l assms(3)] by (simp add: ghost_def)
  then show ?thesis using s'(1) by blast
qed

lemma ghost_step:
  assumes g: "ghost v0 (s, fl) dn" and "tid_ok (event_tid ev)"
    and "event_allowed can can_redo (s, fl) ev"
  shows "\<exists>s' fl' dn'. spec_step so (s, fl) ev = Inr (s', fl') \<and> ghost v0 (s', fl') dn' \<and>
    (\<forall>tid. (map fst (fl' tid), dn' tid) = op_step tid (map fst (fl tid), dn tid) ev)"
proof (cases ev)
  case (Do tid op)
  then obtain r s' h where "so_do so s tid op = Inr (r, s', h)" "ghost v0 (s', fl(tid := (op, h) # fl tid)) dn"
    using ghost_do [OF g, of tid op] assms(2,3) by (auto simp: event_allowed_def)
  then show ?thesis using Do
    by (intro exI [of _ s'] exI [of _ "fl(tid := (op, h) # fl tid)"] exI [of _ dn]) auto
next
  case (Undo tid)
  show ?thesis
  proof (cases "fl tid")
    case Nil
    then show ?thesis using g Undo by (intro exI [of _ s] exI [of _ fl] exI [of _ dn]) auto
  next
    case (Cons e f)
    then obtain s' where "so_undo so s tid (fst e) (snd e) = Inr (s', None)" "ghost v0 (s', fl(tid := f)) dn"
      using ghost_undo [OF g, of tid "fst e" "snd e" f] assms(2) Undo by auto
    then show ?thesis using Undo Cons
      by (intro exI [of _ s'] exI [of _ "fl(tid := f)"] exI [of _ dn]) (auto simp: case_prod_unfold)
  qed
next
  case (Redo tid op')
  show ?thesis
  proof (cases "fl tid")
    case Nil
    then show ?thesis using g Redo by (intro exI [of _ s] exI [of _ fl] exI [of _ dn]) auto
  next
    case (Cons e f)
    then have "can_redo (fst e) op'"
      using assms(3) Redo by (cases e) (simp add: event_allowed_def)
    then obtain s' h' where "so_redo so s tid (fst e) op' (snd e) = Inr (s', h')"
        "ghost v0 (s', fl(tid := (op', h') # f)) dn"
      using ghost_redo [OF g, of tid "fst e" "snd e" f op'] assms(2) Redo Cons by auto
    then show ?thesis using Redo Cons
      by (intro exI [of _ s'] exI [of _ "fl(tid := (op', h') # f)"] exI [of _ dn]) (auto simp: case_prod_unfold)
  qed
next
  case (Retire tid misp)
  show ?thesis
  proof (cases "fl tid = []")
    case True
    then show ?thesis using g Retire by (intro exI [of _ s] exI [of _ fl] exI [of _ dn]) auto
  next
    case False
    then obtain s' where "so_retire so s tid misp (fst (last (fl tid))) (snd (last (fl tid))) = Inr (s', None)"
        "ghost v0 (s', fl(tid := butlast (fl tid))) (dn(tid := fst (last (fl tid)) # dn tid))"
      using ghost_retire [OF g, of tid misp] assms(2) Retire by auto
    then show ?thesis using False Retire
      by (intro exI [of _ s'] exI [of _ "fl(tid := butlast (fl tid))"]
          exI [of _ "dn(tid := fst (last (fl tid)) # dn tid)"]) (auto simp: map_butlast last_map case_prod_unfold)
  qed
qed

theorem run_tracks:
  assumes "tracks s (\<lambda>_. v0)" and "list_all (tid_ok \<circ> event_tid) evs"
    and "ops_allowed can can_redo so (s, \<lambda>_. []) evs"
  shows "\<exists>s' fl. spec_run so (s, \<lambda>_. []) evs = Inr (s', fl) \<and>
    tracks s' (\<lambda>tid. view_of v0 (live_ops tid evs)) \<and> (\<forall>tid. map fst (fl tid) = fst (op_run tid evs))"
proof -
  have gen: "\<exists>s' fl'. spec_run so (s, fl) evs = Inr (s', fl') \<and>
      tracks s' (\<lambda>tid. view_of v0
        (case foldl (op_step tid) (map fst (fl tid), dn tid) evs of (a, b) \<Rightarrow> a @ b)) \<and>
      (\<forall>tid. map fst (fl' tid) = fst (foldl (op_step tid) (map fst (fl tid), dn tid) evs))"
    if "ghost v0 (s, fl) dn" "list_all (tid_ok \<circ> event_tid) evs"
      "ops_allowed can can_redo so (s, fl) evs" for s fl dn
    using that
  proof (induction evs arbitrary: s fl dn)
    case Nil
    have "views v0 fl dn = (\<lambda>tid. view_of v0 (map fst (fl tid) @ dn tid))"
      by (simp add: fun_eq_iff views_def)
    then show ?case using Nil by (simp add: ghost_def)
  next
    case (Cons ev evs)
    obtain s1 fl1 dn1 where st: "spec_step so (s, fl) ev = Inr (s1, fl1)"
        "ghost v0 (s1, fl1) dn1"
        "\<forall>tid. (map fst (fl1 tid), dn1 tid) = op_step tid (map fst (fl tid), dn tid) ev"
      using ghost_step [OF Cons.prems(1), of ev] Cons.prems(2,3) by auto
    then show ?case using Cons.IH [OF st(2)] Cons.prems(2,3) by simp
  qed
  have "views v0 (\<lambda>_. []) (\<lambda>_. []) = (\<lambda>_. v0)" by (simp add: fun_eq_iff views_def view_of_def)
  then have "ghost v0 (s, \<lambda>_. []) (\<lambda>_. [])"
    using assms(1) by (simp add: ghost_def)
  from gen [OF this assms(2,3)] show ?thesis
    by (simp add: live_ops_def op_run_def case_prod_unfold)
qed

end

end
