(* ===== verification/Return_Addr_Stack.thy ===== *)
theory Return_Addr_Stack
  imports Speculation Conditional_Predictor
begin

text \<open>
  \<open>cpu/pred/ras.hh\<close> and \<open>cpu/pred/ras.cc\<close>: the return address stack, one circular
  buffer per thread, pushed and popped speculatively when calls and returns are predicted and
  repaired from the history of a branch when it is squashed.

  The type \<open>'pc\<close> stands for the instruction set's \<open>PCStateBase\<close>; copying it with
  \<open>set\<close> is assignment, and a null \<open>unique_ptr\<close> is \<open>None\<close>.

  The contents of a buffer are the used entries read downwards from the top.  A push is the push
  of a bounded stack that forgets its oldest entry, a pop removes the top.  The class keeps the
  contract \<open>speculation\<close> towards its client, the branch prediction unit: under speculation the
  stack agrees with the ideal, unbounded call stack.
\<close>

section \<open>The circular buffer\<close>

record 'pc AddrStack =
  as_addrStack :: "'pc option list"
  as_numEntries :: u32
  as_usedEntries :: u32
  as_tos :: u32

definition AddrStack_reset :: "'pc AddrStack \<Rightarrow> 'pc AddrStack" where
  "AddrStack_reset s = s\<lparr>as_usedEntries := 0, as_tos := 0\<rparr>"

definition AddrStack_init :: "u32 \<Rightarrow> 'pc AddrStack" where
  "AddrStack_init numEntries =
     AddrStack_reset \<lparr>as_addrStack = replicate (unat numEntries) None, as_numEntries = numEntries,
       as_usedEntries = 0, as_tos = 0\<rparr>"

definition AddrStack_top :: "'pc AddrStack \<Rightarrow> 'pc option result" where
  "AddrStack_top s = vec_get (as_addrStack s) (unat (as_tos s))"

definition AddrStack_incrTos :: "'pc AddrStack \<Rightarrow> 'pc AddrStack" where
  "AddrStack_incrTos s =
     (let tos = as_tos s + 1
      in s\<lparr>as_tos := (if tos = as_numEntries s then 0 else tos)\<rparr>)"

definition AddrStack_decrTos :: "'pc AddrStack \<Rightarrow> 'pc AddrStack" where
  "AddrStack_decrTos s =
     s\<lparr>as_tos := (if as_tos s = 0 then as_numEntries s - 1 else as_tos s - 1)\<rparr>"

definition AddrStack_push :: "'pc AddrStack \<Rightarrow> 'pc \<Rightarrow> 'pc AddrStack result" where
  "AddrStack_push s return_addr =
     (let s = AddrStack_incrTos s
      in bind_r (vec_set (as_addrStack s) (unat (as_tos s)) (Some return_addr)) (\<lambda>stack.
           let s = s\<lparr>as_addrStack := stack\<rparr>
           in Inr (if as_usedEntries s \<noteq> as_numEntries s
                   then s\<lparr>as_usedEntries := as_usedEntries s + 1\<rparr> else s)))"

definition AddrStack_pop :: "'pc AddrStack \<Rightarrow> 'pc AddrStack" where
  "AddrStack_pop s =
     AddrStack_decrTos
       (if as_usedEntries s > 0 then s\<lparr>as_usedEntries := as_usedEntries s - 1\<rparr> else s)"

definition AddrStack_restore :: "'pc AddrStack \<Rightarrow> u32 \<Rightarrow> 'pc option \<Rightarrow> 'pc AddrStack result" where
  "AddrStack_restore s tos restored =
     (let s = s\<lparr>as_tos := tos\<rparr>
      in bind_r (vec_set (as_addrStack s) (unat (as_tos s)) restored) (\<lambda>stack.
           let s = s\<lparr>as_addrStack := stack\<rparr>
           in Inr (if as_usedEntries s \<noteq> as_numEntries s
                   then s\<lparr>as_usedEntries := as_usedEntries s + 1\<rparr> else s)))"

definition AddrStack_empty :: "'pc AddrStack \<Rightarrow> bool" where
  "AddrStack_empty s \<longleftrightarrow> as_usedEntries s = 0"

definition AddrStack_full :: "'pc AddrStack \<Rightarrow> bool" where
  "AddrStack_full s \<longleftrightarrow> as_usedEntries s \<ge> as_numEntries s"

section \<open>The class\<close>

record 'pc RASHistory =
  rh_pushed :: bool
  rh_poped :: bool
  rh_wasReturn :: bool
  rh_wasCall :: bool
  rh_ras_entry :: "'pc option"
  rh_tos :: u32

record ReturnAddrStackStats =
  rs_pushes :: nat
  rs_pops :: nat
  rs_squashes :: nat
  rs_used :: nat
  rs_correct :: nat
  rs_incorrect :: nat

record 'pc ReturnAddrStack =
  ras_addrStacks :: "'pc AddrStack list"
  ras_numEntries :: u32
  ras_numThreads :: u32
  ras_stats :: ReturnAddrStackStats

definition ReturnAddrStack_init :: "u32 \<Rightarrow> u32 \<Rightarrow> 'pc ReturnAddrStack" where
  "ReturnAddrStack_init numEntries numThreads =
     \<lparr>ras_addrStacks = replicate (unat numThreads) (AddrStack_init numEntries),
      ras_numEntries = numEntries, ras_numThreads = numThreads,
      ras_stats = \<lparr>rs_pushes = 0, rs_pops = 0, rs_squashes = 0, rs_used = 0, rs_correct = 0,
        rs_incorrect = 0\<rparr>\<rparr>"

definition ReturnAddrStack_reset :: "'pc ReturnAddrStack \<Rightarrow> 'pc ReturnAddrStack" where
  "ReturnAddrStack_reset s = s\<lparr>ras_addrStacks := map AddrStack_reset (ras_addrStacks s)\<rparr>"

definition makeRASHistory :: "'pc RASHistory" where
  "makeRASHistory = \<lparr>rh_pushed = False, rh_poped = False, rh_wasReturn = False,
     rh_wasCall = False, rh_ras_entry = None, rh_tos = 0\<rparr>"

definition ReturnAddrStack_push ::
  "'pc ReturnAddrStack \<Rightarrow> ThreadID \<Rightarrow> 'pc \<Rightarrow> 'pc RASHistory option \<Rightarrow>
   ('pc ReturnAddrStack \<times> 'pc RASHistory option) result" where
  "ReturnAddrStack_push s tid pc ras_history =
     (let history = (case ras_history of None \<Rightarrow> makeRASHistory | Some h \<Rightarrow> h);
          s = s\<lparr>ras_stats := (ras_stats s)\<lparr>rs_pushes := rs_pushes (ras_stats s) + 1\<rparr>\<rparr>;
          history = history\<lparr>rh_pushed := True\<rparr>
      in bind_r (vec_get (ras_addrStacks s) tid) (\<lambda>stack.
         bind_r (AddrStack_push stack pc) (\<lambda>stack.
           Inr (s\<lparr>ras_addrStacks := (ras_addrStacks s)[tid := stack]\<rparr>, Some history))))"

definition ReturnAddrStack_pop ::
  "'pc ReturnAddrStack \<Rightarrow> ThreadID \<Rightarrow> 'pc RASHistory option \<Rightarrow>
   ('pc option \<times> 'pc ReturnAddrStack \<times> 'pc RASHistory option) result" where
  "ReturnAddrStack_pop s tid ras_history =
     (let history = (case ras_history of None \<Rightarrow> makeRASHistory | Some h \<Rightarrow> h);
          s = s\<lparr>ras_stats := (ras_stats s)\<lparr>rs_pops := rs_pops (ras_stats s) + 1\<rparr>\<rparr>
      in bind_r (vec_get (ras_addrStacks s) tid) (\<lambda>stack.
           let history = history\<lparr>rh_poped := True, rh_tos := as_tos stack\<rparr>
           in bind_r (AddrStack_top stack) (\<lambda>top.
                let history = history\<lparr>rh_ras_entry := top\<rparr>;
                    s = s\<lparr>ras_addrStacks := (ras_addrStacks s)[tid := AddrStack_pop stack]\<rparr>
                in Inr (rh_ras_entry history, s, Some history))))"

definition ReturnAddrStack_squash ::
  "'pc ReturnAddrStack \<Rightarrow> ThreadID \<Rightarrow> 'pc RASHistory option \<Rightarrow>
   ('pc ReturnAddrStack \<times> 'pc RASHistory option) result" where
  "ReturnAddrStack_squash s tid ras_history =
     (case ras_history of
        None \<Rightarrow> Inr (s, None)
      | Some history \<Rightarrow>
          let s = s\<lparr>ras_stats := (ras_stats s)\<lparr>rs_squashes := rs_squashes (ras_stats s) + 1\<rparr>\<rparr>
          in bind_r (if rh_pushed history
               then let s = s\<lparr>ras_stats := (ras_stats s)\<lparr>rs_pops := rs_pops (ras_stats s) + 1\<rparr>\<rparr>
                    in bind_r (vec_get (ras_addrStacks s) tid) (\<lambda>stack.
                         Inr (s\<lparr>ras_addrStacks := (ras_addrStacks s)[tid := AddrStack_pop stack]\<rparr>))
               else Inr s) (\<lambda>s.
             bind_r (if rh_poped history
               then let s = s\<lparr>ras_stats := (ras_stats s)\<lparr>rs_pushes := rs_pushes (ras_stats s) + 1\<rparr>\<rparr>
                    in bind_r (vec_get (ras_addrStacks s) tid) (\<lambda>stack.
                       bind_r (AddrStack_restore stack (rh_tos history) (rh_ras_entry history))
                         (\<lambda>stack. Inr (s\<lparr>ras_addrStacks := (ras_addrStacks s)[tid := stack]\<rparr>)))
               else Inr s) (\<lambda>s.
             Inr (s, None))))"

definition ReturnAddrStack_commit ::
  "'pc ReturnAddrStack \<Rightarrow> ThreadID \<Rightarrow> bool \<Rightarrow> BranchType \<Rightarrow> 'pc RASHistory option \<Rightarrow>
   ('pc ReturnAddrStack \<times> 'pc RASHistory option) result" where
  "ReturnAddrStack_commit s tid misp brType ras_history =
     (if \<not> (brType = Return \<or> brType = CallDirect \<or> brType = CallIndirect)
      then check (ras_history = None) (Assert ''ras_history == nullptr'') (Inr (s, ras_history))
      else case ras_history of
        None \<Rightarrow> Inr (s, None)
      | Some history \<Rightarrow>
          let stats = ras_stats s;
              stats = (if rh_poped history
                then let stats = stats\<lparr>rs_used := rs_used stats + 1\<rparr>
                     in (if misp then stats\<lparr>rs_incorrect := rs_incorrect stats + 1\<rparr>
                         else stats\<lparr>rs_correct := rs_correct stats + 1\<rparr>)
                else stats)
          in Inr (s\<lparr>ras_stats := stats\<rparr>, None))"

section \<open>Speculative stack operations\<close>

text \<open>
  The stack operation of one branch: a call pushes its return address, a return pops, a coroutine
  switch pops and pushes with one history.  The ideal call stack is an unbounded list.
\<close>

datatype 'pc ras_op = Call 'pc | Ret | Coroutine 'pc

fun op_pops :: "'pc ras_op \<Rightarrow> bool" where
  "op_pops (Call _) = False"
| "op_pops _ = True"

fun op_type :: "'pc ras_op \<Rightarrow> BranchType" where
  "op_type (Call _) = CallDirect"
| "op_type _ = Return"

fun ideal_op :: "'pc ras_op \<Rightarrow> 'pc list \<Rightarrow> 'pc list" where
  "ideal_op (Call p) st = p # st"
| "ideal_op Ret st = tl st"
| "ideal_op (Coroutine p) st = p # tl st"

definition ideal_stack :: "'pc ras_op list \<Rightarrow> 'pc list" where
  "ideal_stack ops = foldr ideal_op ops []"

definition ReturnAddrStack_do ::
  "'pc ReturnAddrStack \<Rightarrow> ThreadID \<Rightarrow> 'pc ras_op \<Rightarrow>
   ('pc option \<times> 'pc ReturnAddrStack \<times> 'pc RASHistory option) result" where
  "ReturnAddrStack_do s tid op =
     (case op of
        Call p \<Rightarrow> bind_r (ReturnAddrStack_push s tid p None) (\<lambda>(s, h). Inr (None, s, h))
      | Ret \<Rightarrow> ReturnAddrStack_pop s tid None
      | Coroutine p \<Rightarrow> bind_r (ReturnAddrStack_pop s tid None) (\<lambda>(r, s, h).
          bind_r (ReturnAddrStack_push s tid p h) (\<lambda>(s, h). Inr (r, s, h))))"

text \<open>The class has no operation that corrects a branch; the runs below have none.\<close>

definition no_redo :: "'pc ras_op \<Rightarrow> 'pc ras_op \<Rightarrow> bool" where
  "no_redo op op' \<longleftrightarrow> False"

definition ReturnAddrStack_ops ::
  "('pc ReturnAddrStack, 'pc ras_op, 'pc option, 'pc RASHistory) spec_ops" where
  "ReturnAddrStack_ops = \<lparr>so_do = ReturnAddrStack_do,
     so_undo = (\<lambda>s tid op h. ReturnAddrStack_squash s tid h),
     so_redo = (\<lambda>s tid op op' h. Inr (s, h)),
     so_retire = (\<lambda>s tid misp op h. ReturnAddrStack_commit s tid misp (op_type op) h)\<rparr>"

section \<open>The buffer as a bounded stack\<close>

definition up :: "nat \<Rightarrow> nat \<Rightarrow> nat" where
  "up n t = (if Suc t = n then 0 else Suc t)"

definition down :: "nat \<Rightarrow> nat \<Rightarrow> nat" where
  "down n t = (if t = 0 then n - 1 else t - 1)"

definition slot :: "nat \<Rightarrow> nat \<Rightarrow> nat \<Rightarrow> nat" where
  "slot n t i = (if i \<le> t then t - i else t + n - i)"

definition AddrStack_contents :: "'pc AddrStack \<Rightarrow> 'pc option list" where
  "AddrStack_contents s =
     map (\<lambda>i. as_addrStack s ! slot (unat (as_numEntries s)) (unat (as_tos s)) i)
       [0..<unat (as_usedEntries s)]"

definition AddrStack_wf :: "nat \<Rightarrow> 'pc AddrStack \<Rightarrow> bool" where
  "AddrStack_wf n s \<longleftrightarrow> unat (as_numEntries s) = n \<and> length (as_addrStack s) = n \<and>
     unat (as_tos s) < n \<and> unat (as_usedEntries s) \<le> n"

text \<open>The buffer holds a prefix of the ideal stack \<open>I\<close>, and its top is at \<open>t\<close>.\<close>

definition AddrStack_tracks :: "nat \<Rightarrow> 'pc AddrStack \<Rightarrow> 'pc list \<times> nat \<Rightarrow> bool" where
  "AddrStack_tracks n s v \<longleftrightarrow> AddrStack_wf n s \<and> unat (as_tos s) = snd v \<and>
     unat (as_usedEntries s) \<le> length (fst v) \<and>
     AddrStack_contents s = map Some (take (unat (as_usedEntries s)) (fst v))"

lemma up_down [simp]: "t < n \<Longrightarrow> down n (up n t) = t" "t < n \<Longrightarrow> up n (down n t) = t"
  "t < n \<Longrightarrow> up n t < n" "t < n \<Longrightarrow> down n t < n"
  by (auto simp: up_def down_def)

lemma slot_simps:
  "t < n \<Longrightarrow> slot n t 0 = t"
  "t < n \<Longrightarrow> Suc i < n \<Longrightarrow> slot n (up n t) (Suc i) = slot n t i"
  "t < n \<Longrightarrow> Suc i < n \<Longrightarrow> slot n (down n t) i = slot n t (Suc i)"
  "t < n \<Longrightarrow> Suc i < n \<Longrightarrow> slot n t i \<noteq> up n t"
  "t < n \<Longrightarrow> i < n \<Longrightarrow> slot n t i < n"
  by (auto simp: slot_def up_def down_def)

lemma contents_nth:
  "AddrStack_contents s = map Some (take (unat (as_usedEntries s)) I) \<longleftrightarrow>
   (\<forall>i < unat (as_usedEntries s).
      as_addrStack s ! slot (unat (as_numEntries s)) (unat (as_tos s)) i = Some (I ! i))"
  if "unat (as_usedEntries s) \<le> length I"
  using that by (auto simp: AddrStack_contents_def list_eq_iff_nth_eq)

lemma unat_up:
  fixes t n :: u32
  assumes "unat t < unat n"
  shows "unat (if t + 1 = n then 0 else t + 1) = up (unat n) (unat t)"
proof -
  have "unat n < 2 ^ 32" using unsigned_less [of n] by simp
  then have "unat (t + 1) = Suc (unat t)"
    using assms by (simp add: unat_word_ariths)
  then show ?thesis by (auto simp: up_def word_unat_eq_iff)
qed

lemma unat_down:
  fixes t n :: u32
  assumes "unat t < unat n"
  shows "unat (if t = 0 then n - 1 else t - 1) = down (unat n) (unat t)"
proof -
  have "n \<noteq> 0" using assms by (metis not_less_zero unsigned_0)
  then show ?thesis by (auto simp: down_def unat_minus_one unat_eq_0)
qed

text \<open>Writing a new top: common to a push and to the restoration of a popped entry.\<close>

lemma write_top:
  fixes x :: 'pc
  assumes "AddrStack_tracks n s (I, t)" and "unat tos = up n t"
  defines "s' \<equiv> s\<lparr>as_tos := tos, as_addrStack := (as_addrStack s)[unat tos := Some x],
    as_usedEntries := (if as_usedEntries s \<noteq> as_numEntries s then as_usedEntries s + 1
      else as_usedEntries s)\<rparr>"
  shows "AddrStack_tracks n s' (x # I, up n t)"
proof -
  let ?u = "unat (as_usedEntries s)"
  have wf: "AddrStack_wf n s" and t: "unat (as_tos s) = t" "t < n" and le: "?u \<le> length I"
    and n: "unat (as_numEntries s) = n" "length (as_addrStack s) = n" "?u \<le> n"
    using assms(1) by (auto simp: AddrStack_tracks_def AddrStack_wf_def)
  have c: "as_addrStack s ! slot n t i = Some (I ! i)" if "i < ?u" for i
    using assms(1) that contents_nth [OF le] n t by (simp add: AddrStack_tracks_def)
  have "unat (as_numEntries s) < 2 ^ 32" using unsigned_less [of "as_numEntries s"] by simp
  then have u: "unat (as_usedEntries s') = min n (Suc ?u)"
    using n by (auto simp: s'_def unat_word_ariths word_unat_eq_iff min_def)
  have "as_addrStack s' ! slot n (up n t) i = Some ((x # I) ! i)" if "i < min n (Suc ?u)" for i
    using that t(2) c assms(2) n(2) by (cases i) (auto simp: s'_def slot_simps slot_simps(4) [THEN not_sym] nth_list_update)
  then have "AddrStack_contents s' = map Some (take (unat (as_usedEntries s')) (x # I))"
    using contents_nth [of s' "x # I"] u le n assms(2) by (simp add: s'_def)
  then show ?thesis
    using u le n t assms(2) by (simp add: AddrStack_tracks_def AddrStack_wf_def s'_def)
qed

lemma AddrStack_restore_eq:
  assumes "unat tos < length (as_addrStack s)"
  shows "AddrStack_restore s tos e = Inr (s\<lparr>as_tos := tos, as_addrStack := (as_addrStack s)[unat tos := e],
    as_usedEntries := (if as_usedEntries s \<noteq> as_numEntries s then as_usedEntries s + 1
      else as_usedEntries s)\<rparr>)"
  using assms by (cases "as_usedEntries s = as_numEntries s") (simp_all add: AddrStack_restore_def)

lemma AddrStack_push_eq_restore:
  "AddrStack_push s p = AddrStack_restore s (as_tos (AddrStack_incrTos s)) (Some p)"
  by (simp add: AddrStack_push_def AddrStack_restore_def AddrStack_incrTos_def Let_def)

lemma AddrStack_restore_tracks:
  assumes "AddrStack_tracks n s (I, down n t)" and "unat tos = t" and "t < n"
  shows "\<exists>s'. AddrStack_restore s tos (Some x) = Inr s' \<and> AddrStack_tracks n s' (x # I, t)"
proof -
  have "unat tos = up n (down n t)" using assms(2,3) by simp
  from write_top [OF assms(1) this, of x] show ?thesis
    using assms by (auto simp: AddrStack_restore_eq AddrStack_tracks_def AddrStack_wf_def)
qed

lemma AddrStack_push_tracks:
  assumes "AddrStack_tracks n s (I, t)"
  shows "\<exists>s'. AddrStack_push s p = Inr s' \<and> AddrStack_tracks n s' (p # I, up n t)"
proof -
  have t: "unat (as_tos s) = t" "t < n" "unat (as_numEntries s) = n"
    using assms by (auto simp: AddrStack_tracks_def AddrStack_wf_def)
  have "unat (as_tos (AddrStack_incrTos s)) = up n t"
    using unat_up [of "as_tos s" "as_numEntries s"] t
    by (simp add: AddrStack_incrTos_def Let_def)
  then show ?thesis
    using AddrStack_restore_tracks [of n s I "up n t" _ p] assms t
    by (simp add: AddrStack_push_eq_restore)
qed

lemma AddrStack_pop_tracks:
  assumes "AddrStack_tracks n s (I, t)"
  shows "AddrStack_tracks n (AddrStack_pop s) (tl I, down n t)"
proof -
  let ?u = "unat (as_usedEntries s)" let ?s = "AddrStack_pop s"
  have t: "unat (as_tos s) = t" "t < n" and le: "?u \<le> length I"
    and n: "unat (as_numEntries s) = n" "length (as_addrStack s) = n" "?u \<le> n"
    using assms(1) by (auto simp: AddrStack_tracks_def AddrStack_wf_def)
  have f: "as_numEntries ?s = as_numEntries s" "as_addrStack ?s = as_addrStack s"
      "unat (as_tos ?s) = down n t" "unat (as_usedEntries ?s) = ?u - 1"
    using unat_down [of "as_tos s" "as_numEntries s"] t n
    by (auto simp: AddrStack_pop_def AddrStack_decrTos_def unat_minus_one word_gt_0)
  have c: "as_addrStack s ! slot n t i = Some (I ! i)" if "i < ?u" for i
    using assms(1) that contents_nth [OF le] n t by (simp add: AddrStack_tracks_def)
  have "as_addrStack s ! slot n (down n t) i = Some (tl I ! i)" if "i < ?u - 1" for i
    using that c [of "Suc i"] t(2) n(3) le by (simp add: slot_simps nth_tl)
  then have "AddrStack_contents ?s = map Some (take (unat (as_usedEntries ?s)) (tl I))"
    using contents_nth [of ?s "tl I"] f le n by simp
  then show ?thesis using f le n t by (auto simp: AddrStack_tracks_def AddrStack_wf_def)
qed

lemma AddrStack_top_tracks:
  assumes "AddrStack_tracks n s (I, t)" and "\<not> AddrStack_empty s"
  shows "AddrStack_top s = Inr (Some (hd I))" and "I \<noteq> []"
proof -
  let ?u = "unat (as_usedEntries s)"
  have t: "unat (as_tos s) = t" "t < n" and le: "?u \<le> length I"
    and n: "unat (as_numEntries s) = n" "length (as_addrStack s) = n" "?u \<le> n"
    using assms(1) by (auto simp: AddrStack_tracks_def AddrStack_wf_def)
  have u: "0 < ?u" using assms(2) by (simp add: AddrStack_empty_def unat_gt_0)
  then show "I \<noteq> []" using le by auto
  have "as_addrStack s ! slot n t 0 = Some (I ! 0)"
    using assms(1) u contents_nth [OF le] n t by (simp add: AddrStack_tracks_def)
  then show "AddrStack_top s = Inr (Some (hd I))"
    using t n \<open>I \<noteq> []\<close> by (simp add: AddrStack_top_def slot_simps hd_conv_nth)
qed

text \<open>What the class relies on: the laws of one buffer against an ideal stack and a top index, for
  the ideal stacks that \<open>fits\<close> admits.\<close>

locale addr_stack =
  fixes n :: nat
    and tracks :: "'pc AddrStack \<Rightarrow> 'pc list \<times> nat \<Rightarrow> bool"
    and room :: "'pc AddrStack \<Rightarrow> bool"
    and fits :: "'pc list \<Rightarrow> bool"
  assumes push_law: "tracks s (I, t) \<Longrightarrow> fits (p # I) \<Longrightarrow>
      \<exists>s'. AddrStack_push s p = Inr s' \<and> tracks s' (p # I, up n t)"
    and restore_law: "tracks s (I, down n t) \<Longrightarrow> fits (x # I) \<Longrightarrow> unat tos = t \<Longrightarrow> t < n \<Longrightarrow>
      \<exists>s'. AddrStack_restore s tos (Some x) = Inr s' \<and> tracks s' (x # I, t)"
    and pop_law: "tracks s (I, t) \<Longrightarrow> tracks (AddrStack_pop s) (tl I, down n t)"
    and top_law: "tracks s (I, t) \<Longrightarrow> \<not> AddrStack_empty s \<Longrightarrow>
      I \<noteq> [] \<and> AddrStack_top s = Inr (Some (hd I))"
    and tos_law: "tracks s (I, t) \<Longrightarrow> unat (as_tos s) = t \<and> t < n"
    and room_law: "tracks s (I, t) \<Longrightarrow> room s \<Longrightarrow> fits (p # I)"
    and fits_law: "tracks s (I, t) \<Longrightarrow> I \<noteq> [] \<Longrightarrow> fits (q # tl I)"

interpretation prefix_stack: addr_stack n "AddrStack_tracks n" "\<lambda>_. True" "\<lambda>_. True" for n
proof (unfold_locales, goal_cases)
  case (4 s I t)
  then show ?case using AddrStack_top_tracks by blast
next
  case (5 s I t)
  then show ?case by (auto simp: AddrStack_tracks_def AddrStack_wf_def)
qed (simp_all add: AddrStack_push_tracks AddrStack_restore_tracks AddrStack_pop_tracks)

definition AddrStack_exact :: "nat \<Rightarrow> 'pc AddrStack \<Rightarrow> 'pc list \<times> nat \<Rightarrow> bool" where
  "AddrStack_exact n s v \<longleftrightarrow> AddrStack_tracks n s v \<and>
     unat (as_usedEntries s) = length (fst v)"

lemma AddrStack_restore_used:
  assumes "AddrStack_restore s tos e = Inr s'" and "AddrStack_wf n s"
    and "unat (as_usedEntries s) < n"
  shows "unat (as_usedEntries s') = Suc (unat (as_usedEntries s))"
proof -
  have "as_usedEntries s \<noteq> as_numEntries s" using assms(2,3) by (auto simp: AddrStack_wf_def)
  then have "as_usedEntries s' = as_usedEntries s + 1"
    using assms(1) by (auto simp: AddrStack_restore_def result_iffs)
  moreover have "unat (as_numEntries s) < 2 ^ 32" using unsigned_less [of "as_numEntries s"] by simp
  ultimately show ?thesis using assms(2,3) by (simp add: AddrStack_wf_def unat_word_ariths)
qed

lemma AddrStack_pop_used: "unat (as_usedEntries (AddrStack_pop s)) = unat (as_usedEntries s) - 1"
  by (auto simp: AddrStack_pop_def AddrStack_decrTos_def unat_minus_one word_gt_0)

interpretation exact_stack: addr_stack n "AddrStack_exact n" "\<lambda>s. \<not> AddrStack_full s"
  "\<lambda>I. length I \<le> n" for n
proof (unfold_locales, goal_cases)
  case (1 s I t p)
  then obtain s' where s': "AddrStack_push s p = Inr s'" "AddrStack_tracks n s' (p # I, up n t)"
    using AddrStack_push_tracks [of n s I t p] by (auto simp: AddrStack_exact_def)
  then show ?case
    using AddrStack_restore_used [OF s'(1) [unfolded AddrStack_push_eq_restore], of n] 1
    by (auto simp: AddrStack_exact_def AddrStack_tracks_def)
next
  case (2 s I t x tos)
  then obtain s' where s': "AddrStack_restore s tos (Some x) = Inr s'" "AddrStack_tracks n s' (x # I, t)"
    using AddrStack_restore_tracks [of n s I t tos x] by (auto simp: AddrStack_exact_def)
  then show ?case
    using AddrStack_restore_used [OF s'(1), of n] 2
    by (auto simp: AddrStack_exact_def AddrStack_tracks_def)
next
  case (3 s I t)
  then show ?case
    using AddrStack_pop_tracks [of n s I t] by (simp add: AddrStack_exact_def AddrStack_pop_used)
next
  case (4 s I t)
  then show ?case using AddrStack_top_tracks [of n s I t] by (simp add: AddrStack_exact_def)
next
  case (6 s I t p)
  then show ?case
    by (auto simp: AddrStack_exact_def AddrStack_tracks_def AddrStack_wf_def AddrStack_full_def
        word_le_nat_alt)
next
  case (7 s I t)
  then show ?case by (cases I) (auto simp: AddrStack_exact_def AddrStack_tracks_def AddrStack_wf_def)
qed (auto simp: AddrStack_exact_def AddrStack_tracks_def AddrStack_wf_def)

section \<open>The class keeps the contract\<close>

definition ras_tracks :: "('pc AddrStack \<Rightarrow> 'pc list \<times> nat \<Rightarrow> bool) \<Rightarrow> nat \<Rightarrow>
    'pc ReturnAddrStack \<Rightarrow> (ThreadID \<Rightarrow> 'pc list \<times> nat) \<Rightarrow> bool" where
  "ras_tracks tr m s V \<longleftrightarrow> length (ras_addrStacks s) = m \<and>
     (\<forall>tid < m. tr (ras_addrStacks s ! tid) (V tid))"

definition ras_nonempty :: "'pc ReturnAddrStack \<Rightarrow> ThreadID \<Rightarrow> bool" where
  "ras_nonempty s tid \<longleftrightarrow> \<not> AddrStack_empty (ras_addrStacks s ! tid)"

definition ras_apply :: "nat \<Rightarrow> 'pc ras_op \<Rightarrow> 'pc list \<times> nat \<Rightarrow> 'pc list \<times> nat" where
  "ras_apply n op v = (ideal_op op (fst v),
     case op of Call _ \<Rightarrow> up n (snd v) | Ret \<Rightarrow> down n (snd v) | Coroutine _ \<Rightarrow> up n (down n (snd v)))"

definition ras_hist_ok ::
  "nat \<Rightarrow> ('pc list \<Rightarrow> bool) \<Rightarrow> 'pc ras_op \<Rightarrow> 'pc RASHistory option \<Rightarrow> 'pc list \<times> nat \<Rightarrow> bool" where
  "ras_hist_ok n fits op h v \<longleftrightarrow> snd v < n \<and> (\<exists>r. h = Some r \<and>
     (rh_poped r \<longleftrightarrow> op_pops op) \<and> (rh_pushed r \<longleftrightarrow> op \<noteq> Ret) \<and>
     (op_pops op \<longrightarrow> fst v \<noteq> [] \<and> fits (fst v) \<and> unat (rh_tos r) = snd v \<and>
        rh_ras_entry r = Some (hd (fst v))))"

definition ras_can :: "('pc AddrStack \<Rightarrow> bool) \<Rightarrow> 'pc ReturnAddrStack \<Rightarrow> ThreadID \<Rightarrow> 'pc ras_op \<Rightarrow> bool"
  where
  "ras_can room s tid op \<longleftrightarrow>
     (if op_pops op then ras_nonempty s tid else room (ras_addrStacks s ! tid))"

lemma ras_commit:
  assumes "ras_hist_ok n fits op h v"
  shows "\<exists>s'. ReturnAddrStack_commit s tid misp (op_type op) h = Inr (s', None) \<and>
    ras_addrStacks s' = ras_addrStacks s"
proof -
  obtain r where "h = Some r" using assms by (auto simp: ras_hist_ok_def)
  then show ?thesis by (cases op) (auto simp: ReturnAddrStack_commit_def Let_def)
qed

lemma ras_tracks_stats [simp]:
  "ras_tracks tr m (s\<lparr>ras_stats := x, ras_addrStacks := y\<rparr>) V = ras_tracks tr m (s\<lparr>ras_addrStacks := y\<rparr>) V"
  by (simp add: ras_tracks_def)

lemma ras_tracks_update:
  assumes "ras_tracks tr m s V" and "tr st v" and "tid < m"
  shows "ras_tracks tr m (s\<lparr>ras_addrStacks := (ras_addrStacks s)[tid := st]\<rparr>) (V(tid := v))"
  using assms by (auto simp: ras_tracks_def nth_list_update)

context addr_stack
begin

lemma ras_push:
  assumes tr: "ras_tracks tracks m s V" and tid: "tid < m" and fit: "fits (p # fst (V tid))"
  shows "\<exists>s'. ReturnAddrStack_push s tid p h =
      Inr (s', Some ((case h of None \<Rightarrow> makeRASHistory | Some h \<Rightarrow> h)\<lparr>rh_pushed := True\<rparr>)) \<and>
    ras_tracks tracks m s' (V(tid := (p # fst (V tid), up n (snd (V tid)))))"
proof -
  have st: "tracks (ras_addrStacks s ! tid) (fst (V tid), snd (V tid))"
      "tid < length (ras_addrStacks s)" using tr tid by (simp_all add: ras_tracks_def)
  obtain st' where "AddrStack_push (ras_addrStacks s ! tid) p = Inr st'"
      "tracks st' (p # fst (V tid), up n (snd (V tid)))"
    using push_law [OF st(1) fit] by blast
  then show ?thesis
    using ras_tracks_update [OF tr _ tid] st(2) by (simp add: ReturnAddrStack_push_def Let_def)
qed

lemma ras_pop:
  assumes tr: "ras_tracks tracks m s V" and tid: "tid < m" and ne: "ras_nonempty s tid"
  shows "\<exists>s' h. ReturnAddrStack_pop s tid None = Inr (Some (hd (fst (V tid))), s', Some h) \<and>
    rh_poped h \<and> \<not> rh_pushed h \<and> rh_ras_entry h = Some (hd (fst (V tid))) \<and>
    unat (rh_tos h) = snd (V tid) \<and> fst (V tid) \<noteq> [] \<and>
    ras_tracks tracks m s' (V(tid := (tl (fst (V tid)), down n (snd (V tid)))))"
proof -
  have st: "tracks (ras_addrStacks s ! tid) (fst (V tid), snd (V tid))"
      "tid < length (ras_addrStacks s)" using tr tid by (simp_all add: ras_tracks_def)
  have "\<not> AddrStack_empty (ras_addrStacks s ! tid)" using ne by (simp add: ras_nonempty_def)
  then show ?thesis
    using ras_tracks_update [OF tr pop_law [OF st(1)] tid] st(2) top_law [OF st(1)] tos_law [OF st(1)]
    by (simp add: ReturnAddrStack_pop_def Let_def ras_nonempty_def makeRASHistory_def)
qed

lemma ras_do:
  assumes tr: "ras_tracks tracks m s V" and tid: "tid < m" and can: "ras_can room s tid op"
  shows "\<exists>r s' h. ReturnAddrStack_do s tid op = Inr (r, s', h) \<and>
    ras_tracks tracks m s' (V(tid := ras_apply n op (V tid))) \<and> ras_hist_ok n fits op h (V tid)"
proof -
  have st: "tracks (ras_addrStacks s ! tid) (fst (V tid), snd (V tid))"
    using tr tid by (simp add: ras_tracks_def)
  note t = tos_law [OF st, THEN conjunct2] and fits = fits_law [OF st]
  show ?thesis
  proof (cases op)
    case (Call p)
    then have "fits (p # fst (V tid))" using can room_law [OF st] by (simp add: ras_can_def)
    then show ?thesis using ras_push [OF tr tid, of p None] t Call
      by (auto simp: ReturnAddrStack_do_def ras_apply_def ras_hist_ok_def makeRASHistory_def ras_can_def)
  next
    case Ret
    then show ?thesis using ras_pop [OF tr tid] can t fits [of "hd (fst (V tid))"]
      by (auto simp: ReturnAddrStack_do_def ras_apply_def ras_hist_ok_def makeRASHistory_def ras_can_def)
  next
    case (Coroutine p)
    obtain s1 h1 where pop: "ReturnAddrStack_pop s tid None = Inr (Some (hd (fst (V tid))), s1, Some h1)"
      "rh_poped h1" "rh_ras_entry h1 = Some (hd (fst (V tid)))" "unat (rh_tos h1) = snd (V tid)"
      "fst (V tid) \<noteq> []" "ras_tracks tracks m s1 (V(tid := (tl (fst (V tid)), down n (snd (V tid)))))"
      using ras_pop [OF tr tid] can Coroutine by (auto simp: ras_can_def)
    obtain s2 where "ReturnAddrStack_push s1 tid p (Some h1) = Inr (s2, Some (h1\<lparr>rh_pushed := True\<rparr>))"
      "ras_tracks tracks m s2 (V(tid := ras_apply n op (V tid)))"
      using ras_push [OF pop(6) tid, of p "Some h1"] Coroutine fits [OF pop(5)] by (auto simp: ras_apply_def)
    then show ?thesis using pop(1-5) Coroutine t fits [of "hd (fst (V tid))"]
      by (auto simp: ReturnAddrStack_do_def ras_hist_ok_def)
  qed
qed

lemma ras_squash:
  assumes tr: "ras_tracks tracks m s V" and tid: "tid < m" and V: "V tid = ras_apply n op v"
    and h: "ras_hist_ok n fits op h v"
  shows "\<exists>s'. ReturnAddrStack_squash s tid h = Inr (s', None) \<and> ras_tracks tracks m s' (V(tid := v))"
proof -
  obtain r where r: "h = Some r" "rh_poped r \<longleftrightarrow> op_pops op" "rh_pushed r \<longleftrightarrow> op \<noteq> Ret"
      "op_pops op \<Longrightarrow> fst v \<noteq> []" "op_pops op \<Longrightarrow> unat (rh_tos r) = snd v"
      "op_pops op \<Longrightarrow> rh_ras_entry r = Some (hd (fst v))" "op_pops op \<Longrightarrow> fits (fst v)" and lt: "snd v < n"
    using h by (auto simp: ras_hist_ok_def)
  let ?st = "ras_addrStacks s ! tid"
  have st: "tracks ?st (V tid)" "tid < length (ras_addrStacks s)"
    using tr tid by (simp_all add: ras_tracks_def)
  have restore: "\<exists>st'. AddrStack_restore st (rh_tos r) (rh_ras_entry r) = Inr st' \<and>
      tracks st' v"
    if "op_pops op" "tracks st (tl (fst v), down n (snd v))" for st
    using restore_law [OF that(2) _ r(5) lt, of "hd (fst v)"] r(4,6,7) that(1) by simp
  show ?thesis
  proof (cases op)
    case (Call p)
    then have "tracks (AddrStack_pop ?st) v"
      using pop_law [of ?st "p # fst v" "up n (snd v)"] st V lt
      by (simp add: ras_apply_def)
    then show ?thesis using ras_tracks_update [OF tr _ tid] Call r(1-3) st(2)
      by (simp add: ReturnAddrStack_squash_def Let_def)
  next
    case Ret
    then obtain st' where "AddrStack_restore ?st (rh_tos r) (rh_ras_entry r) = Inr st'"
        "tracks st' v" using restore [of ?st] st V by (auto simp: ras_apply_def)
    then show ?thesis using ras_tracks_update [OF tr _ tid] Ret r(1-3) st(2)
      by (simp add: ReturnAddrStack_squash_def Let_def)
  next
    case (Coroutine p)
    then have "tracks (AddrStack_pop ?st) (tl (fst v), down n (snd v))"
      using pop_law [of ?st "p # tl (fst v)" "snd v"] st V lt
      by (simp add: ras_apply_def)
    then obtain st' where "AddrStack_restore (AddrStack_pop ?st) (rh_tos r) (rh_ras_entry r) = Inr st'"
        "tracks st' v" using restore Coroutine by fastforce
    then show ?thesis using ras_tracks_update [OF tr _ tid] Coroutine r(1-3) st(2)
      by (simp add: ReturnAddrStack_squash_def Let_def)
  qed
qed

end

sublocale addr_stack \<subseteq> ras: speculation ReturnAddrStack_ops "ras_can room" no_redo "ras_tracks tracks m"
  "ras_hist_ok n fits" "ras_apply n" "\<lambda>tid. tid < m" for m
proof (unfold_locales, goal_cases)
  case (1 s V tid op)
  then show ?case using ras_do [of m s V tid op] by (simp add: ReturnAddrStack_ops_def)
next
  case (2 s V tid op v h)
  then show ?case using ras_squash [of m s V tid op v h] by (simp add: ReturnAddrStack_ops_def)
next
  case (4 s V tid op h v misp)
  then show ?case using ras_commit [OF 4(3), of s tid misp]
    by (auto simp: ReturnAddrStack_ops_def ras_tracks_def)
qed (simp add: no_redo_def)

section \<open>Properties\<close>

lemma fst_ras_apply: "fst (foldr (ras_apply n) ops ([], t)) = ideal_stack ops"
  by (induction ops) (simp_all add: ideal_stack_def ras_apply_def)

lemma ras_init_tracks:
  assumes "ne \<noteq> 0"
  shows "ras_tracks (AddrStack_exact (unat ne)) (unat nt) (ReturnAddrStack_init ne nt) (\<lambda>_. ([], 0))"
  using assms
  by (simp add: ras_tracks_def ReturnAddrStack_init_def AddrStack_init_def AddrStack_reset_def
      AddrStack_exact_def AddrStack_tracks_def AddrStack_wf_def AddrStack_contents_def unat_gt_0)

text \<open>C19: The return address stack predicts the ideal call stack under speculation, whatever the
  call depth.  After any interleaving of calls, returns, coroutine switches, squashes and commits on
  any threads in which no operation pops a buffer without used entries, every operation has
  returned, the used entries of a thread are the topmost entries of the unbounded stack of the
  calls and returns in flight and committed, and a return predicts the top of that stack whenever an
  entry is used.\<close>

theorem ras_predicts_call_stack:
  assumes "ne \<noteq> 0" and "list_all (\<lambda>ev. event_tid ev < unat nt) evs"
    and "ops_allowed (ras_can (\<lambda>_. True)) no_redo ReturnAddrStack_ops (ReturnAddrStack_init ne nt, \<lambda>_. []) evs"
    and "tid < unat nt"
  shows "\<exists>s fl. spec_run ReturnAddrStack_ops (ReturnAddrStack_init ne nt, \<lambda>_. []) evs = Inr (s, fl) \<and>
    AddrStack_contents (ras_addrStacks s ! tid) =
      map Some (take (unat (as_usedEntries (ras_addrStacks s ! tid))) (ideal_stack (live_ops tid evs))) \<and>
    (ras_nonempty s tid \<longrightarrow> (\<exists>s' h. ReturnAddrStack_pop s tid None =
      Inr (Some (hd (ideal_stack (live_ops tid evs))), s', h)))"
proof -
  have init: "ras_tracks (AddrStack_tracks (unat ne)) (unat nt) (ReturnAddrStack_init ne nt) (\<lambda>_. ([], 0))"
    using ras_init_tracks [OF assms(1), of nt] by (auto simp: ras_tracks_def AddrStack_exact_def)
  have "list_all ((\<lambda>tid. tid < unat nt) \<circ> event_tid) evs" using assms(2) by (simp add: comp_def)
  then obtain s fl where run: "spec_run ReturnAddrStack_ops (ReturnAddrStack_init ne nt, \<lambda>_. []) evs =
      Inr (s, fl)" and tr: "ras_tracks (AddrStack_tracks (unat ne)) (unat nt) s
        (\<lambda>tid. foldr (ras_apply (unat ne)) (live_ops tid evs) ([], 0))"
    using prefix_stack.ras.run_tracks [OF init _ assms(3)]
    by (auto simp: prefix_stack.ras.view_of_def)
  show ?thesis
    using run prefix_stack.ras_pop [OF tr assms(4)] tr assms(4)
    by (auto simp: ras_tracks_def AddrStack_tracks_def fst_ras_apply)
qed

definition ras_demo :: "Addr ras_op spec_event list" where
  "ras_demo = [Do 0 (Call 10), Do 0 (Call 20), Do 0 (Call 30), Do 0 Ret, Undo 0, Undo 0]"

lemma ras_demo_ops: "ideal_stack (live_ops 0 ras_demo) = [20, 10]"
  by (simp add: ideal_stack_def live_ops_def op_run_def ras_demo_def)

lemmas ras_eval =
  ras_can_def ReturnAddrStack_ops_def ReturnAddrStack_do_def ReturnAddrStack_push_def
  ReturnAddrStack_pop_def ReturnAddrStack_squash_def ReturnAddrStack_init_def AddrStack_init_def
  AddrStack_reset_def AddrStack_push_def AddrStack_incrTos_def AddrStack_decrTos_def
  AddrStack_pop_def AddrStack_top_def AddrStack_restore_def AddrStack_empty_def ras_nonempty_def
  makeRASHistory_def Let_def event_allowed_def

lemma ras_demo_run:
  "list_all (\<lambda>ev. event_tid ev < unat (1 :: u32)) ras_demo"
  "ops_allowed (ras_can (\<lambda>_. True)) no_redo ReturnAddrStack_ops (ReturnAddrStack_init 2 1, \<lambda>_. []) ras_demo"
  "spec_run ReturnAddrStack_ops (ReturnAddrStack_init 2 1, \<lambda>_. []) ras_demo = Inr (s, fl) \<Longrightarrow>
   ras_nonempty s 0"
proof -
  have two: "replicate 2 None = [None, None :: Addr option]" by (simp add: numeral_2_eq_2)
  show "list_all (\<lambda>ev. event_tid ev < unat (1 :: u32)) ras_demo" by (simp add: ras_demo_def)
  show "ops_allowed (ras_can (\<lambda>_. True)) no_redo ReturnAddrStack_ops (ReturnAddrStack_init 2 1, \<lambda>_. []) ras_demo"
    by (simp add: ras_demo_def ras_eval two)
  show "ras_nonempty s 0"
    if "spec_run ReturnAddrStack_ops (ReturnAddrStack_init 2 1, \<lambda>_. []) ras_demo = Inr (s, fl)"
    using that by (auto simp: ras_demo_def ras_eval two)
qed

theorem ras_predicts_call_stack_witness:
  "\<exists>s fl s' h. spec_run ReturnAddrStack_ops (ReturnAddrStack_init 2 1, \<lambda>_. []) ras_demo = Inr (s, fl) \<and>
     AddrStack_contents (ras_addrStacks s ! 0) =
       map Some (take (unat (as_usedEntries (ras_addrStacks s ! 0))) [20, 10]) \<and>
     ReturnAddrStack_pop s 0 None = Inr (Some 20, s', h)"
  using ras_predicts_call_stack [OF _ ras_demo_run(1,2), of 0] ras_demo_run(3)
  by (auto simp: ras_demo_ops)

text \<open>No operation of the run pops an empty ideal stack or exceeds the depth \<open>n\<close>.\<close>

definition op_fits :: "nat \<Rightarrow> 'pc ras_op spec_event list \<Rightarrow> 'pc ras_op spec_event \<Rightarrow> bool" where
  "op_fits n evs ev \<longleftrightarrow> (case ev of
     Do tid op \<Rightarrow> let I = ideal_stack (live_ops tid evs)
       in (op_pops op \<longrightarrow> I \<noteq> []) \<and> length (ideal_op op I) \<le> n
   | Redo _ _ \<Rightarrow> False
   | _ \<Rightarrow> True)"

definition depth_ok :: "nat \<Rightarrow> 'pc ras_op spec_event list \<Rightarrow> bool" where
  "depth_ok n evs \<longleftrightarrow> list_all (\<lambda>i. op_fits n (take i evs) (evs ! i)) [0..<length evs]"

lemma depth_ok_snoc: "depth_ok n (evs @ [ev]) \<longleftrightarrow> depth_ok n evs \<and> op_fits n evs ev"
  by (auto simp: depth_ok_def list_all_iff nth_append)

lemma ras_exact_run:
  assumes "ne \<noteq> 0" and "list_all (\<lambda>ev. event_tid ev < unat nt) evs"
    and "ops_allowed (ras_can (\<lambda>s. \<not> AddrStack_full s)) no_redo ReturnAddrStack_ops
      (ReturnAddrStack_init ne nt, \<lambda>_. []) evs"
  shows "\<exists>s fl. spec_run ReturnAddrStack_ops (ReturnAddrStack_init ne nt, \<lambda>_. []) evs = Inr (s, fl) \<and>
    (\<forall>tid < unat nt. AddrStack_contents (ras_addrStacks s ! tid) =
        map Some (ideal_stack (live_ops tid evs)) \<and>
      unat (as_usedEntries (ras_addrStacks s ! tid)) = length (ideal_stack (live_ops tid evs)) \<and>
      as_numEntries (ras_addrStacks s ! tid) = ne)"
proof -
  have "list_all ((\<lambda>tid. tid < unat nt) \<circ> event_tid) evs" using assms(2) by (simp add: comp_def)
  then obtain s fl where run: "spec_run ReturnAddrStack_ops (ReturnAddrStack_init ne nt, \<lambda>_. []) evs =
      Inr (s, fl)" and tr: "ras_tracks (AddrStack_exact (unat ne)) (unat nt) s
        (\<lambda>tid. foldr (ras_apply (unat ne)) (live_ops tid evs) ([], 0))"
    using exact_stack.ras.run_tracks [OF ras_init_tracks [OF assms(1)] _ assms(3)]
    by (auto simp: exact_stack.ras.view_of_def)
  then show ?thesis
    by (auto simp: ras_tracks_def AddrStack_exact_def AddrStack_tracks_def AddrStack_wf_def
        fst_ras_apply word_unat_eq_iff)
qed

lemma depth_ok_allowed:
  assumes "ne \<noteq> 0" and "list_all (\<lambda>ev. event_tid ev < unat nt) evs" and "depth_ok (unat ne) evs"
  shows "ops_allowed (ras_can (\<lambda>s. \<not> AddrStack_full s)) no_redo ReturnAddrStack_ops
    (ReturnAddrStack_init ne nt, \<lambda>_. []) evs"
  using assms(2,3)
proof (induction evs rule: rev_induct)
  case (snoc ev evs)
  then have al: "ops_allowed (ras_can (\<lambda>s. \<not> AddrStack_full s)) no_redo ReturnAddrStack_ops
      (ReturnAddrStack_init ne nt, \<lambda>_. []) evs" and ok: "list_all (\<lambda>ev. event_tid ev < unat nt) evs"
    by (simp_all add: depth_ok_snoc)
  obtain s fl where run: "spec_run ReturnAddrStack_ops (ReturnAddrStack_init ne nt, \<lambda>_. []) evs = Inr (s, fl)"
      "\<And>tid. tid < unat nt \<Longrightarrow>
        unat (as_usedEntries (ras_addrStacks s ! tid)) = length (ideal_stack (live_ops tid evs)) \<and>
        as_numEntries (ras_addrStacks s ! tid) = ne"
    using ras_exact_run [OF assms(1) ok al] by blast
  show ?case
  proof (rule ops_allowed_snoc [OF run(1) al], cases ev)
    case (Do tid op)
    have t: "tid < unat nt" using snoc.prems(1) Do by simp
    show "event_allowed (ras_can (\<lambda>s. \<not> AddrStack_full s)) no_redo (s, fl) ev"
      using run(2) [OF t] snoc.prems(2) Do
      by (cases op) (auto simp: event_allowed_def depth_ok_snoc op_fits_def ras_can_def
          ras_nonempty_def AddrStack_empty_def AddrStack_full_def word_le_nat_alt)
  qed (use snoc.prems(2) in \<open>auto simp: event_allowed_def depth_ok_snoc op_fits_def\<close>)
qed simp

text \<open>C20: Within its depth the return address stack is exact: after any interleaving of calls,
  returns, coroutine switches, squashes and commits on any threads in which the ideal stack of a
  thread is never popped when empty and never deeper than the buffer, the used entries of every
  thread are exactly the ideal stack.\<close>

theorem ras_exact_within_depth:
  assumes "ne \<noteq> 0" and "list_all (\<lambda>ev. event_tid ev < unat nt) evs" and "depth_ok (unat ne) evs"
    and "tid < unat nt"
  shows "\<exists>s fl. spec_run ReturnAddrStack_ops (ReturnAddrStack_init ne nt, \<lambda>_. []) evs = Inr (s, fl) \<and>
    AddrStack_contents (ras_addrStacks s ! tid) = map Some (ideal_stack (live_ops tid evs))"
  using ras_exact_run [OF assms(1,2) depth_ok_allowed [OF assms(1-3)]] assms(4) by blast

theorem ras_exact_within_depth_witness:
  "\<exists>s fl. spec_run ReturnAddrStack_ops (ReturnAddrStack_init 3 1, \<lambda>_. []) ras_demo = Inr (s, fl) \<and>
     AddrStack_contents (ras_addrStacks s ! 0) = [Some 20, Some 10]"
proof -
  have d: "depth_ok (unat (3 :: u32)) ras_demo"
    by (simp add: depth_ok_def op_fits_def ras_demo_def upt_rec ideal_stack_def live_ops_def op_run_def)
  show ?thesis
    using ras_exact_within_depth [OF _ ras_demo_run(1) d, of 0] by (simp add: ras_demo_ops)
qed

text \<open>C21: Squashing a predicted return is a round trip: from a buffer with a used entry, popping it
  for a return and squashing that return leaves every buffer of the stack exactly as it was,
  including the entries above the top.\<close>

theorem ras_pop_squash_roundtrip:
  assumes "tid < length (ras_addrStacks s)" and "AddrStack_wf n (ras_addrStacks s ! tid)"
    and "\<not> AddrStack_empty (ras_addrStacks s ! tid)"
    and "ReturnAddrStack_pop s tid None = Inr (r, s1, h)"
  shows "\<exists>s2. ReturnAddrStack_squash s1 tid h = Inr (s2, None) \<and>
    ras_addrStacks s2 = ras_addrStacks s"
proof -
  let ?st = "ras_addrStacks s ! tid"
  have wf: "unat (as_tos ?st) < length (as_addrStack ?st)" "0 < as_usedEntries ?st"
      "as_usedEntries ?st \<le> as_numEntries ?st"
    using assms(2,3) by (auto simp: AddrStack_wf_def AddrStack_empty_def word_gt_0 word_le_nat_alt)
  then have "unat (as_usedEntries ?st - 1) < unat (as_numEntries ?st)"
    using unat_minus_one_less [of "as_usedEntries ?st"] by (simp add: word_le_nat_alt word_gt_0)
  then have "as_usedEntries ?st - 1 \<noteq> as_numEntries ?st" by auto
  then have "AddrStack_restore (AddrStack_pop ?st) (as_tos ?st) (as_addrStack ?st ! unat (as_tos ?st)) = Inr ?st"
    using wf by (simp add: AddrStack_restore_def AddrStack_pop_def AddrStack_decrTos_def)
  then show ?thesis
    using assms(1,4) wf(1)
    by (auto simp: ReturnAddrStack_pop_def ReturnAddrStack_squash_def AddrStack_top_def Let_def
        makeRASHistory_def)
qed

definition ras_one :: "Addr ReturnAddrStack" where
  "ras_one = (ReturnAddrStack_init 2 1)\<lparr>ras_addrStacks :=
     [\<lparr>as_addrStack = [None, Some 10], as_numEntries = 2, as_usedEntries = 1, as_tos = 1\<rparr>]\<rparr>"

theorem ras_pop_squash_roundtrip_witness:
  "\<exists>s1 h s2. ReturnAddrStack_pop ras_one 0 None = Inr (Some 10, s1, h) \<and>
     ReturnAddrStack_squash s1 0 h = Inr (s2, None) \<and> ras_addrStacks s2 = ras_addrStacks ras_one"
proof -
  obtain s1 h where pop: "ReturnAddrStack_pop ras_one 0 None = Inr (Some 10, s1, h)"
    by (simp add: ras_one_def ReturnAddrStack_pop_def AddrStack_top_def Let_def)
  show ?thesis
    using ras_pop_squash_roundtrip [OF _ _ _ pop, of 2] pop
    by (simp add: ras_one_def AddrStack_wf_def AddrStack_empty_def)
qed

text \<open>C22: The constructor accepts any number of entries, but the operations access the buffer
  outside its bounds exactly when it has none: on a fresh stack a push and a pop return if and only
  if the number of entries is not zero and the thread exists.\<close>

theorem ras_fresh_operations_return:
  "(returns (ReturnAddrStack_push (ReturnAddrStack_init ne nt) tid p h) \<longleftrightarrow> ne \<noteq> 0 \<and> tid < unat nt) \<and>
   (returns (ReturnAddrStack_pop (ReturnAddrStack_init ne nt) tid h) \<longleftrightarrow> ne \<noteq> 0 \<and> tid < unat nt)"
proof -
  have "unat (if (1 :: u32) = ne then 0 else 1) < unat ne \<longleftrightarrow> ne \<noteq> 0"
    by (auto simp: word_unat_eq_iff)
  then show ?thesis
    by (auto simp: ReturnAddrStack_push_def ReturnAddrStack_pop_def ReturnAddrStack_init_def
        AddrStack_init_def AddrStack_reset_def AddrStack_push_def AddrStack_top_def
        AddrStack_incrTos_def Let_def vec_get_def vec_set_def unat_gt_0)
qed

end
