(* ===== verification/Associative_Cache.thy ===== *)
theory Associative_Cache
  imports Bitfield_Intmath
begin

text \<open>
  The set-associative container the branch target buffer is built on:
  \<open>base/cache/associative_cache.hh\<close> (the container), the indexing policy base class of
  \<open>mem/cache/tags/indexing_policies/base.hh\<close>, and the default replacement policy of
  \<open>mem/cache/replacement_policies/lru_rp.cc\<close>.

  An entry pointer is the index of the entry in the container's vector, and \<open>None\<close> for the
  null pointers the sets hold before \<open>setEntry\<close>.  The template parameter \<open>Entry\<close> is
  the record \<open>EntryOps\<close> of the methods the container calls, the virtual replacement policy the
  record \<open>ReplPolicy\<close>; \<open>curTick()\<close> is an argument.  The locale
  \<open>replacement_policy\<close> is the contract of a policy.
\<close>

section \<open>Replacement policies\<close>

record 'r ReplPolicy =
  rp_invalidate :: "'r \<Rightarrow> 'r"
  rp_touch :: "u64 \<Rightarrow> 'r \<Rightarrow> 'r"
  rp_reset :: "u64 \<Rightarrow> 'r \<Rightarrow> 'r"
  rp_getVictim :: "'r list \<Rightarrow> nat result"
  rp_instantiateEntry :: 'r

text \<open>The least recently used policy keeps the tick of the last touch.\<close>

definition LRU_invalidate :: "u64 \<Rightarrow> u64" where
  "LRU_invalidate lastTouchTick = 0"

definition LRU_touch :: "u64 \<Rightarrow> u64 \<Rightarrow> u64" where
  "LRU_touch curTick lastTouchTick = curTick"

definition LRU_reset :: "u64 \<Rightarrow> u64 \<Rightarrow> u64" where
  "LRU_reset curTick lastTouchTick = curTick"

fun LRU_visit :: "u64 list \<Rightarrow> nat \<Rightarrow> nat \<Rightarrow> u64 \<Rightarrow> nat" where
  "LRU_visit [] i victim victimTick = victim"
| "LRU_visit (tick # cs) i victim victimTick =
     (if tick < victimTick then LRU_visit cs (i + 1) i tick
      else LRU_visit cs (i + 1) victim victimTick)"

definition LRU_getVictim :: "u64 list \<Rightarrow> nat result" where
  "LRU_getVictim candidates =
     check (length candidates > 0) (Assert ''candidates.size() > 0'')
       (Inr (LRU_visit candidates 0 0 (candidates ! 0)))"

definition LRU_instantiateEntry :: u64 where
  "LRU_instantiateEntry = 0"

definition LRU :: "u64 ReplPolicy" where
  "LRU = \<lparr>rp_invalidate = LRU_invalidate, rp_touch = LRU_touch, rp_reset = LRU_reset,
     rp_getVictim = LRU_getVictim, rp_instantiateEntry = LRU_instantiateEntry\<rparr>"

locale replacement_policy =
  fixes rp :: "'r ReplPolicy"
  assumes victim_law: "cs \<noteq> [] \<Longrightarrow> \<exists>i < length cs. rp_getVictim rp cs = Inr i"

definition first_min :: "'a::linorder list \<Rightarrow> nat \<Rightarrow> bool" where
  "first_min xs i \<longleftrightarrow> i < length xs \<and> (\<forall>j < length xs. xs ! i \<le> xs ! j) \<and> (\<forall>j < i. xs ! i < xs ! j)"

lemma first_min_snoc:
  assumes "first_min xs i"
  shows "first_min (xs @ [x]) (if x < xs ! i then length xs else i)"
  using assms by (auto simp: first_min_def nth_append less_Suc_eq dest: less_le_trans)

lemma LRU_visit_first_min:
  assumes "first_min ds v"
  shows "first_min (ds @ cs) (LRU_visit cs (length ds) v (ds ! v))"
  using assms
proof (induction cs arbitrary: ds v)
  case (Cons c cs)
  have v: "v < length ds" using Cons.prems by (simp add: first_min_def)
  show ?case
    using Cons.IH [OF first_min_snoc [OF Cons.prems, of c]] v
    by (cases "c < ds ! v") (simp_all add: nth_append)
qed simp

text \<open>The victim is the first of the candidates with the smallest tick.\<close>

lemma LRU_getVictim_spec:
  assumes "cs \<noteq> []"
  shows "\<exists>i. LRU_getVictim cs = Inr i \<and> first_min cs i"
proof -
  obtain c ds where cs: "cs = c # ds" using assms by (cases cs) auto
  show ?thesis
    using LRU_visit_first_min [of "[c]" 0 ds] by (simp add: LRU_getVictim_def cs first_min_def)
qed

lemma LRU_getVictim_eq: "first_min cs i \<Longrightarrow> LRU_getVictim cs = Inr i"
proof -
  assume i: "first_min cs i"
  then have "cs \<noteq> []" by (auto simp: first_min_def)
  then obtain j where j: "LRU_getVictim cs = Inr j" "first_min cs j"
    using LRU_getVictim_spec by blast
  moreover have "i = j"
    using i j(2) unfolding first_min_def by (meson leD nat_neq_iff)
  ultimately show ?thesis by simp
qed

interpretation lru: replacement_policy LRU
  by unfold_locales (use LRU_getVictim_spec in \<open>force simp: LRU_def first_min_def\<close>)

section \<open>Indexing policy\<close>

record IndexingPolicy =
  ip_assoc :: u32
  ip_numSets :: u32
  ip_setShift :: nat
  ip_setMask :: u32
  ip_sets :: "nat option list list"
  ip_tagShift :: nat

definition IndexingPolicy_init :: "u32 \<Rightarrow> u32 \<Rightarrow> u32 \<Rightarrow> IndexingPolicy result" where
  "IndexingPolicy_init assoc num_entries set_shift =
     check (assoc \<noteq> 0) Undefined
       (let numSets = num_entries div assoc
        in bind_r (floorLog2 4 (ucast numSets)) (\<lambda>l.
           check (isPowerOf2 numSets) (Fatal ''# of sets must be non-zero and a power of 2'')
             (check (\<not> assoc \<le> 0) (Fatal ''associativity must be greater than zero'')
               (Inr \<lparr>ip_assoc = assoc, ip_numSets = numSets, ip_setShift = unat set_shift,
                     ip_setMask = numSets - 1,
                     ip_sets = replicate (unat numSets) (replicate (unat assoc) None),
                     ip_tagShift = unat set_shift + l\<rparr>))))"

text \<open>\<open>setEntry\<close> returns the policy and the set and way the entry is told.\<close>

definition setEntry :: "IndexingPolicy \<Rightarrow> nat \<Rightarrow> nat \<Rightarrow> (IndexingPolicy \<times> u32 \<times> u32) result" where
  "setEntry ip entry index =
     check (ip_assoc ip \<noteq> 0) Undefined
       (let row = (of_nat (index div unat (ip_assoc ip)) :: u32);
            way = (of_nat (index mod unat (ip_assoc ip)) :: u32)
        in check (row < ip_numSets ip) (Assert ''set < numSets'')
             (bind_r (vec_get (ip_sets ip) (unat row)) (\<lambda>ways.
              bind_r (vec_set ways (unat way) (Some entry)) (\<lambda>ways.
                Inr (ip\<lparr>ip_sets := (ip_sets ip)[unat row := ways]\<rparr>, row, way)))))"

section \<open>The container\<close>

record ('k, 'e) EntryOps =
  eo_match :: "'e \<Rightarrow> 'k \<Rightarrow> bool result"
  eo_insert :: "'e \<Rightarrow> 'k \<Rightarrow> 'e result"
  eo_invalidate :: "'e \<Rightarrow> 'e"

record ('e, 'r) ReplaceableEntry =
  re_set :: u32
  re_way :: u32
  re_replacementData :: 'r
  re_entry :: 'e

record ('e, 'r) AssociativeCache =
  ac_associativity :: u64
  ac_entries :: "('e, 'r) ReplaceableEntry list"

fun initParams_loop ::
  "'r ReplPolicy \<Rightarrow> nat list \<Rightarrow> IndexingPolicy \<Rightarrow> ('e, 'r) ReplaceableEntry list \<Rightarrow>
   (IndexingPolicy \<times> ('e, 'r) ReplaceableEntry list) result" where
  "initParams_loop rp [] ip entries = Inr (ip, entries)"
| "initParams_loop rp (entry_idx # is) ip entries =
     bind_r (setEntry ip entry_idx entry_idx) (\<lambda>(ip, row, way).
     bind_r (vec_get entries entry_idx) (\<lambda>entry.
       initParams_loop rp is ip (entries[entry_idx :=
         entry\<lparr>re_set := row, re_way := way, re_replacementData := rp_instantiateEntry rp\<rparr>])))"

definition AssociativeCache_init ::
  "'r ReplPolicy \<Rightarrow> IndexingPolicy \<Rightarrow> u64 \<Rightarrow> u64 \<Rightarrow> 'e \<Rightarrow>
   (IndexingPolicy \<times> ('e, 'r) AssociativeCache) result" where
  "AssociativeCache_init rp ip num_entries associativity init_val =
     check (associativity \<noteq> 0) Undefined
       (check (num_entries mod associativity = 0) (Fatal ''The number of entries of an AssociativeCache<> must be a multiple of its associativity'')
         (bind_r (initParams_loop rp [0..<unat num_entries] ip
                   (replicate (unat num_entries) \<lparr>re_set = 0, re_way = 0,
                      re_replacementData = rp_instantiateEntry rp, re_entry = init_val\<rparr>)) (\<lambda>(ip, entries).
            Inr (ip, \<lparr>ac_associativity = associativity, ac_entries = entries\<rparr>))))"

definition AssociativeCache_invalidate ::
  "'r ReplPolicy \<Rightarrow> ('k, 'e) EntryOps \<Rightarrow> ('e, 'r) AssociativeCache \<Rightarrow> nat \<Rightarrow>
   ('e, 'r) AssociativeCache result" where
  "AssociativeCache_invalidate rp eo c entry =
     bind_r (vec_get (ac_entries c) entry) (\<lambda>e.
       Inr (c\<lparr>ac_entries := (ac_entries c)[entry :=
         e\<lparr>re_entry := eo_invalidate eo (re_entry e),
           re_replacementData := rp_invalidate rp (re_replacementData e)\<rparr>]\<rparr>))"

fun clear_loop ::
  "'r ReplPolicy \<Rightarrow> ('k, 'e) EntryOps \<Rightarrow> nat list \<Rightarrow> ('e, 'r) AssociativeCache \<Rightarrow>
   ('e, 'r) AssociativeCache result" where
  "clear_loop rp eo [] c = Inr c"
| "clear_loop rp eo (i # is) c =
     bind_r (AssociativeCache_invalidate rp eo c i) (clear_loop rp eo is)"

definition AssociativeCache_clear ::
  "'r ReplPolicy \<Rightarrow> ('k, 'e) EntryOps \<Rightarrow> ('e, 'r) AssociativeCache \<Rightarrow>
   ('e, 'r) AssociativeCache result" where
  "AssociativeCache_clear rp eo c = clear_loop rp eo [0..<length (ac_entries c)] c"

fun findEntry_loop ::
  "('k, 'e) EntryOps \<Rightarrow> ('e, 'r) AssociativeCache \<Rightarrow> 'k \<Rightarrow> nat option list \<Rightarrow> nat option result" where
  "findEntry_loop eo c key [] = Inr None"
| "findEntry_loop eo c key (None # cs) = Inl Undefined"
| "findEntry_loop eo c key (Some i # cs) =
     bind_r (vec_get (ac_entries c) i) (\<lambda>e.
     bind_r (eo_match eo (re_entry e) key) (\<lambda>m.
       if m then Inr (Some i) else findEntry_loop eo c key cs))"

definition AssociativeCache_findEntry ::
  "('k, 'e) EntryOps \<Rightarrow> ('k \<Rightarrow> nat option list result) \<Rightarrow> ('e, 'r) AssociativeCache \<Rightarrow> 'k \<Rightarrow>
   nat option result" where
  "AssociativeCache_findEntry eo getPossibleEntries c key =
     bind_r (getPossibleEntries key) (findEntry_loop eo c key)"

definition AssociativeCache_touchEntry ::
  "'r ReplPolicy \<Rightarrow> u64 \<Rightarrow> ('e, 'r) AssociativeCache \<Rightarrow> nat \<Rightarrow> ('e, 'r) AssociativeCache result" where
  "AssociativeCache_touchEntry rp curTick c entry =
     bind_r (vec_get (ac_entries c) entry) (\<lambda>e.
       Inr (c\<lparr>ac_entries := (ac_entries c)[entry :=
         e\<lparr>re_replacementData := rp_touch rp curTick (re_replacementData e)\<rparr>]\<rparr>))"

definition AssociativeCache_accessEntry ::
  "'r ReplPolicy \<Rightarrow> ('k, 'e) EntryOps \<Rightarrow> ('k \<Rightarrow> nat option list result) \<Rightarrow> u64 \<Rightarrow>
   ('e, 'r) AssociativeCache \<Rightarrow> 'k \<Rightarrow> (nat option \<times> ('e, 'r) AssociativeCache) result" where
  "AssociativeCache_accessEntry rp eo getPossibleEntries curTick c key =
     bind_r (AssociativeCache_findEntry eo getPossibleEntries c key) (\<lambda>entry.
       case entry of
         None \<Rightarrow> Inr (None, c)
       | Some i \<Rightarrow> bind_r (AssociativeCache_touchEntry rp curTick c i) (\<lambda>c. Inr (Some i, c)))"

fun candidate_data :: "('e, 'r) AssociativeCache \<Rightarrow> nat option list \<Rightarrow> 'r list result" where
  "candidate_data c [] = Inr []"
| "candidate_data c (None # cs) = Inl Undefined"
| "candidate_data c (Some i # cs) =
     bind_r (vec_get (ac_entries c) i) (\<lambda>e.
     bind_r (candidate_data c cs) (\<lambda>rs. Inr (re_replacementData e # rs)))"

definition AssociativeCache_findVictim ::
  "'r ReplPolicy \<Rightarrow> ('k, 'e) EntryOps \<Rightarrow> ('k \<Rightarrow> nat option list result) \<Rightarrow>
   ('e, 'r) AssociativeCache \<Rightarrow> 'k \<Rightarrow> (nat \<times> ('e, 'r) AssociativeCache) result" where
  "AssociativeCache_findVictim rp eo getPossibleEntries c key =
     bind_r (getPossibleEntries key) (\<lambda>candidates.
     bind_r (candidate_data c candidates) (\<lambda>data.
     bind_r (rp_getVictim rp data) (\<lambda>i.
       case candidates ! i of
         None \<Rightarrow> Inl Undefined
       | Some victim \<Rightarrow> bind_r (AssociativeCache_invalidate rp eo c victim) (\<lambda>c.
           Inr (victim, c)))))"

definition AssociativeCache_insertEntry ::
  "'r ReplPolicy \<Rightarrow> ('k, 'e) EntryOps \<Rightarrow> u64 \<Rightarrow> ('e, 'r) AssociativeCache \<Rightarrow> 'k \<Rightarrow> nat \<Rightarrow>
   ('e, 'r) AssociativeCache result" where
  "AssociativeCache_insertEntry rp eo curTick c key entry =
     bind_r (vec_get (ac_entries c) entry) (\<lambda>e.
     bind_r (eo_insert eo (re_entry e) key) (\<lambda>e'.
       Inr (c\<lparr>ac_entries := (ac_entries c)[entry :=
         e\<lparr>re_entry := e',
           re_replacementData := rp_reset rp curTick (re_replacementData e)\<rparr>]\<rparr>)))"

section \<open>The container in bounds\<close>

text \<open>
  The candidates of a key are a slice \<open>[b..<b + a]\<close> of the entries.  The search returns the
  first match of the slice; the victim is chosen in it.
\<close>

abbreviation slice :: "nat \<Rightarrow> nat \<Rightarrow> nat option list" where
  "slice b a \<equiv> map Some [b..<b + a]"

abbreviation slot_data :: "('e, 'r) AssociativeCache \<Rightarrow> nat \<Rightarrow> 'r" where
  "slot_data c i \<equiv> re_replacementData (ac_entries c ! i)"

lemma findEntry_eq:
  assumes "gpe key = Inr (slice b a)" and "b + a \<le> length (ac_entries c)"
    and "\<And>i. eo_match eo (re_entry (ac_entries c ! i)) key = Inr (P i)"
  shows "AssociativeCache_findEntry eo gpe c key = Inr (find P [b..<b + a])"
proof -
  have "findEntry_loop eo c key (map Some is) = Inr (find P is)"
    if "\<forall>i \<in> set is. i < length (ac_entries c)" for "is"
    using that assms(3) by (induction "is") auto
  then show ?thesis using assms(1,2) by (simp add: AssociativeCache_findEntry_def)
qed

lemma candidate_data_eq:
  "b + a \<le> length (ac_entries c) \<Longrightarrow>
   candidate_data c (slice b a) = Inr (map (slot_data c) [b..<b + a])"
proof -
  assume "b + a \<le> length (ac_entries c)"
  moreover have "candidate_data c (map Some is) = Inr (map (slot_data c) is)"
    if "\<forall>i \<in> set is. i < length (ac_entries c)" for "is"
    using that by (induction "is") auto
  ultimately show ?thesis by simp
qed

lemma findVictim_eq:
  assumes "gpe key = Inr (slice b a)" and "b + a \<le> length (ac_entries c)"
    and "rp_getVictim rp (map (slot_data c) [b..<b + a]) = Inr v" and "v < a"
  shows "AssociativeCache_findVictim rp eo gpe c key =
    Inr (b + v, c\<lparr>ac_entries := (ac_entries c)[b + v := (ac_entries c ! (b + v))
      \<lparr>re_entry := eo_invalidate eo (re_entry (ac_entries c ! (b + v))),
        re_replacementData := rp_invalidate rp (slot_data c (b + v))\<rparr>]\<rparr>)"
  using assms
  by (simp add: AssociativeCache_findVictim_def candidate_data_eq AssociativeCache_invalidate_def)

lemma clear_loop_eq:
  assumes "\<forall>i \<in> set is. i < length (ac_entries c)" and "distinct is"
  shows "\<exists>c'. clear_loop rp eo is c = Inr c' \<and> length (ac_entries c') = length (ac_entries c) \<and>
    ac_associativity c' = ac_associativity c \<and>
    (\<forall>i < length (ac_entries c). re_entry (ac_entries c' ! i) =
       (if i \<in> set is then eo_invalidate eo (re_entry (ac_entries c ! i))
        else re_entry (ac_entries c ! i)))"
  using assms
proof (induction "is" arbitrary: c)
  case (Cons i "is")
  let ?c = "c\<lparr>ac_entries := (ac_entries c)[i := (ac_entries c ! i)
    \<lparr>re_entry := eo_invalidate eo (re_entry (ac_entries c ! i)),
      re_replacementData := rp_invalidate rp (slot_data c i)\<rparr>]\<rparr>"
  have c: "AssociativeCache_invalidate rp eo c i = Inr ?c"
    using Cons.prems(1) by (simp add: AssociativeCache_invalidate_def)
  from Cons.IH [of ?c] Cons.prems show ?case by (auto simp: c nth_list_update)
qed simp

section \<open>The index structure after construction\<close>

text \<open>
  After the constructor has announced the first \<open>m\<close> entries, set \<open>i\<close> of a policy with
  \<open>a\<close> ways points at those of its own slice.
\<close>

definition index_upto :: "nat \<Rightarrow> nat \<Rightarrow> nat \<Rightarrow> nat option list list" where
  "index_upto n a m =
     map (\<lambda>i. map (\<lambda>w. if i * a + w < m then Some (i * a + w) else None) [0..<a]) [0..<n]"

lemma index_upto_0: "index_upto n a 0 = replicate n (replicate a None)"
  by (simp add: index_upto_def map_replicate_const)

lemma slot_less: "i < n \<Longrightarrow> w < a \<Longrightarrow> i * a + w < n * a" for a :: nat
proof -
  assume "i < n" "w < a"
  then have "i * a + w < Suc i * a" by simp
  also have "\<dots> \<le> n * a" using \<open>i < n\<close> by (intro mult_le_mono1) simp
  finally show ?thesis .
qed

lemma index_upto_full: "i < n \<Longrightarrow> index_upto n a (n * a) ! i = slice (i * a) a"
  using slot_less [of i n _ a] by (auto simp: index_upto_def intro!: nth_equalityI)

lemma index_upto_Suc:
  assumes "m < n * a"
  shows "(index_upto n a m)[m div a := (index_upto n a m ! (m div a))[m mod a := Some m]] =
    index_upto n a (Suc m)"
proof -
  have a: "0 < a" using assms by (cases a) auto
  have d: "m div a < n" using assms a by (simp add: less_mult_imp_div_less)
  have eq: "i * a + w = m \<longleftrightarrow> i = m div a \<and> w = m mod a" if "w < a" for i w
    using that a by (auto simp: div_add1_eq)
  show ?thesis
  proof (rule nth_equalityI)
    fix i assume "i < length ((index_upto n a m)[m div a := (index_upto n a m ! (m div a))[m mod a := Some m]])"
    then have i: "i < n" by (simp add: index_upto_def)
    show "(index_upto n a m)[m div a := (index_upto n a m ! (m div a))[m mod a := Some m]] ! i =
        index_upto n a (Suc m) ! i"
      using i d eq
      by (intro nth_equalityI) (auto simp: index_upto_def nth_list_update less_Suc_eq)
  qed (simp add: index_upto_def)
qed

lemma setEntry_eq:
  assumes "ip_sets ip = index_upto n a m" and "unat (ip_assoc ip) = a" and "unat (ip_numSets ip) = n"
    and "m < n * a"
  shows "\<exists>row way. setEntry ip m m = Inr (ip\<lparr>ip_sets := index_upto n a (Suc m)\<rparr>, row, way)"
proof -
  have a: "0 < a" using assms(4) by (cases a) auto
  have d: "m div a < n" "m mod a < a" using assms(4) a by (simp_all add: less_mult_imp_div_less)
  have "n < 2 ^ 32" "a < 2 ^ 32"
    using unsigned_less [of "ip_numSets ip"] unsigned_less [of "ip_assoc ip"] assms(2,3) by auto
  then have u: "unat (of_nat (m div a) :: u32) = m div a" "unat (of_nat (m mod a) :: u32) = m mod a"
    using d by (auto simp: unat_of_nat)
  have "ip_assoc ip \<noteq> 0" using assms(2) a by auto
  moreover have "(of_nat (m div a) :: u32) < ip_numSets ip"
    using u d assms(3) by (simp add: word_less_nat_alt)
  moreover have "m div a < length (index_upto n a m)" "m mod a < length (index_upto n a m ! (m div a))"
    using d by (simp_all add: index_upto_def)
  ultimately show ?thesis
    using index_upto_Suc [OF assms(4)] assms(1,2) u by (simp add: setEntry_def Let_def)
qed

lemma initParams_loop_eq:
  assumes "ip_sets ip = index_upto n a m" and "unat (ip_assoc ip) = a" and "unat (ip_numSets ip) = n"
    and "m \<le> N" and "N \<le> n * a" and "N \<le> length es"
  shows "\<exists>es'. initParams_loop rp [m..<N] ip es = Inr (ip\<lparr>ip_sets := index_upto n a N\<rparr>, es') \<and>
    map re_entry es' = map re_entry es \<and>
    (list_all (\<lambda>e. re_replacementData e = rp_instantiateEntry rp) es \<longrightarrow>
     list_all (\<lambda>e. re_replacementData e = rp_instantiateEntry rp) es')"
  using assms
proof (induction "N - m" arbitrary: m ip es)
  case 0
  then show ?case by simp
next
  case (Suc k)
  then have lt: "m < N" and k: "k = N - Suc m" by simp_all
  obtain row way where st: "setEntry ip m m = Inr (ip\<lparr>ip_sets := index_upto n a (Suc m)\<rparr>, row, way)"
    using setEntry_eq [OF Suc.prems(1-3)] lt Suc.prems(5) by fastforce
  let ?es = "es[m := (es ! m)\<lparr>re_set := row, re_way := way, re_replacementData := rp_instantiateEntry rp\<rparr>]"
  have "map re_entry ?es = map re_entry es"
    using lt Suc.prems(6) by (auto simp: list_eq_iff_nth_eq nth_list_update)
  moreover have "list_all (\<lambda>e. re_replacementData e = rp_instantiateEntry rp) es \<Longrightarrow>
      list_all (\<lambda>e. re_replacementData e = rp_instantiateEntry rp) ?es"
    by (rule list_all_update) simp_all
  moreover obtain es' where "initParams_loop rp [Suc m..<N] (ip\<lparr>ip_sets := index_upto n a (Suc m)\<rparr>) ?es =
      Inr (ip\<lparr>ip_sets := index_upto n a N\<rparr>, es')" "map re_entry es' = map re_entry ?es"
      "list_all (\<lambda>e. re_replacementData e = rp_instantiateEntry rp) ?es \<longrightarrow>
       list_all (\<lambda>e. re_replacementData e = rp_instantiateEntry rp) es'"
    using Suc.hyps(1) [of "Suc m" "ip\<lparr>ip_sets := index_upto n a (Suc m)\<rparr>" ?es] k Suc.prems lt
    by auto
  ultimately show ?case
    using lt Suc.prems(6) by (auto simp: upt_conv_Cons [OF lt] st)
qed

lemma AssociativeCache_init_eq:
  assumes "ip_sets ip = replicate n (replicate a None)" and "unat (ip_assoc ip) = a"
    and "unat (ip_numSets ip) = n" and "unat num_entries = n * a" and "unat assoc = a" and "0 < a"
  shows "\<exists>c. AssociativeCache_init rp ip num_entries assoc e =
      Inr (ip\<lparr>ip_sets := index_upto n a (n * a)\<rparr>, c) \<and> length (ac_entries c) = n * a \<and>
      (\<forall>i < n * a. re_entry (ac_entries c ! i) = e \<and> slot_data c i = rp_instantiateEntry rp)"
proof -
  let ?es = "replicate (n * a) \<lparr>re_set = 0, re_way = 0, re_replacementData = rp_instantiateEntry rp,
    re_entry = e\<rparr>"
  obtain es' where es: "initParams_loop rp [0..<n * a] ip ?es =
      Inr (ip\<lparr>ip_sets := index_upto n a (n * a)\<rparr>, es')" "map re_entry es' = map re_entry ?es"
      "list_all (\<lambda>e. re_replacementData e = rp_instantiateEntry rp) es'"
    using initParams_loop_eq [of ip n a 0 "n * a" ?es rp] assms by (auto simp: index_upto_0)
  have "unat (num_entries mod assoc) = 0" using assms(4,5) by (simp add: unat_mod)
  then have "num_entries mod assoc = 0" by (simp add: unat_eq_0)
  moreover have "assoc \<noteq> 0" using assms(5,6) by auto
  moreover have "length es' = n * a" "i < n * a \<Longrightarrow> re_entry (es' ! i) = e"
      "i < n * a \<Longrightarrow> re_replacementData (es' ! i) = rp_instantiateEntry rp" for i
    using arg_cong [OF es(2), of length] arg_cong [OF es(2), of "\<lambda>xs. xs ! i"] es(3)
    by (simp_all add: list_all_length)
  ultimately show ?thesis using es(1) assms(4) by (simp add: AssociativeCache_init_def)
qed

end
