(* ===== verification/Branch_Target_Buffer.thy ===== *)
theory Branch_Target_Buffer
  imports Associative_Cache Conditional_Predictor
begin

text \<open>
  \<open>cpu/pred/btb.hh\<close>, \<open>cpu/pred/btb_entry.hh\<close> and \<open>cpu/pred/simple_btb.cc\<close>: the
  branch target buffer, a set-associative container of tagged targets.

  The abstract class is the record \<open>BTBOps\<close> of its virtual methods; \<open>SimpleBTB\<close> is the
  implementation, over any replacement policy.  A target is a value of the instruction set's
  \<open>PCStateBase\<close> (type \<open>'pc\<close>); \<open>curTick()\<close> is an argument of the operations that
  touch the replacement data.
\<close>

section \<open>Indexing\<close>

type_synonym BTBKey = "Addr \<times> int"

definition ctz32 :: "u32 \<Rightarrow> nat" where
  "ctz32 value = length (takeWhile (\<lambda>i. \<not> bit value i) [0..<32])"

definition log2i :: "u32 \<Rightarrow> nat result" where
  "log2i value = check (isPowerOf2 value \<and> sint value > 0) (Assert ''isPowerOf2(value) && value > 0'')
     (Inr (ctz32 value))"

record BTBSetAssociativeParams =
  bip_assoc :: u32
  bip_num_entries :: u32
  bip_set_shift :: u32
  bip_tag_bits :: u32
  bip_numThreads :: u32

record BTBSetAssociative =
  bs_policy :: IndexingPolicy
  bs_tagMask :: u64
  bs_log2NumThreads :: nat

definition BTBSetAssociative_init :: "BTBSetAssociativeParams \<Rightarrow> BTBSetAssociative result" where
  "BTBSetAssociative_init p =
     bind_r (IndexingPolicy_init (bip_assoc p) (bip_num_entries p) (bip_set_shift p)) (\<lambda>ip.
     bind_r (log2i (bip_numThreads p)) (\<lambda>l.
       Inr \<lparr>bs_policy = ip, bs_tagMask = mask_nbits (unat (bip_tag_bits p)), bs_log2NumThreads = l\<rparr>))"

text \<open>The thread identifier is shifted as an \<open>int\<close>; only its low 32 bits pass the set mask.\<close>

definition extractSet :: "BTBSetAssociative \<Rightarrow> BTBKey \<Rightarrow> u32 result" where
  "extractSet b key =
     (let ip = bs_policy b; n = ip_tagShift ip - ip_setShift ip
      in check (ip_setShift ip < 64) Undefined
          (check (bs_log2NumThreads b \<le> n \<and> n - bs_log2NumThreads b < 32) Undefined
            (Inr (ucast (drop_bit (ip_setShift ip) (fst key) XOR
                    ucast (push_bit (n - bs_log2NumThreads b) (word_of_int (snd key) :: u32)))
                  AND ip_setMask ip))))"

definition BTB_getPossibleEntries :: "BTBSetAssociative \<Rightarrow> BTBKey \<Rightarrow> nat option list result" where
  "BTB_getPossibleEntries b key =
     bind_r (extractSet b key) (\<lambda>set_idx.
     check (unat set_idx < length (ip_sets (bs_policy b))) (Assert ''set_idx < sets.size()'')
       (vec_get (ip_sets (bs_policy b)) (unat set_idx)))"

definition extractTag :: "BTBSetAssociative \<Rightarrow> Addr \<Rightarrow> Addr result" where
  "extractTag b addr =
     check (ip_tagShift (bs_policy b) < 64) Undefined
       (Inr (drop_bit (ip_tagShift (bs_policy b)) addr AND bs_tagMask b))"

section \<open>Entries\<close>

record 'pc BTBEntry =
  be_target :: "'pc option"
  be_inst :: "StaticInst option"
  be_valid :: bool
  be_tag :: BTBKey

definition BTBEntry_init :: "'pc BTBEntry" where
  "BTBEntry_init = \<lparr>be_target = None, be_inst = None, be_valid = False, be_tag = (MaxAddr, - 1)\<rparr>"

definition BTBEntry_update :: "'pc BTBEntry \<Rightarrow> 'pc \<Rightarrow> StaticInst option \<Rightarrow> 'pc BTBEntry" where
  "BTBEntry_update e target inst = e\<lparr>be_target := Some target, be_inst := inst\<rparr>"

definition BTBEntry_match :: "(Addr \<Rightarrow> Addr result) \<Rightarrow> 'pc BTBEntry \<Rightarrow> BTBKey \<Rightarrow> bool result" where
  "BTBEntry_match ext e key =
     (if be_valid e
      then bind_r (ext (fst key)) (\<lambda>tag. Inr (fst (be_tag e) = tag \<and> snd (be_tag e) = snd key))
      else Inr False)"

definition BTBEntry_setValid :: "'pc BTBEntry \<Rightarrow> 'pc BTBEntry result" where
  "BTBEntry_setValid e = check (\<not> be_valid e) (Assert ''!isValid()'') (Inr (e\<lparr>be_valid := True\<rparr>))"

definition BTBEntry_insert ::
  "(Addr \<Rightarrow> Addr result) \<Rightarrow> 'pc BTBEntry \<Rightarrow> BTBKey \<Rightarrow> 'pc BTBEntry result" where
  "BTBEntry_insert ext e key =
     bind_r (BTBEntry_setValid e) (\<lambda>e.
     bind_r (ext (fst key)) (\<lambda>tag. Inr (e\<lparr>be_tag := (tag, snd key)\<rparr>)))"

definition BTBEntry_invalidate :: "'pc BTBEntry \<Rightarrow> 'pc BTBEntry" where
  "BTBEntry_invalidate e = e\<lparr>be_valid := False, be_tag := (MaxAddr, - 1)\<rparr>"

definition BTBEntry_ops :: "(Addr \<Rightarrow> Addr result) \<Rightarrow> (BTBKey, 'pc BTBEntry) EntryOps" where
  "BTBEntry_ops ext = \<lparr>eo_match = BTBEntry_match ext, eo_insert = BTBEntry_insert ext,
     eo_invalidate = BTBEntry_invalidate\<rparr>"

section \<open>The abstract class and its statistics\<close>

record BTBStats =
  bt_lookups :: "BranchType \<Rightarrow> nat"
  bt_misses :: "BranchType \<Rightarrow> nat"
  bt_updates :: "BranchType \<Rightarrow> nat"
  bt_mispredict :: "BranchType \<Rightarrow> nat"
  bt_evictions :: nat

definition BTBStats_init :: BTBStats where
  "BTBStats_init = \<lparr>bt_lookups = (\<lambda>_. 0), bt_misses = (\<lambda>_. 0), bt_updates = (\<lambda>_. 0),
     bt_mispredict = (\<lambda>_. 0), bt_evictions = 0\<rparr>"

definition count_type :: "BranchType \<Rightarrow> (BranchType \<Rightarrow> nat) \<Rightarrow> BranchType \<Rightarrow> nat" where
  "count_type type f = f(type := f type + 1)"

record ('s, 'pc) BTBOps =
  btb_memInvalidate :: "'s \<Rightarrow> 's result"
  btb_valid :: "'s \<Rightarrow> ThreadID \<Rightarrow> Addr \<Rightarrow> bool result"
  btb_lookup :: "u64 \<Rightarrow> 's \<Rightarrow> ThreadID \<Rightarrow> Addr \<Rightarrow> BranchType \<Rightarrow> ('pc option \<times> 's) result"
  btb_getInst :: "'s \<Rightarrow> ThreadID \<Rightarrow> Addr \<Rightarrow> StaticInst option result"
  btb_update :: "u64 \<Rightarrow> 's \<Rightarrow> ThreadID \<Rightarrow> Addr \<Rightarrow> 'pc \<Rightarrow> BranchType \<Rightarrow> StaticInst option \<Rightarrow> 's result"
  btb_incorrectTarget :: "'s \<Rightarrow> Addr \<Rightarrow> BranchType \<Rightarrow> 's"

section \<open>SimpleBTB\<close>

record SimpleBTBParams =
  sbp_numEntries :: u32
  sbp_associativity :: u32
  sbp_indexing :: BTBSetAssociativeParams

record ('pc, 'r) SimpleBTB =
  sb_indexing :: BTBSetAssociative
  sb_btb :: "('pc BTBEntry, 'r) AssociativeCache"
  sb_stats :: BTBStats

definition SimpleBTB_init :: "'r ReplPolicy \<Rightarrow> SimpleBTBParams \<Rightarrow> ('pc, 'r) SimpleBTB result" where
  "SimpleBTB_init rp p =
     bind_r (BTBSetAssociative_init (sbp_indexing p)) (\<lambda>b.
     bind_r (AssociativeCache_init rp (bs_policy b) (ucast (sbp_numEntries p))
               (ucast (sbp_associativity p)) BTBEntry_init) (\<lambda>(ip, c).
     check (isPowerOf2 (sbp_numEntries p div sbp_associativity p)) (Fatal ''BTB sets is not a power of 2!'')
       (Inr \<lparr>sb_indexing = b\<lparr>bs_policy := ip\<rparr>, sb_btb = c, sb_stats = BTBStats_init\<rparr>)))"

definition SimpleBTB_ops :: "('pc, 'r) SimpleBTB \<Rightarrow> (BTBKey, 'pc BTBEntry) EntryOps" where
  "SimpleBTB_ops s = BTBEntry_ops (extractTag (sb_indexing s))"

definition SimpleBTB_memInvalidate :: "'r ReplPolicy \<Rightarrow> ('pc, 'r) SimpleBTB \<Rightarrow> ('pc, 'r) SimpleBTB result" where
  "SimpleBTB_memInvalidate rp s =
     bind_r (AssociativeCache_clear rp (SimpleBTB_ops s) (sb_btb s)) (\<lambda>c. Inr (s\<lparr>sb_btb := c\<rparr>))"

definition SimpleBTB_findEntry :: "('pc, 'r) SimpleBTB \<Rightarrow> Addr \<Rightarrow> ThreadID \<Rightarrow> nat option result" where
  "SimpleBTB_findEntry s instPC tid =
     AssociativeCache_findEntry (SimpleBTB_ops s) (BTB_getPossibleEntries (sb_indexing s)) (sb_btb s)
       (instPC, int tid)"

definition SimpleBTB_valid :: "('pc, 'r) SimpleBTB \<Rightarrow> ThreadID \<Rightarrow> Addr \<Rightarrow> bool result" where
  "SimpleBTB_valid s tid instPC =
     bind_r (SimpleBTB_findEntry s instPC tid) (\<lambda>entry. Inr (entry \<noteq> None))"

definition SimpleBTB_lookup ::
  "'r ReplPolicy \<Rightarrow> u64 \<Rightarrow> ('pc, 'r) SimpleBTB \<Rightarrow> ThreadID \<Rightarrow> Addr \<Rightarrow> BranchType \<Rightarrow>
   ('pc option \<times> ('pc, 'r) SimpleBTB) result" where
  "SimpleBTB_lookup rp curTick s tid instPC type =
     (let stats = sb_stats s;
          stats = stats\<lparr>bt_lookups := count_type type (bt_lookups stats)\<rparr>
      in bind_r (AssociativeCache_accessEntry rp (SimpleBTB_ops s)
                  (BTB_getPossibleEntries (sb_indexing s)) curTick (sb_btb s) (instPC, int tid)) (\<lambda>(entry, c).
         case entry of
           Some i \<Rightarrow> bind_r (vec_get (ac_entries c) i) (\<lambda>e.
             Inr (be_target (re_entry e), s\<lparr>sb_btb := c, sb_stats := stats\<rparr>))
         | None \<Rightarrow> Inr (None, s\<lparr>sb_btb := c,
             sb_stats := stats\<lparr>bt_misses := count_type type (bt_misses stats)\<rparr>\<rparr>)))"

definition SimpleBTB_getInst :: "('pc, 'r) SimpleBTB \<Rightarrow> ThreadID \<Rightarrow> Addr \<Rightarrow> StaticInst option result" where
  "SimpleBTB_getInst s tid instPC =
     bind_r (SimpleBTB_findEntry s instPC tid) (\<lambda>entry.
       case entry of
         Some i \<Rightarrow> bind_r (vec_get (ac_entries (sb_btb s)) i) (\<lambda>e. Inr (be_inst (re_entry e)))
       | None \<Rightarrow> Inr None)"

definition SimpleBTB_update ::
  "'r ReplPolicy \<Rightarrow> u64 \<Rightarrow> ('pc, 'r) SimpleBTB \<Rightarrow> ThreadID \<Rightarrow> Addr \<Rightarrow> 'pc \<Rightarrow> BranchType \<Rightarrow>
   StaticInst option \<Rightarrow> ('pc, 'r) SimpleBTB result" where
  "SimpleBTB_update rp curTick s tid instPC target type inst =
     (let stats = sb_stats s;
          s = s\<lparr>sb_stats := stats\<lparr>bt_updates := count_type type (bt_updates stats)\<rparr>\<rparr>
      in bind_r (AssociativeCache_findVictim rp (SimpleBTB_ops s)
                  (BTB_getPossibleEntries (sb_indexing s)) (sb_btb s) (instPC, int tid)) (\<lambda>(victim, c).
         bind_r (AssociativeCache_insertEntry rp (SimpleBTB_ops s) curTick c (instPC, int tid) victim) (\<lambda>c.
         bind_r (vec_get (ac_entries c) victim) (\<lambda>e.
           Inr (s\<lparr>sb_btb := c\<lparr>ac_entries := (ac_entries c)[victim :=
             e\<lparr>re_entry := BTBEntry_update (re_entry e) target inst\<rparr>]\<rparr>\<rparr>)))))"

definition SimpleBTB_incorrectTarget ::
  "('pc, 'r) SimpleBTB \<Rightarrow> Addr \<Rightarrow> BranchType \<Rightarrow> ('pc, 'r) SimpleBTB" where
  "SimpleBTB_incorrectTarget s inst_pc type =
     s\<lparr>sb_stats := (sb_stats s)\<lparr>bt_mispredict := count_type type (bt_mispredict (sb_stats s))\<rparr>\<rparr>"

definition SimpleBTB_vtable :: "'r ReplPolicy \<Rightarrow> (('pc, 'r) SimpleBTB, 'pc) BTBOps" where
  "SimpleBTB_vtable rp = \<lparr>btb_memInvalidate = SimpleBTB_memInvalidate rp, btb_valid = SimpleBTB_valid,
     btb_lookup = SimpleBTB_lookup rp, btb_getInst = SimpleBTB_getInst,
     btb_update = SimpleBTB_update rp, btb_incorrectTarget = SimpleBTB_incorrectTarget\<rparr>"

section \<open>Well-formed buffers\<close>

definition btb_sets :: "('pc, 'r) SimpleBTB \<Rightarrow> nat" where
  "btb_sets s = unat (ip_numSets (bs_policy (sb_indexing s)))"

definition btb_ways :: "('pc, 'r) SimpleBTB \<Rightarrow> nat" where
  "btb_ways s = unat (ip_assoc (bs_policy (sb_indexing s)))"

definition SimpleBTB_wf :: "('pc, 'r) SimpleBTB \<Rightarrow> bool" where
  "SimpleBTB_wf s \<longleftrightarrow> (let b = sb_indexing s; ip = bs_policy b in
     isPowerOf2 (ip_numSets ip) \<and> 0 < btb_ways s \<and>
     ip_setMask ip = ip_numSets ip - 1 \<and> ip_tagShift ip < 64 \<and> ip_setShift ip \<le> ip_tagShift ip \<and>
     bs_log2NumThreads b \<le> ip_tagShift ip - ip_setShift ip \<and>
     ip_tagShift ip - ip_setShift ip < 32 \<and>
     ip_sets ip = index_upto (btb_sets s) (btb_ways s) (btb_sets s * btb_ways s) \<and>
     length (ac_entries (sb_btb s)) = btb_sets s * btb_ways s)"

text \<open>The set and the tag of a key, as the indexing policy computes them.\<close>

definition btb_set :: "BTBSetAssociative \<Rightarrow> BTBKey \<Rightarrow> nat" where
  "btb_set b key = unat (ucast (drop_bit (ip_setShift (bs_policy b)) (fst key) XOR
     ucast (push_bit (ip_tagShift (bs_policy b) - ip_setShift (bs_policy b) - bs_log2NumThreads b)
       (word_of_int (snd key) :: u32))) AND ip_setMask (bs_policy b))"

definition btb_tag :: "BTBSetAssociative \<Rightarrow> BTBKey \<Rightarrow> BTBKey" where
  "btb_tag b key = (drop_bit (ip_tagShift (bs_policy b)) (fst key) AND bs_tagMask b, snd key)"

abbreviation btb_base :: "('pc, 'r) SimpleBTB \<Rightarrow> BTBKey \<Rightarrow> nat" where
  "btb_base s key \<equiv> btb_set (sb_indexing s) key * btb_ways s"

abbreviation btb_entry :: "('pc, 'r) SimpleBTB \<Rightarrow> nat \<Rightarrow> 'pc BTBEntry" where
  "btb_entry s i \<equiv> re_entry (ac_entries (sb_btb s) ! i)"

definition btb_hit :: "('pc, 'r) SimpleBTB \<Rightarrow> BTBKey \<Rightarrow> nat \<Rightarrow> bool" where
  "btb_hit s key i \<longleftrightarrow> be_valid (btb_entry s i) \<and> be_tag (btb_entry s i) = btb_tag (sb_indexing s) key"

text \<open>The entry of a key: the first match in the ways of its set.\<close>

definition btb_find :: "('pc, 'r) SimpleBTB \<Rightarrow> BTBKey \<Rightarrow> nat option" where
  "btb_find s key = find (btb_hit s key) [btb_base s key..<btb_base s key + btb_ways s]"

lemma btb_base_le:
  assumes "SimpleBTB_wf s"
  shows "btb_set (sb_indexing s) key < btb_sets s"
    and "btb_base s key + btb_ways s \<le> length (ac_entries (sb_btb s))"
proof -
  have "ip_numSets (bs_policy (sb_indexing s)) \<noteq> 0"
    using assms by (simp add: SimpleBTB_wf_def Let_def isPowerOf2_def)
  then show lt: "btb_set (sb_indexing s) key < btb_sets s"
    using assms unat_and_minus_one_less
    by (simp add: btb_set_def btb_sets_def SimpleBTB_wf_def Let_def)
  have "Suc (btb_set (sb_indexing s) key) * btb_ways s \<le> btb_sets s * btb_ways s"
    using lt by (intro mult_le_mono1) simp
  then show "btb_base s key + btb_ways s \<le> length (ac_entries (sb_btb s))"
    using assms by (simp add: SimpleBTB_wf_def Let_def)
qed

lemma BTB_getPossibleEntries_eq:
  assumes "SimpleBTB_wf s"
  shows "BTB_getPossibleEntries (sb_indexing s) key = Inr (slice (btb_base s key) (btb_ways s))"
proof -
  note lt = btb_base_le(1) [OF assms, of key]
  have "extractSet (sb_indexing s) key = Inr (ucast (drop_bit (ip_setShift (bs_policy (sb_indexing s))) (fst key) XOR
     ucast (push_bit (ip_tagShift (bs_policy (sb_indexing s)) - ip_setShift (bs_policy (sb_indexing s)) -
       bs_log2NumThreads (sb_indexing s)) (word_of_int (snd key) :: u32))) AND ip_setMask (bs_policy (sb_indexing s)))"
    using assms by (auto simp: extractSet_def SimpleBTB_wf_def Let_def check_def)
  moreover have "ip_sets (bs_policy (sb_indexing s)) =
      index_upto (btb_sets s) (btb_ways s) (btb_sets s * btb_ways s)"
    using assms by (simp add: SimpleBTB_wf_def Let_def)
  moreover have "length (index_upto n a m) = n" for n a m by (simp add: index_upto_def)
  ultimately show ?thesis
    using lt index_upto_full [OF lt, of "btb_ways s"]
    by (simp add: BTB_getPossibleEntries_def btb_set_def)
qed

lemma BTB_match_eq:
  assumes "SimpleBTB_wf s"
  shows "eo_match (SimpleBTB_ops s) (btb_entry s i) key = Inr (btb_hit s key i)"
  using assms
  by (auto simp: SimpleBTB_ops_def BTBEntry_ops_def BTBEntry_match_def extractTag_def btb_hit_def
      btb_tag_def SimpleBTB_wf_def Let_def prod_eq_iff)

lemma SimpleBTB_findEntry_eq:
  assumes "SimpleBTB_wf s"
  shows "SimpleBTB_findEntry s pc tid = Inr (btb_find s (pc, int tid))"
  unfolding SimpleBTB_findEntry_def btb_find_def
  by (rule findEntry_eq [OF BTB_getPossibleEntries_eq [OF assms] btb_base_le(2) [OF assms]
        BTB_match_eq [OF assms]])

section \<open>The operations on a well-formed buffer\<close>

definition btb_put :: "('pc, 'r) SimpleBTB \<Rightarrow> nat \<Rightarrow> 'pc BTBEntry \<Rightarrow> 'r \<Rightarrow> ('pc, 'r) SimpleBTB" where
  "btb_put s i e d = s\<lparr>sb_btb := (sb_btb s)\<lparr>ac_entries := (ac_entries (sb_btb s))[i :=
     (ac_entries (sb_btb s) ! i)\<lparr>re_entry := e, re_replacementData := d\<rparr>]\<rparr>\<rparr>"

lemma btb_put_simps [simp]:
  "sb_indexing (btb_put s i e d) = sb_indexing s"
  "length (ac_entries (sb_btb (btb_put s i e d))) = length (ac_entries (sb_btb s))"
  "SimpleBTB_wf (btb_put s i e d) = SimpleBTB_wf s"
  "btb_ways (btb_put s i e d) = btb_ways s" "btb_sets (btb_put s i e d) = btb_sets s"
  by (simp_all add: btb_put_def SimpleBTB_wf_def btb_ways_def btb_sets_def Let_def)

lemma btb_put_entry:
  "i < length (ac_entries (sb_btb s)) \<Longrightarrow>
   btb_entry (btb_put s i e d) j = (if j = i then e else btb_entry s j)"
  "i < length (ac_entries (sb_btb s)) \<Longrightarrow>
   slot_data (sb_btb (btb_put s i e d)) j = (if j = i then d else slot_data (sb_btb s) j)"
  by (auto simp: btb_put_def nth_list_update)

lemma btb_stats_simps [simp]:
  "SimpleBTB_wf (s\<lparr>sb_stats := x\<rparr>) = SimpleBTB_wf s"
  "btb_ways (s\<lparr>sb_stats := x\<rparr>) = btb_ways s" "btb_sets (s\<lparr>sb_stats := x\<rparr>) = btb_sets s"
  "btb_hit (s\<lparr>sb_stats := x\<rparr>) = btb_hit s"
  by (simp_all add: fun_eq_iff btb_hit_def btb_ways_def btb_sets_def SimpleBTB_wf_def)

lemma btb_find_stats [simp]: "btb_find (s\<lparr>sb_stats := x\<rparr>) = btb_find s"
  by (simp add: fun_eq_iff btb_find_def)

lemma find_unique: "k \<in> set xs \<Longrightarrow> (\<And>j. j \<in> set xs \<Longrightarrow> P j \<longleftrightarrow> j = k) \<Longrightarrow> find P xs = Some k"
  by (induction xs) auto

lemma find_SomeD: "find P xs = Some x \<Longrightarrow> x \<in> set xs \<and> P x"
  by (induction xs) (auto split: if_splits)

lemma btb_find_SomeD:
  assumes "SimpleBTB_wf s" and "btb_find s key = Some i"
  shows "btb_hit s key i" and "i \<in> {btb_base s key..<btb_base s key + btb_ways s}"
    and "i < length (ac_entries (sb_btb s))" and "i div btb_ways s = btb_set (sb_indexing s) key"
proof -
  show "btb_hit s key i" and i: "i \<in> {btb_base s key..<btb_base s key + btb_ways s}"
    using find_SomeD [OF assms(2) [unfolded btb_find_def]] by auto
  then show "i < length (ac_entries (sb_btb s))" using btb_base_le(2) [OF assms(1), of key] by simp
  have "btb_base s key div btb_ways s = btb_set (sb_indexing s) key"
    using assms(1) by (simp add: SimpleBTB_wf_def Let_def)
  then show "i div btb_ways s = btb_set (sb_indexing s) key"
    using i by (intro div_nat_eqI) (auto simp: mult.commute)
qed

lemma SimpleBTB_lookup_eq:
  assumes wf: "SimpleBTB_wf s"
  shows "\<exists>x. SimpleBTB_lookup rp now s tid pc type =
    Inr (case btb_find s (pc, int tid) of None \<Rightarrow> None | Some i \<Rightarrow> be_target (btb_entry s i),
      (case btb_find s (pc, int tid) of None \<Rightarrow> s
       | Some i \<Rightarrow> btb_put s i (btb_entry s i) (rp_touch rp now (slot_data (sb_btb s) i)))\<lparr>sb_stats := x\<rparr>)"
proof (cases "btb_find s (pc, int tid)")
  case None
  then show ?thesis
    using SimpleBTB_findEntry_eq [OF wf, of pc tid]
    by (auto simp: SimpleBTB_lookup_def AssociativeCache_accessEntry_def SimpleBTB_findEntry_def Let_def)
next
  case (Some i)
  then show ?thesis
    using SimpleBTB_findEntry_eq [OF wf, of pc tid] btb_find_SomeD(3) [OF wf Some]
    by (auto simp: SimpleBTB_lookup_def AssociativeCache_accessEntry_def SimpleBTB_findEntry_def Let_def
        AssociativeCache_touchEntry_def btb_put_def)
qed

abbreviation btb_new :: "('pc, 'r) SimpleBTB \<Rightarrow> BTBKey \<Rightarrow> 'pc \<Rightarrow> StaticInst option \<Rightarrow> 'pc BTBEntry" where
  "btb_new s key target inst \<equiv> \<lparr>be_target = Some target, be_inst = inst, be_valid = True,
     be_tag = btb_tag (sb_indexing s) key\<rparr>"

lemma SimpleBTB_update_eq:
  assumes wf: "SimpleBTB_wf s"
    and v: "rp_getVictim rp (map (slot_data (sb_btb s))
        [btb_base s (pc, int tid)..<btb_base s (pc, int tid) + btb_ways s]) = Inr v" "v < btb_ways s"
  defines "i \<equiv> btb_base s (pc, int tid) + v"
  shows "\<exists>x. SimpleBTB_update rp now s tid pc target type inst =
    Inr ((btb_put s i (btb_new s (pc, int tid) target inst)
      (rp_reset rp now (rp_invalidate rp (slot_data (sb_btb s) i))))\<lparr>sb_stats := x\<rparr>)"
proof -
  note le = btb_base_le(2) [OF wf, of "(pc, int tid)"]
  have i: "i < length (ac_entries (sb_btb s))" using le v(2) by (simp add: i_def)
  have ext: "extractTag (sb_indexing s) pc = Inr (fst (btb_tag (sb_indexing s) (pc, int tid)))"
    using wf by (simp add: extractTag_def btb_tag_def SimpleBTB_wf_def Let_def)
  have e: "e\<lparr>be_valid := True, be_tag := g, be_target := Some target, be_inst := inst\<rparr> =
      \<lparr>be_target = Some target, be_inst = inst, be_valid = True, be_tag = g\<rparr>" for e :: "'a BTBEntry" and g
    by (cases e) simp
  have com: "r\<lparr>re_replacementData := d, re_entry := f\<rparr> = r\<lparr>re_entry := f, re_replacementData := d\<rparr>"
      "s\<lparr>sb_stats := y, sb_btb := c\<rparr> = s\<lparr>sb_btb := c, sb_stats := y\<rparr>"
    for r :: "('a BTBEntry, 'b) ReplaceableEntry" and d f y c by simp_all
  show ?thesis
    using findVictim_eq [of "BTB_getPossibleEntries (sb_indexing s)" "(pc, int tid)", OF
        BTB_getPossibleEntries_eq [OF wf] le v, of "SimpleBTB_ops s"] i ext
    unfolding i_def [symmetric]
    by (intro exI [of _ "(sb_stats s)\<lparr>bt_updates := count_type type (bt_updates (sb_stats s))\<rparr>"])
      (simp add: e com SimpleBTB_update_def AssociativeCache_insertEntry_def SimpleBTB_ops_def
        BTBEntry_ops_def BTBEntry_insert_def BTBEntry_setValid_def BTBEntry_invalidate_def
        BTBEntry_update_def btb_put_def btb_tag_def Let_def)
qed

lemma SimpleBTB_memInvalidate_eq:
  assumes wf: "SimpleBTB_wf s"
  shows "\<exists>s'. SimpleBTB_memInvalidate rp s = Inr s' \<and> SimpleBTB_wf s' \<and> sb_indexing s' = sb_indexing s \<and>
    (\<forall>i < btb_sets s * btb_ways s. \<not> be_valid (btb_entry s' i))"
proof -
  have len: "length (ac_entries (sb_btb s)) = btb_sets s * btb_ways s"
    using wf by (simp add: SimpleBTB_wf_def Let_def)
  obtain c where "clear_loop rp (SimpleBTB_ops s) [0..<length (ac_entries (sb_btb s))] (sb_btb s) = Inr c"
      "length (ac_entries c) = btb_sets s * btb_ways s"
      "\<forall>i < btb_sets s * btb_ways s. re_entry (ac_entries c ! i) =
        eo_invalidate (SimpleBTB_ops s) (btb_entry s i)"
    using clear_loop_eq [of "[0..<length (ac_entries (sb_btb s))]" "sb_btb s" rp "SimpleBTB_ops s"] len
    by auto
  then show ?thesis using wf
    by (auto simp: SimpleBTB_memInvalidate_def AssociativeCache_clear_def SimpleBTB_wf_def Let_def
        btb_sets_def btb_ways_def SimpleBTB_ops_def BTBEntry_ops_def BTBEntry_invalidate_def)
qed

section \<open>Construction\<close>

definition btb_params_ok :: "SimpleBTBParams \<Rightarrow> bool" where
  "btb_params_ok p \<longleftrightarrow> (let i = sbp_indexing p; n = bip_num_entries i div bip_assoc i in
     sbp_numEntries p = bip_num_entries i \<and> sbp_associativity p = bip_assoc i \<and>
     bip_assoc i \<noteq> 0 \<and> bip_num_entries i mod bip_assoc i = 0 \<and> isPowerOf2 n \<and>
     isPowerOf2 (bip_numThreads i) \<and> sint (bip_numThreads i) > 0 \<and> bip_numThreads i \<le> n \<and>
     2 ^ unat (bip_set_shift i) * unat n < 2 ^ 64)"

lemma ctz32_pow2: "k < 32 \<Longrightarrow> ctz32 (2 ^ k) = k"
proof -
  assume k: "k < 32"
  have "[0..<32] = [0..<k] @ k # [Suc k..<32]" using upt_add_eq_append [of 0 k "32 - k"] k by (simp add: upt_conv_Cons)
  then have "takeWhile (\<lambda>i. \<not> bit (2 ^ k :: u32) i) [0..<32] = [0..<k]"
    using k by (simp only:) (subst takeWhile_append2, auto simp: bit_exp_iff)
  then show ?thesis by (simp add: ctz32_def)
qed

lemma SimpleBTB_init_wf:
  fixes rp :: "'r ReplPolicy"
  assumes "btb_params_ok p"
  shows "\<exists>s :: ('pc, 'r) SimpleBTB. SimpleBTB_init rp p = Inr s \<and> SimpleBTB_wf s \<and>
    (\<forall>i < btb_sets s * btb_ways s. \<not> be_valid (btb_entry s i) \<and>
       slot_data (sb_btb s) i = rp_instantiateEntry rp) \<and>
    btb_ways s = unat (sbp_associativity p)"
proof -
  define i where "i = sbp_indexing p"
  define n where "n = bip_num_entries i div bip_assoc i"
  have p: "sbp_numEntries p = bip_num_entries i" "sbp_associativity p = bip_assoc i" "bip_assoc i \<noteq> 0"
      "bip_num_entries i mod bip_assoc i = 0" "isPowerOf2 n" "isPowerOf2 (bip_numThreads i)"
      "sint (bip_numThreads i) > 0" "bip_numThreads i \<le> n" "2 ^ unat (bip_set_shift i) * unat n < 2 ^ 64"
    using assms by (simp_all add: btb_params_ok_def Let_def i_def n_def)
  obtain k where k: "k < 32" "unat n = 2 ^ k" by (rule isPowerOf2_exp [OF p(5)]) auto
  obtain t where t: "t < 32" "bip_numThreads i = 2 ^ t" "unat (bip_numThreads i) = 2 ^ t"
    by (rule isPowerOf2_exp [OF p(6)]) auto
  have tk: "t \<le> k" using p(8) k(2) t(3) by (simp add: word_le_nat_alt)
  have sh: "unat (bip_set_shift i) + k < 64"
    using p(9) unfolding k(2) power_add [symmetric] by (rule power_less_imp_less_exp [rotated]) simp
  have nz: "n \<noteq> 0" using p(5) by (simp add: isPowerOf2_def)
  obtain l where l: "floorLog2 4 (ucast n) = Inr l" "(2 :: nat) ^ l \<le> 2 ^ k" "(2 :: nat) ^ k < 2 ^ Suc l"
    by (rule floorLog2_u32 [OF nz]) (use k(2) in simp)
  have "l \<le> k" "k < Suc l"
    using power_le_imp_le_exp [OF _ l(2)] power_less_imp_less_exp [OF _ l(3)] by simp_all
  then have lk: "l = k" by simp
  have assoc: "0 < unat (bip_assoc i)" using p(3) by (simp add: unat_gt_0)
  have "unat (bip_assoc i) dvd unat (bip_num_entries i)"
    using arg_cong [OF p(4), of unat] by (simp add: unat_mod mod_0_imp_dvd)
  then have len: "unat (bip_num_entries i) = unat n * unat (bip_assoc i)"
    by (simp add: n_def unat_div)
  let ?ip = "\<lparr>ip_assoc = bip_assoc i, ip_numSets = n, ip_setShift = unat (bip_set_shift i),
    ip_setMask = n - 1, ip_sets = replicate (unat n) (replicate (unat (bip_assoc i)) None),
    ip_tagShift = unat (bip_set_shift i) + k\<rparr>"
  have b: "BTBSetAssociative_init i = Inr \<lparr>bs_policy = ?ip,
      bs_tagMask = mask_nbits (unat (bip_tag_bits i)), bs_log2NumThreads = t\<rparr>"
    using p(3,5-7) l(1) t lk
    by (simp add: BTBSetAssociative_init_def IndexingPolicy_init_def log2i_def ctz32_pow2
        n_def [symmetric] Let_def)
  obtain c :: "('pc BTBEntry, 'r) AssociativeCache" where c: "AssociativeCache_init rp ?ip (ucast (bip_num_entries i)) (ucast (bip_assoc i))
      BTBEntry_init = Inr (?ip\<lparr>ip_sets := index_upto (unat n) (unat (bip_assoc i)) (unat n * unat (bip_assoc i))\<rparr>, c)"
      "length (ac_entries c) = unat n * unat (bip_assoc i)"
      "\<forall>j < unat n * unat (bip_assoc i). re_entry (ac_entries c ! j) = BTBEntry_init \<and>
        slot_data c j = rp_instantiateEntry rp"
    using AssociativeCache_init_eq [of ?ip "unat n" "unat (bip_assoc i)" "ucast (bip_num_entries i)"
        "ucast (bip_assoc i)" rp "BTBEntry_init :: 'pc BTBEntry"] assoc len by (auto simp: unat_ucast_up)
  show ?thesis
    using b c p(1,2,5) k t(1) tk sh assoc
    by (simp add: SimpleBTB_init_def i_def [symmetric] n_def [symmetric] SimpleBTB_wf_def Let_def
        btb_sets_def btb_ways_def BTBEntry_init_def)
qed

section \<open>Runs\<close>

datatype 'pc btb_event =
    Lookup u64 ThreadID Addr BranchType
  | Update u64 ThreadID Addr 'pc BranchType "StaticInst option"
  | MemInvalidate

fun btb_step :: "'r ReplPolicy \<Rightarrow> ('pc, 'r) SimpleBTB \<Rightarrow> 'pc btb_event \<Rightarrow> ('pc, 'r) SimpleBTB result" where
  "btb_step rp s (Lookup now tid pc type) =
     bind_r (SimpleBTB_lookup rp now s tid pc type) (\<lambda>(_, s). Inr s)"
| "btb_step rp s (Update now tid pc target type inst) =
     SimpleBTB_update rp now s tid pc target type inst"
| "btb_step rp s MemInvalidate = SimpleBTB_memInvalidate rp s"

fun btb_run :: "'r ReplPolicy \<Rightarrow> ('pc, 'r) SimpleBTB \<Rightarrow> 'pc btb_event list \<Rightarrow> ('pc, 'r) SimpleBTB result" where
  "btb_run rp s [] = Inr s"
| "btb_run rp s (ev # evs) = bind_r (btb_step rp s ev) (\<lambda>s. btb_run rp s evs)"

text \<open>The updates since the last invalidation, newest first: key, target and instruction.\<close>

fun btb_log :: "(BTBKey \<times> 'pc \<times> StaticInst option) list \<Rightarrow> 'pc btb_event \<Rightarrow>
    (BTBKey \<times> 'pc \<times> StaticInst option) list" where
  "btb_log us (Lookup _ _ _ _) = us"
| "btb_log us (Update _ tid pc target _ inst) = ((pc, int tid), target, inst) # us"
| "btb_log us MemInvalidate = []"

text \<open>Every valid entry comes from a logged update of its set, with its tag, target and instruction.\<close>

definition btb_sound :: "('pc, 'r) SimpleBTB \<Rightarrow> (BTBKey \<times> 'pc \<times> StaticInst option) list \<Rightarrow> bool" where
  "btb_sound s us \<longleftrightarrow> (\<forall>i < btb_sets s * btb_ways s. be_valid (btb_entry s i) \<longrightarrow>
     (\<exists>(key, target, inst) \<in> set us. btb_set (sb_indexing s) key = i div btb_ways s \<and>
        btb_entry s i = btb_new s key target inst))"

text \<open>In a direct-mapped buffer the entry of a set is the newest logged update of the set.\<close>

definition btb_newest :: "BTBSetAssociative \<Rightarrow> (BTBKey \<times> 'pc \<times> StaticInst option) list \<Rightarrow> nat \<Rightarrow>
    (BTBKey \<times> 'pc \<times> StaticInst option) option" where
  "btb_newest b us i = find (\<lambda>u. btb_set b (fst u) = i) us"

definition btb_holds ::
  "BTBSetAssociative \<Rightarrow> (BTBKey \<times> 'pc \<times> StaticInst option) option \<Rightarrow> 'pc BTBEntry \<Rightarrow> bool" where
  "btb_holds b u e \<longleftrightarrow> (case u of None \<Rightarrow> \<not> be_valid e
     | Some (key, target, inst) \<Rightarrow> e = \<lparr>be_target = Some target, be_inst = inst, be_valid = True,
         be_tag = btb_tag b key\<rparr>)"

definition btb_direct :: "('pc, 'r) SimpleBTB \<Rightarrow> (BTBKey \<times> 'pc \<times> StaticInst option) list \<Rightarrow> bool" where
  "btb_direct s us \<longleftrightarrow> btb_ways s = 1 \<and> (\<forall>i < btb_sets s.
     btb_holds (sb_indexing s) (btb_newest (sb_indexing s) us i) (btb_entry s i))"

lemma btb_frame:
  assumes "sb_indexing s' = sb_indexing s" and "\<forall>i. btb_entry s' i = btb_entry s i"
  shows "btb_sound s' us = btb_sound s us" and "btb_direct s' us = btb_direct s us"
  using assms by (simp_all add: btb_sound_def btb_direct_def btb_sets_def btb_ways_def)

context replacement_policy
begin

lemma update_effect:
  assumes wf: "SimpleBTB_wf s"
  shows "\<exists>v d x. v < btb_ways s \<and> rp_getVictim rp (map (slot_data (sb_btb s))
        [btb_base s (pc, int tid)..<btb_base s (pc, int tid) + btb_ways s]) = Inr v \<and>
    SimpleBTB_update rp now s tid pc target type inst =
      Inr ((btb_put s (btb_base s (pc, int tid) + v) (btb_new s (pc, int tid) target inst) d)\<lparr>sb_stats := x\<rparr>)"
proof -
  have "0 < btb_ways s" using wf by (simp add: SimpleBTB_wf_def Let_def)
  then obtain v where v: "v < btb_ways s" "rp_getVictim rp (map (slot_data (sb_btb s))
      [btb_base s (pc, int tid)..<btb_base s (pc, int tid) + btb_ways s]) = Inr v"
    using victim_law [of "map (slot_data (sb_btb s))
      [btb_base s (pc, int tid)..<btb_base s (pc, int tid) + btb_ways s]"] by auto
  then show ?thesis using SimpleBTB_update_eq [OF wf v(2,1)] by blast
qed

lemma lookup_frame:
  assumes wf: "SimpleBTB_wf s"
  shows "\<exists>r s'. SimpleBTB_lookup rp now s tid pc type = Inr (r, s') \<and> SimpleBTB_wf s' \<and>
    sb_indexing s' = sb_indexing s \<and> (\<forall>i. btb_entry s' i = btb_entry s i)"
proof -
  obtain x where l: "SimpleBTB_lookup rp now s tid pc type =
    Inr (case btb_find s (pc, int tid) of None \<Rightarrow> None | Some i \<Rightarrow> be_target (btb_entry s i),
      (case btb_find s (pc, int tid) of None \<Rightarrow> s
       | Some i \<Rightarrow> btb_put s i (btb_entry s i) (rp_touch rp now (slot_data (sb_btb s) i)))\<lparr>sb_stats := x\<rparr>)"
    using SimpleBTB_lookup_eq [OF wf] by blast
  show ?thesis
  proof (cases "btb_find s (pc, int tid)")
    case (Some i)
    then show ?thesis using l wf btb_find_SomeD(3) [OF wf Some] by (simp add: btb_put_entry)
  qed (use l wf in simp)
qed

lemma btb_run_inv:
  assumes "SimpleBTB_wf s" and "btb_sound s us"
  shows "\<exists>s'. btb_run rp s evs = Inr s' \<and> SimpleBTB_wf s' \<and> sb_indexing s' = sb_indexing s \<and>
    btb_sound s' (foldl btb_log us evs) \<and> (btb_direct s us \<longrightarrow> btb_direct s' (foldl btb_log us evs))"
  using assms
proof (induction evs arbitrary: s us)
  case (Cons ev evs)
  have "\<exists>s1. btb_step rp s ev = Inr s1 \<and> SimpleBTB_wf s1 \<and> sb_indexing s1 = sb_indexing s \<and>
      btb_sound s1 (btb_log us ev) \<and> (btb_direct s us \<longrightarrow> btb_direct s1 (btb_log us ev))"
  proof (cases ev)
    case (Lookup now tid pc type)
    obtain r s1 where s1: "SimpleBTB_lookup rp now s tid pc type = Inr (r, s1)" "SimpleBTB_wf s1"
        "sb_indexing s1 = sb_indexing s" "\<forall>i. btb_entry s1 i = btb_entry s i"
      using lookup_frame [OF Cons.prems(1)] by blast
    then show ?thesis using Lookup Cons.prems(2) btb_frame [OF s1(3,4)] by simp
  next
    case (Update now tid pc target type inst)
    let ?key = "(pc, int tid)"
    obtain v d x where v: "v < btb_ways s" "SimpleBTB_update rp now s tid pc target type inst =
        Inr ((btb_put s (btb_base s ?key + v) (btb_new s ?key target inst) d)\<lparr>sb_stats := x\<rparr>)"
      using update_effect [OF Cons.prems(1), of pc tid now target type inst] by blast
    let ?i = "btb_base s ?key + v"
    have i: "?i < length (ac_entries (sb_btb s))" using v(1) btb_base_le(2) [OF Cons.prems(1), of ?key] by simp
    have d: "?i div btb_ways s = btb_set (sb_indexing s) ?key" using v(1) by simp
    have "btb_sound ((btb_put s ?i (btb_new s ?key target inst) d)\<lparr>sb_stats := x\<rparr>) ((?key, target, inst) # us)"
      using Cons.prems(2) i d by (auto simp: btb_sound_def btb_put_entry)
    moreover have "btb_direct ((btb_put s ?i (btb_new s ?key target inst) d)\<lparr>sb_stats := x\<rparr>) ((?key, target, inst) # us)"
      if "btb_direct s us"
      using that i v(1) by (auto simp: btb_direct_def btb_newest_def btb_put_entry btb_holds_def)
    ultimately show ?thesis using Update v(2) Cons.prems(1) by simp
  next
    case MemInvalidate
    obtain s1 where s1: "SimpleBTB_memInvalidate rp s = Inr s1" "SimpleBTB_wf s1"
        "sb_indexing s1 = sb_indexing s" "\<forall>i < btb_sets s * btb_ways s. \<not> be_valid (btb_entry s1 i)"
      using SimpleBTB_memInvalidate_eq [OF Cons.prems(1)] by blast
    then have "btb_sets s1 = btb_sets s" "btb_ways s1 = btb_ways s"
      by (simp_all add: btb_sets_def btb_ways_def)
    then show ?thesis using s1 MemInvalidate
      by (auto simp: btb_sound_def btb_direct_def btb_newest_def btb_holds_def)
  qed
  then obtain s1 where s1: "btb_step rp s ev = Inr s1" "SimpleBTB_wf s1" "sb_indexing s1 = sb_indexing s"
      "btb_sound s1 (btb_log us ev)" "btb_direct s us \<longrightarrow> btb_direct s1 (btb_log us ev)" by blast
  then show ?case using Cons.IH [OF s1(2,4)] by auto
qed simp

end

text \<open>What the branch prediction unit relies on: with any replacement policy that keeps its contract the
  operations return and keep the buffer well-formed.\<close>

locale target_buffer =
  fixes bt :: "('b, 'pc) BTBOps" and btb_inv :: "'b \<Rightarrow> bool"
  assumes lookup_law: "btb_inv b \<Longrightarrow> \<exists>t b'. btb_lookup bt tick b tid pc type = Inr (t, b') \<and> btb_inv b'"
    and update_law: "btb_inv b \<Longrightarrow> \<exists>b'. btb_update bt tick b tid pc target type inst = Inr b' \<and> btb_inv b'"
    and incorrectTarget_law: "btb_inv b \<Longrightarrow> btb_inv (btb_incorrectTarget bt b pc type)"

sublocale replacement_policy \<subseteq> simple_btb: target_buffer "SimpleBTB_vtable rp" SimpleBTB_wf
proof
  fix b :: "('pc, 'r) SimpleBTB" and tick tid pc target type inst
  assume wf: "SimpleBTB_wf b"
  show "\<exists>t b'. btb_lookup (SimpleBTB_vtable rp) tick b tid pc type = Inr (t, b') \<and> SimpleBTB_wf b'"
    using lookup_frame [OF wf] by (simp add: SimpleBTB_vtable_def) blast
  show "\<exists>b'. btb_update (SimpleBTB_vtable rp) tick b tid pc target type inst = Inr b' \<and> SimpleBTB_wf b'"
    using update_effect [OF wf, of pc tid tick target type inst] wf by (auto simp: SimpleBTB_vtable_def)
  show "SimpleBTB_wf (btb_incorrectTarget (SimpleBTB_vtable rp) b pc type)"
    using wf by (simp add: SimpleBTB_vtable_def SimpleBTB_incorrectTarget_def)
qed

section \<open>Properties\<close>

lemma btb_reach:
  fixes s :: "('pc, u64) SimpleBTB"
  assumes "btb_params_ok p" and "SimpleBTB_init LRU p = Inr s"
  shows "\<exists>s'. btb_run LRU s evs = Inr s' \<and> SimpleBTB_wf s' \<and> sb_indexing s' = sb_indexing s \<and>
    btb_sound s' (foldl btb_log [] evs) \<and>
    (sbp_associativity p = 1 \<longrightarrow> btb_direct s' (foldl btb_log [] evs))"
proof -
  have wf: "SimpleBTB_wf s" "\<forall>i < btb_sets s * btb_ways s. \<not> be_valid (btb_entry s i)"
      "btb_ways s = unat (sbp_associativity p)"
    using SimpleBTB_init_wf [OF assms(1), where ?'pc = 'pc, of LRU] assms(2) by auto
  then have "btb_sound s []" "sbp_associativity p = 1 \<longrightarrow> btb_direct s []"
    by (auto simp: btb_sound_def btb_direct_def btb_newest_def btb_holds_def)
  then show ?thesis using lru.btb_run_inv [OF wf(1)] by blast
qed

lemma btb_ways_reach: "sb_indexing s' = sb_indexing s \<Longrightarrow> btb_ways s' = btb_ways s"
  by (simp add: btb_ways_def)

text \<open>C24: The branch target buffer never invents a target.  After any sequence of lookups, updates and
  invalidations on a constructed buffer every operation has returned, and when a lookup of a branch
  hits, the target it returns was given by an update since the last invalidation for a branch of the
  same thread with the same set and the same tag.\<close>

theorem btb_lookup_sound:
  assumes "btb_params_ok p" and "SimpleBTB_init LRU p = Inr s"
  shows "\<exists>s' r s''. btb_run LRU s evs = Inr s' \<and>
    SimpleBTB_lookup LRU now s' tid pc type = Inr (r, s'') \<and>
    (r = None \<or> (\<exists>key t inst. r = Some t \<and> (key, t, inst) \<in> set (foldl btb_log [] evs) \<and>
       btb_set (sb_indexing s) key = btb_set (sb_indexing s) (pc, int tid) \<and>
       btb_tag (sb_indexing s) key = btb_tag (sb_indexing s) (pc, int tid)))"
proof -
  obtain s' where s': "btb_run LRU s evs = Inr s'" "SimpleBTB_wf s'" "sb_indexing s' = sb_indexing s"
      "btb_sound s' (foldl btb_log [] evs)" using btb_reach [OF assms] by blast
  let ?f = "btb_find s' (pc, int tid)"
  obtain s'' where l: "SimpleBTB_lookup LRU now s' tid pc type =
      Inr (case ?f of None \<Rightarrow> None | Some i \<Rightarrow> be_target (btb_entry s' i), s'')"
    using SimpleBTB_lookup_eq [OF s'(2)] by blast
  show ?thesis
  proof (cases ?f)
    case (Some i)
    note i = btb_find_SomeD [OF s'(2) Some]
    have len: "length (ac_entries (sb_btb s')) = btb_sets s' * btb_ways s'"
      using s'(2) by (simp add: SimpleBTB_wf_def Let_def)
    obtain key t inst where "(key, t, inst) \<in> set (foldl btb_log [] evs)"
        "btb_set (sb_indexing s') key = btb_set (sb_indexing s') (pc, int tid)"
        "btb_entry s' i = btb_new s' key t inst"
      using s'(4) i len by (fastforce simp: btb_sound_def btb_hit_def)
    then show ?thesis using s'(1,3) l Some i(1)
      by (intro exI [of _ s'] exI [of _ "Some t"] exI [of _ s''] conjI disjI2 exI [of _ key]
          exI [of _ t] exI [of _ inst]) (auto simp: btb_hit_def)
  qed (use s'(1) l in auto)
qed

definition sbp_small :: "u32 \<Rightarrow> SimpleBTBParams" where
  "sbp_small assoc = \<lparr>sbp_numEntries = 8, sbp_associativity = assoc, sbp_indexing =
     \<lparr>bip_assoc = assoc, bip_num_entries = 8, bip_set_shift = 2, bip_tag_bits = 16, bip_numThreads = 1\<rparr>\<rparr>"

lemma sbp_small_ok: "btb_params_ok (sbp_small 1)" "btb_params_ok (sbp_small 2)"
  by (simp_all add: btb_params_ok_def sbp_small_def Let_def isPowerOf2_def)

lemma sbp_small_init:
  "\<exists>s :: (Addr, u64) SimpleBTB. SimpleBTB_init LRU (sbp_small 1) = Inr s"
  "\<exists>s :: (Addr, u64) SimpleBTB. SimpleBTB_init LRU (sbp_small 2) = Inr s"
  using SimpleBTB_init_wf [OF sbp_small_ok(1), of LRU] SimpleBTB_init_wf [OF sbp_small_ok(2), of LRU]
  by blast+

theorem btb_lookup_sound_witness:
  "\<exists>(s :: (Addr, u64) SimpleBTB) s' r s''. SimpleBTB_init LRU (sbp_small 2) = Inr s \<and>
     btb_run LRU s [Update 5 0 0x40 0x80 DirectCond None, Lookup 6 0 0x40 DirectCond] = Inr s' \<and>
     SimpleBTB_lookup LRU 7 s' 0 0x40 DirectCond = Inr (r, s'') \<and> r \<in> {None, Some 0x80}"
proof -
  obtain s :: "(Addr, u64) SimpleBTB" where s: "SimpleBTB_init LRU (sbp_small 2) = Inr s"
    using sbp_small_init by blast
  show ?thesis
    using btb_lookup_sound [OF sbp_small_ok(2) s, where evs = "[Update 5 0 0x40 0x80 DirectCond None,
        Lookup 6 0 0x40 DirectCond]" and now = 7 and tid = 0 and pc = "0x40" and type = DirectCond] s by auto
qed

text \<open>C23: A direct-mapped branch target buffer is exactly a table of the newest updates.  After any
  sequence of operations, a lookup returns the target of the newest update that maps to the set of
  the branch when that update has its tag and thread, and misses otherwise.\<close>

theorem btb_direct_mapped:
  assumes "btb_params_ok p" and "sbp_associativity p = 1" and "SimpleBTB_init LRU p = Inr s"
  shows "\<exists>s' s''. btb_run LRU s evs = Inr s' \<and>
    SimpleBTB_lookup LRU now s' tid pc type =
      Inr (case btb_newest (sb_indexing s) (foldl btb_log [] evs) (btb_set (sb_indexing s) (pc, int tid)) of
             None \<Rightarrow> None
           | Some (key, target, inst) \<Rightarrow>
               if btb_tag (sb_indexing s) key = btb_tag (sb_indexing s) (pc, int tid)
               then Some target else None, s'')"
proof -
  let ?i = "btb_set (sb_indexing s) (pc, int tid)"
  obtain s' where s': "btb_run LRU s evs = Inr s'" "SimpleBTB_wf s'" "sb_indexing s' = sb_indexing s"
      "btb_direct s' (foldl btb_log [] evs)" using btb_reach [OF assms(1,3)] assms(2) by blast
  have w: "btb_ways s' = 1" using s'(4) by (simp add: btb_direct_def)
  have "?i < btb_sets s'" using btb_base_le(1) [OF s'(2)] s'(3) by simp
  then have h: "btb_holds (sb_indexing s) (btb_newest (sb_indexing s) (foldl btb_log [] evs) ?i) (btb_entry s' ?i)"
    using s'(3,4) by (simp add: btb_direct_def)
  have f: "btb_find s' (pc, int tid) = (if btb_hit s' (pc, int tid) ?i then Some ?i else None)"
    using s'(3) w by (simp add: btb_find_def)
  obtain s'' where l: "SimpleBTB_lookup LRU now s' tid pc type =
      Inr (case btb_find s' (pc, int tid) of None \<Rightarrow> None | Some i \<Rightarrow> be_target (btb_entry s' i), s'')"
    using SimpleBTB_lookup_eq [OF s'(2)] by blast
  show ?thesis
    using s'(1,3) l f h
    by (auto simp: btb_holds_def btb_hit_def split: option.splits prod.splits)
qed

theorem btb_direct_mapped_witness:
  "\<exists>(s :: (Addr, u64) SimpleBTB) s' s''. SimpleBTB_init LRU (sbp_small 1) = Inr s \<and>
     btb_run LRU s [Update 5 0 0x40 0x80 DirectCond None, Update 6 0 0x40 0x90 DirectCond None] = Inr s' \<and>
     SimpleBTB_lookup LRU 7 s' 0 0x40 DirectCond = Inr (Some 0x90, s'')"
proof -
  obtain s :: "(Addr, u64) SimpleBTB" where s: "SimpleBTB_init LRU (sbp_small 1) = Inr s"
    using sbp_small_init by blast
  show ?thesis
    using btb_direct_mapped [OF sbp_small_ok(1) _ s, of "[Update 5 0 0x40 0x80 DirectCond None,
        Update 6 0 0x40 0x90 DirectCond None]" 7 0 "0x40" DirectCond] s
    by (auto simp: btb_newest_def sbp_small_def)
qed

text \<open>C25: Inserting a branch that is not in the buffer is a round trip: in any reachable state of a
  buffer of any associativity, an update of a branch that misses makes the next lookup return the
  inserted target and \<open>getInst\<close> the inserted instruction.\<close>

theorem btb_insert_lookup:
  assumes "btb_params_ok p" and "SimpleBTB_init LRU p = Inr s" and "btb_run LRU s evs = Inr s'"
    and "SimpleBTB_valid s' tid pc = Inr False"
  shows "\<exists>s1 s2. SimpleBTB_update LRU now s' tid pc target type inst = Inr s1 \<and>
    SimpleBTB_lookup LRU now' s1 tid pc type' = Inr (Some target, s2) \<and>
    SimpleBTB_getInst s1 tid pc = Inr inst"
proof -
  let ?key = "(pc, int tid)"
  have wf: "SimpleBTB_wf s'" using btb_reach [OF assms(1,2), of evs] assms(3) by auto
  have miss: "btb_find s' ?key = None"
    using assms(4) SimpleBTB_findEntry_eq [OF wf, of pc tid] by (auto simp: SimpleBTB_valid_def)
  obtain v d x where v: "v < btb_ways s'" "SimpleBTB_update LRU now s' tid pc target type inst =
      Inr ((btb_put s' (btb_base s' ?key + v) (btb_new s' ?key target inst) d)\<lparr>sb_stats := x\<rparr>)"
    using lru.update_effect [OF wf, of pc tid now target type inst] by blast
  let ?i = "btb_base s' ?key + v" and ?s = "btb_put s' (btb_base s' ?key + v) (btb_new s' ?key target inst) d"
  have i: "?i < length (ac_entries (sb_btb s'))" using v(1) btb_base_le(2) [OF wf, of ?key] by simp
  have hit: "btb_hit ?s ?key j \<longleftrightarrow> j = ?i" if "j \<in> {btb_base s' ?key..<btb_base s' ?key + btb_ways s'}" for j
    using miss that i by (auto simp: btb_find_def find_None_iff btb_hit_def btb_put_entry)
  have f: "btb_find ?s ?key = Some ?i"
    unfolding btb_find_def by (rule find_unique) (use hit v(1) in auto)
  have "SimpleBTB_wf (?s\<lparr>sb_stats := x\<rparr>)" using wf by simp
  from SimpleBTB_lookup_eq [OF this, of LRU now' tid pc type'] SimpleBTB_findEntry_eq [OF this, of pc tid]
  show ?thesis using f v(2) i by (auto simp: SimpleBTB_getInst_def btb_put_entry)
qed

theorem btb_insert_lookup_witness:
  "\<exists>(s :: (Addr, u64) SimpleBTB) s1 s2. SimpleBTB_init LRU (sbp_small 2) = Inr s \<and>
     SimpleBTB_update LRU 5 s 0 0x40 0x80 DirectCond None = Inr s1 \<and>
     SimpleBTB_lookup LRU 6 s1 0 0x40 DirectCond = Inr (Some 0x80, s2)"
proof -
  obtain s :: "(Addr, u64) SimpleBTB" where s: "SimpleBTB_init LRU (sbp_small 2) = Inr s"
      "SimpleBTB_wf s" "\<forall>i < btb_sets s * btb_ways s. \<not> be_valid (btb_entry s i)"
    using SimpleBTB_init_wf [OF sbp_small_ok(2), of LRU] by blast
  have "\<not> btb_hit s (0x40, 0) i" if "i < length (ac_entries (sb_btb s))" for i
    using s(2,3) that by (simp add: btb_hit_def SimpleBTB_wf_def Let_def)
  then have "btb_find s (0x40, 0) = None"
    using btb_base_le(2) [OF s(2), of "(0x40, 0)"] by (auto simp: btb_find_def find_None_iff)
  then have "SimpleBTB_valid s 0 0x40 = Inr False"
    using SimpleBTB_findEntry_eq [OF s(2), of "0x40" 0] by (simp add: SimpleBTB_valid_def)
  then show ?thesis using btb_insert_lookup [OF sbp_small_ok(2) s(1), of "[]" s 0 "0x40" 5 "0x80" DirectCond None 6
      DirectCond] s(1) by auto
qed



end
