(* ===== verification/Indirect_Predictor.thy ===== *)
theory Indirect_Predictor
  imports Speculation Global_History "HOL-Library.Sublist"
begin

text \<open>
  \<open>cpu/pred/indirect.hh\<close>, \<open>cpu/pred/simple_indirect.hh\<close> and
  \<open>cpu/pred/simple_indirect.cc\<close>: the predictor of indirect branch targets, a tagged table
  indexed by a hash of the branch address, the direction history and the last targets of indirect
  branches.

  The abstract class is the record \<open>IndirectOps\<close> of its virtual methods.  A target is a value of
  type \<open>'pc\<close>, \<open>instAddr\<close> its address; the value of \<open>rand()\<close> is an argument of the
  operation that uses it.  Fields of a history that the code leaves uninitialised are zero.
\<close>

section \<open>Data\<close>

record ('s, 'pc, 'h) IndirectOps =
  id_reset :: "'s \<Rightarrow> 's"
  id_lookup :: "'s \<Rightarrow> ThreadID \<Rightarrow> InstSeqNum \<Rightarrow> Addr \<Rightarrow> 'h option \<Rightarrow> ('pc option \<times> 's \<times> 'h option) result"
  id_update :: "nat \<Rightarrow> 's \<Rightarrow> ThreadID \<Rightarrow> InstSeqNum \<Rightarrow> Addr \<Rightarrow> bool \<Rightarrow> bool \<Rightarrow> 'pc \<Rightarrow> BranchType \<Rightarrow>
    'h option \<Rightarrow> ('s \<times> 'h option) result"
  id_squash :: "'s \<Rightarrow> ThreadID \<Rightarrow> InstSeqNum \<Rightarrow> 'h option \<Rightarrow> ('s \<times> 'h option) result"
  id_commit :: "'s \<Rightarrow> ThreadID \<Rightarrow> InstSeqNum \<Rightarrow> 'h option \<Rightarrow> ('s \<times> 'h option) result"

record 'pc IPredEntry =
  ie_tag :: Addr
  ie_target :: "'pc option"

record HistoryEntry =
  he_pcAddr :: Addr
  he_targetAddr :: Addr
  he_seqNum :: InstSeqNum

record IndirectHistory =
  ih_pcAddr :: Addr
  ih_targetAddr :: Addr
  ih_seqNum :: InstSeqNum
  ih_set_index :: Addr
  ih_tag :: Addr
  ih_hit :: bool
  ih_ghr :: u32
  ih_pathHist :: u64
  ih_was_indirect :: bool

definition IndirectHistory_init :: IndirectHistory where
  "IndirectHistory_init = \<lparr>ih_pcAddr = MaxAddr, ih_targetAddr = MaxAddr, ih_seqNum = 0,
     ih_set_index = 0, ih_tag = 0, ih_hit = False, ih_ghr = 0, ih_pathHist = 0,
     ih_was_indirect = False\<rparr>"

text \<open>The path history is a deque: its front is the oldest entry.\<close>

record ThreadInfo =
  ti_pathHist :: "HistoryEntry list"
  ti_ghr :: u32

record IndirectStats =
  is_lookups :: nat
  is_hits :: nat
  is_misses :: nat
  is_targetRecords :: nat
  is_indirectRecords :: nat
  is_speculativeOverflows :: nat

record SimpleIndirectParams =
  sip_hashGHR :: bool
  sip_hashTargets :: bool
  sip_sets :: u32
  sip_ways :: u32
  sip_tagSize :: u32
  sip_pathLength :: u32
  sip_speculativePathLength :: u32
  sip_instShiftAmt :: u32
  sip_GHRBits :: u32
  sip_numThreads :: u32

record 'pc SimpleIndirect =
  si_hashGHR :: bool
  si_hashTargets :: bool
  si_numSets :: u32
  si_numWays :: u32
  si_tagBits :: u32
  si_pathLength :: u32
  si_speculativePathLength :: u32
  si_instShift :: u32
  si_ghrNumBits :: u32
  si_ghrMask :: u32
  si_targetCache :: "'pc IPredEntry list list"
  si_threadInfo :: "ThreadInfo list"
  si_stats :: IndirectStats

section \<open>Construction\<close>

definition SimpleIndirect_init :: "SimpleIndirectParams \<Rightarrow> 'pc SimpleIndirect result" where
  "SimpleIndirect_init p =
     check (unat (sip_GHRBits p) < 31) Undefined
       (check (isPowerOf2 (sip_sets p)) (Panic ''Indirect predictor requires power of 2 number of sets'')
         (check (\<not> sip_GHRBits p > 32) (Fatal ''ghr_size is too big'')
           (Inr \<lparr>si_hashGHR = sip_hashGHR p, si_hashTargets = sip_hashTargets p,
                 si_numSets = sip_sets p, si_numWays = sip_ways p, si_tagBits = sip_tagSize p,
                 si_pathLength = sip_pathLength p,
                 si_speculativePathLength = sip_speculativePathLength p,
                 si_instShift = sip_instShiftAmt p, si_ghrNumBits = sip_GHRBits p,
                 si_ghrMask = push_bit (unat (sip_GHRBits p)) 1 - 1,
                 si_targetCache = replicate (unat (sip_sets p))
                   (replicate (unat (sip_ways p)) \<lparr>ie_tag = 0, ie_target = None\<rparr>),
                 si_threadInfo = replicate (unat (sip_numThreads p)) \<lparr>ti_pathHist = [], ti_ghr = 0\<rparr>,
                 si_stats = \<lparr>is_lookups = 0, is_hits = 0, is_misses = 0, is_targetRecords = 0,
                   is_indirectRecords = 0, is_speculativeOverflows = 0\<rparr>\<rparr>)))"

definition SimpleIndirect_reset :: "'pc SimpleIndirect \<Rightarrow> 'pc SimpleIndirect" where
  "SimpleIndirect_reset s =
     s\<lparr>si_threadInfo := map (\<lambda>ti. ti\<lparr>ti_ghr := 0, ti_pathHist := []\<rparr>) (si_threadInfo s),
       si_targetCache := map (map (\<lambda>e. e\<lparr>ie_tag := 0\<rparr>)) (si_targetCache s)\<rparr>"

section \<open>Helpers\<close>

definition isIndirectNoReturn :: "BranchType \<Rightarrow> bool" where
  "isIndirectNoReturn type \<longleftrightarrow> type = CallIndirect \<or> type = IndirectUncond \<or> type = IndirectCond"

definition genIndirectInfo :: "'pc SimpleIndirect \<Rightarrow> ThreadID \<Rightarrow> IndirectHistory result" where
  "genIndirectInfo s tid =
     bind_r (vec_get (si_threadInfo s) tid) (\<lambda>ti. Inr (IndirectHistory_init\<lparr>ih_ghr := ti_ghr ti\<rparr>))"

definition updateDirectionInfo :: "'pc SimpleIndirect \<Rightarrow> ThreadID \<Rightarrow> bool \<Rightarrow> 'pc SimpleIndirect result" where
  "updateDirectionInfo s tid taken =
     bind_r (vec_get (si_threadInfo s) tid) (\<lambda>ti.
       let ghr = push_bit 1 (ti_ghr ti);
           ghr = ghr OR of_bool taken;
           ghr = ghr AND si_ghrMask s
       in Inr (s\<lparr>si_threadInfo := (si_threadInfo s)[tid := ti\<lparr>ti_ghr := ghr\<rparr>]\<rparr>))"

text \<open>The loop over the path history, newest entry first, \<open>p\<close> counting up to the path length.\<close>

fun hash_targets :: "nat \<Rightarrow> nat \<Rightarrow> nat \<Rightarrow> nat \<Rightarrow> Addr list \<Rightarrow> u64 \<Rightarrow> u64 result" where
  "hash_targets instShift hash_shift pathLength p [] hash = Inr hash"
| "hash_targets instShift hash_shift pathLength p (t # ts) hash =
     (if p < pathLength
      then check (instShift + p * hash_shift < 64) Undefined
             (hash_targets instShift hash_shift pathLength (p + 1) ts
               (hash XOR drop_bit (instShift + p * hash_shift) t))
      else Inr hash)"

definition getSetIndex :: "'pc SimpleIndirect \<Rightarrow> Addr \<Rightarrow> ThreadID \<Rightarrow> Addr result" where
  "getSetIndex s br_addr tid =
     check (unat (si_instShift s) < 64) Undefined
       (bind_r (vec_get (si_threadInfo s) tid) (\<lambda>ti.
          let hash = drop_bit (unat (si_instShift s)) br_addr;
              hash = (if si_hashGHR s then hash XOR ucast (ti_ghr ti) else hash)
          in bind_r (if si_hashTargets s
               then bind_r (floorLog2 4 (ucast (si_numSets s))) (\<lambda>l.
                    check (si_pathLength s \<noteq> 0) Undefined
                      (hash_targets (unat (si_instShift s)) (l div unat (si_pathLength s))
                        (unat (si_pathLength s)) 0 (map he_targetAddr (rev (ti_pathHist ti))) hash))
               else Inr hash) (\<lambda>hash.
             Inr (hash AND ucast (si_numSets s - 1)))))"

definition getTag :: "'pc SimpleIndirect \<Rightarrow> Addr \<Rightarrow> Addr result" where
  "getTag s br_addr =
     check (unat (si_instShift s) < 64 \<and> unat (si_tagBits s) < 31) Undefined
       (Inr (drop_bit (unat (si_instShift s)) br_addr AND (push_bit (unat (si_tagBits s)) 1 - 1)))"

section \<open>Operations\<close>

definition lookup_target ::
  "'pc SimpleIndirect \<Rightarrow> ThreadID \<Rightarrow> Addr \<Rightarrow> IndirectHistory \<Rightarrow>
   ('pc option \<times> 'pc SimpleIndirect \<times> IndirectHistory) result" where
  "lookup_target s tid br_addr history =
     bind_r (getSetIndex s br_addr tid) (\<lambda>set_index.
     bind_r (getTag s br_addr) (\<lambda>tag.
       let history = history\<lparr>ih_set_index := set_index, ih_tag := tag\<rparr>
       in check (set_index < ucast (si_numSets s)) (Assert ''history->set_index < numSets'')
         (let stats = (si_stats s)\<lparr>is_lookups := is_lookups (si_stats s) + 1\<rparr>
          in bind_r (vec_get (si_targetCache s) (unat set_index)) (\<lambda>iset.
             case find (\<lambda>way. ie_tag way = tag \<and> ie_target way \<noteq> None) iset of
               Some way \<Rightarrow> Inr (ie_target way,
                 s\<lparr>si_stats := stats\<lparr>is_hits := is_hits stats + 1\<rparr>\<rparr>, history\<lparr>ih_hit := True\<rparr>)
             | None \<Rightarrow> Inr (None,
                 s\<lparr>si_stats := stats\<lparr>is_misses := is_misses stats + 1\<rparr>\<rparr>, history\<lparr>ih_hit := False\<rparr>)))))"

definition SimpleIndirect_lookup ::
  "'pc SimpleIndirect \<Rightarrow> ThreadID \<Rightarrow> InstSeqNum \<Rightarrow> Addr \<Rightarrow> IndirectHistory option \<Rightarrow>
   ('pc option \<times> 'pc SimpleIndirect \<times> IndirectHistory option) result" where
  "SimpleIndirect_lookup s tid sn pc i_history =
     check (i_history = None) (Assert ''i_history==nullptr'')
       (bind_r (genIndirectInfo s tid) (\<lambda>history.
          let history = history\<lparr>ih_pcAddr := pc, ih_was_indirect := True\<rparr>
          in bind_r (lookup_target s tid pc history) (\<lambda>(target, s, history).
               Inr (target, s, Some history))))"

fun trim_front :: "nat \<Rightarrow> HistoryEntry list \<Rightarrow> HistoryEntry list result" where
  "trim_front n [] = (if n = 0 then Inl Undefined else Inr [])"
| "trim_front n (e # es) = (if length (e # es) \<ge> n then trim_front n es else Inr (e # es))"

definition SimpleIndirect_commit ::
  "'pc SimpleIndirect \<Rightarrow> ThreadID \<Rightarrow> InstSeqNum \<Rightarrow> IndirectHistory option \<Rightarrow>
   ('pc SimpleIndirect \<times> IndirectHistory option) result" where
  "SimpleIndirect_commit s tid sn i_history =
     (case i_history of
        None \<Rightarrow> Inr (s, None)
      | Some history \<Rightarrow>
          bind_r (vec_get (si_threadInfo s) tid) (\<lambda>ti.
          bind_r (trim_front (unat (si_pathLength s + si_speculativePathLength s)) (ti_pathHist ti)) (\<lambda>pathHist.
            Inr (s\<lparr>si_threadInfo := (si_threadInfo s)[tid := ti\<lparr>ti_pathHist := pathHist\<rparr>]\<rparr>, None))))"

text \<open>The first way with the tag gets the target.\<close>

fun record_way :: "Addr \<Rightarrow> 'pc \<Rightarrow> 'pc IPredEntry list \<Rightarrow> 'pc IPredEntry list option" where
  "record_way tag target [] = None"
| "record_way tag target (way # ways) =
     (if ie_tag way = tag then Some (way\<lparr>ie_target := Some target\<rparr> # ways)
      else map_option ((#) way) (record_way tag target ways))"

definition recordTarget ::
  "nat \<Rightarrow> 'pc SimpleIndirect \<Rightarrow> ThreadID \<Rightarrow> 'pc \<Rightarrow> IndirectHistory \<Rightarrow> 'pc SimpleIndirect result" where
  "recordTarget rnd s tid target history =
     bind_r (vec_get (si_threadInfo s) tid) (\<lambda>ti.
     check (ti_pathHist ti \<noteq> []) (Assert ''!threadInfo[tid].pathHist.empty()'')
       (check (ih_was_indirect history) (Assert ''history->was_indirect'')
         (check (ih_set_index history < ucast (si_numSets s)) (Assert ''history->set_index < numSets'')
           (let s = s\<lparr>si_stats := (si_stats s)\<lparr>is_targetRecords := is_targetRecords (si_stats s) + 1\<rparr>\<rparr>
            in bind_r (vec_get (si_targetCache s) (unat (ih_set_index history))) (\<lambda>iset.
               case record_way (ih_tag history) target iset of
                 Some iset \<Rightarrow>
                   Inr (s\<lparr>si_targetCache := (si_targetCache s)[unat (ih_set_index history) := iset]\<rparr>)
               | None \<Rightarrow>
                   check (si_numWays s \<noteq> 0) Undefined
                     (bind_r (vec_set iset (rnd mod unat (si_numWays s))
                               \<lparr>ie_tag = ih_tag history, ie_target = Some target\<rparr>) (\<lambda>iset.
                      Inr (s\<lparr>si_targetCache := (si_targetCache s)[unat (ih_set_index history) := iset]\<rparr>))))))))"

text \<open>Restoring the histories for a branch that is corrected, and recomputing its place.\<close>

definition update_restore ::
  "'pc SimpleIndirect \<Rightarrow> ThreadID \<Rightarrow> IndirectHistory \<Rightarrow> ('pc SimpleIndirect \<times> IndirectHistory) result" where
  "update_restore s tid history =
     bind_r (vec_get (si_threadInfo s) tid) (\<lambda>ti.
       let ti = ti\<lparr>ti_ghr := ih_ghr history\<rparr>
       in if ih_was_indirect history
          then let ti = (if ti_pathHist ti \<noteq> [] then ti\<lparr>ti_pathHist := butlast (ti_pathHist ti)\<rparr> else ti);
                   s = s\<lparr>si_threadInfo := (si_threadInfo s)[tid := ti]\<rparr>
               in bind_r (getSetIndex s (ih_pcAddr history) tid) (\<lambda>set_index.
                  bind_r (getTag s (ih_pcAddr history)) (\<lambda>tag.
                    Inr (s, history\<lparr>ih_set_index := set_index, ih_tag := tag\<rparr>)))
          else Inr (s\<lparr>si_threadInfo := (si_threadInfo s)[tid := ti]\<rparr>, history))"

definition update_record ::
  "('pc \<Rightarrow> Addr) \<Rightarrow> 'pc SimpleIndirect \<Rightarrow> ThreadID \<Rightarrow> InstSeqNum \<Rightarrow> 'pc \<Rightarrow> IndirectHistory \<Rightarrow>
   'pc SimpleIndirect result" where
  "update_record instAddr s tid sn target history =
     (if ih_was_indirect history
      then bind_r (vec_get (si_threadInfo s) tid) (\<lambda>ti.
        Inr (s\<lparr>si_threadInfo := (si_threadInfo s)[tid := ti\<lparr>ti_pathHist := ti_pathHist ti @
               [\<lparr>he_pcAddr = ih_pcAddr history, he_targetAddr = instAddr target, he_seqNum = sn\<rparr>]\<rparr>],
               si_stats := (si_stats s)\<lparr>is_indirectRecords := is_indirectRecords (si_stats s) + 1\<rparr>\<rparr>))
      else Inr s)"

definition SimpleIndirect_update ::
  "('pc \<Rightarrow> Addr) \<Rightarrow> nat \<Rightarrow> 'pc SimpleIndirect \<Rightarrow> ThreadID \<Rightarrow> InstSeqNum \<Rightarrow> Addr \<Rightarrow> bool \<Rightarrow> bool \<Rightarrow> 'pc \<Rightarrow>
   BranchType \<Rightarrow> IndirectHistory option \<Rightarrow> ('pc SimpleIndirect \<times> IndirectHistory option) result" where
  "SimpleIndirect_update instAddr rnd s tid sn pc squash taken target br_type i_history =
     bind_r (case i_history of None \<Rightarrow> genIndirectInfo s tid | Some history \<Rightarrow> Inr history) (\<lambda>history.
       let history = history\<lparr>ih_was_indirect := isIndirectNoReturn br_type\<rparr>
       in bind_r (if squash then update_restore s tid history else Inr (s, history)) (\<lambda>(s, history).
          bind_r (update_record instAddr s tid sn target history) (\<lambda>s.
          bind_r (updateDirectionInfo s tid taken) (\<lambda>s.
          bind_r (if squash \<and> ih_was_indirect history \<and> taken
                  then recordTarget rnd s tid target history else Inr s) (\<lambda>s.
            Inr (s, Some history))))))"

definition SimpleIndirect_squash ::
  "'pc SimpleIndirect \<Rightarrow> ThreadID \<Rightarrow> InstSeqNum \<Rightarrow> IndirectHistory option \<Rightarrow>
   ('pc SimpleIndirect \<times> IndirectHistory option) result" where
  "SimpleIndirect_squash s tid sn i_history =
     (case i_history of
        None \<Rightarrow> Inr (s, None)
      | Some history \<Rightarrow>
          bind_r (vec_get (si_threadInfo s) tid) (\<lambda>ti.
            let ti = ti\<lparr>ti_ghr := ih_ghr history\<rparr>;
                s = (if ih_was_indirect history \<and> length (ti_pathHist ti) < unat (si_pathLength s)
                     then s\<lparr>si_stats := (si_stats s)\<lparr>is_speculativeOverflows :=
                            is_speculativeOverflows (si_stats s) + 1\<rparr>\<rparr> else s);
                ti = (if ih_was_indirect history \<and> ti_pathHist ti \<noteq> []
                      then ti\<lparr>ti_pathHist := butlast (ti_pathHist ti)\<rparr> else ti)
            in Inr (s\<lparr>si_threadInfo := (si_threadInfo s)[tid := ti]\<rparr>, None)))"

definition SimpleIndirect_vtable ::
  "('pc \<Rightarrow> Addr) \<Rightarrow> ('pc SimpleIndirect, 'pc, IndirectHistory) IndirectOps" where
  "SimpleIndirect_vtable instAddr = \<lparr>id_reset = SimpleIndirect_reset, id_lookup = SimpleIndirect_lookup,
     id_update = SimpleIndirect_update instAddr, id_squash = SimpleIndirect_squash,
     id_commit = SimpleIndirect_commit\<rparr>"

section \<open>The predictor as a speculative component\<close>

text \<open>
  A branch as the branch prediction unit passes it to the indirect predictor: \<open>io_lookup\<close> says
  whether the predictor was consulted for a target, the other fields are the arguments of
  \<open>update\<close>, where a correction passes a sequence number of its own.
\<close>

record 'pc indirect_op =
  io_sn :: InstSeqNum
  io_update_sn :: InstSeqNum
  io_pc :: Addr
  io_lookup :: bool
  io_taken :: bool
  io_target :: 'pc
  io_type :: BranchType
  io_rand :: nat

definition indirect_spec ::
  "('s, 'pc, 'h) IndirectOps \<Rightarrow> ('s, 'pc indirect_op, 'pc option, 'h) spec_ops" where
  "indirect_spec ip = \<lparr>
     so_do = (\<lambda>s tid op.
       bind_r (if io_lookup op then id_lookup ip s tid (io_sn op) (io_pc op) None else Inr (None, s, None))
         (\<lambda>(r, s, h). bind_r (id_update ip (io_rand op) s tid (io_sn op) (io_pc op) False (io_taken op)
            (io_target op) (io_type op) h) (\<lambda>(s, h). Inr (r, s, h)))),
     so_undo = (\<lambda>s tid op h. id_squash ip s tid (io_sn op) h),
     so_redo = (\<lambda>s tid _ op h. id_update ip (io_rand op) s tid (io_update_sn op) (io_pc op) True (io_taken op)
       (io_target op) (io_type op) h),
     so_retire = (\<lambda>s tid _ op h. id_commit ip s tid (io_sn op) h)\<rparr>"

abbreviation io_indirect :: "'pc indirect_op \<Rightarrow> bool" where
  "io_indirect op \<equiv> isIndirectNoReturn (io_type op)"

abbreviation same_kind :: "'pc indirect_op \<Rightarrow> 'pc indirect_op \<Rightarrow> bool" where
  "same_kind op op' \<equiv> io_indirect op = io_indirect op'"

text \<open>
  The ideal histories after a list of branches, youngest first: the direction history and the
  targets of all indirect branches.
\<close>

definition ideal_ghr :: "u32 \<Rightarrow> 'pc indirect_op list \<Rightarrow> u32" where
  "ideal_ghr m ops = foldr (\<lambda>op g. shift_masked m g (io_taken op)) ops 0"

definition ideal_path :: "('pc \<Rightarrow> Addr) \<Rightarrow> 'pc indirect_op list \<Rightarrow> Addr list" where
  "ideal_path instAddr ops = map (instAddr \<circ> io_target) (filter io_indirect ops)"

section \<open>Well-formed predictors\<close>

definition SimpleIndirect_wf :: "'pc SimpleIndirect \<Rightarrow> bool" where
  "SimpleIndirect_wf s \<longleftrightarrow> isPowerOf2 (si_numSets s) \<and> si_numWays s \<noteq> 0 \<and> unat (si_tagBits s) < 31 \<and>
     si_pathLength s \<noteq> 0 \<and> unat (si_instShift s) \<le> 32 \<and>
     si_pathLength s + si_speculativePathLength s \<noteq> 0 \<and>
     length (si_targetCache s) = unat (si_numSets s) \<and>
     list_all (\<lambda>iset. length iset = unat (si_numWays s)) (si_targetCache s)"

text \<open>The constants of the predictor.\<close>

definition si_cfg :: "'pc SimpleIndirect \<Rightarrow> 'pc SimpleIndirect" where
  "si_cfg s = s\<lparr>si_targetCache := [], si_threadInfo := [], si_stats := \<lparr>is_lookups = 0, is_hits = 0,
     is_misses = 0, is_targetRecords = 0, is_indirectRecords = 0, is_speculativeOverflows = 0\<rparr>\<rparr>"

lemma si_cfg_simps [simp]:
  "si_cfg (s\<lparr>si_targetCache := x\<rparr>) = si_cfg s" "si_cfg (s\<lparr>si_threadInfo := y\<rparr>) = si_cfg s"
  "si_cfg (s\<lparr>si_stats := z\<rparr>) = si_cfg s"
  by (simp_all add: si_cfg_def)

definition si_shift :: "'pc SimpleIndirect \<Rightarrow> nat" where
  "si_shift s = (case floorLog2 4 (ucast (si_numSets s)) of Inr l \<Rightarrow> l | Inl _ \<Rightarrow> 0) div unat (si_pathLength s)"

text \<open>The set index as a function of the direction history and the path, newest target first.\<close>

definition si_index :: "'pc SimpleIndirect \<Rightarrow> u32 \<Rightarrow> Addr list \<Rightarrow> Addr \<Rightarrow> Addr" where
  "si_index s g ts a =
     foldl (\<lambda>h (i, t). h XOR drop_bit (unat (si_instShift s) + i * si_shift s) t)
       (drop_bit (unat (si_instShift s)) a XOR (if si_hashGHR s then ucast g else 0))
       (if si_hashTargets s then zip [0..<unat (si_pathLength s)] ts else []) AND ucast (si_numSets s - 1)"

definition si_tag :: "'pc SimpleIndirect \<Rightarrow> Addr \<Rightarrow> Addr" where
  "si_tag s a = drop_bit (unat (si_instShift s)) a AND (push_bit (unat (si_tagBits s)) 1 - 1)"

abbreviation path_targets :: "ThreadInfo \<Rightarrow> Addr list" where
  "path_targets ti \<equiv> map he_targetAddr (rev (ti_pathHist ti))"

lemma si_cfg_index:
  assumes "si_cfg s' = si_cfg s"
  shows "si_index s' = si_index s" and "si_tag s' = si_tag s" and "si_ghrMask s' = si_ghrMask s"
    and "si_pathLength s' = si_pathLength s"
proof -
  have "si_index (si_cfg s) = si_index s" "si_tag (si_cfg s) = si_tag s"
      "si_ghrMask (si_cfg s) = si_ghrMask s" "si_pathLength (si_cfg s) = si_pathLength s" for s :: "'a SimpleIndirect"
    by (simp_all add: fun_eq_iff si_index_def si_shift_def si_tag_def si_cfg_def)
  then show "si_index s' = si_index s" and "si_tag s' = si_tag s" and "si_ghrMask s' = si_ghrMask s"
      and "si_pathLength s' = si_pathLength s"
    using assms by metis+
qed

lemma hash_targets_eq:
  assumes "\<forall>i < pl. sh + i * hs < 64"
  shows "hash_targets sh hs pl p ts h =
    Inr (foldl (\<lambda>h (i, t). h XOR drop_bit (sh + i * hs) t) h (zip [p..<pl] ts))"
  using assms by (induction ts arbitrary: p h) (auto simp: upt_conv_Cons)

lemma si_shift_ok:
  assumes "SimpleIndirect_wf s"
  obtains l where "floorLog2 4 (ucast (si_numSets s)) = Inr l"
    and "si_shift s = l div unat (si_pathLength s)"
    and "\<forall>i < unat (si_pathLength s). unat (si_instShift s) + i * si_shift s < 64"
proof -
  have nz: "si_numSets s \<noteq> 0" "0 < unat (si_pathLength s)" and sh: "unat (si_instShift s) \<le> 32"
    using assms by (simp_all add: SimpleIndirect_wf_def isPowerOf2_def unat_gt_0)
  obtain l where l: "floorLog2 4 (ucast (si_numSets s)) = Inr l" "l < 32"
    by (rule floorLog2_u32 [OF nz(1)])
  let ?n = "unat (si_pathLength s)"
  have "i * (l div ?n) \<le> l" if "i < ?n" for i
  proof -
    have "i * (l div ?n) \<le> ?n * (l div ?n)" using that by (intro mult_le_mono1) simp
    also have "\<dots> \<le> l" by simp
    finally show ?thesis .
  qed
  then have "\<forall>i < ?n. unat (si_instShift s) + i * (l div ?n) < 64" using sh l(2) by fastforce
  then show ?thesis using that l(1) by (simp add: si_shift_def)
qed

lemma getSetIndex_eq:
  assumes wf: "SimpleIndirect_wf s" and "tid < length (si_threadInfo s)"
  shows "getSetIndex s a tid = Inr (si_index s (ti_ghr (si_threadInfo s ! tid))
    (path_targets (si_threadInfo s ! tid)) a)"
proof -
  obtain l where l: "floorLog2 4 (ucast (si_numSets s)) = Inr l" "si_shift s = l div unat (si_pathLength s)"
      "\<forall>i < unat (si_pathLength s). unat (si_instShift s) + i * si_shift s < 64"
    by (rule si_shift_ok [OF wf])
  have "unat (si_instShift s) < 64" "si_pathLength s \<noteq> 0" using wf by (simp_all add: SimpleIndirect_wf_def)
  then show ?thesis
    using assms(2) l(1,2) hash_targets_eq [OF l(3)]
    by (simp add: getSetIndex_def si_index_def Let_def)
qed

lemma getTag_eq:
  assumes "SimpleIndirect_wf s"
  shows "getTag s a = Inr (si_tag s a)"
  using assms by (simp add: getTag_def si_tag_def SimpleIndirect_wf_def)

lemma si_index_less:
  assumes "SimpleIndirect_wf s"
  shows "si_index s g ts a < ucast (si_numSets s)" and "unat (si_index s g ts a) < length (si_targetCache s)"
proof -
  have nz: "si_numSets s \<noteq> 0" and len: "length (si_targetCache s) = unat (si_numSets s)"
    using assms by (simp_all add: SimpleIndirect_wf_def isPowerOf2_def)
  have "unat (si_index s g ts a) \<le> unat (ucast (si_numSets s - 1) :: u64)"
    unfolding si_index_def by (rule unat_and_le)
  then have "unat (si_index s g ts a) < unat (si_numSets s)"
    using unat_minus_one_less [OF nz] by (simp add: unat_ucast_up)
  then show "si_index s g ts a < ucast (si_numSets s)"
      and "unat (si_index s g ts a) < length (si_targetCache s)"
    by (simp_all add: len word_less_nat_alt unat_ucast_up)
qed

text \<open>The ways of a set, read with a tag.\<close>

definition way_target :: "Addr \<Rightarrow> 'pc IPredEntry list \<Rightarrow> 'pc option" where
  "way_target tag iset =
     (case find (\<lambda>way. ie_tag way = tag \<and> ie_target way \<noteq> None) iset of
        None \<Rightarrow> None | Some way \<Rightarrow> ie_target way)"

lemma SimpleIndirect_lookup_eq:
  assumes wf: "SimpleIndirect_wf s" and tid: "tid < length (si_threadInfo s)"
  defines "ti \<equiv> si_threadInfo s ! tid"
  shows "\<exists>x h. SimpleIndirect_lookup s tid sn pc None =
      Inr (way_target (si_tag s pc) (si_targetCache s ! unat (si_index s (ti_ghr ti) (path_targets ti) pc)),
        s\<lparr>si_stats := x\<rparr>, Some h) \<and>
    ih_pcAddr h = pc \<and> ih_ghr h = ti_ghr ti \<and> ih_was_indirect h"
  using si_index_less [OF wf, of "ti_ghr ti" "path_targets ti" pc] tid
  by (auto simp: SimpleIndirect_lookup_def genIndirectInfo_def lookup_target_def Let_def
      getSetIndex_eq [OF wf tid] getTag_eq [OF wf] way_target_def ti_def split: option.splits)

lemma record_way_Some:
  assumes "record_way tag target ways = Some ways'"
  shows "length ways' = length ways" and "way_target tag ways' = Some target"
  using assms by (induction ways arbitrary: ways') (auto simp: way_target_def split: if_splits)

lemma record_way_None: "record_way tag target ways = None \<longleftrightarrow> (\<forall>w \<in> set ways. ie_tag w \<noteq> tag)"
  by (induction ways) auto

lemma way_target_insert:
  assumes "\<forall>w \<in> set ways. ie_tag w \<noteq> tag" and "i < length ways"
  shows "way_target tag (ways[i := \<lparr>ie_tag = tag, ie_target = Some target\<rparr>]) = Some target"
  using assms
proof (induction ways arbitrary: i)
  case (Cons w ways)
  then show ?case by (cases i) (auto simp: way_target_def)
qed simp

lemma recordTarget_eq:
  assumes wf: "SimpleIndirect_wf s" and tid: "tid < length (si_threadInfo s)"
    and "ti_pathHist (si_threadInfo s ! tid) \<noteq> []" and "ih_was_indirect h"
    and idx: "ih_set_index h = si_index s g ts a"
  shows "\<exists>iset x. recordTarget rnd s tid target h = Inr (s\<lparr>si_stats := x,
      si_targetCache := (si_targetCache s)[unat (ih_set_index h) := iset]\<rparr>) \<and>
    length iset = unat (si_numWays s) \<and> way_target (ih_tag h) iset = Some target"
proof -
  let ?i = "unat (ih_set_index h)" let ?iset = "si_targetCache s ! ?i"
  have i: "ih_set_index h < ucast (si_numSets s)" "?i < length (si_targetCache s)"
    using si_index_less [OF wf, of g ts a] idx by simp_all
  have len: "length ?iset = unat (si_numWays s)" and nw: "si_numWays s \<noteq> 0"
    using wf i(2) by (simp_all add: SimpleIndirect_wf_def list_all_length)
  have m: "rnd mod unat (si_numWays s) < unat (si_numWays s)" using nw by (simp add: unat_gt_0)
  show ?thesis
  proof (cases "record_way (ih_tag h) target ?iset")
    case None
    then have "\<forall>w \<in> set ?iset. ie_tag w \<noteq> ih_tag h" by (simp add: record_way_None)
    then show ?thesis
      using assms(2-4) i nw m len None
        way_target_insert [of ?iset "ih_tag h" "rnd mod unat (si_numWays s)" target]
      by (auto simp: recordTarget_def Let_def)
  next
    case (Some iset)
    then show ?thesis
      using assms(2-4) i len record_way_Some [OF Some] by (auto simp: recordTarget_def Let_def)
  qed
qed

section \<open>The effect of an update\<close>

text \<open>The thread's histories before the branch is recorded, and after.\<close>

definition ti_restored :: "bool \<Rightarrow> bool \<Rightarrow> u32 \<Rightarrow> ThreadInfo \<Rightarrow> ThreadInfo" where
  "ti_restored squash ind g ti =
     (if squash then \<lparr>ti_pathHist = (if ind then butlast (ti_pathHist ti) else ti_pathHist ti), ti_ghr = g\<rparr>
      else ti)"

definition ti_recorded :: "u32 \<Rightarrow> bool \<Rightarrow> bool \<Rightarrow> HistoryEntry \<Rightarrow> ThreadInfo \<Rightarrow> ThreadInfo" where
  "ti_recorded m ind taken e ti =
     \<lparr>ti_pathHist = (if ind then ti_pathHist ti @ [e] else ti_pathHist ti),
      ti_ghr = shift_masked m (ti_ghr ti) taken\<rparr>"

lemma ti_upd:
  "ti\<lparr>ti_pathHist := a, ti_ghr := b\<rparr> = \<lparr>ti_pathHist = a, ti_ghr = b\<rparr>"
  "ti\<lparr>ti_ghr := b\<rparr> = \<lparr>ti_pathHist = ti_pathHist ti, ti_ghr = b\<rparr>"
  by (cases ti; simp)+

lemma shift_masked_of_bool: "shift_masked m g t = (push_bit 1 g OR of_bool t) AND m"
  by (simp add: shift_masked_def shift_in_def)

lemma SimpleIndirect_wf_simps [simp]:
  "SimpleIndirect_wf (s\<lparr>si_threadInfo := y\<rparr>) = SimpleIndirect_wf s"
  "SimpleIndirect_wf (s\<lparr>si_stats := z\<rparr>) = SimpleIndirect_wf s"
  by (simp_all add: SimpleIndirect_wf_def)

lemma update_restore_eq:
  fixes h :: IndirectHistory
  assumes wf: "SimpleIndirect_wf s" and tid: "tid < length (si_threadInfo s)"
  defines "ti \<equiv> ti_restored True (ih_was_indirect h) (ih_ghr h) (si_threadInfo s ! tid)"
  shows "\<exists>h'. update_restore s tid h = Inr (s\<lparr>si_threadInfo := (si_threadInfo s)[tid := ti]\<rparr>, h') \<and>
    ih_ghr h' = ih_ghr h \<and> ih_was_indirect h' = ih_was_indirect h \<and> ih_pcAddr h' = ih_pcAddr h \<and>
    (ih_was_indirect h \<longrightarrow> ih_set_index h' = si_index s (ti_ghr ti) (path_targets ti) (ih_pcAddr h) \<and>
       ih_tag h' = si_tag s (ih_pcAddr h))"
proof -
  let ?s = "s\<lparr>si_threadInfo := (si_threadInfo s)[tid := ti]\<rparr>"
  have wf': "SimpleIndirect_wf ?s" and tid': "tid < length (si_threadInfo ?s)" using wf tid by simp_all
  have ti: "(si_threadInfo s ! tid)\<lparr>ti_ghr := ih_ghr h\<rparr> = ti" if "\<not> ih_was_indirect h"
    using that by (simp add: ti_def ti_restored_def)
  have ti': "(if ti_pathHist (si_threadInfo s ! tid) \<noteq> []
      then (si_threadInfo s ! tid)\<lparr>ti_ghr := ih_ghr h, ti_pathHist := butlast (ti_pathHist (si_threadInfo s ! tid))\<rparr>
      else (si_threadInfo s ! tid)\<lparr>ti_ghr := ih_ghr h\<rparr>) = ti" if "ih_was_indirect h"
    using that by (simp add: ti_def ti_restored_def)
  have c: "si_index ?s = si_index s" "si_tag ?s = si_tag s" using si_cfg_index(1,2) [of ?s s] by simp_all
  show ?thesis
    using tid ti ti' getSetIndex_eq [OF wf' tid', of "ih_pcAddr h"] getTag_eq [OF wf', of "ih_pcAddr h"]
    by (cases "ih_was_indirect h"; cases "ti_pathHist (si_threadInfo s ! tid) = []")
      (simp_all add: update_restore_def Let_def c)
qed

lemma SimpleIndirect_update_eq:
  fixes target :: 'pc and h :: IndirectHistory and type :: BranchType and squash :: bool
  assumes wf: "SimpleIndirect_wf s" and tid: "tid < length (si_threadInfo s)"
  defines "ind \<equiv> isIndirectNoReturn type"
  defines "ti \<equiv> ti_restored squash ind (ih_ghr h) (si_threadInfo s ! tid)"
  defines "idx \<equiv> si_index s (ti_ghr ti) (path_targets ti) (ih_pcAddr h)"
  shows "\<exists>s' h'. SimpleIndirect_update instAddr rnd s tid sn pc squash taken target type (Some h) = Inr (s', Some h') \<and>
    si_cfg s' = si_cfg s \<and> SimpleIndirect_wf s' \<and>
    si_threadInfo s' = (si_threadInfo s)[tid := ti_recorded (si_ghrMask s) ind taken
      \<lparr>he_pcAddr = ih_pcAddr h, he_targetAddr = instAddr target, he_seqNum = sn\<rparr> ti] \<and>
    ih_ghr h' = ih_ghr h \<and> ih_was_indirect h' = ind \<and> ih_pcAddr h' = ih_pcAddr h \<and>
    (if squash \<and> ind \<and> taken
     then \<exists>iset. si_targetCache s' = (si_targetCache s)[unat idx := iset] \<and>
       way_target (si_tag s (ih_pcAddr h)) iset = Some target
     else si_targetCache s' = si_targetCache s)"
proof -
  let ?h = "h\<lparr>ih_was_indirect := ind\<rparr>"
  let ?e = "\<lparr>he_pcAddr = ih_pcAddr h, he_targetAddr = instAddr target, he_seqNum = sn\<rparr>"
  let ?s1 = "s\<lparr>si_threadInfo := (si_threadInfo s)[tid := ti]\<rparr>"
  let ?ti = "ti_recorded (si_ghrMask s) ind taken ?e ti"
  have s: "s\<lparr>si_threadInfo := (si_threadInfo s)[tid := si_threadInfo s ! tid]\<rparr> = s" by simp
  obtain h1 where h1: "(if squash then update_restore s tid ?h else Inr (s, ?h)) = Inr (?s1, h1)"
      "ih_ghr h1 = ih_ghr h" "ih_was_indirect h1 = ind" "ih_pcAddr h1 = ih_pcAddr h"
      "squash \<Longrightarrow> ind \<Longrightarrow> ih_set_index h1 = idx \<and> ih_tag h1 = si_tag s (ih_pcAddr h)"
    using update_restore_eq [OF wf tid, of ?h] s
    by (cases squash) (auto simp: ti_def ti_restored_def idx_def)
  obtain s2 where s2: "bind_r (update_record instAddr ?s1 tid sn target h1) (\<lambda>s. updateDirectionInfo s tid taken) = Inr s2"
      "si_cfg s2 = si_cfg s" "SimpleIndirect_wf s2" "si_targetCache s2 = si_targetCache s"
      "si_threadInfo s2 = (si_threadInfo s)[tid := ?ti]"
    using tid h1(3,4) wf
    by (cases ind) (auto simp: update_record_def updateDirectionInfo_def ti_recorded_def
        shift_masked_of_bool Let_def ti_upd)
  note c = si_cfg_index [OF s2(2)]
  show ?thesis
  proof (cases "squash \<and> ind \<and> taken")
    case True
    have ne: "ti_pathHist (si_threadInfo s2 ! tid) \<noteq> []" "tid < length (si_threadInfo s2)"
      using s2(5) tid True by (simp_all add: ti_recorded_def)
    have ix: "ih_set_index h1 = si_index s2 (ti_ghr ti) (path_targets ti) (ih_pcAddr h)"
        "ih_tag h1 = si_tag s (ih_pcAddr h)" "ih_was_indirect h1"
      using h1(3,5) True by (simp_all add: c idx_def)
    obtain iset y where rt: "recordTarget rnd s2 tid target h1 = Inr (s2\<lparr>si_stats := y,
        si_targetCache := (si_targetCache s2)[unat (ih_set_index h1) := iset]\<rparr>)"
        "length iset = unat (si_numWays s2)" "way_target (ih_tag h1) iset = Some target"
      using recordTarget_eq [OF s2(3) ne(2,1) ix(3,1)] by blast
    have "SimpleIndirect_wf (s2\<lparr>si_stats := y,
        si_targetCache := (si_targetCache s2)[unat (ih_set_index h1) := iset]\<rparr>)"
      using s2(3) rt(2) by (simp add: SimpleIndirect_wf_def list_all_update)
    moreover have "ih_set_index h1 = idx" using h1(5) True by simp
    ultimately show ?thesis
      using h1 s2 rt ix True
      by (auto simp: SimpleIndirect_update_def ind_def [symmetric] Let_def result_iffs)
  next
    case False
    then show ?thesis
      using h1 s2 by (auto simp: SimpleIndirect_update_def ind_def [symmetric] Let_def result_iffs)
  qed
qed

section \<open>The histories under speculation\<close>

type_synonym si_view = "u32 \<times> Addr list"

definition si_apply :: "('pc \<Rightarrow> Addr) \<Rightarrow> u32 \<Rightarrow> 'pc indirect_op \<Rightarrow> si_view \<Rightarrow> si_view" where
  "si_apply instAddr m op v = (shift_masked m (fst v) (io_taken op),
     if io_indirect op then instAddr (io_target op) # snd v else snd v)"

text \<open>A thread follows its view when the kept path is the newest part of the path.\<close>

definition ti_follows :: "ThreadInfo \<Rightarrow> si_view \<Rightarrow> bool" where
  "ti_follows ti v \<longleftrightarrow> ti_ghr ti = fst v \<and> prefix (path_targets ti) (snd v)"

definition si_tracks :: "'pc SimpleIndirect \<Rightarrow> nat \<Rightarrow> 'pc SimpleIndirect \<Rightarrow> (ThreadID \<Rightarrow> si_view) \<Rightarrow> bool" where
  "si_tracks c n s V \<longleftrightarrow> SimpleIndirect_wf s \<and> si_cfg s = si_cfg c \<and> length (si_threadInfo s) = n \<and>
     (\<forall>tid < n. ti_follows (si_threadInfo s ! tid) (V tid))"

definition si_hist :: "'pc indirect_op \<Rightarrow> IndirectHistory option \<Rightarrow> si_view \<Rightarrow> bool" where
  "si_hist op h v \<longleftrightarrow> (\<exists>r. h = Some r \<and> ih_ghr r = fst v \<and> ih_was_indirect r = io_indirect op)"

lemma prefix_path_pop:
  assumes "prefix (map f (rev es)) (x # ts)"
  shows "prefix (map f (rev (butlast es))) ts"
  using assms by (cases es rule: rev_cases) auto

lemma si_tracks_thread:
  assumes "si_tracks c n s V" and "tid < n" and "si_cfg s' = si_cfg s" and "SimpleIndirect_wf s'"
    and "si_threadInfo s' = (si_threadInfo s)[tid := ti]" and "ti_follows ti v"
  shows "si_tracks c n s' (V(tid := v))"
  using assms by (auto simp: si_tracks_def nth_list_update)

lemma SimpleIndirect_update_None:
  assumes "tid < length (si_threadInfo s)"
  shows "SimpleIndirect_update instAddr rnd s tid sn pc squash taken target type None =
    SimpleIndirect_update instAddr rnd s tid sn pc squash taken target type
      (Some (IndirectHistory_init\<lparr>ih_ghr := ti_ghr (si_threadInfo s ! tid)\<rparr>))"
  using assms by (simp add: SimpleIndirect_update_def genIndirectInfo_def)

lemma ti_follows_recorded:
  assumes "ti_follows ti v"
  shows "ti_follows (ti_recorded m (io_indirect op) (io_taken op)
    \<lparr>he_pcAddr = a, he_targetAddr = instAddr (io_target op), he_seqNum = sn\<rparr> ti) (si_apply instAddr m op v)"
  using assms by (simp add: ti_follows_def ti_recorded_def si_apply_def)

lemma ti_follows_restored:
  assumes "ti_follows ti (si_apply instAddr m op v)"
  shows "ti_follows (ti_restored True (io_indirect op) (fst v) ti) v"
  using assms prefix_path_pop [of he_targetAddr "ti_pathHist ti"]
  by (auto simp: ti_follows_def ti_restored_def si_apply_def split: if_splits)

lemma trim_front_suffix:
  assumes "n \<noteq> 0"
  shows "\<exists>es'. trim_front n es = Inr es' \<and> suffix es' es \<and> length es' < n \<and>
    (length es < n \<longrightarrow> es' = es) \<and> (n \<le> length es \<longrightarrow> length es' = n - 1)"
  using assms by (induction es) (auto simp: suffix_Cons)

text \<open>The effect of the speculative operations on the view of a thread.\<close>

lemma si_update_law:
  fixes op :: "'pc indirect_op"
  assumes tr: "si_tracks c n s V" and tid: "tid < n" and squash: "squash \<Longrightarrow> V tid = si_apply instAddr (si_ghrMask c) op' v"
    and kind: "squash \<Longrightarrow> same_kind op' op"
    and v: "\<not> squash \<Longrightarrow> V tid = v" and h: "ih_ghr h = fst v"
  shows "\<exists>s' h'. SimpleIndirect_update instAddr rnd s tid sn pc squash (io_taken op) (io_target op) (io_type op) (Some h) =
      Inr (s', Some h') \<and> si_tracks c n s' (V(tid := si_apply instAddr (si_ghrMask c) op v)) \<and> si_hist op (Some h') v"
proof -
  have wf: "SimpleIndirect_wf s" and tid': "tid < length (si_threadInfo s)" and cfg: "si_cfg s = si_cfg c"
      and fol: "ti_follows (si_threadInfo s ! tid) (V tid)"
    using tr tid by (simp_all add: si_tracks_def)
  let ?ti = "ti_restored squash (io_indirect op) (ih_ghr h) (si_threadInfo s ! tid)"
  let ?ti' = "ti_recorded (si_ghrMask s) (io_indirect op) (io_taken op)
      \<lparr>he_pcAddr = ih_pcAddr h, he_targetAddr = instAddr (io_target op), he_seqNum = sn\<rparr> ?ti"
  have m: "si_ghrMask s = si_ghrMask c" using si_cfg_index(3) [OF cfg] .
  have "ti_follows ?ti v"
  proof (cases squash)
    case True
    then show ?thesis using fol squash kind h ti_follows_restored [of "si_threadInfo s ! tid" instAddr "si_ghrMask c" op' v]
      by simp
  next
    case False
    then show ?thesis using fol v by (simp add: ti_restored_def)
  qed
  then have fol': "ti_follows ?ti' (si_apply instAddr (si_ghrMask c) op v)"
    using ti_follows_recorded m by metis
  obtain s' h' where s': "SimpleIndirect_update instAddr rnd s tid sn pc squash (io_taken op) (io_target op) (io_type op)
        (Some h) = Inr (s', Some h')"
      "si_cfg s' = si_cfg s" "SimpleIndirect_wf s'" "si_threadInfo s' = (si_threadInfo s)[tid := ?ti']"
      "ih_ghr h' = ih_ghr h" "ih_was_indirect h' = io_indirect op"
    using SimpleIndirect_update_eq [OF wf tid', of instAddr rnd sn pc squash "io_taken op" "io_target op" "io_type op" h]
    by blast
  have "si_tracks c n s' (V(tid := si_apply instAddr (si_ghrMask c) op v))"
    by (rule si_tracks_thread [OF tr tid s'(2,3,4) fol'])
  then show ?thesis using s' h by (simp add: si_hist_def)
qed

lemma si_do_law:
  assumes "si_tracks c n s V" and "tid < n"
  shows "\<exists>r s' h. so_do (indirect_spec (SimpleIndirect_vtable instAddr)) s tid op = Inr (r, s', h) \<and>
    si_tracks c n s' (V(tid := si_apply instAddr (si_ghrMask c) op (V tid))) \<and> si_hist op h (V tid)"
proof -
  have wf: "SimpleIndirect_wf s" and tid: "tid < length (si_threadInfo s)"
      and g: "ti_ghr (si_threadInfo s ! tid) = fst (V tid)"
    using assms by (simp_all add: si_tracks_def ti_follows_def)
  have stats: "si_tracks c n (s\<lparr>si_stats := x\<rparr>) V" for x using assms(1) by (simp add: si_tracks_def)
  show ?thesis
  proof (cases "io_lookup op")
    case True
    obtain x r h where l: "SimpleIndirect_lookup s tid (io_sn op) (io_pc op) None = Inr (r, s\<lparr>si_stats := x\<rparr>, Some h)"
        "ih_ghr h = fst (V tid)"
      using SimpleIndirect_lookup_eq [OF wf tid, of "io_sn op" "io_pc op"] g by auto
    show ?thesis
      using l(1) True si_update_law [OF stats [of x] assms(2) _ _ refl l(2), of False instAddr undefined op "io_rand op" "io_sn op" "io_pc op"]
      by (auto simp: indirect_spec_def SimpleIndirect_vtable_def)
  next
    case False
    let ?h = "IndirectHistory_init\<lparr>ih_ghr := ti_ghr (si_threadInfo s ! tid)\<rparr>"
    have "ih_ghr ?h = fst (V tid)" using g by simp
    from si_update_law [OF assms _ _ refl this, of False instAddr undefined op "io_rand op" "io_sn op" "io_pc op"]
    show ?thesis
      using False SimpleIndirect_update_None [OF tid, of instAddr "io_rand op" "io_sn op" "io_pc op" False "io_taken op" "io_target op" "io_type op"]
      by (auto simp: indirect_spec_def SimpleIndirect_vtable_def)
  qed
qed

lemma SimpleIndirect_squash_eq:
  assumes tid: "tid < length (si_threadInfo s)"
  shows "\<exists>s'. SimpleIndirect_squash s tid sn (Some h) = Inr (s', None) \<and> si_cfg s' = si_cfg s \<and>
    SimpleIndirect_wf s' = SimpleIndirect_wf s \<and> si_targetCache s' = si_targetCache s \<and>
    si_threadInfo s' = (si_threadInfo s)[tid :=
      ti_restored True (ih_was_indirect h) (ih_ghr h) (si_threadInfo s ! tid)]"
proof -
  obtain p g where ti: "si_threadInfo s ! tid = \<lparr>ti_pathHist = p, ti_ghr = g\<rparr>"
    by (cases "si_threadInfo s ! tid")
  have p: "(if p \<noteq> [] then \<lparr>ti_pathHist = butlast p, ti_ghr = x\<rparr> else \<lparr>ti_pathHist = p, ti_ghr = x\<rparr>) =
      \<lparr>ti_pathHist = butlast p, ti_ghr = x\<rparr>" for x by simp
  show ?thesis
    using tid by (cases "ih_was_indirect h")
      (simp_all add: SimpleIndirect_squash_def ti Let_def ti_restored_def p)
qed

lemma si_undo_law:
  assumes "si_tracks c n s V" and "tid < n" and "V tid = si_apply instAddr m op v" and "si_hist op h v"
  shows "\<exists>s'. SimpleIndirect_squash s tid sn h = Inr (s', None) \<and> si_tracks c n s' (V(tid := v))"
proof -
  obtain r where r: "h = Some r" "ih_ghr r = fst v" "ih_was_indirect r = io_indirect op"
    using assms(4) by (auto simp: si_hist_def)
  have tid: "tid < length (si_threadInfo s)" and fol: "ti_follows (si_threadInfo s ! tid) (V tid)"
      and wf: "SimpleIndirect_wf s"
    using assms(1,2) by (simp_all add: si_tracks_def)
  let ?ti = "ti_restored True (io_indirect op) (fst v) (si_threadInfo s ! tid)"
  have fol': "ti_follows ?ti v"
    using ti_follows_restored [of "si_threadInfo s ! tid" instAddr m op v] fol assms(3) by simp
  obtain s' where s': "SimpleIndirect_squash s tid sn h = Inr (s', None)" "si_cfg s' = si_cfg s"
      "SimpleIndirect_wf s'" "si_threadInfo s' = (si_threadInfo s)[tid := ?ti]"
    using SimpleIndirect_squash_eq [OF tid, of sn r] r wf by auto
  show ?thesis using s'(1) si_tracks_thread [OF assms(1,2) s'(2-4) fol'] by simp
qed

lemma si_retire_law:
  assumes "si_tracks c n s V" and "tid < n" and "si_hist op h v"
  shows "\<exists>s'. SimpleIndirect_commit s tid sn h = Inr (s', None) \<and> si_tracks c n s' V"
proof -
  obtain r where r: "h = Some r" using assms(3) by (auto simp: si_hist_def)
  have wf: "SimpleIndirect_wf s" and tid: "tid < length (si_threadInfo s)"
      and fol: "ti_follows (si_threadInfo s ! tid) (V tid)"
    using assms(1,2) by (simp_all add: si_tracks_def)
  have nz: "unat (si_pathLength s + si_speculativePathLength s) \<noteq> 0"
    using wf by (simp add: SimpleIndirect_wf_def unat_eq_zero)
  obtain es where es: "trim_front (unat (si_pathLength s + si_speculativePathLength s))
        (ti_pathHist (si_threadInfo s ! tid)) = Inr es" "suffix es (ti_pathHist (si_threadInfo s ! tid))"
    using trim_front_suffix [OF nz] by blast
  let ?ti = "(si_threadInfo s ! tid)\<lparr>ti_pathHist := es\<rparr>"
  have "prefix (map he_targetAddr (rev es)) (path_targets (si_threadInfo s ! tid))"
    using es(2) by (intro map_mono_prefix) (simp add: suffix_to_prefix)
  then have "ti_follows ?ti (V tid)"
    using fol by (auto simp: ti_follows_def intro: prefix_order.trans)
  then have "si_tracks c n (s\<lparr>si_threadInfo := (si_threadInfo s)[tid := ?ti]\<rparr>) (V(tid := V tid))"
    by (intro si_tracks_thread [OF assms(1,2)]) (use wf in simp_all)
  then show ?thesis using r es(1) tid by (simp add: SimpleIndirect_commit_def)
qed

interpretation si: speculation "indirect_spec (SimpleIndirect_vtable instAddr)" "\<lambda>_ _ _. True" same_kind
  "si_tracks c n" si_hist "si_apply instAddr (si_ghrMask c)" "\<lambda>tid. tid < n"
  for instAddr :: "'pc \<Rightarrow> Addr" and c n
proof
  fix s :: "'pc SimpleIndirect" and V :: "ThreadID \<Rightarrow> si_view" and tid op op' h v
  assume tr: "si_tracks c n s V" "tid < n"
  show "\<exists>r s' h. so_do (indirect_spec (SimpleIndirect_vtable instAddr)) s tid op = Inr (r, s', h) \<and>
      si_tracks c n s' (V(tid := si_apply instAddr (si_ghrMask c) op (V tid))) \<and> si_hist op h (V tid)"
    by (rule si_do_law [OF tr])
  show "\<exists>s'. so_retire (indirect_spec (SimpleIndirect_vtable instAddr)) s tid misp op h = Inr (s', None) \<and>
      si_tracks c n s' V" if "si_hist op h v" for misp
    using si_retire_law [OF tr that] by (simp add: indirect_spec_def SimpleIndirect_vtable_def)
  assume v: "V tid = si_apply instAddr (si_ghrMask c) op v" and h: "si_hist op h v"
  show "\<exists>s'. so_undo (indirect_spec (SimpleIndirect_vtable instAddr)) s tid op h = Inr (s', None) \<and>
      si_tracks c n s' (V(tid := v))"
    using si_undo_law [OF tr v h] by (simp add: indirect_spec_def SimpleIndirect_vtable_def)
  assume k: "same_kind op op'"
  obtain r where r: "h = Some r" "ih_ghr r = fst v" using h by (auto simp: si_hist_def)
  show "\<exists>s' h'. so_redo (indirect_spec (SimpleIndirect_vtable instAddr)) s tid op op' h = Inr (s', h') \<and>
      si_tracks c n s' (V(tid := si_apply instAddr (si_ghrMask c) op' v)) \<and> si_hist op' h' v"
    using si_update_law [OF tr v k _ r(2), of True "io_rand op'" "io_update_sn op'" "io_pc op'"] r(1)
    by (auto simp: indirect_spec_def SimpleIndirect_vtable_def)
qed

section \<open>Construction\<close>

text \<open>
  Parameters for which every operation is defined: at least one way, a tag of fewer than 31 bits, a
  path length that is not zero, and shifts that stay within an address.
\<close>

definition SimpleIndirectParams_ok :: "SimpleIndirectParams \<Rightarrow> bool" where
  "SimpleIndirectParams_ok p \<longleftrightarrow> isPowerOf2 (sip_sets p) \<and> unat (sip_GHRBits p) < 31 \<and> sip_ways p \<noteq> 0 \<and>
     unat (sip_tagSize p) < 31 \<and> sip_pathLength p \<noteq> 0 \<and> unat (sip_instShiftAmt p) \<le> 32 \<and>
     sip_pathLength p + sip_speculativePathLength p \<noteq> 0"

lemma SimpleIndirect_init_ok:
  assumes "SimpleIndirectParams_ok p"
  obtains s :: "'pc SimpleIndirect" where "SimpleIndirect_init p = Inr s" and "SimpleIndirect_wf s"
    and "si_threadInfo s = replicate (unat (sip_numThreads p)) \<lparr>ti_pathHist = [], ti_ghr = 0\<rparr>"
    and "si_ghrMask s = push_bit (unat (sip_GHRBits p)) 1 - 1"
proof -
  have "\<not> sip_GHRBits p > 32" using assms by (simp add: SimpleIndirectParams_ok_def word_less_nat_alt)
  then show ?thesis
    using that assms
    by (simp add: SimpleIndirect_init_def SimpleIndirectParams_ok_def SimpleIndirect_wf_def)
qed

lemma si_view_of:
  "si.view_of instAddr c (0, []) ops = (ideal_ghr (si_ghrMask c) ops, ideal_path instAddr ops)"
  unfolding si.view_of_def
  by (induction ops) (simp_all add: ideal_ghr_def ideal_path_def si_apply_def)

lemma si_index_take:
  assumes "ts' = take k ts" and "unat (si_pathLength s) \<le> k"
  shows "si_index s g ts' a = si_index s g ts a"
proof -
  have "zip [0..<unat (si_pathLength s)] (take k ts) = zip [0..<unat (si_pathLength s)] ts"
    using take_zip [of k "[0..<unat (si_pathLength s)]" ts] assms(2) by simp
  then show ?thesis by (simp add: si_index_def assms(1))
qed

lemma prefix_take: "prefix xs ys \<Longrightarrow> xs = take (length xs) ys"
  by (auto simp: prefix_def)

text \<open>
  An indirect branch that is recorded, corrected to be taken to \<open>t\<close> and squashed: the histories are
  the ones before it, and \<open>t\<close> is in the set of the address in its history object.
\<close>

lemma correction_effect:
  fixes s :: "'pc SimpleIndirect" and t :: 'pc
  assumes wf: "SimpleIndirect_wf s" and tid: "tid < length (si_threadInfo s)" and ind: "isIndirectNoReturn type"
    and g: "ih_ghr h1 = ti_ghr (si_threadInfo s ! tid)"
  defines "ti \<equiv> si_threadInfo s ! tid"
  shows "\<exists>s2 h2 s3 h3 s4 iset.
    SimpleIndirect_update instAddr rnd s tid sn pc False taken predicted type (Some h1) = Inr (s2, h2) \<and>
    SimpleIndirect_update instAddr rnd s2 tid sn pc True True t type h2 = Inr (s3, h3) \<and>
    SimpleIndirect_squash s3 tid sn h3 = Inr (s4, None) \<and>
    si_cfg s4 = si_cfg s \<and> SimpleIndirect_wf s4 \<and> tid < length (si_threadInfo s4) \<and> si_threadInfo s4 ! tid = ti \<and>
    si_targetCache s4 = (si_targetCache s)
      [unat (si_index s (ti_ghr ti) (path_targets ti) (ih_pcAddr h1)) := iset] \<and>
    way_target (si_tag s (ih_pcAddr h1)) iset = Some t"
proof -
  let ?e = "\<lambda>t. \<lparr>he_pcAddr = ih_pcAddr h1, he_targetAddr = instAddr t, he_seqNum = sn\<rparr>"
  obtain s2 h2 where u: "SimpleIndirect_update instAddr rnd s tid sn pc False taken predicted type (Some h1) = Inr (s2, Some h2)"
      "si_cfg s2 = si_cfg s" "SimpleIndirect_wf s2" "ih_pcAddr h2 = ih_pcAddr h1" "ih_ghr h2 = ti_ghr ti"
      "si_threadInfo s2 = (si_threadInfo s)[tid := ti_recorded (si_ghrMask s) True taken (?e predicted) ti]"
      "si_targetCache s2 = si_targetCache s"
    using SimpleIndirect_update_eq [OF wf tid, of instAddr rnd sn pc False taken predicted type h1] ind g
    by (auto simp: ti_restored_def ti_def)
  have tid2: "tid < length (si_threadInfo s2)" using u(6) tid by simp
  have b: "ti_restored True True (ti_ghr ti) (si_threadInfo s2 ! tid) = ti"
    using u(6) tid by (simp add: ti_restored_def ti_recorded_def)
  note c2 = si_cfg_index [OF u(2)]
  obtain s3 h3 iset where v: "SimpleIndirect_update instAddr rnd s2 tid sn pc True True t type (Some h2) = Inr (s3, Some h3)"
      "si_cfg s3 = si_cfg s" "SimpleIndirect_wf s3" "ih_ghr h3 = ti_ghr ti" "ih_was_indirect h3"
      "si_threadInfo s3 = (si_threadInfo s2)[tid := ti_recorded (si_ghrMask s) True True (?e t) ti]"
      "si_targetCache s3 = (si_targetCache s)
         [unat (si_index s (ti_ghr ti) (path_targets ti) (ih_pcAddr h1)) := iset]"
      "way_target (si_tag s (ih_pcAddr h1)) iset = Some t"
    using SimpleIndirect_update_eq [OF u(3) tid2, of instAddr rnd sn pc True True t type h2] ind u(2,4,5,7) b c2
    by auto
  have tid3: "tid < length (si_threadInfo s3)" using v(6) tid2 by simp
  have b3: "ti_restored True True (ti_ghr ti) (si_threadInfo s3 ! tid) = ti"
    using v(6) tid2 by (simp add: ti_restored_def ti_recorded_def)
  show ?thesis
    using SimpleIndirect_squash_eq [OF tid3, of sn h3] u(1) v tid3 b3 by auto
qed

section \<open>Properties\<close>

text \<open>C27: After any interleaving of predictions, squashes, corrections and commits on the threads of a new
  indirect predictor, every operation has returned, the direction history of each thread is the shift
  register of exactly the branches that were not squashed, with their corrected directions, and its
  path history is the newest part of the targets of exactly those indirect branches; with at least
  \<open>pathLength\<close> entries or the whole path kept, the set index computed for any address is the one
  of the full path.
\<close>

theorem indirect_histories_exact:
  fixes s :: "'pc SimpleIndirect" and instAddr :: "'pc \<Rightarrow> Addr"
  assumes "SimpleIndirectParams_ok p" and "SimpleIndirect_init p = Inr s"
    and "list_all (\<lambda>ev. event_tid ev < unat (sip_numThreads p)) evs"
    and "ops_allowed (\<lambda>_ _ _. True) same_kind (indirect_spec (SimpleIndirect_vtable instAddr)) (s, \<lambda>_. []) evs"
  shows "\<exists>s' fl. spec_run (indirect_spec (SimpleIndirect_vtable instAddr)) (s, \<lambda>_. []) evs = Inr (s', fl) \<and>
    (\<forall>tid < unat (sip_numThreads p).
      let ti = si_threadInfo s' ! tid; ops = live_ops tid evs; g = ideal_ghr (si_ghrMask s) ops;
          path = ideal_path instAddr ops
      in ti_ghr ti = g \<and> prefix (path_targets ti) path \<and>
         (unat (sip_pathLength p) \<le> length (ti_pathHist ti) \<or> path_targets ti = path \<longrightarrow>
          getSetIndex s' a tid = Inr (si_index s g path a)))"
proof -
  let ?n = "unat (sip_numThreads p)"
  have wf: "SimpleIndirect_wf s" and ti0: "si_threadInfo s = replicate ?n \<lparr>ti_pathHist = [], ti_ghr = 0\<rparr>"
      and pl: "si_pathLength s = sip_pathLength p"
    using assms(1,2) by (auto elim!: SimpleIndirect_init_ok simp: SimpleIndirect_init_def result_iffs)
  have tr: "si_tracks s ?n s (\<lambda>_. (0, []))"
    using wf ti0 by (simp add: si_tracks_def ti_follows_def)
  obtain s' fl where run: "spec_run (indirect_spec (SimpleIndirect_vtable instAddr)) (s, \<lambda>_. []) evs = Inr (s', fl)"
      "si_tracks s ?n s' (\<lambda>tid. si.view_of instAddr s (0, []) (live_ops tid evs))"
    using si.run_tracks [OF tr, of evs instAddr] assms(3,4) by (auto simp: comp_def)
  have wf': "SimpleIndirect_wf s'" and len: "length (si_threadInfo s') = ?n" and cfg: "si_cfg s' = si_cfg s"
    using run(2) by (simp_all add: si_tracks_def)
  have "let ti = si_threadInfo s' ! tid; ops = live_ops tid evs; g = ideal_ghr (si_ghrMask s) ops;
          path = ideal_path instAddr ops
      in ti_ghr ti = g \<and> prefix (path_targets ti) path \<and>
         (unat (sip_pathLength p) \<le> length (ti_pathHist ti) \<or> path_targets ti = path \<longrightarrow>
          getSetIndex s' a tid = Inr (si_index s g path a))"
    if "tid < ?n" for tid
  proof -
    let ?ti = "si_threadInfo s' ! tid" let ?path = "ideal_path instAddr (live_ops tid evs)"
    have f: "ti_ghr ?ti = ideal_ghr (si_ghrMask s) (live_ops tid evs)" "prefix (path_targets ?ti) ?path"
      using run(2) that by (simp_all add: si_tracks_def si_view_of ti_follows_def)
    have e: "getSetIndex s' a tid = Inr (si_index s (ti_ghr ?ti) (path_targets ?ti) a)"
      using getSetIndex_eq [OF wf', of tid a] that len si_cfg_index(1) [OF cfg] by simp
    have "getSetIndex s' a tid = Inr (si_index s (ti_ghr ?ti) ?path a)"
      if "unat (sip_pathLength p) \<le> length (ti_pathHist ?ti) \<or> path_targets ?ti = ?path"
      using that
    proof
      assume "unat (sip_pathLength p) \<le> length (ti_pathHist ?ti)"
      then have "unat (si_pathLength s) \<le> length (path_targets ?ti)" using pl by simp
      from si_index_take [OF prefix_take [OF f(2)] this] show ?thesis using e by simp
    qed (use e in simp)
    then show ?thesis using f by (simp add: Let_def)
  qed
  then show ?thesis using run(1) by blast
qed

text \<open>C28: A correction teaches the predictor: when an indirect branch is looked up, updated with a
  predicted target, corrected to be taken to \<open>t\<close>, and then squashed by an older branch, every
  step returns, and the branch fetched again is predicted with the target \<open>t\<close>.
\<close>

theorem indirect_learns_correction:
  fixes s :: "'pc SimpleIndirect" and t :: 'pc
  assumes wf: "SimpleIndirect_wf s" and tid: "tid < length (si_threadInfo s)" and "isIndirectNoReturn type"
  shows "\<exists>r s1 h1 s2 h2 s3 h3 s4. SimpleIndirect_lookup s tid sn pc None = Inr (r, s1, h1) \<and>
    SimpleIndirect_update instAddr rnd s1 tid sn pc False taken predicted type h1 = Inr (s2, h2) \<and>
    SimpleIndirect_update instAddr rnd s2 tid sn pc True True t type h2 = Inr (s3, h3) \<and>
    SimpleIndirect_squash s3 tid sn h3 = Inr (s4, None) \<and>
    (\<exists>s5 h5. SimpleIndirect_lookup s4 tid sn' pc None = Inr (Some t, s5, h5))"
proof -
  let ?ti = "si_threadInfo s ! tid"
  obtain r x h1 where l: "SimpleIndirect_lookup s tid sn pc None = Inr (r, s\<lparr>si_stats := x\<rparr>, Some h1)"
      "ih_pcAddr h1 = pc" "ih_ghr h1 = ti_ghr ?ti"
    using SimpleIndirect_lookup_eq [OF wf tid, of sn pc] by blast
  let ?s1 = "s\<lparr>si_stats := x\<rparr>" and ?i = "si_index s (ti_ghr ?ti) (path_targets ?ti) pc"
  have c: "si_index ?s1 = si_index s" "si_tag ?s1 = si_tag s" using si_cfg_index [of ?s1 s] by simp_all
  obtain s2 h2 s3 h3 s4 iset where u:
      "SimpleIndirect_update instAddr rnd ?s1 tid sn pc False taken predicted type (Some h1) = Inr (s2, h2)"
      "SimpleIndirect_update instAddr rnd s2 tid sn pc True True t type h2 = Inr (s3, h3)"
      "SimpleIndirect_squash s3 tid sn h3 = Inr (s4, None)" "si_cfg s4 = si_cfg s" "SimpleIndirect_wf s4"
      "tid < length (si_threadInfo s4)" "si_threadInfo s4 ! tid = ?ti"
      "si_targetCache s4 = (si_targetCache s)[unat ?i := iset]" "way_target (si_tag s pc) iset = Some t"
    using correction_effect [of ?s1 tid type h1 instAddr rnd sn pc taken predicted t] wf tid assms(3) l(2,3) c
    by auto
  have "si_targetCache s4 ! unat ?i = iset" using u(8) si_index_less(2) [OF wf] by simp
  then have "\<exists>s5 h5. SimpleIndirect_lookup s4 tid sn' pc None = Inr (Some t, s5, h5)"
    using SimpleIndirect_lookup_eq [OF u(5,6), of sn' pc] si_cfg_index [OF u(4)] u(7,9) by auto
  then show ?thesis using l(1) u(1-3) by blast
qed

text \<open>C29: A branch for which the predictor was not consulted teaches it nothing about its own address: the
  history object made by \<open>update\<close> holds \<open>MaxAddr\<close> and not the address passed to
  \<open>update\<close>, so that the corrected target is recorded for \<open>MaxAddr\<close>, and the prediction for the
  address of the branch is the one before the correction unless both share a set.
\<close>

theorem indirect_unconsulted_correction_lost:
  fixes s :: "'pc SimpleIndirect" and t :: 'pc
  assumes wf: "SimpleIndirect_wf s" and tid: "tid < length (si_threadInfo s)" and "isIndirectNoReturn type"
  shows "\<exists>s2 h2 s3 h3 s4. SimpleIndirect_update instAddr rnd s tid sn pc False taken predicted type None = Inr (s2, h2) \<and>
    SimpleIndirect_update instAddr rnd s2 tid sn pc True True t type h2 = Inr (s3, h3) \<and>
    SimpleIndirect_squash s3 tid sn h3 = Inr (s4, None) \<and>
    (\<exists>s5 h5. SimpleIndirect_lookup s4 tid sn' MaxAddr None = Inr (Some t, s5, h5)) \<and>
    (getSetIndex s pc tid \<noteq> getSetIndex s MaxAddr tid \<longrightarrow>
      (\<exists>r s5 h5 s6 h6. SimpleIndirect_lookup s4 tid sn' pc None = Inr (r, s5, h5) \<and>
         SimpleIndirect_lookup s tid sn' pc None = Inr (r, s6, h6)))"
proof -
  let ?ti = "si_threadInfo s ! tid"
  let ?h1 = "IndirectHistory_init\<lparr>ih_ghr := ti_ghr ?ti\<rparr>"
  let ?i = "\<lambda>a. si_index s (ti_ghr ?ti) (path_targets ?ti) a"
  obtain s2 h2 s3 h3 s4 iset where u:
      "SimpleIndirect_update instAddr rnd s tid sn pc False taken predicted type (Some ?h1) = Inr (s2, h2)"
      "SimpleIndirect_update instAddr rnd s2 tid sn pc True True t type h2 = Inr (s3, h3)"
      "SimpleIndirect_squash s3 tid sn h3 = Inr (s4, None)" "si_cfg s4 = si_cfg s" "SimpleIndirect_wf s4"
      "tid < length (si_threadInfo s4)" "si_threadInfo s4 ! tid = ?ti"
      "si_targetCache s4 = (si_targetCache s)[unat (?i MaxAddr) := iset]" "way_target (si_tag s MaxAddr) iset = Some t"
    using correction_effect [of s tid type ?h1 instAddr rnd sn pc taken predicted t] wf tid assms(3)
    by (auto simp: IndirectHistory_init_def)
  note l = SimpleIndirect_lookup_eq [OF u(5,6), of sn'] SimpleIndirect_lookup_eq [OF wf tid, of sn' pc]
  have "si_targetCache s4 ! unat (?i MaxAddr) = iset" using u(8) si_index_less(2) [OF wf] by simp
  then have 1: "\<exists>s5 h5. SimpleIndirect_lookup s4 tid sn' MaxAddr None = Inr (Some t, s5, h5)"
    using l(1) [of MaxAddr] si_cfg_index [OF u(4)] u(7,9) by auto
  have 2: "\<exists>r s5 h5 s6 h6. SimpleIndirect_lookup s4 tid sn' pc None = Inr (r, s5, h5) \<and>
      SimpleIndirect_lookup s tid sn' pc None = Inr (r, s6, h6)"
    if "getSetIndex s pc tid \<noteq> getSetIndex s MaxAddr tid"
  proof -
    have "unat (?i pc) \<noteq> unat (?i MaxAddr)"
      using that getSetIndex_eq [OF wf tid] by (auto simp: word_unat_eq_iff [symmetric])
    then have "si_targetCache s4 ! unat (?i pc) = si_targetCache s ! unat (?i pc)" using u(8) by simp
    then show ?thesis using l(1) [of pc] l(2) si_cfg_index [OF u(4)] u(7) by auto
  qed
  show ?thesis
    using u(1-3) 1 2 SimpleIndirect_update_None [OF tid, of instAddr rnd sn pc False taken predicted type] by auto
qed

section \<open>Witnesses\<close>

definition ip_witness :: SimpleIndirectParams where
  "ip_witness = \<lparr>sip_hashGHR = True, sip_hashTargets = True, sip_sets = 4, sip_ways = 2, sip_tagSize = 16,
     sip_pathLength = 2, sip_speculativePathLength = 4, sip_instShiftAmt = 2, sip_GHRBits = 3,
     sip_numThreads = 1\<rparr>"

definition si_witness :: "Addr SimpleIndirect" where
  "si_witness = (case SimpleIndirect_init ip_witness of Inr s \<Rightarrow> s | Inl _ \<Rightarrow> undefined)"

definition op_witness :: "bool \<Rightarrow> Addr \<Rightarrow> Addr indirect_op" where
  "op_witness taken target = \<lparr>io_sn = 1, io_update_sn = 1, io_pc = 0x40, io_lookup = True, io_taken = taken, io_target = target,
     io_type = IndirectUncond, io_rand = 0\<rparr>"

lemma ip_witness_ok: "SimpleIndirectParams_ok ip_witness"
  by (simp add: SimpleIndirectParams_ok_def ip_witness_def isPowerOf2_def)

lemma si_witness_ok:
  "SimpleIndirect_init ip_witness = Inr si_witness" "SimpleIndirect_wf si_witness"
  "length (si_threadInfo si_witness) = 1" "si_ghrMask si_witness = 7"
proof -
  obtain s :: "Addr SimpleIndirect" where s: "SimpleIndirect_init ip_witness = Inr s" "SimpleIndirect_wf s"
      "si_threadInfo s = replicate (unat (sip_numThreads ip_witness)) \<lparr>ti_pathHist = [], ti_ghr = 0\<rparr>"
      "si_ghrMask s = push_bit (unat (sip_GHRBits ip_witness)) 1 - 1"
    by (rule SimpleIndirect_init_ok [OF ip_witness_ok])
  then show "SimpleIndirect_init ip_witness = Inr si_witness" "SimpleIndirect_wf si_witness"
      "length (si_threadInfo si_witness) = 1" "si_ghrMask si_witness = 7"
    by (simp_all add: si_witness_def ip_witness_def)
qed

theorem indirect_histories_exact_witness:
  "\<exists>s' fl. spec_run (indirect_spec (SimpleIndirect_vtable id)) (si_witness, \<lambda>_. [])
      [Do 0 (op_witness True 0x80), Do 0 (op_witness False 0x44), Redo 0 (op_witness True 0xC0)] = Inr (s', fl) \<and>
    ti_ghr (si_threadInfo s' ! 0) = 3 \<and> prefix (path_targets (si_threadInfo s' ! 0)) [0xC0, 0x80]"
proof -
  let ?evs = "[Do 0 (op_witness True 0x80), Do 0 (op_witness False 0x44), Redo 0 (op_witness True 0xC0)]"
  have "ops_allowed (\<lambda>_ _ _. True) same_kind (indirect_spec (SimpleIndirect_vtable id)) (si_witness, \<lambda>_. []) ?evs"
    by (auto simp: event_allowed_def op_witness_def result_iffs split: sum.splits)
  moreover have "list_all (\<lambda>ev. event_tid ev < unat (sip_numThreads ip_witness)) ?evs"
    by (simp add: ip_witness_def)
  moreover have "live_ops 0 ?evs = [op_witness True 0xC0, op_witness True 0x80]"
    by (simp add: live_ops_def op_run_def)
  moreover have "ideal_ghr 7 [op_witness True 0xC0, op_witness True 0x80] = 3"
      "ideal_path id [op_witness True 0xC0, op_witness True 0x80] = [0xC0, 0x80]"
    by (simp_all add: ideal_ghr_def ideal_path_def op_witness_def shift_masked_def shift_in_def isIndirectNoReturn_def)
  moreover have "unat (sip_numThreads ip_witness) = 1" by (simp add: ip_witness_def)
  ultimately show ?thesis
    using indirect_histories_exact [OF ip_witness_ok si_witness_ok(1), of ?evs id 0]
    by (auto simp: Let_def si_witness_ok)
qed

theorem indirect_learns_correction_witness:
  "\<exists>r s1 h1 s2 h2 s3 h3 s4. SimpleIndirect_lookup si_witness 0 1 0x40 None = Inr (r, s1, h1) \<and>
    SimpleIndirect_update id 0 s1 0 1 0x40 False True 0x80 IndirectUncond h1 = Inr (s2, h2) \<and>
    SimpleIndirect_update id 0 s2 0 1 0x40 True True 0xC0 IndirectUncond h2 = Inr (s3, h3) \<and>
    SimpleIndirect_squash s3 0 1 h3 = Inr (s4, None) \<and>
    (\<exists>s5 h5. SimpleIndirect_lookup s4 0 2 0x40 None = Inr (Some 0xC0, s5, h5))"
proof -
  have "0 < length (si_threadInfo si_witness)" "isIndirectNoReturn IndirectUncond"
    by (simp_all add: si_witness_ok isIndirectNoReturn_def)
  from indirect_learns_correction [OF si_witness_ok(2) this] show ?thesis .
qed

theorem indirect_unconsulted_correction_lost_witness:
  "\<exists>s2 h2 s3 h3 s4. SimpleIndirect_update id 0 si_witness 0 1 0x40 False False 0x44 IndirectCond None = Inr (s2, h2) \<and>
    SimpleIndirect_update id 0 s2 0 1 0x40 True True 0xC0 IndirectCond h2 = Inr (s3, h3) \<and>
    SimpleIndirect_squash s3 0 1 h3 = Inr (s4, None) \<and>
    (\<exists>s5 h5. SimpleIndirect_lookup s4 0 2 MaxAddr None = Inr (Some 0xC0, s5, h5)) \<and>
    (\<exists>r s5 h5 s6 h6. SimpleIndirect_lookup s4 0 2 0x40 None = Inr (r, s5, h5) \<and>
       SimpleIndirect_lookup si_witness 0 2 0x40 None = Inr (r, s6, h6))"
proof -
  have "0 < length (si_threadInfo si_witness)" "isIndirectNoReturn IndirectCond"
    by (simp_all add: si_witness_ok isIndirectNoReturn_def)
  moreover have "getSetIndex si_witness 0x40 0 \<noteq> getSetIndex si_witness MaxAddr 0" by code_simp
  ultimately show ?thesis
    using indirect_unconsulted_correction_lost [OF si_witness_ok(2), of 0 IndirectCond id 0 1 "0x40" False "0x44" "0xC0" 2]
    by auto
qed

end
