(* ===== verification/BPred_Unit.thy ===== *)
theory BPred_Unit
  imports Conditional_Predictor Return_Addr_Stack Branch_Target_Buffer Indirect_Predictor
begin

text \<open>
  \<open>cpu/pred/bpred_unit.hh\<close> and \<open>cpu/pred/bpred_unit.cc\<close>: the branch prediction
  unit, which combines a direction predictor, a branch target buffer, a return address stack and an
  indirect target predictor, keeps the history of every branch in flight, and repairs all parts when
  branches are squashed or corrected.

  The virtual methods of the parts and the operations of the instruction set on program counters
  are the fields of the record \<open>BPUParts\<close>; their states are part of the state of the unit.  The
  return address stack and the indirect predictor are optional, as the pointers are.  The deque of
  histories of a thread is a list whose head is the front, the youngest branch.  The probe points of
  the performance monitor and the debug output are left out.
\<close>

section \<open>Data\<close>

datatype TargetProvider = NoTarget | BTB | RAS | Indirect

text \<open>
  The methods of \<open>PCStateBase\<close> and \<open>StaticInst\<close> of the instruction set; the size of an
  instruction is zero when the decoder does not set it.
\<close>

record 'pc PCOps =
  po_instAddr :: "'pc \<Rightarrow> Addr"
  po_set :: "'pc \<Rightarrow> Addr \<Rightarrow> 'pc"
  po_advancePC :: "StaticInst \<Rightarrow> 'pc \<Rightarrow> 'pc"
  po_buildRetPC :: "StaticInst \<Rightarrow> 'pc \<Rightarrow> 'pc \<Rightarrow> 'pc"
  po_size :: "StaticInst \<Rightarrow> u64"

record ('c, 'ch, 'b, 'pc, 'i, 'ih) BPUParts =
  pt_cPred :: "('c, 'ch) ConditionalPredictor"
  pt_btb :: "('b, 'pc) BTBOps"
  pt_iPred :: "('i, 'pc, 'ih) IndirectOps"
  pt_pc :: "'pc PCOps"

record ('ch, 'pc, 'ih) PredictorHistory =
  ph_seqNum :: InstSeqNum
  ph_tid :: ThreadID
  ph_pc :: Addr
  ph_inst :: StaticInst
  ph_type :: BranchType
  ph_call :: bool
  ph_uncond :: bool
  ph_predTaken :: bool
  ph_actuallyTaken :: bool
  ph_condPred :: bool
  ph_btbHit :: bool
  ph_targetProvider :: TargetProvider
  ph_resteered :: bool
  ph_mispredict :: bool
  ph_target :: "'pc option"
  ph_bpHistory :: "'ch option"
  ph_indirectHistory :: "'ih option"
  ph_rasHistory :: "'pc RASHistory option"

definition PredictorHistory_new ::
  "ThreadID \<Rightarrow> InstSeqNum \<Rightarrow> Addr \<Rightarrow> StaticInst \<Rightarrow> ('ch, 'pc, 'ih) PredictorHistory" where
  "PredictorHistory_new tid sn pc inst = \<lparr>ph_seqNum = sn, ph_tid = tid, ph_pc = pc, ph_inst = inst,
     ph_type = getBranchType inst, ph_call = isCall inst, ph_uncond = (\<not> isCondCtrl inst),
     ph_predTaken = False, ph_actuallyTaken = False, ph_condPred = False, ph_btbHit = False,
     ph_targetProvider = NoTarget, ph_resteered = False, ph_mispredict = False, ph_target = None,
     ph_bpHistory = None, ph_indirectHistory = None, ph_rasHistory = None\<rparr>"

text \<open>The destructor.\<close>

definition PredictorHistory_delete :: "('ch, 'pc, 'ih) PredictorHistory \<Rightarrow> unit result" where
  "PredictorHistory_delete hist =
     check (ph_bpHistory hist = None) (Assert ''bpHistory == nullptr'')
       (check (ph_indirectHistory hist = None) (Assert ''indirectHistory == nullptr'')
         (check (ph_rasHistory hist = None) (Assert ''rasHistory == nullptr'') (Inr ())))"

record BPredUnitStats =
  bs_lookups :: "ThreadID \<Rightarrow> BranchType \<Rightarrow> nat"
  bs_squashes :: "ThreadID \<Rightarrow> BranchType \<Rightarrow> nat"
  bs_corrected :: "ThreadID \<Rightarrow> BranchType \<Rightarrow> nat"
  bs_earlyResteers :: "ThreadID \<Rightarrow> BranchType \<Rightarrow> nat"
  bs_committed :: "ThreadID \<Rightarrow> BranchType \<Rightarrow> nat"
  bs_mispredicted :: "ThreadID \<Rightarrow> BranchType \<Rightarrow> nat"
  bs_mispredictDueToPredictor :: "ThreadID \<Rightarrow> BranchType \<Rightarrow> nat"
  bs_mispredictDueToBTBMiss :: "ThreadID \<Rightarrow> BranchType \<Rightarrow> nat"
  bs_targetProvider :: "ThreadID \<Rightarrow> TargetProvider \<Rightarrow> nat"
  bs_targetWrong :: "ThreadID \<Rightarrow> TargetProvider \<Rightarrow> nat"
  bs_condPredicted :: nat
  bs_condPredictedTaken :: nat
  bs_condIncorrect :: nat
  bs_predTakenBTBMiss :: nat
  bs_BTBLookups :: nat
  bs_BTBUpdates :: nat
  bs_BTBHits :: nat
  bs_BTBMispredicted :: nat
  bs_indirectLookups :: nat
  bs_indirectHits :: nat
  bs_indirectMisses :: nat
  bs_indirectMispredicted :: nat

definition BPredUnitStats_init :: BPredUnitStats where
  "BPredUnitStats_init = \<lparr>bs_lookups = (\<lambda>_ _. 0), bs_squashes = (\<lambda>_ _. 0), bs_corrected = (\<lambda>_ _. 0),
     bs_earlyResteers = (\<lambda>_ _. 0), bs_committed = (\<lambda>_ _. 0), bs_mispredicted = (\<lambda>_ _. 0),
     bs_mispredictDueToPredictor = (\<lambda>_ _. 0), bs_mispredictDueToBTBMiss = (\<lambda>_ _. 0),
     bs_targetProvider = (\<lambda>_ _. 0), bs_targetWrong = (\<lambda>_ _. 0), bs_condPredicted = 0,
     bs_condPredictedTaken = 0, bs_condIncorrect = 0, bs_predTakenBTBMiss = 0, bs_BTBLookups = 0,
     bs_BTBUpdates = 0, bs_BTBHits = 0, bs_BTBMispredicted = 0, bs_indirectLookups = 0,
     bs_indirectHits = 0, bs_indirectMisses = 0, bs_indirectMispredicted = 0\<rparr>"

text \<open>Incrementing one cell of a two-dimensional statistic.\<close>

definition count2 :: "'a \<Rightarrow> 'b \<Rightarrow> ('a \<Rightarrow> 'b \<Rightarrow> nat) \<Rightarrow> 'a \<Rightarrow> 'b \<Rightarrow> nat" where
  "count2 a b f = f(a := (f a)(b := f a b + 1))"

record ('c, 'ch, 'b, 'pc, 'i, 'ih) BPredUnit =
  bu_requiresBTBHit :: bool
  bu_updateBTBAtSquash :: bool
  bu_predHist :: "('ch, 'pc, 'ih) PredictorHistory list list"
  bu_btb :: 'b
  bu_ras :: "'pc ReturnAddrStack option"
  bu_cPred :: 'c
  bu_iPred :: "'i option"
  bu_stats :: BPredUnitStats

definition BPredUnit_init ::
  "u32 \<Rightarrow> bool \<Rightarrow> bool \<Rightarrow> 'b \<Rightarrow> 'pc ReturnAddrStack option \<Rightarrow> 'c \<Rightarrow> 'i option \<Rightarrow>
   ('c, 'ch, 'b, 'pc, 'i, 'ih) BPredUnit" where
  "BPredUnit_init numThreads requiresBTBHit updateBTBAtSquash btb ras cPred iPred =
     \<lparr>bu_requiresBTBHit = requiresBTBHit, bu_updateBTBAtSquash = updateBTBAtSquash,
      bu_predHist = replicate (unat numThreads) [], bu_btb = btb, bu_ras = ras, bu_cPred = cPred,
      bu_iPred = iPred, bu_stats = BPredUnitStats_init\<rparr>"

definition BPredUnit_drainSanityCheck :: "('c, 'ch, 'b, 'pc, 'i, 'ih) BPredUnit \<Rightarrow> unit result" where
  "BPredUnit_drainSanityCheck u =
     check (list_all (\<lambda>ph. ph = []) (bu_predHist u)) (Assert ''ph.empty()'') (Inr ())"

section \<open>Prediction\<close>

definition predict_direction ::
  "('c, 'ch, 'b, 'pc, 'i, 'ih) BPUParts \<Rightarrow> ('c, 'ch, 'b, 'pc, 'i, 'ih) BPredUnit \<Rightarrow> ThreadID \<Rightarrow> 'pc \<Rightarrow>
   ('ch, 'pc, 'ih) PredictorHistory \<Rightarrow>
   (('c, 'ch, 'b, 'pc, 'i, 'ih) BPredUnit \<times> ('ch, 'pc, 'ih) PredictorHistory) result" where
  "predict_direction pt u tid pc hist =
     (if ph_uncond hist
      then Inr (u, hist\<lparr>ph_condPred := True, ph_predTaken := True\<rparr>)
      else let st = bu_stats u; st = st\<lparr>bs_condPredicted := bs_condPredicted st + 1\<rparr>
           in bind_r (cp_lookup (pt_cPred pt) (bu_cPred u) tid (po_instAddr (pt_pc pt) pc) (ph_bpHistory hist))
             (\<lambda>(pred, c, h).
                let st = (if pred then st\<lparr>bs_condPredictedTaken := bs_condPredictedTaken st + 1\<rparr> else st)
                in Inr (u\<lparr>bu_cPred := c, bu_stats := st\<rparr>,
                        hist\<lparr>ph_bpHistory := h, ph_condPred := pred, ph_predTaken := pred\<rparr>)))"

definition predict_btb ::
  "('c, 'ch, 'b, 'pc, 'i, 'ih) BPUParts \<Rightarrow> u64 \<Rightarrow> ('c, 'ch, 'b, 'pc, 'i, 'ih) BPredUnit \<Rightarrow> ThreadID \<Rightarrow>
   'pc \<Rightarrow> BranchType \<Rightarrow> ('ch, 'pc, 'ih) PredictorHistory \<Rightarrow>
   (('c, 'ch, 'b, 'pc, 'i, 'ih) BPredUnit \<times> ('ch, 'pc, 'ih) PredictorHistory) result" where
  "predict_btb pt curTick u tid pc brType hist =
     (let st = bu_stats u; st = st\<lparr>bs_BTBLookups := bs_BTBLookups st + 1\<rparr>
      in bind_r (btb_lookup (pt_btb pt) curTick (bu_btb u) tid (po_instAddr (pt_pc pt) pc) brType)
        (\<lambda>(btb_target, b).
           case btb_target of
             None \<Rightarrow> Inr (u\<lparr>bu_btb := b, bu_stats := st\<rparr>, hist)
           | Some t \<Rightarrow>
               let hist = hist\<lparr>ph_btbHit := True\<rparr>;
                   hist = (if ph_predTaken hist then hist\<lparr>ph_targetProvider := BTB, ph_target := Some t\<rparr> else hist)
               in Inr (u\<lparr>bu_btb := b, bu_stats := st\<lparr>bs_BTBHits := bs_BTBHits st + 1\<rparr>\<rparr>, hist)))"

definition branch_detected ::
  "('c, 'ch, 'b, 'pc, 'i, 'ih) BPredUnit \<Rightarrow> ('ch, 'pc, 'ih) PredictorHistory \<Rightarrow> bool" where
  "branch_detected u hist \<longleftrightarrow> ph_btbHit hist \<or> \<not> bu_requiresBTBHit u"

definition predict_ras ::
  "('c, 'ch, 'b, 'pc, 'i, 'ih) BPUParts \<Rightarrow> ('c, 'ch, 'b, 'pc, 'i, 'ih) BPredUnit \<Rightarrow> ThreadID \<Rightarrow> 'pc \<Rightarrow>
   StaticInst \<Rightarrow> ('ch, 'pc, 'ih) PredictorHistory \<Rightarrow>
   (('c, 'ch, 'b, 'pc, 'i, 'ih) BPredUnit \<times> ('ch, 'pc, 'ih) PredictorHistory) result" where
  "predict_ras pt u tid pc inst hist =
     (case bu_ras u of
        None \<Rightarrow> Inr (u, hist)
      | Some ras \<Rightarrow>
          if branch_detected u hist
          then if isCall inst
               then let return_addr = po_buildRetPC (pt_pc pt) inst pc pc
                    in bind_r (ReturnAddrStack_push ras tid return_addr (ph_rasHistory hist)) (\<lambda>(ras, h).
                         Inr (u\<lparr>bu_ras := Some ras\<rparr>, hist\<lparr>ph_rasHistory := h\<rparr>))
               else if isReturn inst
               then bind_r (ReturnAddrStack_pop ras tid (ph_rasHistory hist)) (\<lambda>(return_addr, ras, h).
                      let u = u\<lparr>bu_ras := Some ras\<rparr>; hist = hist\<lparr>ph_rasHistory := h\<rparr>
                      in case return_addr of
                           None \<Rightarrow> Inr (u, hist)
                         | Some a \<Rightarrow> Inr (u, hist\<lparr>ph_target := Some a, ph_targetProvider := RAS\<rparr>))
               else Inr (u, hist)
          else Inr (u, hist))"

definition consults_indirect ::
  "('c, 'ch, 'b, 'pc, 'i, 'ih) BPredUnit \<Rightarrow> StaticInst \<Rightarrow> ('ch, 'pc, 'ih) PredictorHistory \<Rightarrow> bool" where
  "consults_indirect u inst hist \<longleftrightarrow> bu_iPred u \<noteq> None \<and> ph_predTaken hist \<and> branch_detected u hist \<and>
     isIndirectCtrl inst \<and> \<not> isReturn inst"

definition predict_indirect ::
  "('c, 'ch, 'b, 'pc, 'i, 'ih) BPUParts \<Rightarrow> ('c, 'ch, 'b, 'pc, 'i, 'ih) BPredUnit \<Rightarrow> ThreadID \<Rightarrow>
   InstSeqNum \<Rightarrow> 'pc \<Rightarrow> StaticInst \<Rightarrow> ('ch, 'pc, 'ih) PredictorHistory \<Rightarrow>
   (('c, 'ch, 'b, 'pc, 'i, 'ih) BPredUnit \<times> ('ch, 'pc, 'ih) PredictorHistory) result" where
  "predict_indirect pt u tid seqNum pc inst hist =
     (if consults_indirect u inst hist
      then let st = bu_stats u; st = st\<lparr>bs_indirectLookups := bs_indirectLookups st + 1\<rparr>
           in bind_r (id_lookup (pt_iPred pt) (the (bu_iPred u)) tid seqNum (po_instAddr (pt_pc pt) pc)
                       (ph_indirectHistory hist)) (\<lambda>(itarget, i, h).
             let hist = hist\<lparr>ph_indirectHistory := h\<rparr>; u = u\<lparr>bu_iPred := Some i\<rparr>
             in case itarget of
                  Some t \<Rightarrow> Inr (u\<lparr>bu_stats := st\<lparr>bs_indirectHits := bs_indirectHits st + 1\<rparr>\<rparr>,
                    hist\<lparr>ph_targetProvider := Indirect, ph_target := Some t\<rparr>)
                | None \<Rightarrow> Inr (u\<lparr>bu_stats := st\<lparr>bs_indirectMisses := bs_indirectMisses st + 1\<rparr>\<rparr>, hist))
      else Inr (u, hist))"

text \<open>The fall-through when no part gave a target.\<close>

definition predict_fallthrough ::
  "'pc PCOps \<Rightarrow> 'pc \<Rightarrow> StaticInst \<Rightarrow> ('ch, 'pc, 'ih) PredictorHistory \<Rightarrow> ('ch, 'pc, 'ih) PredictorHistory" where
  "predict_fallthrough po pc inst hist =
     (if ph_targetProvider hist = NoTarget
      then hist\<lparr>ph_target := Some (po_advancePC po inst pc), ph_predTaken := False\<rparr> else hist)"

definition predict_histories ::
  "('c, 'ch, 'b, 'pc, 'i, 'ih) BPUParts \<Rightarrow> nat \<Rightarrow> ('c, 'ch, 'b, 'pc, 'i, 'ih) BPredUnit \<Rightarrow> ThreadID \<Rightarrow>
   InstSeqNum \<Rightarrow> BranchType \<Rightarrow> 'pc \<Rightarrow> ('ch, 'pc, 'ih) PredictorHistory \<Rightarrow>
   (('c, 'ch, 'b, 'pc, 'i, 'ih) BPredUnit \<times> ('ch, 'pc, 'ih) PredictorHistory) result" where
  "predict_histories pt rnd u tid seqNum brType target hist =
     bind_r (cp_updateHistories (pt_cPred pt) (bu_cPred u) tid (ph_pc hist) (ph_uncond hist)
               (ph_predTaken hist) (po_instAddr (pt_pc pt) target) (ph_inst hist) (ph_bpHistory hist)) (\<lambda>(c, h).
       let u = u\<lparr>bu_cPred := c\<rparr>; hist = hist\<lparr>ph_bpHistory := h\<rparr>
       in case bu_iPred u of
            None \<Rightarrow> Inr (u, hist)
          | Some i \<Rightarrow>
              bind_r (id_update (pt_iPred pt) rnd i tid seqNum (ph_pc hist) False (ph_predTaken hist) target
                        brType (ph_indirectHistory hist)) (\<lambda>(i, h).
                Inr (u\<lparr>bu_iPred := Some i\<rparr>, hist\<lparr>ph_indirectHistory := h\<rparr>)))"

definition BPredUnit_predict_hist ::
  "('c, 'ch, 'b, 'pc, 'i, 'ih) BPUParts \<Rightarrow> u64 \<Rightarrow> nat \<Rightarrow> ('c, 'ch, 'b, 'pc, 'i, 'ih) BPredUnit \<Rightarrow>
   StaticInst \<Rightarrow> InstSeqNum \<Rightarrow> 'pc \<Rightarrow> ThreadID \<Rightarrow>
   (bool \<times> 'pc \<times> ('c, 'ch, 'b, 'pc, 'i, 'ih) BPredUnit \<times> ('ch, 'pc, 'ih) PredictorHistory) result" where
  "BPredUnit_predict_hist pt curTick rnd u inst seqNum pc tid =
     (let brType = getBranchType inst;
          hist = PredictorHistory_new tid seqNum (po_instAddr (pt_pc pt) pc) inst;
          u = u\<lparr>bu_stats := (bu_stats u)\<lparr>bs_lookups := count2 tid brType (bs_lookups (bu_stats u))\<rparr>\<rparr>
      in bind_r (predict_direction pt u tid pc hist) (\<lambda>(u, hist).
         bind_r (predict_btb pt curTick u tid pc brType (hist\<lparr>ph_targetProvider := NoTarget\<rparr>)) (\<lambda>(u, hist).
         bind_r (predict_ras pt u tid pc inst hist) (\<lambda>(u, hist).
         bind_r (predict_indirect pt u tid seqNum pc inst hist) (\<lambda>(u, hist).
           let hist = predict_fallthrough (pt_pc pt) pc inst hist;
               st = bu_stats u;
               u = u\<lparr>bu_stats := st\<lparr>bs_targetProvider :=
                     count2 tid (ph_targetProvider hist) (bs_targetProvider st)\<rparr>\<rparr>;
               hist = hist\<lparr>ph_actuallyTaken := ph_predTaken hist\<rparr>
           in case ph_target hist of
                None \<Rightarrow> Inl Undefined
              | Some target \<Rightarrow>
                  bind_r (predict_histories pt rnd u tid seqNum brType target hist) (\<lambda>(u, hist).
                    Inr (ph_predTaken hist, target, u, hist)))))))"

definition BPredUnit_insertPredictorHistory ::
  "('c, 'ch, 'b, 'pc, 'i, 'ih) BPredUnit \<Rightarrow> ThreadID \<Rightarrow> ('ch, 'pc, 'ih) PredictorHistory \<Rightarrow>
   ('c, 'ch, 'b, 'pc, 'i, 'ih) BPredUnit result" where
  "BPredUnit_insertPredictorHistory u tid hist =
     bind_r (vec_get (bu_predHist u) tid) (\<lambda>q.
       Inr (u\<lparr>bu_predHist := (bu_predHist u)[tid := hist # q]\<rparr>))"

text \<open>The value returned, the changed program counter and the unit.\<close>

definition BPredUnit_predict ::
  "('c, 'ch, 'b, 'pc, 'i, 'ih) BPUParts \<Rightarrow> u64 \<Rightarrow> nat \<Rightarrow> ('c, 'ch, 'b, 'pc, 'i, 'ih) BPredUnit \<Rightarrow>
   StaticInst \<Rightarrow> InstSeqNum \<Rightarrow> 'pc \<Rightarrow> ThreadID \<Rightarrow>
   (bool \<times> 'pc \<times> ('c, 'ch, 'b, 'pc, 'i, 'ih) BPredUnit) result" where
  "BPredUnit_predict pt curTick rnd u inst seqNum pc tid =
     bind_r (BPredUnit_predict_hist pt curTick rnd u inst seqNum pc tid) (\<lambda>(taken, pc, u, hist).
     bind_r (BPredUnit_insertPredictorHistory u tid hist) (\<lambda>u. Inr (taken, pc, u)))"

section \<open>Commit\<close>

text \<open>Reading through the pointer to the target.\<close>

definition deref_target :: "('ch, 'pc, 'ih) PredictorHistory \<Rightarrow> 'pc result" where
  "deref_target hist = (case ph_target hist of None \<Rightarrow> Inl Undefined | Some t \<Rightarrow> Inr t)"

definition BPredUnit_updateBTB ::
  "('c, 'ch, 'b, 'pc, 'i, 'ih) BPUParts \<Rightarrow> u64 \<Rightarrow> ('c, 'ch, 'b, 'pc, 'i, 'ih) BPredUnit \<Rightarrow> ThreadID \<Rightarrow>
   ('ch, 'pc, 'ih) PredictorHistory \<Rightarrow> ('c, 'ch, 'b, 'pc, 'i, 'ih) BPredUnit result" where
  "BPredUnit_updateBTB pt curTick u tid hist =
     (if \<not> bu_requiresBTBHit u \<and> isReturn (ph_inst hist) then Inr u
      else if \<not> bu_requiresBTBHit u \<and> bu_iPred u \<noteq> None \<and> isIndirectCtrl (ph_inst hist) then Inr u
      else let st = bu_stats u;
               st = (if \<not> ph_btbHit hist
                     then let st = st\<lparr>bs_BTBMispredicted := bs_BTBMispredicted st + 1\<rparr>
                          in (if ph_condPred hist
                              then st\<lparr>bs_predTakenBTBMiss := bs_predTakenBTBMiss st + 1\<rparr> else st)
                     else st);
               st = st\<lparr>bs_BTBUpdates := bs_BTBUpdates st + 1\<rparr>
           in bind_r (deref_target hist) (\<lambda>target.
              bind_r (btb_update (pt_btb pt) curTick (bu_btb u) tid (ph_pc hist) target (ph_type hist)
                        (Some (ph_inst hist))) (\<lambda>b.
                Inr (u\<lparr>bu_stats := st, bu_btb := btb_incorrectTarget (pt_btb pt) b (ph_pc hist) (ph_type hist)\<rparr>))))"

definition commit_stats :: "ThreadID \<Rightarrow> ('ch, 'pc, 'ih) PredictorHistory \<Rightarrow> BPredUnitStats \<Rightarrow> BPredUnitStats" where
  "commit_stats tid hist st =
     (let st = st\<lparr>bs_committed := count2 tid (ph_type hist) (bs_committed st)\<rparr>
      in if ph_mispredict hist
         then let st = st\<lparr>bs_mispredicted := count2 tid (ph_type hist) (bs_mispredicted st)\<rparr>;
                  st = (if ph_actuallyTaken hist \<and> \<not> ph_btbHit hist
                    then st\<lparr>bs_mispredictDueToBTBMiss :=
                           count2 tid (ph_type hist) (bs_mispredictDueToBTBMiss st)\<rparr>
                    else st\<lparr>bs_mispredictDueToPredictor :=
                           count2 tid (ph_type hist) (bs_mispredictDueToPredictor st)\<rparr>)
              in st\<lparr>bs_condIncorrect := bs_condIncorrect st + 1\<rparr>
         else st)"

definition BPredUnit_commitBranch ::
  "('c, 'ch, 'b, 'pc, 'i, 'ih) BPUParts \<Rightarrow> u64 \<Rightarrow> ('c, 'ch, 'b, 'pc, 'i, 'ih) BPredUnit \<Rightarrow> ThreadID \<Rightarrow>
   ('ch, 'pc, 'ih) PredictorHistory \<Rightarrow>
   (('c, 'ch, 'b, 'pc, 'i, 'ih) BPredUnit \<times> ('ch, 'pc, 'ih) PredictorHistory) result" where
  "BPredUnit_commitBranch pt curTick u tid hist =
     (let u = u\<lparr>bu_stats := commit_stats tid hist (bu_stats u)\<rparr>
      in bind_r (deref_target hist) (\<lambda>target.
         bind_r (cp_update (pt_cPred pt) (bu_cPred u) tid (ph_pc hist) (ph_actuallyTaken hist)
                   (ph_bpHistory hist) False (ph_inst hist) (po_instAddr (pt_pc pt) target)) (\<lambda>(c, h).
           let u = u\<lparr>bu_cPred := c\<rparr>; hist = hist\<lparr>ph_bpHistory := h\<rparr>
           in bind_r (case bu_iPred u of None \<Rightarrow> Inr (u, hist)
                      | Some i \<Rightarrow> bind_r (id_commit (pt_iPred pt) i tid (ph_seqNum hist) (ph_indirectHistory hist))
                          (\<lambda>(i, h). Inr (u\<lparr>bu_iPred := Some i\<rparr>, hist\<lparr>ph_indirectHistory := h\<rparr>))) (\<lambda>(u, hist).
              bind_r (case bu_ras u of None \<Rightarrow> Inr (u, hist)
                      | Some ras \<Rightarrow> bind_r (ReturnAddrStack_commit ras tid (ph_mispredict hist) (ph_type hist)
                                             (ph_rasHistory hist))
                          (\<lambda>(ras, h). Inr (u\<lparr>bu_ras := Some ras\<rparr>, hist\<lparr>ph_rasHistory := h\<rparr>))) (\<lambda>(u, hist).
              bind_r (if ph_actuallyTaken hist \<and> \<not> bu_updateBTBAtSquash u
                      then BPredUnit_updateBTB pt curTick u tid hist else Inr u) (\<lambda>u.
                Inr (u, hist)))))))"

function update_loop ::
  "('c, 'ch, 'b, 'pc, 'i, 'ih) BPUParts \<Rightarrow> u64 \<Rightarrow> InstSeqNum \<Rightarrow> ThreadID \<Rightarrow>
   ('c, 'ch, 'b, 'pc, 'i, 'ih) BPredUnit \<Rightarrow> ('ch, 'pc, 'ih) PredictorHistory list \<Rightarrow>
   (('c, 'ch, 'b, 'pc, 'i, 'ih) BPredUnit \<times> ('ch, 'pc, 'ih) PredictorHistory list) result" where
  "update_loop pt curTick done_sn tid u q =
     (if q \<noteq> [] \<and> ph_seqNum (last q) \<le> done_sn
      then bind_r (BPredUnit_commitBranch pt curTick u tid (last q)) (\<lambda>(u, hist).
           bind_r (PredictorHistory_delete hist) (\<lambda>_.
             update_loop pt curTick done_sn tid u (butlast q)))
      else Inr (u, q))"
  by pat_completeness auto
termination by (relation "measure (\<lambda>(pt, t, sn, tid, u, q). length q)") auto

declare update_loop.simps [simp del]

definition BPredUnit_update ::
  "('c, 'ch, 'b, 'pc, 'i, 'ih) BPUParts \<Rightarrow> u64 \<Rightarrow> ('c, 'ch, 'b, 'pc, 'i, 'ih) BPredUnit \<Rightarrow> InstSeqNum \<Rightarrow>
   ThreadID \<Rightarrow> ('c, 'ch, 'b, 'pc, 'i, 'ih) BPredUnit result" where
  "BPredUnit_update pt curTick u done_sn tid =
     bind_r (vec_get (bu_predHist u) tid) (\<lambda>q.
     bind_r (update_loop pt curTick done_sn tid u q) (\<lambda>(u, q).
       Inr (u\<lparr>bu_predHist := (bu_predHist u)[tid := q]\<rparr>)))"

section \<open>Squash and correction\<close>

definition BPredUnit_squashHistory ::
  "('c, 'ch, 'b, 'pc, 'i, 'ih) BPUParts \<Rightarrow> ('c, 'ch, 'b, 'pc, 'i, 'ih) BPredUnit \<Rightarrow> ThreadID \<Rightarrow>
   ('ch, 'pc, 'ih) PredictorHistory \<Rightarrow> ('c, 'ch, 'b, 'pc, 'i, 'ih) BPredUnit result" where
  "BPredUnit_squashHistory pt u tid hist =
     (let st = bu_stats u;
          u = u\<lparr>bu_stats := st\<lparr>bs_squashes := count2 tid (ph_type hist) (bs_squashes st)\<rparr>\<rparr>
      in bind_r (if ph_rasHistory hist \<noteq> None
                 then case bu_ras u of None \<Rightarrow> Inl (Assert ''ras'')
                      | Some ras \<Rightarrow> bind_r (ReturnAddrStack_squash ras tid (ph_rasHistory hist)) (\<lambda>(ras, h).
                          Inr (u\<lparr>bu_ras := Some ras\<rparr>, hist\<lparr>ph_rasHistory := h\<rparr>))
                 else Inr (u, hist)) (\<lambda>(u, hist).
         bind_r (case bu_iPred u of None \<Rightarrow> Inr (u, hist)
                 | Some i \<Rightarrow> bind_r (id_squash (pt_iPred pt) i tid (ph_seqNum hist) (ph_indirectHistory hist))
                     (\<lambda>(i, h). Inr (u\<lparr>bu_iPred := Some i\<rparr>, hist\<lparr>ph_indirectHistory := h\<rparr>))) (\<lambda>(u, hist).
         bind_r (cp_squash (pt_cPred pt) (bu_cPred u) tid (ph_bpHistory hist)) (\<lambda>(c, h).
         bind_r (PredictorHistory_delete (hist\<lparr>ph_bpHistory := h\<rparr>)) (\<lambda>_.
           Inr (u\<lparr>bu_cPred := c\<rparr>))))))"

fun squash_loop ::
  "('c, 'ch, 'b, 'pc, 'i, 'ih) BPUParts \<Rightarrow> InstSeqNum \<Rightarrow> ThreadID \<Rightarrow>
   ('c, 'ch, 'b, 'pc, 'i, 'ih) BPredUnit \<Rightarrow> ('ch, 'pc, 'ih) PredictorHistory list \<Rightarrow>
   (('c, 'ch, 'b, 'pc, 'i, 'ih) BPredUnit \<times> ('ch, 'pc, 'ih) PredictorHistory list) result" where
  "squash_loop pt squashed_sn tid u [] = Inr (u, [])"
| "squash_loop pt squashed_sn tid u (hist # q) =
     (if ph_seqNum hist > squashed_sn
      then bind_r (BPredUnit_squashHistory pt u tid hist) (\<lambda>u. squash_loop pt squashed_sn tid u q)
      else Inr (u, hist # q))"

definition BPredUnit_squash ::
  "('c, 'ch, 'b, 'pc, 'i, 'ih) BPUParts \<Rightarrow> ('c, 'ch, 'b, 'pc, 'i, 'ih) BPredUnit \<Rightarrow> InstSeqNum \<Rightarrow>
   ThreadID \<Rightarrow> ('c, 'ch, 'b, 'pc, 'i, 'ih) BPredUnit result" where
  "BPredUnit_squash pt u squashed_sn tid =
     bind_r (vec_get (bu_predHist u) tid) (\<lambda>q.
     bind_r (squash_loop pt squashed_sn tid u q) (\<lambda>(u, q).
       Inr (u\<lparr>bu_predHist := (bu_predHist u)[tid := q]\<rparr>)))"

text \<open>\<open>StaticInst::size\<close>, which is fatal for an instruction without a size.\<close>

definition StaticInst_size :: "'pc PCOps \<Rightarrow> StaticInst \<Rightarrow> u64 result" where
  "StaticInst_size po inst =
     check (po_size po inst \<noteq> 0) (Fatal ''Instruction size for this instruction not set!'') (Inr (po_size po inst))"

text \<open>The repair of the return address stack for a corrected branch.\<close>

definition correct_ras ::
  "'pc PCOps \<Rightarrow> 'pc ReturnAddrStack \<Rightarrow> ThreadID \<Rightarrow> 'pc \<Rightarrow> bool \<Rightarrow> ('ch, 'pc, 'ih) PredictorHistory \<Rightarrow>
   ('pc ReturnAddrStack \<times> 'pc RASHistory option) result" where
  "correct_ras po ras tid corr_target actually_taken hist =
     (if actually_taken \<and> ph_rasHistory hist = None
      then bind_r (if ph_type hist = Return
                   then bind_r (ReturnAddrStack_pop ras tid (ph_rasHistory hist)) (\<lambda>(_, ras, h). Inr (ras, h))
                   else Inr (ras, ph_rasHistory hist)) (\<lambda>(ras, h).
           if ph_call hist
           then let return_addr = po_buildRetPC po (ph_inst hist) corr_target corr_target
                in bind_r (StaticInst_size po (ph_inst hist)) (\<lambda>size.
                     let return_addr = (if size \<noteq> 0 then po_set po return_addr (ph_pc hist + size) else return_addr)
                     in ReturnAddrStack_push ras tid return_addr h)
           else Inr (ras, h))
      else if \<not> actually_taken \<and> ph_rasHistory hist \<noteq> None
      then ReturnAddrStack_squash ras tid (ph_rasHistory hist)
      else Inr (ras, ph_rasHistory hist))"

definition correct_stats ::
  "'pc PCOps \<Rightarrow> ThreadID \<Rightarrow> 'pc \<Rightarrow> bool \<Rightarrow> ('ch, 'pc, 'ih) PredictorHistory \<Rightarrow> BPredUnitStats \<Rightarrow> BPredUnitStats" where
  "correct_stats po tid corr_target from_commit hist st =
     (let st = st\<lparr>bs_corrected := count2 tid (ph_type hist) (bs_corrected st)\<rparr>;
          st = (case ph_target hist of
                  Some t \<Rightarrow> if po_instAddr po t \<noteq> po_instAddr po corr_target
                    then st\<lparr>bs_targetWrong := count2 tid (ph_targetProvider hist) (bs_targetWrong st)\<rparr> else st
                | None \<Rightarrow> st)
      in if \<not> from_commit
         then st\<lparr>bs_earlyResteers := count2 tid (ph_type hist) (bs_earlyResteers st)\<rparr> else st)"

definition correct_branch ::
  "('c, 'ch, 'b, 'pc, 'i, 'ih) BPUParts \<Rightarrow> u64 \<Rightarrow> nat \<Rightarrow> ('c, 'ch, 'b, 'pc, 'i, 'ih) BPredUnit \<Rightarrow>
   InstSeqNum \<Rightarrow> 'pc \<Rightarrow> bool \<Rightarrow> ThreadID \<Rightarrow> bool \<Rightarrow> ('ch, 'pc, 'ih) PredictorHistory \<Rightarrow>
   (('c, 'ch, 'b, 'pc, 'i, 'ih) BPredUnit \<times> ('ch, 'pc, 'ih) PredictorHistory) result" where
  "correct_branch pt curTick rnd u squashed_sn corr_target actually_taken tid from_commit hist =
     (let u = u\<lparr>bu_stats := correct_stats (pt_pc pt) tid corr_target from_commit hist (bu_stats u)\<rparr>;
          hist = hist\<lparr>ph_mispredict := True, ph_actuallyTaken := actually_taken, ph_target := Some corr_target\<rparr>
      in bind_r (cp_update (pt_cPred pt) (bu_cPred u) tid (ph_pc hist) actually_taken (ph_bpHistory hist) True
                   (ph_inst hist) (po_instAddr (pt_pc pt) corr_target)) (\<lambda>(c, h).
           let u = u\<lparr>bu_cPred := c\<rparr>; hist = hist\<lparr>ph_bpHistory := h\<rparr>
           in bind_r (case bu_iPred u of None \<Rightarrow> Inr (u, hist)
                      | Some i \<Rightarrow> bind_r (id_update (pt_iPred pt) rnd i tid squashed_sn (ph_pc hist) True
                                            actually_taken corr_target (ph_type hist) (ph_indirectHistory hist))
                          (\<lambda>(i, h). Inr (u\<lparr>bu_iPred := Some i\<rparr>, hist\<lparr>ph_indirectHistory := h\<rparr>))) (\<lambda>(u, hist).
              bind_r (case bu_ras u of None \<Rightarrow> Inr (u, hist)
                      | Some ras \<Rightarrow> bind_r (correct_ras (pt_pc pt) ras tid corr_target actually_taken hist)
                          (\<lambda>(ras, h). Inr (u\<lparr>bu_ras := Some ras\<rparr>, hist\<lparr>ph_rasHistory := h\<rparr>))) (\<lambda>(u, hist).
              bind_r (if actually_taken \<and> bu_updateBTBAtSquash u
                      then BPredUnit_updateBTB pt curTick u tid hist else Inr u) (\<lambda>u.
                Inr (u, hist))))))"

definition BPredUnit_squash_correct ::
  "('c, 'ch, 'b, 'pc, 'i, 'ih) BPUParts \<Rightarrow> u64 \<Rightarrow> nat \<Rightarrow> ('c, 'ch, 'b, 'pc, 'i, 'ih) BPredUnit \<Rightarrow>
   InstSeqNum \<Rightarrow> 'pc \<Rightarrow> bool \<Rightarrow> ThreadID \<Rightarrow> bool \<Rightarrow> ('c, 'ch, 'b, 'pc, 'i, 'ih) BPredUnit result" where
  "BPredUnit_squash_correct pt curTick rnd u squashed_sn corr_target actually_taken tid from_commit =
     bind_r (BPredUnit_squash pt u squashed_sn tid) (\<lambda>u.
     bind_r (vec_get (bu_predHist u) tid) (\<lambda>q.
       case q of
         [] \<Rightarrow> Inr u
       | hist # q \<Rightarrow>
           bind_r (correct_branch pt curTick rnd u squashed_sn corr_target actually_taken tid from_commit hist)
             (\<lambda>(u, hist). Inr (u\<lparr>bu_predHist := (bu_predHist u)[tid := hist # q]\<rparr>))))"

section \<open>Access to the parts\<close>

definition BPredUnit_branchPlaceholder ::
  "('c, 'ch, 'b, 'pc, 'i, 'ih) BPUParts \<Rightarrow> ('c, 'ch, 'b, 'pc, 'i, 'ih) BPredUnit \<Rightarrow> ThreadID \<Rightarrow> Addr \<Rightarrow>
   bool \<Rightarrow> 'ch option \<Rightarrow> (('c, 'ch, 'b, 'pc, 'i, 'ih) BPredUnit \<times> 'ch option) result" where
  "BPredUnit_branchPlaceholder pt u tid pc uncond bp_history =
     bind_r (cp_branchPlaceholder (pt_cPred pt) (bu_cPred u) tid pc uncond bp_history) (\<lambda>(c, h).
       Inr (u\<lparr>bu_cPred := c\<rparr>, h))"

definition BPredUnit_BTBValid ::
  "('c, 'ch, 'b, 'pc, 'i, 'ih) BPUParts \<Rightarrow> ('c, 'ch, 'b, 'pc, 'i, 'ih) BPredUnit \<Rightarrow> ThreadID \<Rightarrow> Addr \<Rightarrow>
   bool result" where
  "BPredUnit_BTBValid pt u tid pc = btb_valid (pt_btb pt) (bu_btb u) tid pc"

definition BPredUnit_BTBLookup ::
  "('c, 'ch, 'b, 'pc, 'i, 'ih) BPUParts \<Rightarrow> u64 \<Rightarrow> ('c, 'ch, 'b, 'pc, 'i, 'ih) BPredUnit \<Rightarrow> ThreadID \<Rightarrow>
   'pc \<Rightarrow> ('pc option \<times> ('c, 'ch, 'b, 'pc, 'i, 'ih) BPredUnit) result" where
  "BPredUnit_BTBLookup pt curTick u tid pc =
     bind_r (btb_lookup (pt_btb pt) curTick (bu_btb u) tid (po_instAddr (pt_pc pt) pc) NoBranch) (\<lambda>(t, b).
       Inr (t, u\<lparr>bu_btb := b\<rparr>))"

definition BPredUnit_BTBGetInst ::
  "('c, 'ch, 'b, 'pc, 'i, 'ih) BPUParts \<Rightarrow> ('c, 'ch, 'b, 'pc, 'i, 'ih) BPredUnit \<Rightarrow> ThreadID \<Rightarrow> Addr \<Rightarrow>
   StaticInst option result" where
  "BPredUnit_BTBGetInst pt u tid pc = btb_getInst (pt_btb pt) (bu_btb u) tid pc"

definition BPredUnit_BTBUpdate ::
  "('c, 'ch, 'b, 'pc, 'i, 'ih) BPUParts \<Rightarrow> u64 \<Rightarrow> ('c, 'ch, 'b, 'pc, 'i, 'ih) BPredUnit \<Rightarrow> ThreadID \<Rightarrow>
   Addr \<Rightarrow> 'pc \<Rightarrow> ('c, 'ch, 'b, 'pc, 'i, 'ih) BPredUnit result" where
  "BPredUnit_BTBUpdate pt curTick u tid pc target =
     (let u = u\<lparr>bu_stats := (bu_stats u)\<lparr>bs_BTBUpdates := bs_BTBUpdates (bu_stats u) + 1\<rparr>\<rparr>
      in bind_r (btb_update (pt_btb pt) curTick (bu_btb u) tid pc target NoBranch None) (\<lambda>b.
           Inr (u\<lparr>bu_btb := b\<rparr>)))"

section \<open>What a prediction records\<close>

text \<open>Which part may give the target of a prediction.\<close>

definition provider_ok ::
  "('c, 'ch, 'b, 'pc, 'i, 'ih) BPredUnit \<Rightarrow> StaticInst \<Rightarrow> ('ch, 'pc, 'ih) PredictorHistory \<Rightarrow> bool" where
  "provider_ok u inst h \<longleftrightarrow>
     (case ph_targetProvider h of
        NoTarget \<Rightarrow> True
      | BTB \<Rightarrow> ph_condPred h \<and> ph_btbHit h
      | RAS \<Rightarrow> branch_detected u h \<and> \<not> isCall inst \<and> isReturn inst
      | Indirect \<Rightarrow> ph_condPred h \<and> branch_detected u h \<and> isIndirectCtrl inst \<and> \<not> isReturn inst)"

text \<open>The direction of a branch: unconditional branches are taken, the others ask the predictor.\<close>

definition direction ::
  "('c, 'ch, 'b, 'pc, 'i, 'ih) BPUParts \<Rightarrow> ('c, 'ch, 'b, 'pc, 'i, 'ih) BPredUnit \<Rightarrow> ThreadID \<Rightarrow> 'pc \<Rightarrow> StaticInst \<Rightarrow> bool" where
  "direction pt u tid pc inst \<longleftrightarrow>
     (if isCondCtrl inst
      then case cp_lookup (pt_cPred pt) (bu_cPred u) tid (po_instAddr (pt_pc pt) pc) None of Inr (d, _) \<Rightarrow> d | Inl _ \<Rightarrow> False
      else True)"

lemma provider_ok_frame:
  "bu_requiresBTBHit u' = bu_requiresBTBHit u \<Longrightarrow> provider_ok u' inst h = provider_ok u inst h"
  by (simp add: provider_ok_def branch_detected_def split: TargetProvider.splits)

lemma predict_direction_provider:
  assumes "predict_direction pt u tid pc h = Inr (u', h')"
  shows "bu_requiresBTBHit u' = bu_requiresBTBHit u" and "ph_predTaken h' = ph_condPred h'"
    and "bu_ras u' = bu_ras u" and "ph_rasHistory h' = ph_rasHistory h"
proof -
  have "bu_requiresBTBHit u' = bu_requiresBTBHit u \<and> ph_predTaken h' = ph_condPred h' \<and> bu_ras u' = bu_ras u \<and>
      ph_rasHistory h' = ph_rasHistory h"
  proof (cases "ph_uncond h")
    case True
    then show ?thesis using assms by (clarsimp simp: predict_direction_def)
  next
    case False
    then show ?thesis using assms by (clarsimp simp: predict_direction_def Let_def result_iffs)
  qed
  then show "bu_requiresBTBHit u' = bu_requiresBTBHit u" "ph_predTaken h' = ph_condPred h'"
    "bu_ras u' = bu_ras u" "ph_rasHistory h' = ph_rasHistory h" by blast+
qed

lemma predict_btb_provider:
  assumes "predict_btb pt tick u tid pc ty h = Inr (u', h')" and "ph_targetProvider h = NoTarget" and "ph_predTaken h = ph_condPred h"
  shows "bu_requiresBTBHit u' = bu_requiresBTBHit u \<and> ph_predTaken h' = ph_condPred h' \<and> provider_ok u inst h' \<and>
    bu_ras u' = bu_ras u \<and> ph_rasHistory h' = ph_rasHistory h \<and> ph_condPred h' = ph_condPred h"
proof -
  obtain r b where l: "btb_lookup (pt_btb pt) tick (bu_btb u) tid (po_instAddr (pt_pc pt) pc) ty = Inr (r, b)"
    using assms(1) by (auto simp: predict_btb_def Let_def result_iffs)
  show ?thesis
  proof (cases r)
    case None
    then show ?thesis using assms l by (clarsimp simp: predict_btb_def Let_def provider_ok_def)
  next
    case (Some t)
    then show ?thesis using assms l
      by (cases "ph_predTaken h"; clarsimp simp: predict_btb_def Let_def provider_ok_def)
  qed
qed

lemma predict_ras_provider:
  assumes "predict_ras pt u tid pc inst h = Inr (u', h')" and "ph_predTaken h = ph_condPred h" and "provider_ok u inst h"
  shows "bu_requiresBTBHit u' = bu_requiresBTBHit u \<and> ph_predTaken h' = ph_condPred h' \<and> provider_ok u inst h' \<and>
    ph_condPred h' = ph_condPred h"
proof (cases "bu_ras u = None \<or> \<not> branch_detected u h \<or> \<not> isCall inst \<and> \<not> isReturn inst")
  case True
  then have "predict_ras pt u tid pc inst h = Inr (u, h)" by (cases "bu_ras u") (auto simp: predict_ras_def)
  then show ?thesis using assms by simp
next
  case False
  then obtain r where r: "bu_ras u = Some r" "branch_detected u h" "isCall inst \<or> isReturn inst" by auto
  show ?thesis
  proof (cases "isCall inst")
    case True
    then show ?thesis using r assms
      by (clarsimp simp: predict_ras_def Let_def result_iffs provider_ok_def branch_detected_def split: TargetProvider.splits)
  next
    case False
    then obtain e r2 h2 where p: "ReturnAddrStack_pop r tid (ph_rasHistory h) = Inr (e, r2, h2)"
      using r assms(1) by (auto simp: predict_ras_def result_iffs)
    then show ?thesis using r False assms
      by (cases e; clarsimp simp: predict_ras_def provider_ok_def branch_detected_def split: TargetProvider.splits)
  qed
qed

lemma predict_indirect_provider:
  assumes "predict_indirect pt u tid sn pc inst h = Inr (u', h')" and "ph_predTaken h = ph_condPred h" and "provider_ok u inst h"
  shows "bu_requiresBTBHit u' = bu_requiresBTBHit u \<and> ph_predTaken h' = ph_condPred h' \<and> provider_ok u inst h' \<and>
    ph_condPred h' = ph_condPred h"
proof (cases "consults_indirect u inst h")
  case True
  then obtain r i h2 where l: "id_lookup (pt_iPred pt) (the (bu_iPred u)) tid sn (po_instAddr (pt_pc pt) pc) (ph_indirectHistory h) = Inr (r, i, h2)"
    using assms(1) by (auto simp: predict_indirect_def Let_def result_iffs)
  then show ?thesis using True assms
    by (cases r; clarsimp simp: predict_indirect_def Let_def provider_ok_def branch_detected_def consults_indirect_def
        split: TargetProvider.splits)
next
  case False
  then show ?thesis using assms by (simp add: predict_indirect_def)
qed

lemma predict_histories_keeps:
  assumes "predict_histories pt rnd u tid sn ty target h = Inr (u', h')"
  shows "\<exists>x y. h' = h\<lparr>ph_bpHistory := x, ph_indirectHistory := y\<rparr>"
proof -
  obtain c x where c: "cp_updateHistories (pt_cPred pt) (bu_cPred u) tid (ph_pc h) (ph_uncond h) (ph_predTaken h)
      (po_instAddr (pt_pc pt) target) (ph_inst h) (ph_bpHistory h) = Inr (c, x)"
    using assms by (auto simp: predict_histories_def result_iffs)
  show ?thesis
  proof (cases "bu_iPred u")
    case None
    then have "h' = h\<lparr>ph_bpHistory := x\<rparr>" using assms c by (simp add: predict_histories_def)
    then have "h' = h\<lparr>ph_bpHistory := x, ph_indirectHistory := ph_indirectHistory h\<rparr>" by simp
    then show ?thesis by blast
  next
    case (Some i)
    then obtain i2 y where "id_update (pt_iPred pt) rnd i tid sn (ph_pc h) False (ph_predTaken h) target ty (ph_indirectHistory h) = Inr (i2, y)"
      using assms c by (auto simp: predict_histories_def Let_def result_iffs)
    then have "h' = h\<lparr>ph_bpHistory := x, ph_indirectHistory := y\<rparr>"
      using assms c Some by (simp add: predict_histories_def)
    then show ?thesis by blast
  qed
qed

lemma predict_direction_condPred:
  assumes "predict_direction pt (u\<lparr>bu_stats := st\<rparr>) tid pc (PredictorHistory_new tid sn a inst) = Inr (u', h')"
  shows "ph_condPred h' = direction pt u tid pc inst"
proof (cases "isCondCtrl inst")
  case True
  then obtain d c h2 where "cp_lookup (pt_cPred pt) (bu_cPred u) tid (po_instAddr (pt_pc pt) pc) None = Inr (d, c, h2)"
    using assms by (auto simp: predict_direction_def PredictorHistory_new_def Let_def result_iffs)
  then show ?thesis using True assms by (clarsimp simp: predict_direction_def PredictorHistory_new_def Let_def direction_def)
next
  case False
  then show ?thesis using assms by (clarsimp simp: predict_direction_def PredictorHistory_new_def direction_def)
qed

text \<open>The stages of a prediction that returns.\<close>

lemma predict_histE:
  assumes "BPredUnit_predict_hist pt tick rnd u inst sn pc tid = Inr (taken, target, u', h)"
  obtains u1 h1 u2 h2 u3 h3 u4 h4 u5 where
    "predict_direction pt (u\<lparr>bu_stats := (bu_stats u)\<lparr>bs_lookups := count2 tid (getBranchType inst) (bs_lookups (bu_stats u))\<rparr>\<rparr>)
       tid pc (PredictorHistory_new tid sn (po_instAddr (pt_pc pt) pc) inst) = Inr (u1, h1)"
    and "predict_btb pt tick u1 tid pc (getBranchType inst) (h1\<lparr>ph_targetProvider := NoTarget\<rparr>) = Inr (u2, h2)"
    and "predict_ras pt u2 tid pc inst h2 = Inr (u3, h3)" and "predict_indirect pt u3 tid sn pc inst h3 = Inr (u4, h4)"
    and "ph_target (predict_fallthrough (pt_pc pt) pc inst h4) = Some target"
    and "predict_histories pt rnd u5 tid sn (getBranchType inst) target
       ((predict_fallthrough (pt_pc pt) pc inst h4)\<lparr>ph_actuallyTaken := ph_predTaken (predict_fallthrough (pt_pc pt) pc inst h4)\<rparr>)
         = Inr (u', h)" and "taken = ph_predTaken h"
proof -
  obtain u1 h1 where 1: "predict_direction pt (u\<lparr>bu_stats := (bu_stats u)\<lparr>bs_lookups := count2 tid (getBranchType inst) (bs_lookups (bu_stats u))\<rparr>\<rparr>)
       tid pc (PredictorHistory_new tid sn (po_instAddr (pt_pc pt) pc) inst) = Inr (u1, h1)"
    using assms unfolding BPredUnit_predict_hist_def Let_def bind_r_eq_Inr_iff by (elim exE conjE) fast
  obtain u2 h2 where 2: "predict_btb pt tick u1 tid pc (getBranchType inst) (h1\<lparr>ph_targetProvider := NoTarget\<rparr>) = Inr (u2, h2)"
    using assms unfolding BPredUnit_predict_hist_def Let_def 1 bind_r_simps prod.case bind_r_eq_Inr_iff by (elim exE conjE) fast
  obtain u3 h3 where 3: "predict_ras pt u2 tid pc inst h2 = Inr (u3, h3)"
    using assms unfolding BPredUnit_predict_hist_def Let_def 1 2 bind_r_simps prod.case bind_r_eq_Inr_iff by (elim exE conjE) fast
  obtain u4 h4 where 4: "predict_indirect pt u3 tid sn pc inst h3 = Inr (u4, h4)"
    using assms unfolding BPredUnit_predict_hist_def Let_def 1 2 3 bind_r_simps prod.case bind_r_eq_Inr_iff
    by (elim exE conjE) fast
  let ?h5 = "predict_fallthrough (pt_pc pt) pc inst h4"
  have 5: "(case ph_target ?h5 of None \<Rightarrow> Inl Undefined
      | Some target \<Rightarrow> bind_r (predict_histories pt rnd (u4\<lparr>bu_stats := (bu_stats u4)\<lparr>bs_targetProvider :=
                     count2 tid (ph_targetProvider ?h5) (bs_targetProvider (bu_stats u4))\<rparr>\<rparr>) tid sn (getBranchType inst) target
                     (?h5\<lparr>ph_actuallyTaken := ph_predTaken ?h5\<rparr>)) (\<lambda>(u, hist). Inr (ph_predTaken hist, target, u, hist))) =
      Inr (taken, target, u', h)"
    using assms unfolding BPredUnit_predict_hist_def Let_def 1 2 3 4 bind_r_simps prod.case by simp
  then have "ph_target ?h5 = Some target" by (auto simp: result_iffs split: option.splits)
  with 5 show thesis by (intro that [OF 1 2 3 4]) (auto simp: result_iffs)
qed

lemma prediction_provider:
  assumes "BPredUnit_predict_hist pt tick rnd u inst sn pc tid = Inr (taken, target, u', h)"
  shows "ph_predTaken h = taken \<and> ph_actuallyTaken h = taken \<and> ph_target h = Some target \<and> provider_ok u inst h \<and>
    (if ph_targetProvider h = NoTarget then \<not> taken \<and> target = po_advancePC (pt_pc pt) inst pc else taken = ph_condPred h) \<and>
    ph_condPred h = direction pt u tid pc inst"
proof -
  obtain u1 h1 u2 h2 u3 h3 u4 h4 u5 where
    s: "predict_direction pt (u\<lparr>bu_stats := (bu_stats u)\<lparr>bs_lookups := count2 tid (getBranchType inst) (bs_lookups (bu_stats u))\<rparr>\<rparr>)
       tid pc (PredictorHistory_new tid sn (po_instAddr (pt_pc pt) pc) inst) = Inr (u1, h1)"
    "predict_btb pt tick u1 tid pc (getBranchType inst) (h1\<lparr>ph_targetProvider := NoTarget\<rparr>) = Inr (u2, h2)"
    "predict_ras pt u2 tid pc inst h2 = Inr (u3, h3)" "predict_indirect pt u3 tid sn pc inst h3 = Inr (u4, h4)"
    "ph_target (predict_fallthrough (pt_pc pt) pc inst h4) = Some target"
    "predict_histories pt rnd u5 tid sn (getBranchType inst) target
       ((predict_fallthrough (pt_pc pt) pc inst h4)\<lparr>ph_actuallyTaken := ph_predTaken (predict_fallthrough (pt_pc pt) pc inst h4)\<rparr>)
         = Inr (u', h)" "taken = ph_predTaken h"
    by (rule predict_histE [OF assms])
  note d = predict_direction_provider [OF s(1)]
  obtain x y where h: "h = (predict_fallthrough (pt_pc pt) pc inst h4)\<lparr>ph_actuallyTaken := ph_predTaken (predict_fallthrough (pt_pc pt) pc inst h4),
      ph_bpHistory := x, ph_indirectHistory := y\<rparr>"
    using predict_histories_keeps [OF s(6)] by auto
  let ?d = "direction pt u tid pc inst"
  have b: "bu_requiresBTBHit u2 = bu_requiresBTBHit u" "ph_predTaken h2 = ph_condPred h2" "provider_ok u1 inst h2"
      "ph_condPred h2 = ?d"
    using predict_btb_provider [OF s(2), of inst] d predict_direction_condPred [OF s(1)] by simp_all
  have "provider_ok u2 inst h2" using b(3) provider_ok_frame [of u2 u1 inst h2] b(1) d(1) by simp
  then have r: "bu_requiresBTBHit u3 = bu_requiresBTBHit u" "ph_predTaken h3 = ph_condPred h3" "provider_ok u2 inst h3"
      "ph_condPred h3 = ?d"
    using predict_ras_provider [OF s(3)] b by simp_all
  have "provider_ok u3 inst h3" using r(3) provider_ok_frame [of u3 u2 inst h3] r(1) b(1) by simp
  then have i: "ph_predTaken h4 = ph_condPred h4" "provider_ok u inst h4" "ph_condPred h4 = ?d"
    using predict_indirect_provider [OF s(4) r(2)] provider_ok_frame [of u3 u inst h4] r(1,4) by simp_all
  show ?thesis
  proof (cases "ph_targetProvider h4 = NoTarget")
    case True
    then show ?thesis using s(5,7) i(3) unfolding h by (simp add: predict_fallthrough_def provider_ok_def)
  next
    case False
    then show ?thesis using i s(5,7) unfolding h
      by (simp add: predict_fallthrough_def provider_ok_def branch_detected_def split: TargetProvider.splits)
  qed
qed

text \<open>A return takes the popped address, whatever its direction.\<close>

lemma return_target:
  assumes "BPredUnit_predict_hist pt tick rnd u inst sn pc tid = Inr (taken, target, u', h)"
    and "bu_ras u = Some r" and "ReturnAddrStack_pop r tid None = Inr (Some a, r', rh)"
    and "isReturn inst" and "\<not> isCall inst" and "\<not> bu_requiresBTBHit u"
  shows "target = a \<and> ph_targetProvider h = RAS"
proof -
  obtain u1 h1 u2 h2 u3 h3 u4 h4 u5 where
    s: "predict_direction pt (u\<lparr>bu_stats := (bu_stats u)\<lparr>bs_lookups := count2 tid (getBranchType inst) (bs_lookups (bu_stats u))\<rparr>\<rparr>)
       tid pc (PredictorHistory_new tid sn (po_instAddr (pt_pc pt) pc) inst) = Inr (u1, h1)"
    "predict_btb pt tick u1 tid pc (getBranchType inst) (h1\<lparr>ph_targetProvider := NoTarget\<rparr>) = Inr (u2, h2)"
    "predict_ras pt u2 tid pc inst h2 = Inr (u3, h3)" "predict_indirect pt u3 tid sn pc inst h3 = Inr (u4, h4)"
    "ph_target (predict_fallthrough (pt_pc pt) pc inst h4) = Some target"
    "predict_histories pt rnd u5 tid sn (getBranchType inst) target
       ((predict_fallthrough (pt_pc pt) pc inst h4)\<lparr>ph_actuallyTaken := ph_predTaken (predict_fallthrough (pt_pc pt) pc inst h4)\<rparr>)
         = Inr (u', h)" "taken = ph_predTaken h"
    by (rule predict_histE [OF assms(1)])
  have d: "bu_ras u1 = Some r" "ph_rasHistory h1 = None" "\<not> bu_requiresBTBHit u1" "ph_predTaken h1 = ph_condPred h1"
    using predict_direction_provider [OF s(1)] assms(2,6) by (simp_all add: PredictorHistory_new_def)
  have b: "bu_ras u2 = Some r" "ph_rasHistory h2 = None" "\<not> bu_requiresBTBHit u2"
    using predict_btb_provider [OF s(2)] d by simp_all
  have r: "ph_target h3 = Some a" "ph_targetProvider h3 = RAS"
    using s(3) b assms(3-5) by (clarsimp simp: predict_ras_def branch_detected_def)+
  have i: "h4 = h3" using s(4) assms(4) by (simp add: predict_indirect_def consults_indirect_def)
  have f: "predict_fallthrough (pt_pc pt) pc inst h4 = h4" using r i by (simp add: predict_fallthrough_def)
  show ?thesis using s(5) r i predict_histories_keeps [OF s(6)] unfolding f by auto
qed

end
