(* ===== verification/BPred_Unit_Histories.thy ===== *)
theory BPred_Unit_Histories
  imports BPred_Unit
begin

text \<open>
  The branch prediction unit keeps its parts consistent.  The locale \<open>bpu\<close> combines the contracts
  of a direction predictor, an indirect target predictor and a branch target buffer, and derives for
  any such parts that every sequence of predictions, commits, squashes and corrections of one thread
  returns, and that afterwards the speculative histories of the parts are those of the committed
  branches followed by the branches in flight, each with its final direction and target.
\<close>

section \<open>The return address stack never fails\<close>

definition ras_wf :: "nat \<Rightarrow> ThreadID \<Rightarrow> 'pc ReturnAddrStack \<Rightarrow> bool" where
  "ras_wf n tid r \<longleftrightarrow> tid < length (ras_addrStacks r) \<and> AddrStack_wf n (ras_addrStacks r ! tid)"

definition ras_hist_ok :: "nat \<Rightarrow> 'pc RASHistory option \<Rightarrow> bool" where
  "ras_hist_ok n h \<longleftrightarrow> (case h of None \<Rightarrow> True | Some r \<Rightarrow> rh_poped r \<longrightarrow> unat (rh_tos r) < n)"

lemma AddrStack_wf_restore:
  assumes "AddrStack_wf n s" and "unat tos < n"
  shows "\<exists>s'. AddrStack_restore s tos e = Inr s' \<and> AddrStack_wf n s'"
proof -
  have "unat (as_numEntries s) = n" "length (as_addrStack s) = n" "unat (as_usedEntries s) \<le> n"
    using assms(1) by (auto simp: AddrStack_wf_def)
  moreover have "unat (as_usedEntries s + 1) \<le> n" if "as_usedEntries s \<noteq> as_numEntries s"
  proof -
    have "unat (as_usedEntries s) < n" using that calculation by (simp add: word_unat_eq_iff)
    moreover have "unat (as_numEntries s) < 2 ^ 32" using unsigned_less [of "as_numEntries s"] by simp
    ultimately show ?thesis using \<open>unat (as_numEntries s) = n\<close> by (simp add: unat_word_ariths)
  qed
  ultimately show ?thesis
    using assms by (auto simp: AddrStack_restore_eq AddrStack_wf_def)
qed

lemma AddrStack_wf_push:
  assumes "AddrStack_wf n s"
  shows "\<exists>s'. AddrStack_push s p = Inr s' \<and> AddrStack_wf n s'"
proof -
  have t: "unat (as_tos s) < n" "unat (as_numEntries s) = n" using assms by (auto simp: AddrStack_wf_def)
  then have "unat (as_tos (AddrStack_incrTos s)) < n"
    using unat_up [of "as_tos s" "as_numEntries s"] by (simp add: AddrStack_incrTos_def Let_def)
  then show ?thesis unfolding AddrStack_push_eq_restore by (rule AddrStack_wf_restore [OF assms])
qed

lemma AddrStack_wf_pop:
  assumes "AddrStack_wf n s"
  shows "AddrStack_wf n (AddrStack_pop s)"
proof -
  have t: "unat (as_tos s) < n" "unat (as_numEntries s) = n" "unat (as_usedEntries s) \<le> n"
    using assms by (auto simp: AddrStack_wf_def)
  then have "unat (as_tos (AddrStack_decrTos s)) < n"
    using unat_down [of "as_tos s" "as_numEntries s"] by (simp add: AddrStack_decrTos_def)
  moreover have "unat (as_usedEntries s - 1) \<le> n" if "as_usedEntries s \<noteq> 0"
    using that t(3) by (simp add: unat_minus_one)
  ultimately show ?thesis
    using assms by (auto simp: AddrStack_wf_def AddrStack_pop_def AddrStack_decrTos_def word_gt_0)
qed

lemma ras_push_ok:
  assumes "ras_wf n tid r" and "ras_hist_ok n h"
  shows "\<exists>r' h'. ReturnAddrStack_push r tid p h = Inr (r', h') \<and> ras_wf n tid r' \<and> ras_hist_ok n h'"
proof -
  obtain s' where "AddrStack_push (ras_addrStacks r ! tid) p = Inr s'" "AddrStack_wf n s'"
    using AddrStack_wf_push [of n "ras_addrStacks r ! tid" p] assms(1) by (auto simp: ras_wf_def)
  then show ?thesis
    using assms by (cases h) (simp_all add: ReturnAddrStack_push_def ras_wf_def ras_hist_ok_def makeRASHistory_def Let_def)
qed

lemma ras_pop_ok:
  assumes "ras_wf n tid r" and "ras_hist_ok n h"
  shows "\<exists>e r' h'. ReturnAddrStack_pop r tid h = Inr (e, r', h') \<and> ras_wf n tid r' \<and> ras_hist_ok n h'"
proof -
  let ?s = "ras_addrStacks r ! tid"
  have "AddrStack_top ?s = Inr (as_addrStack ?s ! unat (as_tos ?s))" "AddrStack_wf n (AddrStack_pop ?s)"
    using assms(1) AddrStack_wf_pop [of n ?s] by (auto simp: ras_wf_def AddrStack_top_def AddrStack_wf_def)
  then show ?thesis
    using assms by (cases h)
      (simp_all add: ReturnAddrStack_pop_def ras_wf_def ras_hist_ok_def AddrStack_wf_def makeRASHistory_def Let_def)
qed

lemma ras_squash_ok:
  assumes "ras_wf n tid r" and "ras_hist_ok n h"
  shows "\<exists>r'. ReturnAddrStack_squash r tid h = Inr (r', None) \<and> ras_wf n tid r'"
proof (cases h)
  case None
  then show ?thesis using assms(1) by (simp add: ReturnAddrStack_squash_def)
next
  case (Some g)
  let ?s = "ras_addrStacks r ! tid" let ?p = "if rh_pushed g then AddrStack_pop ?s else ?s"
  have wf: "AddrStack_wf n ?p" and tid: "tid < length (ras_addrStacks r)"
    using assms(1) AddrStack_wf_pop [of n ?s] by (simp_all add: ras_wf_def)
  obtain s' where s': "rh_poped g \<Longrightarrow> AddrStack_restore ?p (rh_tos g) (rh_ras_entry g) = Inr s'" "rh_poped g \<Longrightarrow> AddrStack_wf n s'"
    using AddrStack_wf_restore [OF wf, of "rh_tos g" "rh_ras_entry g"] assms(2) Some by (auto simp: ras_hist_ok_def)
  show ?thesis
    using s' wf tid Some
    by (cases "rh_pushed g"; cases "rh_poped g") (simp_all add: ReturnAddrStack_squash_def ras_wf_def Let_def)
qed

lemma ras_commit_ok:
  assumes "ras_wf n tid r" and "h = None \<or> type = Return \<or> type = CallDirect \<or> type = CallIndirect"
  shows "\<exists>r'. ReturnAddrStack_commit r tid m type h = Inr (r', None) \<and> ras_wf n tid r'"
  using assms by (cases h) (auto simp: ReturnAddrStack_commit_def ras_wf_def Let_def)

section \<open>What the unit keeps of a branch\<close>

definition branch_of :: "'pc PCOps \<Rightarrow> ('ch, 'pc, 'ih) PredictorHistory \<Rightarrow> branch" where
  "branch_of po h = \<lparr>br_tid = ph_tid h, br_pc = ph_pc h, br_uncond = ph_uncond h, br_inst = ph_inst h,
     br_taken = ph_actuallyTaken h, br_target = po_instAddr po (the (ph_target h))\<rparr>"

definition agrees :: "'pc indirect_op \<Rightarrow> ('ch, 'pc, 'ih) PredictorHistory \<Rightarrow> bool" where
  "agrees op h \<longleftrightarrow> io_sn op = ph_seqNum h \<and> io_pc op = ph_pc h \<and> io_taken op = ph_actuallyTaken h \<and>
     Some (io_target op) = ph_target h \<and> io_type op = ph_type h"

definition ph_wf :: "'pc PCOps \<Rightarrow> ThreadID \<Rightarrow> ('ch, 'pc, 'ih) PredictorHistory \<Rightarrow> bool" where
  "ph_wf po tid h \<longleftrightarrow> ph_tid h = tid \<and> ph_target h \<noteq> None \<and> ph_type h = getBranchType (ph_inst h) \<and>
     ph_call h = isCall (ph_inst h) \<and> (ph_rasHistory h \<noteq> None \<longrightarrow> isCall (ph_inst h) \<or> isReturn (ph_inst h)) \<and>
     (isCall (ph_inst h) \<longrightarrow> po_size po (ph_inst h) \<noteq> 0)"

definition ras_inv ::
  "nat \<Rightarrow> ThreadID \<Rightarrow> 'pc ReturnAddrStack option \<Rightarrow> ('ch, 'pc, 'ih) PredictorHistory list \<Rightarrow> bool" where
  "ras_inv n tid ro q \<longleftrightarrow>
     (case ro of None \<Rightarrow> list_all (\<lambda>h. ph_rasHistory h = None) q
      | Some r \<Rightarrow> ras_wf n tid r \<and> list_all (\<lambda>h. ras_hist_ok n (ph_rasHistory h)) q)"

lemma getBranchType_ras:
  "isCall i \<or> isReturn i \<Longrightarrow> getBranchType i = Return \<or> getBranchType i = CallDirect \<or> getBranchType i = CallIndirect"
  by (auto simp: getBranchType_def)

lemma getBranchType_Return [simp]: "getBranchType i = Return \<longleftrightarrow> isReturn i"
  by (auto simp: getBranchType_def)

lemma agrees_indirectHistory [simp]: "agrees op (h\<lparr>ph_indirectHistory := x\<rparr>) = agrees op h"
  by (simp add: agrees_def)

lemma branch_of_sel [simp]:
  "br_tid (branch_of po h) = ph_tid h" "br_pc (branch_of po h) = ph_pc h" "br_inst (branch_of po h) = ph_inst h"
  "br_taken (branch_of po h) = ph_actuallyTaken h" "br_target (branch_of po h) = po_instAddr po (the (ph_target h))"
  by (simp_all add: branch_of_def)

lemma field_same:
  "bu_iPred u = x \<Longrightarrow> u\<lparr>bu_iPred := x\<rparr> = u" "bu_ras u = y \<Longrightarrow> u\<lparr>bu_ras := y\<rparr> = u"
  "ph_indirectHistory h = z \<Longrightarrow> h\<lparr>ph_indirectHistory := z\<rparr> = h" "ph_rasHistory h = w \<Longrightarrow> h\<lparr>ph_rasHistory := w\<rparr> = h"
  by auto

section \<open>The unit over parts that keep their contracts\<close>

locale bpu =
  cp: speculative_history "pt_cPred pt" inv cfg br_ok hist_ok view push undo +
  ip: speculation "indirect_spec (pt_iPred pt)" "\<lambda>_ _ _. True" same_kind itracks ihist iapply itid +
  tb: target_buffer "pt_btb pt" btb_inv
  for pt :: "('c, 'ch, 'b, 'pc, 'i, 'ih) BPUParts"
    and inv :: "'c \<Rightarrow> bool" and cfg :: "'c \<Rightarrow> 'k" and br_ok :: "'k \<Rightarrow> branch \<Rightarrow> bool"
    and hist_ok :: "'k \<Rightarrow> branch \<Rightarrow> 'ch option \<Rightarrow> bool" and view :: "'c \<Rightarrow> 'v"
    and push :: "'k \<Rightarrow> branch \<Rightarrow> 'v \<Rightarrow> 'v" and undo :: "'k \<Rightarrow> branch \<Rightarrow> 'ch option \<Rightarrow> 'v \<Rightarrow> 'v"
    and itracks :: "'i \<Rightarrow> (ThreadID \<Rightarrow> 'w) \<Rightarrow> bool" and ihist :: "'pc indirect_op \<Rightarrow> 'ih option \<Rightarrow> 'w \<Rightarrow> bool"
    and iapply :: "'pc indirect_op \<Rightarrow> 'w \<Rightarrow> 'w" and itid :: "ThreadID \<Rightarrow> bool"
    and btb_inv :: "'b \<Rightarrow> bool"
begin

abbreviation "po \<equiv> pt_pc pt"

definition cond_inv ::
  "'k \<Rightarrow> 'v \<Rightarrow> 'c \<Rightarrow> ('ch, 'pc, 'ih) PredictorHistory list \<Rightarrow> ('ch, 'pc, 'ih) PredictorHistory list \<Rightarrow> bool" where
  "cond_inv c v0 s q log \<longleftrightarrow>
     cp.tracks c v0 (s, map (\<lambda>h. (branch_of po h, ph_bpHistory h)) q) (map (branch_of po) q, map (branch_of po) log)"

definition ind_inv ::
  "'w \<Rightarrow> ThreadID \<Rightarrow> 'i option \<Rightarrow> ('ch, 'pc, 'ih) PredictorHistory list \<Rightarrow>
   ('ch, 'pc, 'ih) PredictorHistory list \<Rightarrow> bool" where
  "ind_inv w0 tid io q log \<longleftrightarrow>
     (case io of None \<Rightarrow> list_all (\<lambda>h. ph_indirectHistory h = None) q
      | Some i \<Rightarrow> \<exists>ops dops. list_all2 agrees ops q \<and> list_all2 agrees dops log \<and>
          ip.ghost w0 (i, (\<lambda>_. [])(tid := zip ops (map ph_indirectHistory q))) ((\<lambda>_. [])(tid := dops)))"

lemma ind_invI:
  assumes "list_all2 agrees ops q" and "list_all2 agrees dops log"
    and "ip.ghost w0 (i, (\<lambda>_. [])(tid := zip ops (map ph_indirectHistory q))) ((\<lambda>_. [])(tid := dops))"
  shows "ind_inv w0 tid (Some i) q log"
  using assms unfolding ind_inv_def option.case by blast

lemma ind_inv_ConsE:
  assumes "ind_inv w0 tid (Some i) (h # q) log"
  obtains op ops dops where "agrees op h" "list_all2 agrees ops q" "list_all2 agrees dops log"
    "ip.ghost w0 (i, (\<lambda>_. [])(tid := (op, ph_indirectHistory h) # zip ops (map ph_indirectHistory q)))
       ((\<lambda>_. [])(tid := dops))"
  using assms by (auto simp: ind_inv_def list_all2_Cons2)

lemma ind_undo:
  assumes "ind_inv w0 tid (Some i) (h # q) log" and "itid tid"
  shows "\<exists>i'. id_squash (pt_iPred pt) i tid (ph_seqNum h) (ph_indirectHistory h) = Inr (i', None) \<and>
    ind_inv w0 tid (Some i') q log"
proof -
  obtain op ops dops where o: "agrees op h" "list_all2 agrees ops q" "list_all2 agrees dops log"
      "ip.ghost w0 (i, (\<lambda>_. [])(tid := (op, ph_indirectHistory h) # zip ops (map ph_indirectHistory q)))
         ((\<lambda>_. [])(tid := dops))"
    by (rule ind_inv_ConsE [OF assms(1)])
  from ip.ghost_undo [OF o(4) assms(2), of op "ph_indirectHistory h" "zip ops (map ph_indirectHistory q)"]
  obtain i' where i': "so_undo (indirect_spec (pt_iPred pt)) i tid op (ph_indirectHistory h) = Inr (i', None)"
      "ip.ghost w0 (i', (\<lambda>_. [])(tid := zip ops (map ph_indirectHistory q))) ((\<lambda>_. [])(tid := dops))"
    by auto
  show ?thesis
    using i'(1) o(1) ind_invI [OF o(2,3) i'(2)] by (simp add: indirect_spec_def agrees_def)
qed

lemma ind_redo:
  assumes "ind_inv w0 tid (Some i) (h # q) log" and "itid tid"
    and "ph_seqNum h' = ph_seqNum h" "ph_pc h' = ph_pc h" "ph_type h' = ph_type h"
    and "ph_actuallyTaken h' = taken" "ph_target h' = Some target"
  shows "\<exists>i' hh. id_update (pt_iPred pt) rnd i tid sn (ph_pc h) True taken target (ph_type h) (ph_indirectHistory h) =
      Inr (i', hh) \<and> ind_inv w0 tid (Some i') (h'\<lparr>ph_indirectHistory := hh\<rparr> # q) log"
proof -
  obtain op ops dops where o: "agrees op h" "list_all2 agrees ops q" "list_all2 agrees dops log"
      "ip.ghost w0 (i, (\<lambda>_. [])(tid := (op, ph_indirectHistory h) # zip ops (map ph_indirectHistory q)))
         ((\<lambda>_. [])(tid := dops))"
    by (rule ind_inv_ConsE [OF assms(1)])
  define op' where "op' = \<lparr>io_sn = ph_seqNum h, io_update_sn = sn, io_pc = ph_pc h, io_lookup = False,
    io_taken = taken, io_target = target, io_type = ph_type h, io_rand = rnd\<rparr>"
  have "same_kind op op'" using o(1) by (simp add: agrees_def op'_def)
  from ip.ghost_redo [OF o(4) assms(2), of op "ph_indirectHistory h" "zip ops (map ph_indirectHistory q)" op'] this
  obtain i' hh where i': "so_redo (indirect_spec (pt_iPred pt)) i tid op op' (ph_indirectHistory h) = Inr (i', hh)"
      "ip.ghost w0 (i', (\<lambda>_. [])(tid := (op', hh) # zip ops (map ph_indirectHistory q))) ((\<lambda>_. [])(tid := dops))"
    by auto
  have "agrees op' h'" using assms(3-7) by (simp add: agrees_def op'_def)
  then have "ind_inv w0 tid (Some i') (h'\<lparr>ph_indirectHistory := hh\<rparr> # q) log"
    using i'(2) o(2,3) by (intro ind_invI [of "op' # ops" _ dops]) simp_all
  then show ?thesis using i'(1) by (simp add: indirect_spec_def op'_def)
qed

lemma ind_retire:
  assumes "ind_inv w0 tid (Some i) (q @ [h]) log" and "itid tid"
  shows "\<exists>i'. id_commit (pt_iPred pt) i tid (ph_seqNum h) (ph_indirectHistory h) = Inr (i', None) \<and>
    ind_inv w0 tid (Some i') q (h # log)"
proof -
  obtain ops0 dops where o0: "list_all2 agrees ops0 (q @ [h])" "list_all2 agrees dops log"
      "ip.ghost w0 (i, (\<lambda>_. [])(tid := zip ops0 (map ph_indirectHistory (q @ [h])))) ((\<lambda>_. [])(tid := dops))"
    using assms(1) unfolding ind_inv_def option.case by blast
  obtain ops op where ops: "ops0 = ops @ [op]" "list_all2 agrees ops q" "agrees op h"
    using o0(1) by (auto simp: list_all2_append2 list_all2_Cons2)
  have len: "length ops = length q" using ops(2) by (rule list_all2_lengthD)
  let ?fl = "(\<lambda>_. [])(tid := zip ops (map ph_indirectHistory q) @ [(op, ph_indirectHistory h)])"
  have "ip.ghost w0 (i, ?fl) ((\<lambda>_. [])(tid := dops))" using o0(3) len by (simp add: ops(1))
  from ip.ghost_retire [OF this assms(2)] obtain i' where
      i': "so_retire (indirect_spec (pt_iPred pt)) i tid False op (ph_indirectHistory h) = Inr (i', None)"
      "ip.ghost w0 (i', (\<lambda>_. [])(tid := zip ops (map ph_indirectHistory q))) ((\<lambda>_. [])(tid := op # dops))"
    by auto
  have "ind_inv w0 tid (Some i') q (h # log)"
    using i'(2) ops(2,3) o0(2) by (intro ind_invI [of ops _ "op # dops"]) simp_all
  then show ?thesis using i'(1) ops(3) by (simp add: indirect_spec_def agrees_def)
qed

lemma ind_predict:
  assumes "ind_inv w0 tid (Some i) q log" and "itid tid"
  shows "\<exists>r i1 h1. (if consult then id_lookup (pt_iPred pt) i tid sn pc None = Inr (r, i1, h1) else i1 = i \<and> h1 = None) \<and>
    (\<forall>taken target type h. ph_seqNum h = sn \<and> ph_pc h = pc \<and> ph_type h = type \<and> ph_actuallyTaken h = taken \<and>
        ph_target h = Some target \<longrightarrow>
      (\<exists>i2 h2. id_update (pt_iPred pt) rnd i1 tid sn pc False taken target type h1 = Inr (i2, h2) \<and>
        ind_inv w0 tid (Some i2) (h\<lparr>ph_indirectHistory := h2\<rparr> # q) log))"
proof -
  obtain ops dops where o: "list_all2 agrees ops q" "list_all2 agrees dops log"
      "ip.ghost w0 (i, (\<lambda>_. [])(tid := zip ops (map ph_indirectHistory q))) ((\<lambda>_. [])(tid := dops))"
    using assms(1) unfolding ind_inv_def option.case by blast
  let ?op = "\<lambda>taken target type. \<lparr>io_sn = sn, io_update_sn = sn, io_pc = pc, io_lookup = consult, io_taken = taken,
    io_target = target, io_type = type, io_rand = rnd\<rparr>"
  have do: "\<exists>r i2 h2. so_do (indirect_spec (pt_iPred pt)) i tid (?op taken target type) = Inr (r, i2, h2) \<and>
      ip.ghost w0 (i2, (\<lambda>_. [])(tid := (?op taken target type, h2) # zip ops (map ph_indirectHistory q)))
        ((\<lambda>_. [])(tid := dops))" for taken target type
    using ip.ghost_do [OF o(3) assms(2), of "?op taken target type"] by simp
  obtain r i1 h1 where l: "(if consult then id_lookup (pt_iPred pt) i tid sn pc None else Inr (None, i, None)) = Inr (r, i1, h1)"
    using do [of undefined undefined undefined] by (cases consult) (auto simp: indirect_spec_def result_iffs)
  have "\<exists>i2 h2. id_update (pt_iPred pt) rnd i1 tid sn pc False taken target type h1 = Inr (i2, h2) \<and>
        ind_inv w0 tid (Some i2) (h\<lparr>ph_indirectHistory := h2\<rparr> # q) log"
    if h: "ph_seqNum h = sn \<and> ph_pc h = pc \<and> ph_type h = type \<and> ph_actuallyTaken h = taken \<and> ph_target h = Some target"
    for taken target type and h :: "('ch, 'pc, 'ih) PredictorHistory"
  proof -
    obtain i2 h2 where u: "id_update (pt_iPred pt) rnd i1 tid sn pc False taken target type h1 = Inr (i2, h2)"
        "ip.ghost w0 (i2, (\<lambda>_. [])(tid := (?op taken target type, h2) # zip ops (map ph_indirectHistory q)))
          ((\<lambda>_. [])(tid := dops))"
      using do [of taken target type] l by (cases consult) (auto simp: indirect_spec_def result_iffs)
    have "agrees (?op taken target type) h" using h by (simp add: agrees_def)
    then have "ind_inv w0 tid (Some i2) (h\<lparr>ph_indirectHistory := h2\<rparr> # q) log"
      using u(2) o(1,2) by (intro ind_invI [of "?op taken target type # ops" _ dops]) simp_all
    then show ?thesis using u(1) by blast
  qed
  then show ?thesis using l
    by (intro exI [of _ r] exI [of _ i1] exI [of _ h1]) (auto split: if_splits)
qed

lemma cond_predict:
  assumes "cond_inv c v0 s q log" and "\<forall>br. br_tid br = tid \<longrightarrow> br_ok c br"
  shows "\<exists>b s1 h1. (if uncond then s1 = s \<and> h1 = None else cp_lookup (pt_cPred pt) s tid pc None = Inr (b, s1, h1)) \<and>
    (\<forall>taken target h. ph_tid h = tid \<and> ph_pc h = pc \<and> ph_uncond h = uncond \<and> ph_inst h = inst \<and>
        ph_actuallyTaken h = taken \<and> ph_target h = Some target \<longrightarrow>
      (\<exists>s2 h2. cp_updateHistories (pt_cPred pt) s1 tid pc uncond taken (po_instAddr po target) inst h1 = Inr (s2, h2) \<and>
        cond_inv c v0 s2 (h\<lparr>ph_bpHistory := h2\<rparr> # q) log))"
proof -
  let ?br = "\<lambda>taken target. \<lparr>br_tid = tid, br_pc = pc, br_uncond = uncond, br_inst = inst, br_taken = taken,
    br_target = target\<rparr>"
  have sp: "\<exists>b s2 h2. speculate (pt_cPred pt) s (?br taken target) = Inr (b, s2, h2) \<and>
      cp.tracks c v0 (s2, (?br taken target, h2) # map (\<lambda>h. (branch_of po h, ph_bpHistory h)) q)
        (?br taken target # map (branch_of po) q, map (branch_of po) log)" for taken target
    using cp.tracks_speculate [OF assms(1) [unfolded cond_inv_def], of "?br taken target"] assms(2) by simp
  obtain b s1 h1 where l: "(if uncond then Inr (True, s, None) else cp_lookup (pt_cPred pt) s tid pc None) = Inr (b, s1, h1)"
    using sp [of undefined undefined] by (auto simp: speculate_def result_iffs split: if_splits)
  have "\<exists>s2 h2. cp_updateHistories (pt_cPred pt) s1 tid pc uncond taken (po_instAddr po target) inst h1 = Inr (s2, h2) \<and>
        cond_inv c v0 s2 (h\<lparr>ph_bpHistory := h2\<rparr> # q) log"
    if h: "ph_tid h = tid \<and> ph_pc h = pc \<and> ph_uncond h = uncond \<and> ph_inst h = inst \<and>
        ph_actuallyTaken h = taken \<and> ph_target h = Some target"
    for taken target and h :: "('ch, 'pc, 'ih) PredictorHistory"
  proof -
    obtain s2 h2 where u: "cp_updateHistories (pt_cPred pt) s1 tid pc uncond taken (po_instAddr po target) inst h1 = Inr (s2, h2)"
        "cp.tracks c v0 (s2, (?br taken (po_instAddr po target), h2) # map (\<lambda>h. (branch_of po h, ph_bpHistory h)) q)
          (?br taken (po_instAddr po target) # map (branch_of po) q, map (branch_of po) log)"
      using sp [of taken "po_instAddr po target"] l by (auto simp: speculate_def result_iffs split: if_splits)
    have "branch_of po (h\<lparr>ph_bpHistory := h2\<rparr>) = ?br taken (po_instAddr po target)"
      using h by (simp add: branch_of_def)
    then show ?thesis using u by (simp add: cond_inv_def)
  qed
  then show ?thesis using l
    by (intro exI [of _ b] exI [of _ s1] exI [of _ h1]) (auto split: if_splits)
qed

lemma cond_squash:
  assumes "cond_inv c v0 s (h # q) log"
  shows "\<exists>s'. cp_squash (pt_cPred pt) s (ph_tid h) (ph_bpHistory h) = Inr (s', None) \<and> cond_inv c v0 s' q log"
  using cp.tracks_squash [OF assms [unfolded cond_inv_def list.map]] by (simp add: cond_inv_def)

lemma cond_correct:
  assumes "cond_inv c v0 s (h # q) log"
    and "branch_of po h' = (branch_of po h)\<lparr>br_taken := taken, br_target := target\<rparr>" and "ph_bpHistory h' = ph_bpHistory h"
  shows "\<exists>s'. cp_update (pt_cPred pt) s (ph_tid h) (ph_pc h) taken (ph_bpHistory h) True (ph_inst h) target =
      Inr (s', ph_bpHistory h) \<and> cond_inv c v0 s' (h' # q) log"
  using cp.tracks_repair [OF assms(1) [unfolded cond_inv_def list.map], of taken target] assms(2,3)
  by (simp add: cond_inv_def)

lemma cond_commit:
  assumes "cond_inv c v0 s (q @ [h]) log"
  shows "\<exists>s'. cp_update (pt_cPred pt) s (ph_tid h) (ph_pc h) (ph_actuallyTaken h) (ph_bpHistory h) False (ph_inst h)
      (po_instAddr po (the (ph_target h))) = Inr (s', None) \<and> cond_inv c v0 s' q (h # log)"
  using cp.tracks_commit [OF assms [unfolded cond_inv_def map_append list.map]] by (simp add: cond_inv_def)

text \<open>The stages of the operations, each on its own part of the unit.\<close>

lemma commit_ind:
  assumes "ind_inv w0 tid (bu_iPred u) (q @ [h]) log" and "itid tid"
    and "ph_seqNum hist = ph_seqNum h" "ph_indirectHistory hist = ph_indirectHistory h"
  shows "\<exists>io. (case bu_iPred u of None \<Rightarrow> Inr (u, hist)
      | Some i \<Rightarrow> bind_r (id_commit (pt_iPred pt) i tid (ph_seqNum hist) (ph_indirectHistory hist))
          (\<lambda>(i, h). Inr (u\<lparr>bu_iPred := Some i\<rparr>, hist\<lparr>ph_indirectHistory := h\<rparr>))) =
      Inr (u\<lparr>bu_iPred := io\<rparr>, hist\<lparr>ph_indirectHistory := None\<rparr>) \<and> ind_inv w0 tid io q (h # log) \<and>
      (io = None \<longleftrightarrow> bu_iPred u = None)"
proof (cases "bu_iPred u")
  case None
  then have "ph_indirectHistory hist = None" "ind_inv w0 tid None q (h # log)"
    using assms(1,4) by (simp_all add: ind_inv_def)
  then show ?thesis using None by (intro exI [of _ None]) (simp add: field_same)
next
  case (Some i)
  obtain i' where "id_commit (pt_iPred pt) i tid (ph_seqNum h) (ph_indirectHistory h) = Inr (i', None)"
      "ind_inv w0 tid (Some i') q (h # log)"
    using ind_retire [OF assms(1) [unfolded Some] assms(2)] by blast
  then show ?thesis using Some assms(3,4) by (intro exI [of _ "Some i'"]) simp
qed

lemma squash_ind:
  assumes "ind_inv w0 tid (bu_iPred u) (h # q) log" and "itid tid"
    and "ph_seqNum hist = ph_seqNum h" "ph_indirectHistory hist = ph_indirectHistory h"
  shows "\<exists>io. (case bu_iPred u of None \<Rightarrow> Inr (u, hist)
      | Some i \<Rightarrow> bind_r (id_squash (pt_iPred pt) i tid (ph_seqNum hist) (ph_indirectHistory hist))
          (\<lambda>(i, h). Inr (u\<lparr>bu_iPred := Some i\<rparr>, hist\<lparr>ph_indirectHistory := h\<rparr>))) =
      Inr (u\<lparr>bu_iPred := io\<rparr>, hist\<lparr>ph_indirectHistory := None\<rparr>) \<and> ind_inv w0 tid io q log \<and>
      (io = None \<longleftrightarrow> bu_iPred u = None)"
proof (cases "bu_iPred u")
  case None
  then have "ph_indirectHistory hist = None" "ind_inv w0 tid None q log"
    using assms(1,4) by (simp_all add: ind_inv_def)
  then show ?thesis using None by (intro exI [of _ None]) (simp add: field_same)
next
  case (Some i)
  obtain i' where "id_squash (pt_iPred pt) i tid (ph_seqNum h) (ph_indirectHistory h) = Inr (i', None)"
      "ind_inv w0 tid (Some i') q log"
    using ind_undo [OF assms(1) [unfolded Some] assms(2)] by blast
  then show ?thesis using Some assms(3,4) by (intro exI [of _ "Some i'"]) simp
qed

lemma correct_ind:
  assumes "ind_inv w0 tid (bu_iPred u) (h # q) log" and "itid tid"
    and "ph_seqNum hist = ph_seqNum h" "ph_pc hist = ph_pc h" "ph_type hist = ph_type h"
    and "ph_actuallyTaken hist = taken" "ph_target hist = Some target" "ph_indirectHistory hist = ph_indirectHistory h"
  shows "\<exists>io hh. (case bu_iPred u of None \<Rightarrow> Inr (u, hist)
      | Some i \<Rightarrow> bind_r (id_update (pt_iPred pt) rnd i tid sn (ph_pc hist) True taken target (ph_type hist)
            (ph_indirectHistory hist))
          (\<lambda>(i, h). Inr (u\<lparr>bu_iPred := Some i\<rparr>, hist\<lparr>ph_indirectHistory := h\<rparr>))) =
      Inr (u\<lparr>bu_iPred := io\<rparr>, hist\<lparr>ph_indirectHistory := hh\<rparr>) \<and>
      ind_inv w0 tid io (hist\<lparr>ph_indirectHistory := hh\<rparr> # q) log \<and> (io = None \<longleftrightarrow> bu_iPred u = None)"
proof (cases "bu_iPred u")
  case None
  then have "ph_indirectHistory hist = None" "ind_inv w0 tid None (hist # q) log"
    using assms(1,8) by (simp_all add: ind_inv_def)
  then show ?thesis using None by (intro exI [of _ None] exI [of _ None]) (simp add: field_same)
next
  case (Some i)
  obtain i' hh where "id_update (pt_iPred pt) rnd i tid sn (ph_pc h) True taken target (ph_type h)
        (ph_indirectHistory h) = Inr (i', hh)" "ind_inv w0 tid (Some i') (hist\<lparr>ph_indirectHistory := hh\<rparr> # q) log"
    using ind_redo [OF assms(1) [unfolded Some] assms(2-7), of rnd sn] by blast
  then show ?thesis using Some assms by (intro exI [of _ "Some i'"] exI [of _ hh]) simp
qed

end

text \<open>The stages on the return address stack, which need no contract.\<close>

lemma commit_ras:
  assumes "ras_inv n tid (bu_ras u) (q @ [h])" and "ph_wf po tid h"
    and "ph_type hist = ph_type h" "ph_rasHistory hist = ph_rasHistory h"
  shows "\<exists>ro. (case bu_ras u of None \<Rightarrow> Inr (u, hist)
      | Some ras \<Rightarrow> bind_r (ReturnAddrStack_commit ras tid (ph_mispredict hist) (ph_type hist) (ph_rasHistory hist))
          (\<lambda>(ras, h). Inr (u\<lparr>bu_ras := Some ras\<rparr>, hist\<lparr>ph_rasHistory := h\<rparr>))) =
      Inr (u\<lparr>bu_ras := ro\<rparr>, hist\<lparr>ph_rasHistory := None\<rparr>) \<and> ras_inv n tid ro q"
proof (cases "bu_ras u")
  case None
  then have "ph_rasHistory hist = None" "ras_inv n tid None q"
    using assms(1,4) by (simp_all add: ras_inv_def)
  then show ?thesis using None by (intro exI [of _ None]) (simp add: field_same)
next
  case (Some r)
  have "ras_wf n tid r" using assms(1) Some by (simp add: ras_inv_def)
  moreover have "ph_rasHistory h = None \<or> ph_type h = Return \<or> ph_type h = CallDirect \<or> ph_type h = CallIndirect"
    using assms(2) getBranchType_ras [of "ph_inst h"] by (auto simp: ph_wf_def)
  ultimately obtain r' where "ReturnAddrStack_commit r tid (ph_mispredict hist) (ph_type h) (ph_rasHistory h) = Inr (r', None)"
      "ras_wf n tid r'"
    using ras_commit_ok [of n tid r "ph_rasHistory h" "ph_type h" "ph_mispredict hist"] by blast
  then show ?thesis using Some assms by (intro exI [of _ "Some r'"]) (simp add: ras_inv_def)
qed

lemma squash_ras:
  assumes "ras_inv n tid (bu_ras u) (h # q)" and "ph_rasHistory hist = ph_rasHistory h"
  shows "\<exists>ro. (if ph_rasHistory hist \<noteq> None
      then case bu_ras u of None \<Rightarrow> Inl (Assert ''ras'')
           | Some ras \<Rightarrow> bind_r (ReturnAddrStack_squash ras tid (ph_rasHistory hist)) (\<lambda>(ras, h).
               Inr (u\<lparr>bu_ras := Some ras\<rparr>, hist\<lparr>ph_rasHistory := h\<rparr>))
      else Inr (u, hist)) = Inr (u\<lparr>bu_ras := ro\<rparr>, hist\<lparr>ph_rasHistory := None\<rparr>) \<and> ras_inv n tid ro q"
proof (cases "ph_rasHistory h")
  case None
  then have "ph_rasHistory hist = None" "ras_inv n tid (bu_ras u) q"
    using assms by (simp_all add: ras_inv_def split: option.splits)
  then show ?thesis by (intro exI [of _ "bu_ras u"]) (simp add: field_same)
next
  case (Some g)
  then obtain r where r: "bu_ras u = Some r" "ras_wf n tid r" "ras_hist_ok n (Some g)"
    using assms(1) by (auto simp: ras_inv_def split: option.splits)
  obtain r' where "ReturnAddrStack_squash r tid (Some g) = Inr (r', None)" "ras_wf n tid r'"
    using ras_squash_ok [OF r(2,3)] by blast
  then show ?thesis using Some r(1) assms by (intro exI [of _ "Some r'"]) (simp add: ras_inv_def)
qed

lemma correct_ras_ok:
  assumes "ras_wf n tid r" and "ras_hist_ok n (ph_rasHistory hist)" and "ph_wf po tid hist"
  shows "\<exists>r' h'. correct_ras po r tid target taken hist = Inr (r', h') \<and> ras_wf n tid r' \<and> ras_hist_ok n h' \<and>
    (h' \<noteq> None \<longrightarrow> isCall (ph_inst hist) \<or> isReturn (ph_inst hist))"
proof -
  have wf: "ph_type hist = getBranchType (ph_inst hist)" "ph_call hist = isCall (ph_inst hist)"
      "ph_rasHistory hist \<noteq> None \<longrightarrow> isCall (ph_inst hist) \<or> isReturn (ph_inst hist)"
      "isCall (ph_inst hist) \<longrightarrow> po_size po (ph_inst hist) \<noteq> 0"
    using assms(3) by (simp_all add: ph_wf_def)
  have push: "\<exists>r' h'. ReturnAddrStack_push r tid p h = Inr (r', h') \<and> ras_wf n tid r' \<and> ras_hist_ok n h'"
    if "ras_wf n tid r" "ras_hist_ok n h" for r h p by (rule ras_push_ok [OF that])
  obtain r1 h1 where 1: "(if ph_type hist = Return
        then bind_r (ReturnAddrStack_pop r tid (ph_rasHistory hist)) (\<lambda>(_, ras, h). Inr (ras, h))
        else Inr (r, ph_rasHistory hist)) = Inr (r1, h1)" "ras_wf n tid r1" "ras_hist_ok n h1"
      "h1 \<noteq> ph_rasHistory hist \<longrightarrow> isReturn (ph_inst hist)"
    using ras_pop_ok [OF assms(1,2)] assms(1,2) wf(1) by (cases "isReturn (ph_inst hist)") auto
  show ?thesis
  proof (cases "taken \<and> ph_rasHistory hist = None")
    case True
    then show ?thesis
      using 1 wf push [OF 1(2,3), of "po_set po (po_buildRetPC po (ph_inst hist) target target) (ph_pc hist + po_size po (ph_inst hist))"]
      by (cases "isCall (ph_inst hist)") (auto simp: correct_ras_def StaticInst_size_def Let_def)
  next
    case False
    then show ?thesis
      using assms(1,2) wf(3) ras_squash_ok [OF assms(1,2)] by (auto simp: correct_ras_def ras_hist_ok_def)
  qed
qed

section \<open>The operations keep the histories consistent\<close>

text \<open>What an operation leaves alone.\<close>

definition same_frame ::
  "('c, 'ch, 'b, 'pc, 'i, 'ih) BPredUnit \<Rightarrow> ('c, 'ch, 'b, 'pc, 'i, 'ih) BPredUnit \<Rightarrow> bool" where
  "same_frame u u' \<longleftrightarrow> bu_predHist u' = bu_predHist u \<and> bu_requiresBTBHit u' = bu_requiresBTBHit u \<and>
     bu_updateBTBAtSquash u' = bu_updateBTBAtSquash u \<and> (bu_iPred u' = None \<longleftrightarrow> bu_iPred u = None)"

text \<open>The histories that a commit up to \<open>sn\<close> keeps, and those that a squash after \<open>sn\<close> keeps.\<close>

definition after_commit :: "InstSeqNum \<Rightarrow> ('ch, 'pc, 'ih) PredictorHistory list \<Rightarrow> ('ch, 'pc, 'ih) PredictorHistory list" where
  "after_commit sn q = rev (dropWhile (\<lambda>h. ph_seqNum h \<le> sn) (rev q))"

definition after_squash :: "InstSeqNum \<Rightarrow> ('ch, 'pc, 'ih) PredictorHistory list \<Rightarrow> ('ch, 'pc, 'ih) PredictorHistory list" where
  "after_squash sn q = dropWhile (\<lambda>h. ph_seqNum h > sn) q"

lemma after_commit_snoc:
  "after_commit sn (q @ [h]) = (if ph_seqNum h \<le> sn then after_commit sn q else q @ [h])"
  by (simp add: after_commit_def)

lemma length_after_commit: "length (after_commit sn q) \<le> length q"
  by (simp add: after_commit_def) (metis length_dropWhile_le length_rev)

text \<open>The operations of the unit on one thread, with the clock and random numbers they use.\<close>

datatype 'pc bpu_event =
    Predict StaticInst InstSeqNum 'pc u64 nat
  | CommitTo InstSeqNum u64
  | SquashTo InstSeqNum
  | Correct InstSeqNum 'pc bool bool u64 nat

text \<open>A step of the unit; the log collects the committed histories, youngest first.\<close>

fun bpu_step ::
  "('c, 'ch, 'b, 'pc, 'i, 'ih) BPUParts \<Rightarrow> ThreadID \<Rightarrow>
   ('c, 'ch, 'b, 'pc, 'i, 'ih) BPredUnit \<times> ('ch, 'pc, 'ih) PredictorHistory list \<Rightarrow> 'pc bpu_event \<Rightarrow>
   (('c, 'ch, 'b, 'pc, 'i, 'ih) BPredUnit \<times> ('ch, 'pc, 'ih) PredictorHistory list) result" where
  "bpu_step pt tid (u, log) (Predict inst sn pc tick rnd) =
     bind_r (BPredUnit_predict pt tick rnd u inst sn pc tid) (\<lambda>(_, _, u). Inr (u, log))"
| "bpu_step pt tid (u, log) (CommitTo sn tick) =
     bind_r (BPredUnit_update pt tick u sn tid) (\<lambda>u'.
       Inr (u', drop (length (bu_predHist u' ! tid)) (bu_predHist u ! tid) @ log))"
| "bpu_step pt tid (u, log) (SquashTo sn) = bind_r (BPredUnit_squash pt u sn tid) (\<lambda>u. Inr (u, log))"
| "bpu_step pt tid (u, log) (Correct sn target taken from_commit tick rnd) =
     bind_r (BPredUnit_squash_correct pt tick rnd u sn target taken tid from_commit) (\<lambda>u. Inr (u, log))"

fun bpu_run ::
  "('c, 'ch, 'b, 'pc, 'i, 'ih) BPUParts \<Rightarrow> ThreadID \<Rightarrow>
   ('c, 'ch, 'b, 'pc, 'i, 'ih) BPredUnit \<times> ('ch, 'pc, 'ih) PredictorHistory list \<Rightarrow> 'pc bpu_event list \<Rightarrow>
   (('c, 'ch, 'b, 'pc, 'i, 'ih) BPredUnit \<times> ('ch, 'pc, 'ih) PredictorHistory list) result" where
  "bpu_run pt tid st [] = Inr st"
| "bpu_run pt tid st (ev # evs) = bind_r (bpu_step pt tid st ev) (\<lambda>st. bpu_run pt tid st evs)"

text \<open>
  The abstract queue: the sequence numbers of the branches in flight and of the committed ones,
  youngest first.  A commit takes everything up to its number, a squash drops everything after it.
\<close>

fun queue_step :: "InstSeqNum list \<times> InstSeqNum list \<Rightarrow> 'pc bpu_event \<Rightarrow> InstSeqNum list \<times> InstSeqNum list" where
  "queue_step (q, log) (Predict _ sn _ _ _) = (sn # q, log)"
| "queue_step (q, log) (CommitTo sn _) = (filter (\<lambda>x. sn < x) q, filter (\<lambda>x. x \<le> sn) q @ log)"
| "queue_step (q, log) (SquashTo sn) = (filter (\<lambda>x. x \<le> sn) q, log)"
| "queue_step (q, log) (Correct sn _ _ _ _ _) = (filter (\<lambda>x. x \<le> sn) q, log)"

definition queue_run :: "'pc bpu_event list \<Rightarrow> InstSeqNum list \<times> InstSeqNum list" where
  "queue_run evs = foldl queue_step ([], []) evs"

definition sns ::
  "ThreadID \<Rightarrow> ('c, 'ch, 'b, 'pc, 'i, 'ih) BPredUnit \<times> ('ch, 'pc, 'ih) PredictorHistory list \<Rightarrow>
   InstSeqNum list \<times> InstSeqNum list" where
  "sns tid st = (map ph_seqNum (bu_predHist (fst st) ! tid), map ph_seqNum (snd st))"

text \<open>The branches are predicted in the order of their sequence numbers.\<close>

fun predicted_sn :: "'pc bpu_event \<Rightarrow> InstSeqNum list" where
  "predicted_sn (Predict _ sn _ _ _) = [sn]"
| "predicted_sn _ = []"

definition in_order :: "'pc bpu_event list \<Rightarrow> bool" where
  "in_order evs \<longleftrightarrow> sorted_wrt (<) (concat (map predicted_sn evs))"

lemma sns_after_commit:
  "map ph_seqNum (after_commit sn q) = rev (dropWhile (\<lambda>x. x \<le> sn) (rev (map ph_seqNum q)))"
  by (simp add: after_commit_def rev_map dropWhile_map comp_def)

lemma sns_after_squash: "map ph_seqNum (after_squash sn q) = dropWhile (\<lambda>x. sn < x) (map ph_seqNum q)"
  by (simp add: after_squash_def dropWhile_map comp_def)

lemma dropWhile_sorted:
  fixes xs :: "'a :: linorder list"
  assumes "sorted_wrt (>) xs"
  shows "dropWhile (\<lambda>x. n < x) xs = filter (\<lambda>x. x \<le> n) xs"
    and "rev (dropWhile (\<lambda>x. x \<le> n) (rev xs)) = filter (\<lambda>x. n < x) xs"
    and "drop (length (filter (\<lambda>x. n < x) xs)) xs = filter (\<lambda>x. x \<le> n) xs"
proof -
  show "dropWhile (\<lambda>x. n < x) xs = filter (\<lambda>x. x \<le> n) xs"
    using assms by (induction xs) (auto intro!: filter_True [symmetric] simp: not_less)
  have p: "xs = filter (\<lambda>x. n < x) xs @ filter (\<lambda>x. x \<le> n) xs"
    using assms
  proof (induction xs)
    case (Cons a xs)
    have "filter (\<lambda>x. n < x) xs = []" if "\<not> n < a" using Cons.prems that by (auto simp: filter_empty_conv)
    then show ?case using Cons by (cases "n < a") auto
  qed simp
  let ?A = "filter (\<lambda>x. n < x) xs" and ?B = "filter (\<lambda>x. x \<le> n) xs"
  have "dropWhile (\<lambda>x. x \<le> n) (rev xs) = dropWhile (\<lambda>x. x \<le> n) (rev ?B @ rev ?A)"
    using arg_cong [OF p, of rev] by simp
  also have "\<dots> = dropWhile (\<lambda>x. x \<le> n) (rev ?A)" by (rule dropWhile_append2) auto
  also have "\<dots> = rev ?A"
    using hd_in_set [of "rev ?A"] unfolding dropWhile_eq_self_iff by (auto simp: not_le)
  finally show "rev (dropWhile (\<lambda>x. x \<le> n) (rev xs)) = filter (\<lambda>x. n < x) xs" by simp
  show "drop (length (filter (\<lambda>x. n < x) xs)) xs = filter (\<lambda>x. x \<le> n) xs"
    by (subst (2) p) simp
qed

lemma commit_sns:
  assumes "sorted_wrt (>) (map ph_seqNum q)"
  shows "map ph_seqNum (after_commit sn q) = filter (\<lambda>x. sn < x) (map ph_seqNum q)"
    and "map ph_seqNum (drop (length (after_commit sn q)) q) = filter (\<lambda>x. x \<le> sn) (map ph_seqNum q)"
proof -
  show 1: "map ph_seqNum (after_commit sn q) = filter (\<lambda>x. sn < x) (map ph_seqNum q)"
    unfolding sns_after_commit by (rule dropWhile_sorted(2) [OF assms])
  show "map ph_seqNum (drop (length (after_commit sn q)) q) = filter (\<lambda>x. x \<le> sn) (map ph_seqNum q)"
    using dropWhile_sorted(3) [OF assms, of sn] arg_cong [OF 1, of length] by (simp add: drop_map)
qed

text \<open>Calls have a size.\<close>

fun bpu_event_ok :: "'pc PCOps \<Rightarrow> 'pc bpu_event \<Rightarrow> bool" where
  "bpu_event_ok po (Predict inst sn pc tick rnd) = (isCall inst \<longrightarrow> po_size po inst \<noteq> 0)"
| "bpu_event_ok po _ = True"

text \<open>What prediction never changes in a history, and that a provider comes with a target.\<close>

definition static :: "('ch, 'pc, 'ih) PredictorHistory \<Rightarrow> ('ch, 'pc, 'ih) PredictorHistory \<Rightarrow> bool" where
  "static h h' \<longleftrightarrow> ph_seqNum h' = ph_seqNum h \<and> ph_tid h' = ph_tid h \<and> ph_pc h' = ph_pc h \<and> ph_inst h' = ph_inst h \<and>
     ph_type h' = ph_type h \<and> ph_call h' = ph_call h \<and> ph_uncond h' = ph_uncond h \<and> ph_mispredict h' = ph_mispredict h"

definition provided :: "('ch, 'pc, 'ih) PredictorHistory \<Rightarrow> bool" where
  "provided h \<longleftrightarrow> (ph_targetProvider h \<noteq> NoTarget \<longrightarrow> ph_target h \<noteq> None)"

lemma predict_ras_ok:
  assumes "ras_inv n tid (bu_ras u) q" and "ph_rasHistory h = None" and "provided h"
  shows "\<exists>u' h'. predict_ras pt u tid pc inst h = Inr (u', h') \<and> same_frame u u' \<and> bu_cPred u' = bu_cPred u \<and>
    bu_iPred u' = bu_iPred u \<and> bu_btb u' = bu_btb u \<and> static h h' \<and> ph_bpHistory h' = ph_bpHistory h \<and>
    ph_indirectHistory h' = ph_indirectHistory h \<and> provided h' \<and> ras_inv n tid (bu_ras u') (h' # q) \<and>
    (ph_rasHistory h' \<noteq> None \<longrightarrow> isCall inst \<or> isReturn inst)"
proof (cases "bu_ras u")
  case None
  then show ?thesis using assms by (simp add: predict_ras_def ras_inv_def same_frame_def static_def)
next
  case (Some r)
  have r: "ras_wf n tid r" "ras_hist_ok n (ph_rasHistory h)" "list_all (\<lambda>h. ras_hist_ok n (ph_rasHistory h)) q"
    using assms(1,2) Some by (simp_all add: ras_inv_def ras_hist_ok_def)
  obtain r1 h1 where push: "ReturnAddrStack_push r tid (po_buildRetPC (pt_pc pt) inst pc pc) (ph_rasHistory h) = Inr (r1, h1)"
      "ras_wf n tid r1" "ras_hist_ok n h1" using ras_push_ok [OF r(1,2)] by blast
  obtain e r2 h2 where pop: "ReturnAddrStack_pop r tid (ph_rasHistory h) = Inr (e, r2, h2)"
      "ras_wf n tid r2" "ras_hist_ok n h2" using ras_pop_ok [OF r(1,2)] by blast
  consider "\<not> branch_detected u h" | "branch_detected u h" "isCall inst"
    | "branch_detected u h" "\<not> isCall inst" "isReturn inst" | "branch_detected u h" "\<not> isCall inst" "\<not> isReturn inst"
    by blast
  then show ?thesis
  proof cases
    case 3
    then show ?thesis using Some pop r assms(3)
      by (cases e) (simp_all add: predict_ras_def ras_inv_def same_frame_def static_def provided_def)
  qed (use Some push r assms(2,3) in \<open>simp_all add: predict_ras_def ras_inv_def same_frame_def static_def provided_def\<close>)
qed

context bpu
begin

definition unit_inv ::
  "nat \<Rightarrow> 'k \<Rightarrow> 'v \<Rightarrow> 'w \<Rightarrow> ThreadID \<Rightarrow> ('c, 'ch, 'b, 'pc, 'i, 'ih) BPredUnit \<Rightarrow>
   ('ch, 'pc, 'ih) PredictorHistory list \<Rightarrow> ('ch, 'pc, 'ih) PredictorHistory list \<Rightarrow> bool" where
  "unit_inv n c v0 w0 tid u q log \<longleftrightarrow> cond_inv c v0 (bu_cPred u) q log \<and> ind_inv w0 tid (bu_iPred u) q log \<and>
     ras_inv n tid (bu_ras u) q \<and> btb_inv (bu_btb u) \<and> list_all (ph_wf po tid) q \<and>
     list_all (\<lambda>h. ph_tid h = tid) log"

lemma updateBTB_ok:
  assumes "btb_inv (bu_btb u)" and "ph_target h = Some t"
  shows "\<exists>b st. BPredUnit_updateBTB pt tick u tid h = Inr (u\<lparr>bu_stats := st, bu_btb := b\<rparr>) \<and> btb_inv b"
proof -
  obtain b where b: "btb_update (pt_btb pt) tick (bu_btb u) tid (ph_pc h) t (ph_type h) (Some (ph_inst h)) = Inr b"
      "btb_inv b"
    using tb.update_law [OF assms(1)] by blast
  have u: "u\<lparr>bu_stats := bu_stats u, bu_btb := bu_btb u\<rparr> = u" by simp
  have 1: "\<exists>b st. Inr u = (Inr (u\<lparr>bu_stats := st, bu_btb := b\<rparr>) :: (_, _, _, _, _, _) BPredUnit result) \<and> btb_inv b"
    using assms(1) u by (intro exI [of _ "bu_btb u"] exI [of _ "bu_stats u"]) simp
  show ?thesis
    unfolding BPredUnit_updateBTB_def deref_target_def assms(2) option.case bind_r_simps b(1) Let_def
    using 1 tb.incorrectTarget_law [OF b(2)] by auto
qed

lemma maybe_updateBTB_ok:
  assumes "btb_inv (bu_btb u)" and "ph_target h = Some t"
  shows "\<exists>b st. (if P then BPredUnit_updateBTB pt tick u tid h else Inr u) =
    Inr (u\<lparr>bu_stats := st, bu_btb := b\<rparr>) \<and> btb_inv b"
proof (cases P)
  case False
  then show ?thesis
    using assms(1) by (intro exI [of _ "bu_btb u"] exI [of _ "bu_stats u"]) simp
qed (use updateBTB_ok [OF assms] in simp)

lemma commitBranch_ok:
  assumes inv: "unit_inv n c v0 w0 tid u (q @ [h]) log" and tid: "itid tid"
  shows "\<exists>u' h'. BPredUnit_commitBranch pt tick u tid h = Inr (u', h') \<and> PredictorHistory_delete h' = Inr () \<and>
    unit_inv n c v0 w0 tid u' q (h # log) \<and> same_frame u u'"
proof -
  have ph: "ph_wf po tid h" and b: "btb_inv (bu_btb u)" and wf: "list_all (ph_wf po tid) q"
      "list_all (\<lambda>h. ph_tid h = tid) log"
    using inv by (simp_all add: unit_inv_def)
  obtain t where t: "ph_target h = Some t" "ph_tid h = tid" using ph by (auto simp: ph_wf_def)
  let ?u = "u\<lparr>bu_stats := commit_stats tid h (bu_stats u)\<rparr>"
  obtain s' where s': "cp_update (pt_cPred pt) (bu_cPred u) tid (ph_pc h) (ph_actuallyTaken h) (ph_bpHistory h) False
      (ph_inst h) (po_instAddr po t) = Inr (s', None)" "cond_inv c v0 s' q (h # log)"
    using cond_commit [of c v0 "bu_cPred u" q h log] inv t by (auto simp: unit_inv_def)
  let ?u1 = "?u\<lparr>bu_cPred := s'\<rparr>" and ?h1 = "h\<lparr>ph_bpHistory := None\<rparr>"
  have "ind_inv w0 tid (bu_iPred ?u1) (q @ [h]) log" using inv by (simp add: unit_inv_def)
  from commit_ind [OF this tid, of ?h1] obtain io where io: "(case bu_iPred ?u1 of None \<Rightarrow> Inr (?u1, ?h1)
      | Some i \<Rightarrow> bind_r (id_commit (pt_iPred pt) i tid (ph_seqNum ?h1) (ph_indirectHistory ?h1))
          (\<lambda>(i, h). Inr (?u1\<lparr>bu_iPred := Some i\<rparr>, ?h1\<lparr>ph_indirectHistory := h\<rparr>))) =
      Inr (?u1\<lparr>bu_iPred := io\<rparr>, ?h1\<lparr>ph_indirectHistory := None\<rparr>)" "ind_inv w0 tid io q (h # log)" "io = None \<longleftrightarrow> bu_iPred u = None" by auto
  let ?u2 = "?u1\<lparr>bu_iPred := io\<rparr>" and ?h2 = "?h1\<lparr>ph_indirectHistory := None\<rparr>"
  have "ras_inv n tid (bu_ras ?u2) (q @ [h])" using inv by (simp add: unit_inv_def)
  from commit_ras [OF this ph, of ?h2] obtain ro where ro: "(case bu_ras ?u2 of None \<Rightarrow> Inr (?u2, ?h2)
      | Some ras \<Rightarrow> bind_r (ReturnAddrStack_commit ras tid (ph_mispredict ?h2) (ph_type ?h2) (ph_rasHistory ?h2))
          (\<lambda>(ras, h). Inr (?u2\<lparr>bu_ras := Some ras\<rparr>, ?h2\<lparr>ph_rasHistory := h\<rparr>))) =
      Inr (?u2\<lparr>bu_ras := ro\<rparr>, ?h2\<lparr>ph_rasHistory := None\<rparr>)" "ras_inv n tid ro q" by auto
  let ?u3 = "?u2\<lparr>bu_ras := ro\<rparr>" and ?h3 = "?h2\<lparr>ph_rasHistory := None\<rparr>"
  obtain b' st where b': "(if ph_actuallyTaken ?h3 \<and> \<not> bu_updateBTBAtSquash ?u3
      then BPredUnit_updateBTB pt tick ?u3 tid ?h3 else Inr ?u3) = Inr (?u3\<lparr>bu_stats := st, bu_btb := b'\<rparr>)" "btb_inv b'"
    using maybe_updateBTB_ok [of ?u3 ?h3 t "ph_actuallyTaken ?h3 \<and> \<not> bu_updateBTBAtSquash ?u3" tick tid] b t(1) by auto
  have "BPredUnit_commitBranch pt tick u tid h = Inr (?u3\<lparr>bu_stats := st, bu_btb := b'\<rparr>, ?h3)"
    unfolding BPredUnit_commitBranch_def Let_def
    using t(1) s'(1) io(1) ro(1) b'(1) by (simp add: deref_target_def)
  moreover have "PredictorHistory_delete ?h3 = Inr ()" by (simp add: PredictorHistory_delete_def)
  moreover have "unit_inv n c v0 w0 tid (?u3\<lparr>bu_stats := st, bu_btb := b'\<rparr>) q (h # log)"
    using s'(2) io(2) ro(2) b'(2) wf t(2) by (simp add: unit_inv_def)
  ultimately show ?thesis using io(3) by (auto simp: same_frame_def)
qed

lemma squashHistory_ok:
  assumes inv: "unit_inv n c v0 w0 tid u (h # q) log" and tid: "itid tid"
  shows "\<exists>u'. BPredUnit_squashHistory pt u tid h = Inr u' \<and> unit_inv n c v0 w0 tid u' q log \<and> same_frame u u'"
proof -
  have ph: "ph_tid h = tid" and b: "btb_inv (bu_btb u)" and wf: "list_all (ph_wf po tid) q"
      "list_all (\<lambda>h. ph_tid h = tid) log"
    using inv by (simp_all add: unit_inv_def ph_wf_def)
  let ?u = "u\<lparr>bu_stats := (bu_stats u)\<lparr>bs_squashes := count2 tid (ph_type h) (bs_squashes (bu_stats u))\<rparr>\<rparr>"
  have "ras_inv n tid (bu_ras ?u) (h # q)" using inv by (simp add: unit_inv_def)
  from squash_ras [OF this refl] obtain ro where ro: "(if ph_rasHistory h \<noteq> None
      then case bu_ras ?u of None \<Rightarrow> Inl (Assert ''ras'')
           | Some ras \<Rightarrow> bind_r (ReturnAddrStack_squash ras tid (ph_rasHistory h)) (\<lambda>(ras, x).
               Inr (?u\<lparr>bu_ras := Some ras\<rparr>, h\<lparr>ph_rasHistory := x\<rparr>))
      else Inr (?u, h)) = Inr (?u\<lparr>bu_ras := ro\<rparr>, h\<lparr>ph_rasHistory := None\<rparr>)" "ras_inv n tid ro q" by blast
  let ?u1 = "?u\<lparr>bu_ras := ro\<rparr>" and ?h1 = "h\<lparr>ph_rasHistory := None\<rparr>"
  have "ind_inv w0 tid (bu_iPred ?u1) (h # q) log" using inv by (simp add: unit_inv_def)
  from squash_ind [OF this tid, of ?h1] obtain io where io: "(case bu_iPred ?u1 of None \<Rightarrow> Inr (?u1, ?h1)
      | Some i \<Rightarrow> bind_r (id_squash (pt_iPred pt) i tid (ph_seqNum ?h1) (ph_indirectHistory ?h1))
          (\<lambda>(i, h). Inr (?u1\<lparr>bu_iPred := Some i\<rparr>, ?h1\<lparr>ph_indirectHistory := h\<rparr>))) =
      Inr (?u1\<lparr>bu_iPred := io\<rparr>, ?h1\<lparr>ph_indirectHistory := None\<rparr>)" "ind_inv w0 tid io q log" "io = None \<longleftrightarrow> bu_iPred u = None" by auto
  obtain s' where s': "cp_squash (pt_cPred pt) (bu_cPred u) tid (ph_bpHistory h) = Inr (s', None)"
      "cond_inv c v0 s' q log"
    using cond_squash [of c v0 "bu_cPred u" h q log] inv ph by (auto simp: unit_inv_def)
  have "BPredUnit_squashHistory pt u tid h = Inr (?u1\<lparr>bu_iPred := io, bu_cPred := s'\<rparr>)"
    unfolding BPredUnit_squashHistory_def Let_def
    using ro(1) io(1) s'(1) by (simp add: PredictorHistory_delete_def)
  moreover have "unit_inv n c v0 w0 tid (?u1\<lparr>bu_iPred := io, bu_cPred := s'\<rparr>) q log"
    using s'(2) io(2) ro(2) b wf by (simp add: unit_inv_def)
  ultimately show ?thesis using io(3) by (auto simp: same_frame_def)
qed

lemma cond_inv_frame [simp]:
  "cond_inv c v0 s (h\<lparr>ph_indirectHistory := x\<rparr> # q) log = cond_inv c v0 s (h # q) log"
  "cond_inv c v0 s (h\<lparr>ph_rasHistory := y\<rparr> # q) log = cond_inv c v0 s (h # q) log"
  by (simp_all add: cond_inv_def branch_of_def)

lemma ind_inv_frame [simp]:
  "ind_inv w0 tid io (h\<lparr>ph_rasHistory := y\<rparr> # q) log = ind_inv w0 tid io (h # q) log"
  "ind_inv w0 tid io (h\<lparr>ph_bpHistory := z\<rparr> # q) log = ind_inv w0 tid io (h # q) log"
  by (simp_all add: ind_inv_def list_all2_Cons2 agrees_def split: option.splits)

text \<open>What a correction makes of the history of a branch.\<close>

definition corrected ::
  "('ch, 'pc, 'ih) PredictorHistory \<Rightarrow> bool \<Rightarrow> 'pc \<Rightarrow> ('ch, 'pc, 'ih) PredictorHistory \<Rightarrow> bool" where
  "corrected h taken target h' \<longleftrightarrow> ph_seqNum h' = ph_seqNum h \<and> ph_mispredict h' \<and>
     branch_of po h' = (branch_of po h)\<lparr>br_taken := taken, br_target := po_instAddr po target\<rparr> \<and>
     ph_target h' = Some target"

lemma correct_ras_stage:
  assumes "ras_inv n tid (bu_ras u) (h # q)" and "ph_wf po tid hist" and "ph_rasHistory hist = ph_rasHistory h"
  shows "\<exists>ro hh. (case bu_ras u of None \<Rightarrow> Inr (u, hist)
      | Some ras \<Rightarrow> bind_r (correct_ras po ras tid target taken hist)
          (\<lambda>(ras, h). Inr (u\<lparr>bu_ras := Some ras\<rparr>, hist\<lparr>ph_rasHistory := h\<rparr>))) =
      Inr (u\<lparr>bu_ras := ro\<rparr>, hist\<lparr>ph_rasHistory := hh\<rparr>) \<and> ras_inv n tid ro (hist\<lparr>ph_rasHistory := hh\<rparr> # q) \<and>
      ph_wf po tid (hist\<lparr>ph_rasHistory := hh\<rparr>)"
proof (cases "bu_ras u")
  case None
  then have "ph_rasHistory hist = None" "ras_inv n tid None (hist # q)"
    using assms(1,3) by (simp_all add: ras_inv_def)
  then show ?thesis using None assms(2) by (intro exI [of _ None] exI [of _ None]) (simp add: field_same)
next
  case (Some r)
  then have "ras_wf n tid r" "ras_hist_ok n (ph_rasHistory hist)" "list_all (\<lambda>h. ras_hist_ok n (ph_rasHistory h)) q"
    using assms(1,3) by (simp_all add: ras_inv_def)
  with correct_ras_ok [OF this(1,2) assms(2), of target taken] obtain r' hh where
      "correct_ras po r tid target taken hist = Inr (r', hh)" "ras_wf n tid r'" "ras_hist_ok n hh"
      "hh \<noteq> None \<longrightarrow> isCall (ph_inst hist) \<or> isReturn (ph_inst hist)" "list_all (\<lambda>h. ras_hist_ok n (ph_rasHistory h)) q"
    by blast
  then show ?thesis
    using Some assms(2) by (intro exI [of _ "Some r'"] exI [of _ hh]) (simp add: ras_inv_def ph_wf_def)
qed

lemma correct_branch_ok:
  assumes inv: "unit_inv n c v0 w0 tid u (h # q) log" and tid: "itid tid"
  shows "\<exists>u' h'. correct_branch pt tick rnd u sn target taken tid from_commit h = Inr (u', h') \<and>
    unit_inv n c v0 w0 tid u' (h' # q) log \<and> same_frame u u' \<and> corrected h taken target h'"
proof -
  have ph: "ph_wf po tid h" and b: "btb_inv (bu_btb u)" and wf: "list_all (ph_wf po tid) q"
      "list_all (\<lambda>h. ph_tid h = tid) log"
    using inv by (simp_all add: unit_inv_def)
  let ?u = "u\<lparr>bu_stats := correct_stats po tid target from_commit h (bu_stats u)\<rparr>"
  let ?h = "h\<lparr>ph_mispredict := True, ph_actuallyTaken := taken, ph_target := Some target\<rparr>"
  have wf0: "ph_wf po tid ?h" using ph by (simp add: ph_wf_def)
  have br: "branch_of po ?h = (branch_of po h)\<lparr>br_taken := taken, br_target := po_instAddr po target\<rparr>"
    by (simp add: branch_of_def)
  obtain s' bh where s': "cp_update (pt_cPred pt) (bu_cPred u) tid (ph_pc h) taken (ph_bpHistory h) True (ph_inst h)
      (po_instAddr po target) = Inr (s', bh)" "cond_inv c v0 s' (?h\<lparr>ph_bpHistory := bh\<rparr> # q) log"
    using cond_correct [OF _ br, of c v0 "bu_cPred u" q log] inv ph by (auto simp: unit_inv_def ph_wf_def)
  let ?u1 = "?u\<lparr>bu_cPred := s'\<rparr>" and ?h1 = "?h\<lparr>ph_bpHistory := bh\<rparr>"
  have "ind_inv w0 tid (bu_iPred ?u1) (h # q) log" using inv by (simp add: unit_inv_def)
  from correct_ind [OF this tid, of ?h1 taken target rnd sn] obtain io hh where
      io: "(case bu_iPred ?u1 of None \<Rightarrow> Inr (?u1, ?h1)
      | Some i \<Rightarrow> bind_r (id_update (pt_iPred pt) rnd i tid sn (ph_pc ?h1) True taken target (ph_type ?h1)
            (ph_indirectHistory ?h1))
          (\<lambda>(i, h). Inr (?u1\<lparr>bu_iPred := Some i\<rparr>, ?h1\<lparr>ph_indirectHistory := h\<rparr>))) =
      Inr (?u1\<lparr>bu_iPred := io\<rparr>, ?h1\<lparr>ph_indirectHistory := hh\<rparr>)"
      "ind_inv w0 tid io (?h1\<lparr>ph_indirectHistory := hh\<rparr> # q) log" "io = None \<longleftrightarrow> bu_iPred u = None" by auto
  let ?u2 = "?u1\<lparr>bu_iPred := io\<rparr>" and ?h2 = "?h1\<lparr>ph_indirectHistory := hh\<rparr>"
  have "ras_inv n tid (bu_ras ?u2) (h # q)" "ph_wf po tid ?h2" "ph_rasHistory ?h2 = ph_rasHistory h"
    using inv wf0 by (simp_all add: unit_inv_def ph_wf_def)
  from correct_ras_stage [OF this, of target taken] obtain ro rh where
      ro: "(case bu_ras ?u2 of None \<Rightarrow> Inr (?u2, ?h2)
      | Some ras \<Rightarrow> bind_r (correct_ras po ras tid target taken ?h2)
          (\<lambda>(ras, h). Inr (?u2\<lparr>bu_ras := Some ras\<rparr>, ?h2\<lparr>ph_rasHistory := h\<rparr>))) =
      Inr (?u2\<lparr>bu_ras := ro\<rparr>, ?h2\<lparr>ph_rasHistory := rh\<rparr>)" "ras_inv n tid ro (?h2\<lparr>ph_rasHistory := rh\<rparr> # q)"
      "ph_wf po tid (?h2\<lparr>ph_rasHistory := rh\<rparr>)" by blast
  let ?u3 = "?u2\<lparr>bu_ras := ro\<rparr>" and ?h3 = "?h2\<lparr>ph_rasHistory := rh\<rparr>"
  obtain b' st where b': "(if taken \<and> bu_updateBTBAtSquash ?u3
      then BPredUnit_updateBTB pt tick ?u3 tid ?h3 else Inr ?u3) = Inr (?u3\<lparr>bu_stats := st, bu_btb := b'\<rparr>)" "btb_inv b'"
    using maybe_updateBTB_ok [of ?u3 ?h3 target "taken \<and> bu_updateBTBAtSquash ?u3" tick tid] b by auto
  have "correct_branch pt tick rnd u sn target taken tid from_commit h = Inr (?u3\<lparr>bu_stats := st, bu_btb := b'\<rparr>, ?h3)"
    unfolding correct_branch_def Let_def
    using s'(1) io(1) ro(1) b'(1) by simp
  moreover have "unit_inv n c v0 w0 tid (?u3\<lparr>bu_stats := st, bu_btb := b'\<rparr>) (?h3 # q) log"
    using s'(2) io(2) ro(2,3) b'(2) wf by (simp add: unit_inv_def)
  moreover have "corrected h taken target ?h3" by (simp add: corrected_def branch_of_def)
  ultimately show ?thesis using io(3) by (auto simp: same_frame_def)
qed

lemma predict_btb_ok:
  assumes "btb_inv (bu_btb u)" and "provided h"
  shows "\<exists>u' h'. predict_btb pt tick u tid pc type h = Inr (u', h') \<and> same_frame u u' \<and> bu_cPred u' = bu_cPred u \<and>
    bu_iPred u' = bu_iPred u \<and> bu_ras u' = bu_ras u \<and> btb_inv (bu_btb u') \<and> static h h' \<and>
    ph_bpHistory h' = ph_bpHistory h \<and> ph_indirectHistory h' = ph_indirectHistory h \<and>
    ph_rasHistory h' = ph_rasHistory h \<and> provided h'"
proof -
  obtain t b where "btb_lookup (pt_btb pt) tick (bu_btb u) tid (po_instAddr po pc) type = Inr (t, b)" "btb_inv b"
    using tb.lookup_law [OF assms(1)] by blast
  then show ?thesis
    using assms(2) by (cases t) (auto simp: predict_btb_def same_frame_def static_def provided_def Let_def)
qed

lemma predict_direction_ok:
  assumes "cond_inv c v0 (bu_cPred u) q log" and "\<forall>br. br_tid br = tid \<longrightarrow> br_ok c br"
    and "ph_bpHistory h = None" and "ph_tid h = tid" and "ph_pc h = po_instAddr po pc"
  shows "\<exists>u' h'. predict_direction pt u tid pc h = Inr (u', h') \<and> same_frame u u' \<and> bu_btb u' = bu_btb u \<and>
    bu_iPred u' = bu_iPred u \<and> bu_ras u' = bu_ras u \<and> static h h' \<and> ph_target h' = ph_target h \<and>
    ph_indirectHistory h' = ph_indirectHistory h \<and> ph_rasHistory h' = ph_rasHistory h \<and>
    (\<forall>target g. static h g \<and> ph_target g = Some target \<longrightarrow>
      (\<exists>s2 h2. cp_updateHistories (pt_cPred pt) (bu_cPred u') tid (ph_pc h) (ph_uncond h) (ph_actuallyTaken g)
          (po_instAddr po target) (ph_inst h) (ph_bpHistory h') = Inr (s2, h2) \<and>
        cond_inv c v0 s2 (g\<lparr>ph_bpHistory := h2\<rparr> # q) log))"
proof -
  obtain d s1 h1 where l: "if ph_uncond h then s1 = bu_cPred u \<and> h1 = None
        else cp_lookup (pt_cPred pt) (bu_cPred u) tid (ph_pc h) None = Inr (d, s1, h1)"
      and k: "\<forall>taken target g. ph_tid g = tid \<and> ph_pc g = ph_pc h \<and> ph_uncond g = ph_uncond h \<and> ph_inst g = ph_inst h \<and>
        ph_actuallyTaken g = taken \<and> ph_target g = Some target \<longrightarrow>
      (\<exists>s2 h2. cp_updateHistories (pt_cPred pt) s1 tid (ph_pc h) (ph_uncond h) taken (po_instAddr po target) (ph_inst h) h1 =
          Inr (s2, h2) \<and> cond_inv c v0 s2 (g\<lparr>ph_bpHistory := h2\<rparr> # q) log)"
    using cond_predict [OF assms(1,2), where uncond = "ph_uncond h" and pc = "ph_pc h" and inst = "ph_inst h"]
    by (elim exE conjE) (rule that)
  have "\<exists>u' h'. predict_direction pt u tid pc h = Inr (u', h') \<and> same_frame u u' \<and> bu_btb u' = bu_btb u \<and>
      bu_iPred u' = bu_iPred u \<and> bu_ras u' = bu_ras u \<and> static h h' \<and> ph_target h' = ph_target h \<and>
      ph_indirectHistory h' = ph_indirectHistory h \<and> ph_rasHistory h' = ph_rasHistory h \<and>
      bu_cPred u' = s1 \<and> ph_bpHistory h' = h1"
    using l assms(3,5)
    by (cases "ph_uncond h") (simp_all add: predict_direction_def same_frame_def static_def Let_def)
  then obtain u' h' where p: "predict_direction pt u tid pc h = Inr (u', h')" "same_frame u u'" "bu_btb u' = bu_btb u"
      "bu_iPred u' = bu_iPred u" "bu_ras u' = bu_ras u" "static h h'" "ph_target h' = ph_target h"
      "ph_indirectHistory h' = ph_indirectHistory h" "ph_rasHistory h' = ph_rasHistory h"
      "bu_cPred u' = s1" "ph_bpHistory h' = h1"
    by blast
  have "\<forall>target g. static h g \<and> ph_target g = Some target \<longrightarrow>
      (\<exists>s2 h2. cp_updateHistories (pt_cPred pt) (bu_cPred u') tid (ph_pc h) (ph_uncond h) (ph_actuallyTaken g)
          (po_instAddr po target) (ph_inst h) (ph_bpHistory h') = Inr (s2, h2) \<and>
        cond_inv c v0 s2 (g\<lparr>ph_bpHistory := h2\<rparr> # q) log)"
    unfolding p(10,11) using k assms(4) by (auto simp: static_def)
  then show ?thesis using p(1-9) by (intro exI [of _ u'] exI [of _ h'] conjI)
qed

lemma predict_indirect_ok:
  assumes inv: "ind_inv w0 tid (bu_iPred u) q log" and tid: "itid tid" and "ph_indirectHistory h = None" and "provided h"
    and pc: "ph_pc h = po_instAddr po pc"
  shows "\<exists>u' h'. predict_indirect pt u tid (ph_seqNum h) pc inst h = Inr (u', h') \<and> same_frame u u' \<and> bu_btb u' = bu_btb u \<and>
    bu_cPred u' = bu_cPred u \<and> bu_ras u' = bu_ras u \<and> static h h' \<and> provided h' \<and>
    ph_bpHistory h' = ph_bpHistory h \<and> ph_rasHistory h' = ph_rasHistory h \<and>
    (\<forall>target g. static h g \<and> ph_target g = Some target \<and> ph_indirectHistory g = ph_indirectHistory h' \<longrightarrow>
      (case bu_iPred u' of None \<Rightarrow> ind_inv w0 tid None (g # q) log
       | Some i \<Rightarrow> \<exists>i2 h2. id_update (pt_iPred pt) rnd i tid (ph_seqNum h) (ph_pc h) False (ph_actuallyTaken g) target
           (ph_type h) (ph_indirectHistory g) = Inr (i2, h2) \<and>
         ind_inv w0 tid (Some i2) (g\<lparr>ph_indirectHistory := h2\<rparr> # q) log))"
proof (cases "bu_iPred u")
  case None
  then show ?thesis
    using assms by (simp add: predict_indirect_def consults_indirect_def same_frame_def static_def ind_inv_def)
next
  case (Some i)
  let ?c = "consults_indirect u inst h"
  obtain r i1 h1 where l: "if ?c then id_lookup (pt_iPred pt) i tid (ph_seqNum h) (ph_pc h) None = Inr (r, i1, h1)
        else i1 = i \<and> h1 = None"
      and k: "\<forall>taken target type g. ph_seqNum g = ph_seqNum h \<and> ph_pc g = ph_pc h \<and> ph_type g = type \<and>
        ph_actuallyTaken g = taken \<and> ph_target g = Some target \<longrightarrow>
      (\<exists>i2 h2. id_update (pt_iPred pt) rnd i1 tid (ph_seqNum h) (ph_pc h) False taken target type h1 = Inr (i2, h2) \<and>
        ind_inv w0 tid (Some i2) (g\<lparr>ph_indirectHistory := h2\<rparr> # q) log)"
    using ind_predict [OF inv [unfolded Some] tid, where consult = ?c and sn = "ph_seqNum h" and pc = "ph_pc h" and rnd = rnd]
    by (elim exE conjE) (rule that)
  have "\<exists>u' h'. predict_indirect pt u tid (ph_seqNum h) pc inst h = Inr (u', h') \<and> same_frame u u' \<and>
      bu_btb u' = bu_btb u \<and> bu_cPred u' = bu_cPred u \<and> bu_ras u' = bu_ras u \<and> static h h' \<and> provided h' \<and>
      ph_bpHistory h' = ph_bpHistory h \<and> ph_rasHistory h' = ph_rasHistory h \<and>
      bu_iPred u' = Some i1 \<and> ph_indirectHistory h' = h1"
  proof (cases ?c)
    case True
    then show ?thesis
      using l assms(3,4) pc Some
      by (cases r) (simp_all add: predict_indirect_def same_frame_def static_def provided_def Let_def)
  next
    case False
    then show ?thesis
      using l assms(3,4) Some by (simp add: predict_indirect_def same_frame_def static_def)
  qed
  then obtain u' h' where p: "predict_indirect pt u tid (ph_seqNum h) pc inst h = Inr (u', h')" "same_frame u u'"
      "bu_btb u' = bu_btb u" "bu_cPred u' = bu_cPred u" "bu_ras u' = bu_ras u" "static h h'" "provided h'"
      "ph_bpHistory h' = ph_bpHistory h" "ph_rasHistory h' = ph_rasHistory h"
      "bu_iPred u' = Some i1" "ph_indirectHistory h' = h1"
    by blast
  have "\<forall>target g. static h g \<and> ph_target g = Some target \<and> ph_indirectHistory g = ph_indirectHistory h' \<longrightarrow>
      (\<exists>i2 h2. id_update (pt_iPred pt) rnd i1 tid (ph_seqNum h) (ph_pc h) False (ph_actuallyTaken g) target
           (ph_type h) (ph_indirectHistory g) = Inr (i2, h2) \<and>
         ind_inv w0 tid (Some i2) (g\<lparr>ph_indirectHistory := h2\<rparr> # q) log)"
  proof (intro allI impI)
    fix target g
    assume "static h g \<and> ph_target g = Some target \<and> ph_indirectHistory g = ph_indirectHistory h'"
    then show "\<exists>i2 h2. id_update (pt_iPred pt) rnd i1 tid (ph_seqNum h) (ph_pc h) False (ph_actuallyTaken g) target
           (ph_type h) (ph_indirectHistory g) = Inr (i2, h2) \<and>
         ind_inv w0 tid (Some i2) (g\<lparr>ph_indirectHistory := h2\<rparr> # q) log"
      using k [THEN spec, of "ph_actuallyTaken g", THEN spec, of target, THEN spec, of "ph_type h", THEN spec, of g] p(11)
      by (simp add: static_def)
  qed
  then show ?thesis using p by (intro exI [of _ u'] exI [of _ h']) simp
qed

text \<open>The fall-through always leaves a target.\<close>

lemma predict_fallthrough_ok:
  assumes "provided h"
  shows "\<exists>t. ph_target (predict_fallthrough po pc inst h) = Some t" and "static h (predict_fallthrough po pc inst h)"
    and "ph_bpHistory (predict_fallthrough po pc inst h) = ph_bpHistory h"
    and "ph_indirectHistory (predict_fallthrough po pc inst h) = ph_indirectHistory h"
    and "ph_rasHistory (predict_fallthrough po pc inst h) = ph_rasHistory h"
  using assms by (auto simp: predict_fallthrough_def provided_def static_def)

lemma static_trans: "static a b \<Longrightarrow> static b c \<Longrightarrow> static a c"
  by (simp add: static_def)

lemma same_frame_trans: "same_frame a b \<Longrightarrow> same_frame b c \<Longrightarrow> same_frame a c"
  by (simp add: same_frame_def)

lemma predict_histories_ok:
  assumes cond: "\<exists>s2 h2. cp_updateHistories (pt_cPred pt) (bu_cPred u) tid (ph_pc h) (ph_uncond h) (ph_actuallyTaken h)
          (po_instAddr po target) (ph_inst h) (ph_bpHistory h) = Inr (s2, h2) \<and>
        cond_inv c v0 s2 (h\<lparr>ph_bpHistory := h2\<rparr> # q) log"
    and ind: "case bu_iPred u of None \<Rightarrow> ind_inv w0 tid None (h # q) log
       | Some i \<Rightarrow> \<exists>i2 h2. id_update (pt_iPred pt) rnd i tid sn (ph_pc h) False (ph_actuallyTaken h) target
           (ph_type h) (ph_indirectHistory h) = Inr (i2, h2) \<and>
         ind_inv w0 tid (Some i2) (h\<lparr>ph_indirectHistory := h2\<rparr> # q) log"
    and taken: "ph_predTaken h = ph_actuallyTaken h"
  shows "\<exists>u' bh ih. predict_histories pt rnd u tid sn (ph_type h) target h =
      Inr (u', h\<lparr>ph_bpHistory := bh, ph_indirectHistory := ih\<rparr>) \<and> same_frame u u' \<and> bu_ras u' = bu_ras u \<and>
    bu_btb u' = bu_btb u \<and> cond_inv c v0 (bu_cPred u') (h\<lparr>ph_bpHistory := bh, ph_indirectHistory := ih\<rparr> # q) log \<and>
    ind_inv w0 tid (bu_iPred u') (h\<lparr>ph_bpHistory := bh, ph_indirectHistory := ih\<rparr> # q) log"
proof -
  obtain s2 bh where s: "cp_updateHistories (pt_cPred pt) (bu_cPred u) tid (ph_pc h) (ph_uncond h) (ph_actuallyTaken h)
          (po_instAddr po target) (ph_inst h) (ph_bpHistory h) = Inr (s2, bh)"
      "cond_inv c v0 s2 (h\<lparr>ph_bpHistory := bh\<rparr> # q) log"
    using cond by blast
  have swap: "h\<lparr>ph_bpHistory := bh, ph_indirectHistory := ih\<rparr> = h\<lparr>ph_indirectHistory := ih, ph_bpHistory := bh\<rparr>" for ih
    by simp
  show ?thesis
  proof (cases "bu_iPred u")
    case None
    have "h\<lparr>ph_bpHistory := bh, ph_indirectHistory := ph_indirectHistory h\<rparr> = h\<lparr>ph_bpHistory := bh\<rparr>" by simp
    then show ?thesis
      using s None ind taken
      by (intro exI [of _ "u\<lparr>bu_cPred := s2\<rparr>"] exI [of _ bh] exI [of _ "ph_indirectHistory h"])
        (simp add: predict_histories_def same_frame_def)
  next
    case (Some i)
    then obtain i2 ih where i: "id_update (pt_iPred pt) rnd i tid sn (ph_pc h) False (ph_actuallyTaken h) target
        (ph_type h) (ph_indirectHistory h) = Inr (i2, ih)" "ind_inv w0 tid (Some i2) (h\<lparr>ph_indirectHistory := ih\<rparr> # q) log"
      using ind by auto
    have "ind_inv w0 tid (Some i2) (h\<lparr>ph_bpHistory := bh, ph_indirectHistory := ih\<rparr> # q) log"
      using i(2) unfolding swap ind_inv_frame .
    then show ?thesis
      using s Some i(1) taken
      by (intro exI [of _ "u\<lparr>bu_cPred := s2, bu_iPred := Some i2\<rparr>"] exI [of _ bh] exI [of _ ih])
        (simp add: predict_histories_def same_frame_def Let_def)
  qed
qed

lemma predict_hist_ok:
  assumes inv: "unit_inv n c v0 w0 tid u q log" and tid: "itid tid" and ok: "\<forall>br. br_tid br = tid \<longrightarrow> br_ok c br"
    and size: "isCall inst \<longrightarrow> po_size po inst \<noteq> 0"
  shows "\<exists>taken target u' h. BPredUnit_predict_hist pt tick rnd u inst sn pc tid = Inr (taken, target, u', h) \<and>
    unit_inv n c v0 w0 tid u' (h # q) log \<and> same_frame u u' \<and>
    static (PredictorHistory_new tid sn (po_instAddr po pc) inst) h \<and> ph_actuallyTaken h = taken \<and> ph_target h = Some target"
proof -
  let ?h0 = "PredictorHistory_new tid sn (po_instAddr po pc) inst :: ('ch, 'pc, 'ih) PredictorHistory" and ?ty = "getBranchType inst"
  let ?u0 = "u\<lparr>bu_stats := (bu_stats u)\<lparr>bs_lookups := count2 tid ?ty (bs_lookups (bu_stats u))\<rparr>\<rparr>"
  have new: "ph_bpHistory ?h0 = None" "ph_indirectHistory ?h0 = None" "ph_rasHistory ?h0 = None" "ph_target ?h0 = None"
      "ph_tid ?h0 = tid" "ph_pc ?h0 = po_instAddr po pc" "ph_seqNum ?h0 = sn" "ph_inst ?h0 = inst" "ph_type ?h0 = ?ty"
      "ph_call ?h0 = isCall inst"
    by (simp_all add: PredictorHistory_new_def)
  have c0: "cond_inv c v0 (bu_cPred ?u0) q log" and b0: "btb_inv (bu_btb ?u0)" using inv by (simp_all add: unit_inv_def)
  obtain u1 h1 where d: "predict_direction pt ?u0 tid pc ?h0 = Inr (u1, h1)" "same_frame ?u0 u1" "bu_btb u1 = bu_btb ?u0"
      "bu_iPred u1 = bu_iPred ?u0" "bu_ras u1 = bu_ras ?u0" "static ?h0 h1" "ph_target h1 = None"
      "ph_indirectHistory h1 = None" "ph_rasHistory h1 = None"
    and dk: "\<forall>target g. static ?h0 g \<and> ph_target g = Some target \<longrightarrow>
      (\<exists>s2 h2. cp_updateHistories (pt_cPred pt) (bu_cPred u1) tid (ph_pc ?h0) (ph_uncond ?h0) (ph_actuallyTaken g)
          (po_instAddr po target) (ph_inst ?h0) (ph_bpHistory h1) = Inr (s2, h2) \<and>
        cond_inv c v0 s2 (g\<lparr>ph_bpHistory := h2\<rparr> # q) log)"
    using predict_direction_ok [OF c0 ok new(1,5,6)] unfolding new by blast
  let ?g1 = "h1\<lparr>ph_targetProvider := NoTarget\<rparr>"
  have b1: "btb_inv (bu_btb u1)" and p1: "provided ?g1" using b0 d(3) by (simp_all add: provided_def)
  obtain u2 h2 where b: "predict_btb pt tick u1 tid pc ?ty ?g1 = Inr (u2, h2)" "same_frame u1 u2" "bu_cPred u2 = bu_cPred u1"
      "bu_iPred u2 = bu_iPred u1" "bu_ras u2 = bu_ras u1" "btb_inv (bu_btb u2)" "static ?g1 h2"
      "ph_bpHistory h2 = ph_bpHistory ?g1" "ph_indirectHistory h2 = ph_indirectHistory ?g1"
      "ph_rasHistory h2 = ph_rasHistory ?g1" "provided h2"
    using predict_btb_ok [OF b1 p1, of tick tid pc ?ty] by blast
  have r2: "ras_inv n tid (bu_ras u2) q" "ph_rasHistory h2 = None" "ind_inv w0 tid (bu_iPred u2) q log" "static ?h0 h2"
    using inv b d by (simp_all add: unit_inv_def static_def)
  obtain u3 h3 where r: "predict_ras pt u2 tid pc inst h2 = Inr (u3, h3)" "same_frame u2 u3" "bu_cPred u3 = bu_cPred u2"
      "bu_iPred u3 = bu_iPred u2" "bu_btb u3 = bu_btb u2" "static h2 h3" "ph_bpHistory h3 = ph_bpHistory h2"
      "ph_indirectHistory h3 = ph_indirectHistory h2" "provided h3" "ras_inv n tid (bu_ras u3) (h3 # q)"
      "ph_rasHistory h3 \<noteq> None \<longrightarrow> isCall inst \<or> isReturn inst"
    using predict_ras_ok [OF r2(1,2) b(11), of pt pc inst] by blast
  have s3: "static ?h0 h3" by (rule static_trans [OF r2(4) r(6)])
  have i3: "ind_inv w0 tid (bu_iPred u3) q log" "ph_indirectHistory h3 = None" "ph_pc h3 = po_instAddr po pc" "ph_seqNum h3 = sn"
      "ph_type h3 = ?ty"
    using r2(3) r(4,8) b(9) d(8) s3 by (simp_all add: static_def new)
  obtain u4 h4 where i: "predict_indirect pt u3 tid (ph_seqNum h3) pc inst h3 = Inr (u4, h4)" "same_frame u3 u4"
      "bu_btb u4 = bu_btb u3" "bu_cPred u4 = bu_cPred u3" "bu_ras u4 = bu_ras u3" "static h3 h4" "provided h4"
      "ph_bpHistory h4 = ph_bpHistory h3" "ph_rasHistory h4 = ph_rasHistory h3"
    and ik: "\<forall>target g. static h3 g \<and> ph_target g = Some target \<and> ph_indirectHistory g = ph_indirectHistory h4 \<longrightarrow>
      (case bu_iPred u4 of None \<Rightarrow> ind_inv w0 tid None (g # q) log
       | Some i \<Rightarrow> \<exists>i2 h2. id_update (pt_iPred pt) rnd i tid (ph_seqNum h3) (ph_pc h3) False (ph_actuallyTaken g) target
           (ph_type h3) (ph_indirectHistory g) = Inr (i2, h2) \<and>
         ind_inv w0 tid (Some i2) (g\<lparr>ph_indirectHistory := h2\<rparr> # q) log)"
    using predict_indirect_ok [OF i3(1) tid i3(2) r(9) i3(3), of inst rnd] by blast
  let ?h5 = "predict_fallthrough po pc inst h4"
  let ?g = "?h5\<lparr>ph_actuallyTaken := ph_predTaken ?h5\<rparr>"
  let ?u5 = "u4\<lparr>bu_stats := (bu_stats u4)\<lparr>bs_targetProvider :=
    count2 tid (ph_targetProvider ?h5) (bs_targetProvider (bu_stats u4))\<rparr>\<rparr>"
  note ft = predict_fallthrough_ok [OF i(7), of pc inst]
  obtain target where t: "ph_target ?h5 = Some target" using ft(1) by blast
  have s5: "static h3 ?g" "static ?h0 ?g" using ft(2) i(6) s3 by (simp_all add: static_def)
  have f5: "ph_pc ?g = ph_pc ?h0" "ph_uncond ?g = ph_uncond ?h0" "ph_inst ?g = ph_inst ?h0" "ph_type ?g = ?ty" "ph_tid ?g = tid"
      "ph_call ?g = isCall inst"
    using s5(2) by (simp_all add: static_def new)
  have bh: "ph_bpHistory ?g = ph_bpHistory h1" "bu_cPred ?u5 = bu_cPred u1"
    using ft(3) i(8,4) r(7,3) b(8,3) by simp_all
  have "\<exists>s2 h2. cp_updateHistories (pt_cPred pt) (bu_cPred ?u5) tid (ph_pc ?g) (ph_uncond ?g) (ph_actuallyTaken ?g)
          (po_instAddr po target) (ph_inst ?g) (ph_bpHistory ?g) = Inr (s2, h2) \<and>
        cond_inv c v0 s2 (?g\<lparr>ph_bpHistory := h2\<rparr> # q) log"
    using dk [THEN spec, of target, THEN spec, of ?g] s5(2) t unfolding bh f5 by simp
  moreover have "case bu_iPred ?u5 of None \<Rightarrow> ind_inv w0 tid None (?g # q) log
       | Some i \<Rightarrow> \<exists>i2 h2. id_update (pt_iPred pt) rnd i tid sn (ph_pc ?g) False (ph_actuallyTaken ?g) target
           (ph_type ?g) (ph_indirectHistory ?g) = Inr (i2, h2) \<and>
         ind_inv w0 tid (Some i2) (?g\<lparr>ph_indirectHistory := h2\<rparr> # q) log"
    using ik [THEN spec, of target, THEN spec, of ?g] s5(1) t ft(4) i3(3-5) f5 new(6)
    by (cases "bu_iPred u4") simp_all
  moreover have "ph_predTaken ?g = ph_actuallyTaken ?g" by simp
  ultimately obtain u6 bh ih where h: "predict_histories pt rnd ?u5 tid sn (ph_type ?g) target ?g =
        Inr (u6, ?g\<lparr>ph_bpHistory := bh, ph_indirectHistory := ih\<rparr>)" "same_frame ?u5 u6" "bu_ras u6 = bu_ras ?u5"
      "bu_btb u6 = bu_btb ?u5" "cond_inv c v0 (bu_cPred u6) (?g\<lparr>ph_bpHistory := bh, ph_indirectHistory := ih\<rparr> # q) log"
      "ind_inv w0 tid (bu_iPred u6) (?g\<lparr>ph_bpHistory := bh, ph_indirectHistory := ih\<rparr> # q) log"
    using predict_histories_ok [of ?u5 tid ?g target c v0 q log w0 rnd sn] by blast
  let ?final = "?g\<lparr>ph_bpHistory := bh, ph_indirectHistory := ih\<rparr>"
  have "ras_inv n tid (bu_ras u6) (?final # q)"
    using r(10) h(3) i(5,9) ft(5) by (simp add: ras_inv_def split: option.splits)
  moreover have "ph_wf po tid ?final"
    using f5 t size r(11) i(9) ft(5) by (simp add: ph_wf_def new)
  moreover have "btb_inv (bu_btb u6)" using h(4) i(3) r(5) b(6) by simp
  ultimately have "unit_inv n c v0 w0 tid u6 (?final # q) log"
    using h(5,6) inv by (simp add: unit_inv_def)
  moreover have "BPredUnit_predict_hist pt tick rnd u inst sn pc tid = Inr (ph_predTaken ?final, target, u6, ?final)"
    unfolding BPredUnit_predict_hist_def Let_def
    using d(1) b(1) r(1) i(1) t h(1) i3(4) f5(4) by simp
  moreover have "same_frame u u6"
    using d(2) b(2) r(2) i(2) h(2) by (simp add: same_frame_def)
  moreover have "static ?h0 ?final" using s5(2) by (simp add: static_def)
  ultimately show ?thesis using t by (intro exI [of _ "ph_predTaken ?final"] exI [of _ target] exI [of _ u6] exI [of _ ?final]) simp
qed

lemma update_loop_ok:
  assumes "unit_inv n c v0 w0 tid u q log" and "itid tid"
  shows "\<exists>u'. update_loop pt tick sn tid u q = Inr (u', after_commit sn q) \<and>
    unit_inv n c v0 w0 tid u' (after_commit sn q) (drop (length (after_commit sn q)) q @ log) \<and> same_frame u u'"
  using assms(1)
proof (induction q arbitrary: u log rule: rev_induct)
  case Nil
  then show ?case by (simp add: after_commit_def same_frame_def update_loop.simps)
next
  case (snoc h q)
  show ?case
  proof (cases "ph_seqNum h \<le> sn")
    case True
    obtain u1 h1 where s: "BPredUnit_commitBranch pt tick u tid h = Inr (u1, h1)" "PredictorHistory_delete h1 = Inr ()"
        "unit_inv n c v0 w0 tid u1 q (h # log)" "same_frame u u1"
      using commitBranch_ok [OF snoc.prems assms(2)] by blast
    obtain u' where l: "update_loop pt tick sn tid u1 q = Inr (u', after_commit sn q)"
        "unit_inv n c v0 w0 tid u' (after_commit sn q) (drop (length (after_commit sn q)) q @ h # log)" "same_frame u1 u'"
      using snoc.IH [OF s(3)] by blast
    have "update_loop pt tick sn tid u (q @ [h]) = Inr (u', after_commit sn (q @ [h]))"
      using True s(1,2) l(1) by (subst update_loop.simps) (simp add: after_commit_snoc)
    moreover have "drop (length (after_commit sn q)) (q @ [h]) = drop (length (after_commit sn q)) q @ [h]"
      using length_after_commit [of sn q] by simp
    ultimately show ?thesis
      using l(2) same_frame_trans [OF s(4) l(3)] True by (auto simp: after_commit_snoc)
  next
    case False
    then show ?thesis
      using snoc.prems by (subst update_loop.simps) (simp add: after_commit_snoc same_frame_def)
  qed
qed

lemma squash_loop_ok:
  assumes "unit_inv n c v0 w0 tid u q log" and "itid tid"
  shows "\<exists>u'. squash_loop pt sn tid u q = Inr (u', after_squash sn q) \<and>
    unit_inv n c v0 w0 tid u' (after_squash sn q) log \<and> same_frame u u'"
  using assms(1)
proof (induction q arbitrary: u)
  case Nil
  then show ?case by (simp add: after_squash_def same_frame_def)
next
  case (Cons h q)
  show ?case
  proof (cases "ph_seqNum h > sn")
    case True
    obtain u1 where s: "BPredUnit_squashHistory pt u tid h = Inr u1" "unit_inv n c v0 w0 tid u1 q log" "same_frame u u1"
      using squashHistory_ok [OF Cons.prems assms(2)] by blast
    then show ?thesis
      using Cons.IH [OF s(2)] True same_frame_trans [OF s(3)] by (auto simp: after_squash_def)
  next
    case False
    then show ?thesis using Cons.prems by (simp add: after_squash_def same_frame_def)
  qed
qed

lemma unit_inv_predHist [simp]: "unit_inv n c v0 w0 tid (u\<lparr>bu_predHist := x\<rparr>) q log = unit_inv n c v0 w0 tid u q log"
  by (simp add: unit_inv_def)

text \<open>The invariant of a unit that serves the thread \<open>tid\<close>.\<close>

definition run_inv ::
  "nat \<Rightarrow> 'k \<Rightarrow> 'v \<Rightarrow> 'w \<Rightarrow> ThreadID \<Rightarrow>
   ('c, 'ch, 'b, 'pc, 'i, 'ih) BPredUnit \<times> ('ch, 'pc, 'ih) PredictorHistory list \<Rightarrow> bool" where
  "run_inv n c v0 w0 tid st \<longleftrightarrow> tid < length (bu_predHist (fst st)) \<and>
     unit_inv n c v0 w0 tid (fst st) (bu_predHist (fst st) ! tid) (snd st)"

lemma squash_ok:
  assumes "run_inv n c v0 w0 tid (u, log)" and "itid tid"
  shows "\<exists>u'. BPredUnit_squash pt u sn tid = Inr u' \<and> run_inv n c v0 w0 tid (u', log) \<and>
    bu_predHist u' ! tid = after_squash sn (bu_predHist u ! tid) \<and> (bu_iPred u' = None \<longleftrightarrow> bu_iPred u = None)"
proof -
  have t: "tid < length (bu_predHist u)" and i: "unit_inv n c v0 w0 tid u (bu_predHist u ! tid) log"
    using assms(1) by (simp_all add: run_inv_def)
  obtain u' where "squash_loop pt sn tid u (bu_predHist u ! tid) = Inr (u', after_squash sn (bu_predHist u ! tid))"
      "unit_inv n c v0 w0 tid u' (after_squash sn (bu_predHist u ! tid)) log" "same_frame u u'"
    using squash_loop_ok [OF i assms(2)] by blast
  then show ?thesis using t by (auto simp: BPredUnit_squash_def run_inv_def same_frame_def)
qed

lemma step_inv:
  assumes inv: "run_inv n c v0 w0 tid (u, log)" and tid: "itid tid" and ok: "\<forall>br. br_tid br = tid \<longrightarrow> br_ok c br"
    and ev: "bpu_event_ok po ev"
  shows "\<exists>st. bpu_step pt tid (u, log) ev = Inr st \<and> run_inv n c v0 w0 tid st \<and>
    (bu_iPred (fst st) = None \<longleftrightarrow> bu_iPred u = None) \<and>
    (sorted_wrt (>) (map ph_seqNum (bu_predHist u ! tid)) \<longrightarrow> sns tid st = queue_step (sns tid (u, log)) ev)"
proof (cases ev)
  case (Predict inst sn pc tick rnd)
  have t: "tid < length (bu_predHist u)" and i: "unit_inv n c v0 w0 tid u (bu_predHist u ! tid) log"
    using inv by (simp_all add: run_inv_def)
  obtain taken target u' h where "BPredUnit_predict_hist pt tick rnd u inst sn pc tid = Inr (taken, target, u', h)"
      "unit_inv n c v0 w0 tid u' (h # bu_predHist u ! tid) log" "same_frame u u'" "ph_seqNum h = sn"
    using predict_hist_ok [OF i tid ok, of inst tick rnd sn pc] ev Predict
    by (auto simp: static_def PredictorHistory_new_def)
  then show ?thesis using Predict t
    by (simp add: BPredUnit_predict_def BPredUnit_insertPredictorHistory_def run_inv_def same_frame_def sns_def)
next
  case (CommitTo sn tick)
  have t: "tid < length (bu_predHist u)" and i: "unit_inv n c v0 w0 tid u (bu_predHist u ! tid) log"
    using inv by (simp_all add: run_inv_def)
  let ?q = "after_commit sn (bu_predHist u ! tid)"
  obtain u' where "update_loop pt tick sn tid u (bu_predHist u ! tid) = Inr (u', ?q)"
      "unit_inv n c v0 w0 tid u' ?q (drop (length ?q) (bu_predHist u ! tid) @ log)" "same_frame u u'"
    using update_loop_ok [OF i tid] by blast
  then show ?thesis using CommitTo t commit_sns [of "bu_predHist u ! tid" sn]
    by (simp add: BPredUnit_update_def run_inv_def same_frame_def sns_def)
next
  case (SquashTo sn)
  then show ?thesis using squash_ok [OF inv tid, of sn]
    by (auto simp: sns_def sns_after_squash dropWhile_sorted)
next
  case (Correct sn target taken fc tick rnd)
  obtain u1 where s: "BPredUnit_squash pt u sn tid = Inr u1" "run_inv n c v0 w0 tid (u1, log)"
      "bu_predHist u1 ! tid = after_squash sn (bu_predHist u ! tid)" "bu_iPred u1 = None \<longleftrightarrow> bu_iPred u = None"
    using squash_ok [OF inv tid, of sn] by (elim exE conjE)
  have q: "map ph_seqNum (bu_predHist u1 ! tid) = filter (\<lambda>x. x \<le> sn) (map ph_seqNum (bu_predHist u ! tid))"
    if "sorted_wrt (>) (map ph_seqNum (bu_predHist u ! tid))"
    using that unfolding s(3) by (simp add: sns_after_squash dropWhile_sorted)
  show ?thesis
  proof (cases "bu_predHist u1 ! tid")
    case Nil
    then show ?thesis using Correct s(1,2,4) q by (simp add: BPredUnit_squash_correct_def run_inv_def sns_def)
  next
    case (Cons h q)
    have t: "tid < length (bu_predHist u1)" and i: "unit_inv n c v0 w0 tid u1 (h # q) log"
      using s(2) Cons by (simp_all add: run_inv_def)
    obtain u2 h2 where "correct_branch pt tick rnd u1 sn target taken tid fc h = Inr (u2, h2)"
        "unit_inv n c v0 w0 tid u2 (h2 # q) log" "same_frame u1 u2" "ph_seqNum h2 = ph_seqNum h"
      using correct_branch_ok [OF i tid, of tick rnd sn target taken fc] unfolding corrected_def by blast
    then show ?thesis using Correct s(1,4) Cons t q
      by (simp add: BPredUnit_squash_correct_def run_inv_def same_frame_def sns_def)
  qed
qed

lemma queue_step_sorted:
  assumes "sorted_wrt (>) q" and "\<forall>x \<in> set q. \<forall>y \<in> set (predicted_sn ev). x < y"
  shows "sorted_wrt (>) (fst (queue_step (q, log) ev))" and "set (fst (queue_step (q, log) ev)) \<subseteq> set q \<union> set (predicted_sn ev)"
  using assms by (cases ev; auto simp: sorted_wrt_filter)+

lemma run_ok:
  assumes "run_inv n c v0 w0 tid st" and "itid tid" and "\<forall>br. br_tid br = tid \<longrightarrow> br_ok c br"
    and "list_all (bpu_event_ok po) evs"
  shows "\<exists>st'. bpu_run pt tid st evs = Inr st' \<and> run_inv n c v0 w0 tid st' \<and>
    (bu_iPred (fst st') = None \<longleftrightarrow> bu_iPred (fst st) = None) \<and>
    (sorted_wrt (>) (fst (sns tid st)) \<and> in_order evs \<and>
       (\<forall>x \<in> set (fst (sns tid st)). \<forall>y \<in> set (concat (map predicted_sn evs)). x < y) \<longrightarrow>
     sns tid st' = foldl queue_step (sns tid st) evs)"
  using assms(1,4)
proof (induction evs arbitrary: st)
  case (Cons ev evs)
  obtain q log where st: "sns tid st = (q, log)" by (cases "sns tid st")
  obtain st1 where s: "bpu_step pt tid st ev = Inr st1" "run_inv n c v0 w0 tid st1"
      "bu_iPred (fst st1) = None \<longleftrightarrow> bu_iPred (fst st) = None"
      "sorted_wrt (>) (fst (sns tid st)) \<longrightarrow> sns tid st1 = queue_step (sns tid st) ev"
  proof -
    have "run_inv n c v0 w0 tid (fst st, snd st)" "bpu_event_ok po ev" using Cons.prems by simp_all
    from step_inv [OF this(1) assms(2,3) this(2)] show thesis
      by (elim exE conjE, intro that) (simp_all add: sns_def)
  qed
  obtain st' where r: "bpu_run pt tid st1 evs = Inr st'" "run_inv n c v0 w0 tid st'"
      "bu_iPred (fst st') = None \<longleftrightarrow> bu_iPred (fst st1) = None"
      "sorted_wrt (>) (fst (sns tid st1)) \<and> in_order evs \<and>
       (\<forall>x \<in> set (fst (sns tid st1)). \<forall>y \<in> set (concat (map predicted_sn evs)). x < y) \<longrightarrow>
       sns tid st' = foldl queue_step (sns tid st1) evs"
  proof -
    have "list_all (bpu_event_ok po) evs" using Cons.prems(2) by simp
    from Cons.IH [OF s(2) this] show thesis by (elim exE conjE) (rule that)
  qed
  have "sns tid st' = foldl queue_step (sns tid st) (ev # evs)"
    if o: "sorted_wrt (>) q" "in_order (ev # evs)"
      "\<forall>x \<in> set q. \<forall>y \<in> set (concat (map predicted_sn (ev # evs))). x < y"
  proof -
    have ev: "\<forall>x \<in> set q. \<forall>y \<in> set (predicted_sn ev). x < y" using o(3) by simp
    note q = queue_step_sorted [OF o(1) ev, of log]
    have "in_order evs" "\<forall>x \<in> set (predicted_sn ev). \<forall>y \<in> set (concat (map predicted_sn evs)). x < y"
      using o(2) by (auto simp: in_order_def sorted_wrt_append)
    then show ?thesis using r(4) s(4) q o st by fastforce
  qed
  then show ?case using s(1,3) r(1-3) st by auto
qed simp

text \<open>A new unit, and what the invariant says about its parts.\<close>

lemma init_inv:
  assumes "inv s" and "\<And>i. io = Some i \<Longrightarrow> itracks i (\<lambda>_. w0)" and "btb_inv b"
    and "\<And>r. ro = Some r \<Longrightarrow> ras_wf n tid r" and "tid < unat numThreads"
  shows "run_inv n (cfg s) (view s) w0 tid (BPredUnit_init numThreads req upd b ro s io, [])"
proof -
  have "cond_inv (cfg s) (view s) s [] []" using assms(1) by (simp add: cond_inv_def cp.tracks_def)
  moreover have "ind_inv w0 tid io [] []"
  proof (cases io)
    case (Some i)
    have e: "ip.views w0 ((\<lambda>_. [])(tid := [])) ((\<lambda>_. [])(tid := [])) = (\<lambda>_. w0)"
      by (simp add: fun_eq_iff ip.views_def ip.view_of_def)
    have "ip.ghost w0 (i, (\<lambda>_. [])(tid := zip [] (map ph_indirectHistory [])))
        ((\<lambda>_. [])(tid := []))"
      using assms(2) [OF Some] e by (simp add: ip.ghost_def)
    then show ?thesis unfolding Some by (intro ind_invI [of "[]" _ "[]"]) simp_all
  qed (simp add: ind_inv_def)
  moreover have "ras_inv n tid ro []" using assms(4) by (simp add: ras_inv_def split: option.splits)
  ultimately show ?thesis using assms(3,5) by (simp add: run_inv_def unit_inv_def BPredUnit_init_def)
qed

lemma run_inv_view:
  assumes "run_inv n c v0 w0 tid (u, log)"
  shows "view (bu_cPred u) = foldr (push c) (map (branch_of po) (bu_predHist u ! tid @ log)) v0"
    and "cfg (bu_cPred u) = c" and "list_all (\<lambda>h. ph_tid h = tid) (bu_predHist u ! tid @ log)"
  using assms by (auto simp: run_inv_def unit_inv_def cond_inv_def cp.tracks_def ph_wf_def list_all_iff)

lemma run_inv_indirect:
  assumes "run_inv n c v0 w0 tid (u, log)" and "bu_iPred u = Some i"
  shows "\<exists>ops V. list_all2 agrees ops (bu_predHist u ! tid @ log) \<and> itracks i V \<and> V tid = ip.view_of w0 ops"
proof -
  have "ind_inv w0 tid (Some i) (bu_predHist u ! tid) log"
    using assms by (simp add: run_inv_def unit_inv_def)
  then obtain ops dops where o: "list_all2 agrees ops (bu_predHist u ! tid)" "list_all2 agrees dops log"
      "ip.ghost w0 (i, (\<lambda>_. [])(tid := zip ops (map ph_indirectHistory (bu_predHist u ! tid)))) ((\<lambda>_. [])(tid := dops))"
    unfolding ind_inv_def option.case by blast
  have "map fst (zip ops (map ph_indirectHistory (bu_predHist u ! tid))) = ops"
    using list_all2_lengthD [OF o(1)] by simp
  then show ?thesis
    using o(3) list_all2_appendI [OF o(1,2)]
    by (intro exI [of _ "ops @ dops"] exI) (auto simp: ip.ghost_def ip.views_def)
qed

end

end
