(* ===== verification/Loop_Predictor.thy ===== *)
theory Loop_Predictor
  imports Bitfield_Intmath
begin

text \<open>
  The loop predictor of \<open>cpu/pred/loop_predictor.cc\<close>: a table of loops with the number of
  iterations of the last execution, the current iteration, a confidence and an age.  The virtual
  methods \<open>calcConf\<close> and \<open>optionalAgeInc\<close> are a record, with the methods of the base class
  and those of \<open>TAGE_SC_L_LoopPredictor\<close> (\<open>cpu/pred/tage_sc_l.cc\<close>) as instances.  Random
  numbers are arguments, in the order in which the code draws them.  The invariant and that every
  operation keeps it and returns come first; then the behaviour on a loop with a constant number of
  iterations, which the predictor learns from any state of its entry.
\<close>

section \<open>Data\<close>

record LoopEntry =
  le_numIter :: u16
  le_currentIter :: u16
  le_currentIterSpec :: u16
  le_confidence :: u8
  le_tag :: u16
  le_age :: u8
  le_dir :: bool

definition LoopEntry_default :: LoopEntry where
  "LoopEntry_default = \<lparr>le_numIter = 0, le_currentIter = 0, le_currentIterSpec = 0, le_confidence = 0,
     le_tag = 0, le_age = 0, le_dir = False\<rparr>"

record LoopPredictorParams =
  lpp_logSizeLoopPred :: u32
  lpp_loopTableAgeBits :: u32
  lpp_loopTableConfidenceBits :: u32
  lpp_loopTableTagBits :: u32
  lpp_loopTableIterBits :: u32
  lpp_logLoopTableAssoc :: u32
  lpp_withLoopBits :: u32
  lpp_useDirectionBit :: bool
  lpp_useSpeculation :: bool
  lpp_useHashing :: bool
  lpp_restrictAllocation :: bool
  lpp_initialLoopIter :: u32
  lpp_initialLoopAge :: u32
  lpp_optionalAgeReset :: bool

record LoopPredictorStats =
  ls_used :: nat
  ls_correct :: nat
  ls_wrong :: nat

record LoopPredictor =
  lp_params :: LoopPredictorParams
  lp_confidenceThreshold :: u8
  lp_loopTagMask :: u16
  lp_loopNumIterMask :: u16
  lp_loopSetMask :: int
  lp_ltable :: "LoopEntry list"
  lp_loopUseCounter :: int
  lp_stats :: LoopPredictorStats

record LoopBranchInfo =
  lb_loopTag :: u16
  lb_currentIter :: u16
  lb_loopPred :: bool
  lb_loopPredValid :: bool
  lb_loopPredUsed :: bool
  lb_loopIndex :: int
  lb_loopIndexB :: int
  lb_loopHit :: int
  lb_predTaken :: bool

text \<open>The constructor leaves \<open>loopPredUsed\<close> uninitialised: its value is the argument.\<close>

definition LoopBranchInfo_new :: "bool \<Rightarrow> LoopBranchInfo" where
  "LoopBranchInfo_new uninit = \<lparr>lb_loopTag = 0, lb_currentIter = 0, lb_loopPred = False, lb_loopPredValid = False,
     lb_loopPredUsed = uninit, lb_loopIndex = 0, lb_loopIndexB = 0, lb_loopHit = 0, lb_predTaken = False\<rparr>"

definition unsignedCtrUpdate :: "u8 \<Rightarrow> bool \<Rightarrow> u32 \<Rightarrow> u8 result" where
  "unsignedCtrUpdate ctr up nbits =
     check (nbits \<le> 8) (Assert ''nbits <= sizeof(uint8_t) << 3'')
       (Inr (if up then if int (unat ctr) < 2 ^ unat nbits - 1 then ctr + 1 else ctr
             else if ctr \<noteq> 0 then ctr - 1 else ctr))"

definition signedCtrUpdate :: "int \<Rightarrow> bool \<Rightarrow> u32 \<Rightarrow> int result" where
  "signedCtrUpdate ctr up nbits =
     bind_r (int_ones (unat (nbits - 1))) (\<lambda>m.
       Inr (if up then if ctr < m then to_int8 (ctr + 1) else ctr
            else if ctr > - (m + 1) then to_int8 (ctr - 1) else ctr))"

section \<open>Construction\<close>

definition LoopPredictor_new :: "LoopPredictorParams \<Rightarrow> LoopPredictor result" where
  "LoopPredictor_new p =
     bind_r (int_ones (unat (lpp_loopTableConfidenceBits p))) (\<lambda>conf.
     bind_r (int_ones (unat (lpp_loopTableTagBits p))) (\<lambda>tag.
     bind_r (int_ones (unat (lpp_loopTableIterBits p))) (\<lambda>iter.
     bind_r (int_ones (unat (lpp_logSizeLoopPred p - lpp_logLoopTableAssoc p))) (\<lambda>sets.
     bind_r (int_ones (unat (lpp_loopTableAgeBits p))) (\<lambda>age.
     check (lpp_initialLoopAge p \<le> word_of_int age) (Assert ''initialLoopAge <= ((1 << loopTableAgeBits) - 1)'')
       (Inr \<lparr>lp_params = p, lp_confidenceThreshold = word_of_int conf, lp_loopTagMask = word_of_int tag,
          lp_loopNumIterMask = word_of_int iter, lp_loopSetMask = sets, lp_ltable = [], lp_loopUseCounter = - 1,
          lp_stats = \<lparr>ls_used = 0, ls_correct = 0, ls_wrong = 0\<rparr>\<rparr>))))))"

definition LoopPredictor_init :: "LoopPredictor \<Rightarrow> LoopPredictor result" where
  "LoopPredictor_init s =
     (let p = lp_params s
      in check (lpp_loopTableTagBits p \<le> 16) (Assert ''loopTableTagBits <= 16'')
         (check (lpp_loopTableIterBits p \<le> 16) (Assert ''loopTableIterBits <= 16'')
         (check (lpp_logSizeLoopPred p \<ge> lpp_logLoopTableAssoc p) (Assert ''logSizeLoopPred >= logLoopTableAssoc'')
         (check (lpp_logSizeLoopPred p < 64) Undefined
           (Inr (s\<lparr>lp_ltable := replicate (2 ^ unat (lpp_logSizeLoopPred p)) LoopEntry_default\<rparr>))))))"

section \<open>Prediction\<close>

definition lindex :: "LoopPredictor \<Rightarrow> Addr \<Rightarrow> u32 \<Rightarrow> int" where
  "lindex s pc_in instShiftAmt =
     (let pc = drop_bit (unat instShiftAmt) pc_in;
          pc = (if lpp_useHashing (lp_params s) then pc XOR pc_in else pc)
      in to_int (push_bit (unat (lpp_logLoopTableAssoc (lp_params s))) (pc AND word_of_int (lp_loopSetMask s))))"

text \<open>The code also evaluates \<open>finallindex\<close> for \<open>way = -1\<close>, and does not use the value then.\<close>

definition finallindex :: "LoopPredictor \<Rightarrow> int \<Rightarrow> int \<Rightarrow> int \<Rightarrow> int" where
  "finallindex s index lowPcBits way =
     (if lpp_useHashing (lp_params s)
      then index XOR push_bit (unat (lpp_logLoopTableAssoc (lp_params s))) (drop_bit (nat way) lowPcBits)
      else index) + way"

record LoopOps =
  lo_calcConf :: "LoopPredictor \<Rightarrow> LoopEntry \<Rightarrow> bool"
  lo_optionalAgeInc :: "int \<Rightarrow> bool"

definition LoopPredictor_ops :: LoopOps where
  "LoopPredictor_ops = \<lparr>lo_calcConf = (\<lambda>s e. le_confidence e = lp_confidenceThreshold s),
     lo_optionalAgeInc = (\<lambda>_. False)\<rparr>"

definition TAGE_SC_L_LoopPredictor_ops :: LoopOps where
  "TAGE_SC_L_LoopPredictor_ops =
     \<lparr>lo_calcConf = (\<lambda>s e. lo_calcConf LoopPredictor_ops s e \<or> unat (le_confidence e) * unat (le_numIter e) > 128),
      lo_optionalAgeInc = (\<lambda>r. r AND 7 = 0)\<rparr>"

text \<open>The ways of a set in the order of the loops.\<close>

definition loop_ways :: "LoopPredictor \<Rightarrow> nat list" where
  "loop_ways s = [0..<2 ^ unat (lpp_logLoopTableAssoc (lp_params s))]"

fun find_loop :: "LoopPredictor \<Rightarrow> LoopBranchInfo \<Rightarrow> nat list \<Rightarrow> (nat \<times> LoopEntry) option result" where
  "find_loop s bi [] = Inr None"
| "find_loop s bi (i # is) =
     bind_r (arr_get (lp_ltable s) (finallindex s (lb_loopIndex bi) (lb_loopIndexB bi) (int i))) (\<lambda>e.
       if le_tag e = lb_loopTag bi then Inr (Some (i, e)) else find_loop s bi is)"

definition loop_address :: "LoopPredictor \<Rightarrow> Addr \<Rightarrow> u32 \<Rightarrow> LoopBranchInfo \<Rightarrow> LoopBranchInfo" where
  "loop_address s pc instShiftAmt bi =
     (let p = lp_params s;
          bi = bi\<lparr>lb_loopHit := - 1, lb_loopPredValid := False, lb_loopIndex := lindex s pc instShiftAmt\<rparr>
      in if lpp_useHashing p
         then let pcShift = lpp_logSizeLoopPred p - lpp_logLoopTableAssoc p;
                  tag = ucast (drop_bit (unat pcShift) pc XOR drop_bit (unat (pcShift + lpp_loopTableTagBits p)) pc)
              in bi\<lparr>lb_loopIndexB := to_int (drop_bit (unat pcShift) pc AND word_of_int (lp_loopSetMask s)),
                    lb_loopTag := tag AND lp_loopTagMask s\<rparr>
         else let pcShift = instShiftAmt + lpp_logSizeLoopPred p - lpp_logLoopTableAssoc p
              in bi\<lparr>lb_loopTag := ucast (drop_bit (unat pcShift) pc AND ucast (lp_loopTagMask s))\<rparr>)"

definition loop_direction :: "LoopPredictor \<Rightarrow> bool \<Rightarrow> LoopEntry \<Rightarrow> bool" where
  "loop_direction s speculative e =
     (let iter = (if speculative then le_currentIterSpec e else le_currentIter e);
          dir = (if lpp_useDirectionBit (lp_params s) then le_dir e else True)
      in if unat iter + 1 = unat (le_numIter e) then \<not> dir else dir)"

definition getLoop ::
  "LoopOps \<Rightarrow> LoopPredictor \<Rightarrow> Addr \<Rightarrow> LoopBranchInfo \<Rightarrow> bool \<Rightarrow> u32 \<Rightarrow> (bool \<times> LoopBranchInfo) result" where
  "getLoop ops s pc bi speculative instShiftAmt =
     (let bi = loop_address s pc instShiftAmt bi
      in bind_r (find_loop s bi (loop_ways s)) (\<lambda>hit.
           case hit of
             None \<Rightarrow> Inr (False, bi)
           | Some (i, e) \<Rightarrow>
               Inr (loop_direction s speculative e,
                    bi\<lparr>lb_loopHit := int i, lb_loopPredValid := lo_calcConf ops s e\<rparr>)))"

text \<open>Changing the entry of a hit.\<close>

definition loop_update_entry ::
  "LoopPredictor \<Rightarrow> LoopBranchInfo \<Rightarrow> (LoopEntry \<Rightarrow> LoopEntry result) \<Rightarrow> LoopPredictor result" where
  "loop_update_entry s bi f =
     (let idx = finallindex s (lb_loopIndex bi) (lb_loopIndexB bi) (lb_loopHit bi)
      in bind_r (arr_get (lp_ltable s) idx) (\<lambda>e.
         bind_r (f e) (\<lambda>e.
         bind_r (arr_set (lp_ltable s) idx e) (\<lambda>t. Inr (s\<lparr>lp_ltable := t\<rparr>)))))"

definition specLoopUpdate :: "LoopPredictor \<Rightarrow> bool \<Rightarrow> LoopBranchInfo \<Rightarrow> LoopPredictor result" where
  "specLoopUpdate s taken bi =
     (if lb_loopHit bi \<ge> 0
      then loop_update_entry s bi (\<lambda>e. Inr
        (if taken \<noteq> le_dir e then e\<lparr>le_currentIterSpec := 0\<rparr>
         else e\<lparr>le_currentIterSpec := (le_currentIterSpec e + 1) AND lp_loopNumIterMask s\<rparr>))
      else Inr s)"

definition loopPredict ::
  "LoopOps \<Rightarrow> LoopPredictor \<Rightarrow> Addr \<Rightarrow> bool \<Rightarrow> LoopBranchInfo \<Rightarrow> bool \<Rightarrow> u32 \<Rightarrow>
   (bool \<times> LoopPredictor \<times> LoopBranchInfo) result" where
  "loopPredict ops s branch_pc cond_branch bi prev_pred_taken instShiftAmt =
     (if cond_branch
      then bind_r (getLoop ops s branch_pc bi (lpp_useSpeculation (lp_params s)) instShiftAmt) (\<lambda>(pred, bi).
             let bi = bi\<lparr>lb_loopPred := pred\<rparr>;
                 use = (lp_loopUseCounter s \<ge> 0 \<and> lb_loopPredValid bi);
                 pred_taken = (if use then lb_loopPred bi else prev_pred_taken);
                 bi = (if use then bi\<lparr>lb_loopPredUsed := True\<rparr> else bi)
             in bind_r (if lpp_useSpeculation (lp_params s) then specLoopUpdate s pred_taken bi else Inr s) (\<lambda>s.
                  Inr (pred_taken, s, bi)))
      else Inr (prev_pred_taken, s, bi))"

section \<open>Update\<close>

definition free_entry :: "LoopEntry \<Rightarrow> LoopEntry" where
  "free_entry e = e\<lparr>le_numIter := 0, le_age := 0, le_confidence := 0, le_currentIter := 0\<rparr>"

text \<open>Counting one more iteration; the entry is freed when there are more than the last time.\<close>

definition count_iteration :: "LoopPredictor \<Rightarrow> LoopEntry \<Rightarrow> LoopEntry" where
  "count_iteration s e =
     (let e = e\<lparr>le_currentIter := (le_currentIter e + 1) AND lp_loopNumIterMask s\<rparr>
      in if le_currentIter e > le_numIter e
         then let e = e\<lparr>le_confidence := 0\<rparr>
              in if le_numIter e \<noteq> 0
                 then let e = e\<lparr>le_numIter := 0\<rparr>
                      in if lpp_optionalAgeReset (lp_params s) then e\<lparr>le_age := 0\<rparr> else e
                 else e
         else e)"

text \<open>The end of an execution of the loop.\<close>

definition end_loop :: "LoopPredictor \<Rightarrow> bool \<Rightarrow> LoopEntry \<Rightarrow> LoopEntry result" where
  "end_loop s taken e =
     bind_r
       (if le_currentIter e = le_numIter e
        then bind_r (unsignedCtrUpdate (le_confidence e) True (lpp_loopTableConfidenceBits (lp_params s))) (\<lambda>c.
               let e = e\<lparr>le_confidence := c\<rparr>
               in Inr (if le_numIter e < 3
                       then e\<lparr>le_dir := taken, le_numIter := 0, le_age := 0, le_confidence := 0\<rparr> else e))
        else Inr (if le_numIter e = 0
                  then e\<lparr>le_confidence := 0, le_numIter := le_currentIter e\<rparr>
                  else let e = e\<lparr>le_numIter := 0\<rparr>;
                           e = (if lpp_optionalAgeReset (lp_params s) then e\<lparr>le_age := 0\<rparr> else e)
                       in e\<lparr>le_confidence := 0\<rparr>))
       (\<lambda>e. Inr (e\<lparr>le_currentIter := 0\<rparr>))"

definition update_iteration :: "LoopPredictor \<Rightarrow> bool \<Rightarrow> LoopEntry \<Rightarrow> LoopEntry result" where
  "update_iteration s taken e =
     (let e = count_iteration s e
      in if taken \<noteq> (if lpp_useDirectionBit (lp_params s) then le_dir e else True)
         then end_loop s taken e else Inr e)"

definition update_hit :: "LoopPredictor \<Rightarrow> bool \<Rightarrow> LoopBranchInfo \<Rightarrow> bool \<Rightarrow> bool \<Rightarrow> LoopEntry \<Rightarrow> LoopEntry result" where
  "update_hit s taken bi tage_pred ageInc e =
     (if lb_loopPredValid bi \<and> taken \<noteq> lb_loopPred bi then Inr (free_entry e)
      else bind_r
        (if lb_loopPredValid bi \<and> (lb_loopPred bi \<noteq> tage_pred \<or> ageInc)
         then bind_r (unsignedCtrUpdate (le_age e) True (lpp_loopTableAgeBits (lp_params s))) (\<lambda>a.
                Inr (e\<lparr>le_age := a\<rparr>))
         else Inr e) (update_iteration s taken))"

fun allocate_loop :: "LoopPredictor \<Rightarrow> LoopBranchInfo \<Rightarrow> bool \<Rightarrow> int \<Rightarrow> nat list \<Rightarrow> LoopPredictor result" where
  "allocate_loop s bi taken nrand [] = Inr s"
| "allocate_loop s bi taken nrand (i # is) =
     (let p = lp_params s;
          loop_hit = (nrand + int i) AND (2 ^ unat (lpp_logLoopTableAssoc p) - 1);
          idx = finallindex s (lb_loopIndex bi) (lb_loopIndexB bi) loop_hit
      in bind_r (arr_get (lp_ltable s) idx) (\<lambda>e.
         if le_age e = 0
         then bind_r (arr_set (lp_ltable s) idx (e\<lparr>le_dir := \<not> taken, le_tag := lb_loopTag bi, le_numIter := 0,
                  le_age := ucast (lpp_initialLoopAge p), le_confidence := 0,
                  le_currentIter := ucast (lpp_initialLoopIter p)\<rparr>)) (\<lambda>t. Inr (s\<lparr>lp_ltable := t\<rparr>))
         else bind_r (arr_set (lp_ltable s) idx (e\<lparr>le_age := le_age e - 1\<rparr>)) (\<lambda>t.
              let s = s\<lparr>lp_ltable := t\<rparr>
              in if lpp_restrictAllocation p then Inr s else allocate_loop s bi taken nrand is)))"

text \<open>\<open>r1\<close> is drawn for the age of a hit or for the restriction, \<open>nrand\<close> for the way.\<close>

definition loopUpdate ::
  "LoopOps \<Rightarrow> LoopPredictor \<Rightarrow> bool \<Rightarrow> LoopBranchInfo \<Rightarrow> bool \<Rightarrow> int \<Rightarrow> int \<Rightarrow> LoopPredictor result" where
  "loopUpdate ops s taken bi tage_pred r1 nrand =
     (let p = lp_params s
      in if lb_loopHit bi \<ge> 0
         then loop_update_entry s bi (update_hit s taken bi tage_pred (lo_optionalAgeInc ops r1))
         else if (if lpp_useDirectionBit p then lb_predTaken bi \<noteq> taken else taken)
         then if r1 AND 3 = 0 \<or> \<not> lpp_restrictAllocation p
              then allocate_loop s bi taken nrand (loop_ways s) else Inr s
         else Inr s)"

definition LoopPredictor_squash :: "LoopPredictor \<Rightarrow> LoopBranchInfo \<Rightarrow> LoopPredictor result" where
  "LoopPredictor_squash s bi =
     (if lb_loopHit bi \<ge> 0
      then loop_update_entry s bi (\<lambda>e. Inr (e\<lparr>le_currentIterSpec := lb_currentIter bi\<rparr>)) else Inr s)"

definition squashLoop :: "LoopPredictor \<Rightarrow> LoopBranchInfo \<Rightarrow> LoopPredictor result" where
  "squashLoop s bi =
     (if lb_loopHit bi \<ge> 0
      then loop_update_entry s bi (\<lambda>e. Inr (e\<lparr>le_currentIterSpec := lb_currentIter bi\<rparr>)) else Inr s)"

definition LoopPredictor_updateStats :: "LoopPredictor \<Rightarrow> bool \<Rightarrow> LoopBranchInfo \<Rightarrow> LoopPredictor" where
  "LoopPredictor_updateStats s taken bi =
     (if lb_loopPredUsed bi
      then let st = lp_stats s; st = st\<lparr>ls_used := ls_used st + 1\<rparr>
           in s\<lparr>lp_stats := if taken = lb_loopPred bi then st\<lparr>ls_correct := ls_correct st + 1\<rparr>
                else st\<lparr>ls_wrong := ls_wrong st + 1\<rparr>\<rparr>
      else s)"

definition LoopPredictor_condBranchUpdate ::
  "LoopOps \<Rightarrow> LoopPredictor \<Rightarrow> Addr \<Rightarrow> bool \<Rightarrow> bool \<Rightarrow> LoopBranchInfo \<Rightarrow> u32 \<Rightarrow> int \<Rightarrow> int \<Rightarrow>
   (LoopPredictor \<times> LoopBranchInfo) result" where
  "LoopPredictor_condBranchUpdate ops s branch_pc taken tage_pred bi instShiftAmt r1 nrand =
     bind_r (if lpp_useSpeculation (lp_params s)
             then bind_r (getLoop ops s branch_pc bi False instShiftAmt) (\<lambda>(pred, bi). Inr (bi\<lparr>lb_loopPred := pred\<rparr>))
             else Inr bi) (\<lambda>bi.
     bind_r (if lb_loopPredValid bi \<and> lb_predTaken bi \<noteq> lb_loopPred bi
             then signedCtrUpdate (lp_loopUseCounter s) (lb_loopPred bi = taken) (lpp_withLoopBits (lp_params s))
             else Inr (lp_loopUseCounter s)) (\<lambda>c.
     bind_r (loopUpdate ops (s\<lparr>lp_loopUseCounter := c\<rparr>) taken bi tage_pred r1 nrand) (\<lambda>s. Inr (s, bi))))"

definition getLoopUseCounter :: "LoopPredictor \<Rightarrow> int" where
  "getLoopUseCounter s = lp_loopUseCounter s"

definition LoopPredictor_getSizeInBits :: "LoopPredictor \<Rightarrow> u64" where
  "LoopPredictor_getSizeInBits s =
     (let p = lp_params s
      in push_bit (unat (lpp_logSizeLoopPred p)) 1 *
           ucast ((if lpp_useSpeculation p then 3 else 2) * lpp_loopTableIterBits p + lpp_loopTableConfidenceBits p +
                  lpp_loopTableTagBits p + lpp_loopTableAgeBits p + (if lpp_useDirectionBit p then 1 else 0)))"

section \<open>Well-formed predictors\<close>

definition LoopPredictorParams_ok :: "LoopPredictorParams \<Rightarrow> bool" where
  "LoopPredictorParams_ok p \<longleftrightarrow> lpp_logSizeLoopPred p \<le> 30 \<and> lpp_logLoopTableAssoc p \<le> lpp_logSizeLoopPred p \<and>
     lpp_loopTableConfidenceBits p \<le> 8 \<and> lpp_loopTableTagBits p \<le> 16 \<and> lpp_loopTableIterBits p \<le> 16 \<and>
     lpp_loopTableAgeBits p \<le> 8 \<and> 1 \<le> lpp_withLoopBits p \<and> lpp_withLoopBits p \<le> 8 \<and>
     unat (lpp_initialLoopAge p) < 2 ^ unat (lpp_loopTableAgeBits p) \<and>
     unat (lpp_initialLoopIter p) < 2 ^ unat (lpp_loopTableIterBits p)"

definition loop_entry_ok :: "LoopPredictorParams \<Rightarrow> LoopEntry \<Rightarrow> bool" where
  "loop_entry_ok p e \<longleftrightarrow> unat (le_numIter e) < 2 ^ unat (lpp_loopTableIterBits p) \<and>
     unat (le_currentIter e) < 2 ^ unat (lpp_loopTableIterBits p) \<and>
     unat (le_currentIterSpec e) < 2 ^ unat (lpp_loopTableIterBits p) \<and>
     unat (le_confidence e) < 2 ^ unat (lpp_loopTableConfidenceBits p) \<and>
     unat (le_tag e) < 2 ^ unat (lpp_loopTableTagBits p) \<and>
     unat (le_age e) < 2 ^ unat (lpp_loopTableAgeBits p)"

definition loop_cfg_ok :: "LoopPredictor \<Rightarrow> bool" where
  "loop_cfg_ok s \<longleftrightarrow>
     (let p = lp_params s
      in LoopPredictorParams_ok p \<and>
         unat (lp_confidenceThreshold s) = 2 ^ unat (lpp_loopTableConfidenceBits p) - 1 \<and>
         lp_loopTagMask s = mask (unat (lpp_loopTableTagBits p)) \<and>
         lp_loopNumIterMask s = mask (unat (lpp_loopTableIterBits p)) \<and>
         lp_loopSetMask s = mask (unat (lpp_logSizeLoopPred p) - unat (lpp_logLoopTableAssoc p)))"

definition LoopPredictor_wf :: "LoopPredictor \<Rightarrow> bool" where
  "LoopPredictor_wf s \<longleftrightarrow> loop_cfg_ok s \<and>
     length (lp_ltable s) = 2 ^ unat (lpp_logSizeLoopPred (lp_params s)) \<and>
     list_all (loop_entry_ok (lp_params s)) (lp_ltable s) \<and>
     - (2 ^ (unat (lpp_withLoopBits (lp_params s)) - 1)) \<le> lp_loopUseCounter s \<and>
     lp_loopUseCounter s < 2 ^ (unat (lpp_withLoopBits (lp_params s)) - 1)"

text \<open>The information of a branch: a set, a tag and a way of the table.\<close>

definition loop_bi_ok :: "LoopPredictorParams \<Rightarrow> LoopBranchInfo \<Rightarrow> bool" where
  "loop_bi_ok p bi \<longleftrightarrow> - 1 \<le> lb_loopHit bi \<and> lb_loopHit bi < 2 ^ unat (lpp_logLoopTableAssoc p) \<and>
     (\<exists>set < 2 ^ (unat (lpp_logSizeLoopPred p) - unat (lpp_logLoopTableAssoc p)).
        lb_loopIndex bi = int (set * 2 ^ unat (lpp_logLoopTableAssoc p))) \<and>
     0 \<le> lb_loopIndexB bi \<and> lb_loopIndexB bi < 2 ^ (unat (lpp_logSizeLoopPred p) - unat (lpp_logLoopTableAssoc p)) \<and>
     unat (lb_loopTag bi) < 2 ^ unat (lpp_loopTableTagBits p) \<and> lb_currentIter bi = 0"

lemma unat_mask_less: "k \<le> LENGTH('a) \<Longrightarrow> unat (x AND mask k :: 'a::len word) < 2 ^ k"
  by (simp add: take_bit_eq_mask [symmetric] unat_take_bit_mod)

lemma finallindex_bounds:
  assumes "loop_bi_ok (lp_params s) bi" and "loop_cfg_ok s" and "0 \<le> way" and "way < 2 ^ unat (lpp_logLoopTableAssoc (lp_params s))"
  shows "0 \<le> finallindex s (lb_loopIndex bi) (lb_loopIndexB bi) way"
    and "nat (finallindex s (lb_loopIndex bi) (lb_loopIndexB bi) way) < 2 ^ unat (lpp_logSizeLoopPred (lp_params s))"
proof -
  let ?a = "unat (lpp_logLoopTableAssoc (lp_params s))" and ?l = "unat (lpp_logSizeLoopPred (lp_params s))"
  have al: "?a \<le> ?l" using assms(2) by (simp add: loop_cfg_ok_def LoopPredictorParams_ok_def Let_def word_le_nat_alt)
  obtain set where set: "set < (2 :: nat) ^ (?l - ?a)" "lb_loopIndex bi = int (set * 2 ^ ?a)"
    using assms(1) by (auto simp: loop_bi_ok_def)
  have B: "0 \<le> lb_loopIndexB bi" "lb_loopIndexB bi < 2 ^ (?l - ?a)" using assms(1) by (auto simp: loop_bi_ok_def)
  have set': "0 \<le> int set" "int set < 2 ^ (?l - ?a)" using set(1) by (simp_all flip: of_nat_power add: of_nat_less_iff)
  define y where "y = (if lpp_useHashing (lp_params s) then int set XOR drop_bit (nat way) (lb_loopIndexB bi) else int set)"
  have "lb_loopIndexB bi div 2 ^ nat way \<le> lb_loopIndexB bi div 1" using B(1) by (intro zdiv_mono2) simp_all
  then have d: "0 \<le> drop_bit (nat way) (lb_loopIndexB bi)" "drop_bit (nat way) (lb_loopIndexB bi) < 2 ^ (?l - ?a)"
    using B by (simp_all add: drop_bit_int_def pos_imp_zdiv_nonneg_iff)
  have y: "0 \<le> y" "y < 2 ^ (?l - ?a)"
    using set' d XOR_upper [OF set' d(2)] by (auto simp: y_def)
  have i: "lb_loopIndex bi = push_bit ?a (int set)" using set(2) by (simp add: push_bit_eq_mult)
  have f0: "finallindex s (lb_loopIndex bi) (lb_loopIndexB bi) way = push_bit ?a y + way"
    unfolding finallindex_def y_def i by (simp add: push_bit_xor)
  have f: "finallindex s (lb_loopIndex bi) (lb_loopIndexB bi) way = y * 2 ^ ?a + way"
    by (simp add: f0 push_bit_eq_mult)
  show "0 \<le> finallindex s (lb_loopIndex bi) (lb_loopIndexB bi) way" using y(1) assms(3) by (simp add: f)
  have "(y + 1) * 2 ^ ?a \<le> 2 ^ (?l - ?a) * 2 ^ ?a" using y(2) by (intro mult_right_mono) simp_all
  also have "\<dots> = 2 ^ ?l" using al by (simp flip: power_add)
  finally have "y * 2 ^ ?a + way < 2 ^ ?l" using assms(4) by (simp add: distrib_right)
  then show "nat (finallindex s (lb_loopIndex bi) (lb_loopIndexB bi) way) < 2 ^ ?l"
    using y(1) assms(3) by (simp add: f nat_less_iff)
qed

lemma loop_address_ok:
  assumes "loop_cfg_ok s" and "lb_currentIter bi = 0"
    and "0 \<le> lb_loopIndexB bi" and "lb_loopIndexB bi < 2 ^ (unat (lpp_logSizeLoopPred (lp_params s)) - unat (lpp_logLoopTableAssoc (lp_params s)))"
  shows "loop_bi_ok (lp_params s) (loop_address s pc sh bi)" and "lb_loopHit (loop_address s pc sh bi) = - 1"
proof -
  let ?p = "lp_params s"
  let ?a = "unat (lpp_logLoopTableAssoc ?p)" and ?l = "unat (lpp_logSizeLoopPred ?p)"
  have p: "?a \<le> ?l" "?l \<le> 30" "unat (lpp_loopTableTagBits ?p) \<le> 16"
    using assms(1) by (simp_all add: loop_cfg_ok_def LoopPredictorParams_ok_def Let_def word_le_nat_alt)
  have sm: "word_of_int (lp_loopSetMask s) = (mask (?l - ?a) :: u64)" and tm: "lp_loopTagMask s = mask (unat (lpp_loopTableTagBits ?p))"
    using assms(1) by (simp_all add: loop_cfg_ok_def Let_def of_int_mask_eq)
  have idx: "\<exists>set < 2 ^ (?l - ?a). to_int (push_bit ?a (x AND mask (?l - ?a))) = int (set * 2 ^ ?a)" for x :: u64
  proof -
    have u: "unat (x AND mask (?l - ?a)) < 2 ^ (?l - ?a)" using p by (intro unat_mask_less) simp
    have "2 ^ ?l \<le> (2 :: nat) ^ 30" using p(2) by (intro power_increasing) simp_all
    moreover have "unat (x AND mask (?l - ?a)) * 2 ^ ?a < 2 ^ (?l - ?a) * 2 ^ ?a" using u by simp
    moreover have "2 ^ (?l - ?a) * 2 ^ ?a = (2 :: nat) ^ ?l" using p(1) by (simp flip: power_add)
    ultimately have small: "unat (x AND mask (?l - ?a)) * 2 ^ ?a < 2 ^ 31" by simp
    have "unat (push_bit ?a (x AND mask (?l - ?a))) = unat (x AND mask (?l - ?a)) * 2 ^ ?a"
      unfolding unsigned_push_bit_eq unfolding push_bit_eq_mult by (rule take_bit_nat_eq_self) (use small in simp)
    then show ?thesis using u small by (auto simp: to_int_less intro!: exI [of _ "unat (x AND mask (?l - ?a))"])
  qed
  have B: "0 \<le> to_int (x AND mask (?l - ?a)) \<and> to_int (x AND mask (?l - ?a)) < 2 ^ (?l - ?a)" for x :: u64
  proof -
    have u: "unat (x AND mask (?l - ?a)) < 2 ^ (?l - ?a)" using p by (intro unat_mask_less) simp
    have "2 ^ (?l - ?a) \<le> (2 :: nat) ^ 30" using p(2) by (intro power_increasing) simp_all
    then have t: "to_int (x AND mask (?l - ?a)) = int (unat (x AND mask (?l - ?a)))" using u by (intro to_int_less) simp
    show ?thesis unfolding t using u by (simp only: of_nat_less_numeral_power_cancel_iff of_nat_0_le_iff simp_thms)
  qed
  have tag: "unat (x AND lp_loopTagMask s) < 2 ^ unat (lpp_loopTableTagBits ?p)" for x :: u16
    unfolding tm using p(3) by (intro unat_mask_less) simp
  have tag': "unat (ucast (x AND ucast (lp_loopTagMask s)) :: u16) < 2 ^ unat (lpp_loopTableTagBits ?p)" for x :: u64
  proof -
    have "unat (lp_loopTagMask s) < 2 ^ unat (lpp_loopTableTagBits ?p)" using tag [of "lp_loopTagMask s"] by simp
    moreover have "unat (x AND ucast (lp_loopTagMask s)) \<le> unat (lp_loopTagMask s)"
      using unat_and_le [of x "ucast (lp_loopTagMask s)"] by (simp add: unat_ucast_up)
    ultimately show ?thesis using unat_ucast_le [of "x AND ucast (lp_loopTagMask s)", where ?'b = 16] by linarith
  qed
  have one: "(- 1 :: int) < 2 ^ ?a" by (rule less_trans [of _ 0]) simp_all
  show "loop_bi_ok ?p (loop_address s pc sh bi)"
  proof (cases "lpp_useHashing ?p")
    case True
    then show ?thesis
      unfolding loop_bi_ok_def loop_address_def lindex_def sm Let_def
      using idx B tag assms(2) one by (simp del: push_bit_and push_bit_xor)
  next
    case False
    then show ?thesis
      unfolding loop_bi_ok_def loop_address_def lindex_def sm Let_def
      using idx tag' assms(2-4) one by (simp del: push_bit_and)
  qed
  show "lb_loopHit (loop_address s pc sh bi) = - 1" by (simp add: loop_address_def Let_def)
qed

section \<open>Every operation returns and keeps the widths\<close>

definition loop_slot :: "LoopPredictor \<Rightarrow> LoopBranchInfo \<Rightarrow> int \<Rightarrow> nat" where
  "loop_slot s bi way = nat (finallindex s (lb_loopIndex bi) (lb_loopIndexB bi) way)"

lemma loop_slot_ok:
  assumes "LoopPredictor_wf s" and "loop_bi_ok (lp_params s) bi" and "0 \<le> way" and "way < 2 ^ unat (lpp_logLoopTableAssoc (lp_params s))"
  shows "arr_get (lp_ltable s) (finallindex s (lb_loopIndex bi) (lb_loopIndexB bi) way) = Inr (lp_ltable s ! loop_slot s bi way)"
    and "arr_set (lp_ltable s) (finallindex s (lb_loopIndex bi) (lb_loopIndexB bi) way) e = Inr ((lp_ltable s)[loop_slot s bi way := e])"
    and "loop_slot s bi way < length (lp_ltable s)"
    and "loop_entry_ok (lp_params s) (lp_ltable s ! loop_slot s bi way)"
proof -
  have c: "loop_cfg_ok s" and len: "length (lp_ltable s) = 2 ^ unat (lpp_logSizeLoopPred (lp_params s))"
    using assms(1) by (simp_all add: LoopPredictor_wf_def)
  note b = finallindex_bounds [OF assms(2) c assms(3,4)]
  show l: "loop_slot s bi way < length (lp_ltable s)" using b(2) by (simp add: loop_slot_def len)
  then show "arr_get (lp_ltable s) (finallindex s (lb_loopIndex bi) (lb_loopIndexB bi) way) = Inr (lp_ltable s ! loop_slot s bi way)"
    "arr_set (lp_ltable s) (finallindex s (lb_loopIndex bi) (lb_loopIndexB bi) way) e = Inr ((lp_ltable s)[loop_slot s bi way := e])"
    using b(1) by (simp_all add: loop_slot_def)
  show "loop_entry_ok (lp_params s) (lp_ltable s ! loop_slot s bi way)"
    using assms(1) l by (simp add: LoopPredictor_wf_def list_all_length)
qed

lemma find_loop_ok:
  assumes "LoopPredictor_wf s" and "loop_bi_ok (lp_params s) bi" and "set ws \<subseteq> {..<2 ^ unat (lpp_logLoopTableAssoc (lp_params s))}"
  shows "find_loop s bi ws = Inr (map_option (\<lambda>i. (i, lp_ltable s ! loop_slot s bi (int i)))
    (find (\<lambda>i. le_tag (lp_ltable s ! loop_slot s bi (int i)) = lb_loopTag bi) ws))"
  using assms(3)
proof (induction ws)
  case (Cons i ws)
  have "int i < 2 ^ unat (lpp_logLoopTableAssoc (lp_params s))" using Cons.prems by simp
  then show ?case using Cons loop_slot_ok(1) [OF assms(1,2), of "int i"] by simp
qed simp

lemma loop_update_entry_ok:
  assumes "LoopPredictor_wf s" and "loop_bi_ok (lp_params s) bi" and "0 \<le> lb_loopHit bi"
    and "f (lp_ltable s ! loop_slot s bi (lb_loopHit bi)) = Inr e" and "loop_entry_ok (lp_params s) e"
  shows "loop_update_entry s bi f = Inr (s\<lparr>lp_ltable := (lp_ltable s)[loop_slot s bi (lb_loopHit bi) := e]\<rparr>)"
    and "LoopPredictor_wf (s\<lparr>lp_ltable := (lp_ltable s)[loop_slot s bi (lb_loopHit bi) := e]\<rparr>)"
proof -
  have h: "lb_loopHit bi < 2 ^ unat (lpp_logLoopTableAssoc (lp_params s))" using assms(2) by (simp add: loop_bi_ok_def)
  show "loop_update_entry s bi f = Inr (s\<lparr>lp_ltable := (lp_ltable s)[loop_slot s bi (lb_loopHit bi) := e]\<rparr>)"
    using loop_slot_ok(1,2) [OF assms(1-3) h] assms(4) by (simp add: loop_update_entry_def)
  show "LoopPredictor_wf (s\<lparr>lp_ltable := (lp_ltable s)[loop_slot s bi (lb_loopHit bi) := e]\<rparr>)"
    using assms(1,5) by (auto simp: LoopPredictor_wf_def loop_cfg_ok_def Let_def intro: list_all_update)
qed

lemma unsignedCtrUpdate_ok:
  assumes "nbits \<le> 8" and "unat c < 2 ^ unat nbits"
  shows "\<exists>c'. unsignedCtrUpdate c up nbits = Inr c' \<and> unat c' < 2 ^ unat nbits \<and>
    (up \<longrightarrow> unat c' = min (unat c + 1) (2 ^ unat nbits - 1))"
proof -
  have n: "unat nbits \<le> 8" using assms(1) by (simp add: word_le_nat_alt)
  have two: "(2 :: nat) ^ unat nbits \<le> 2 ^ 8" using n by (intro power_increasing) simp_all
  have up: "unat (c + 1) = unat c + 1" if "unat c + 1 < 2 ^ unat nbits"
    using that two by (subst unat_add_lem [THEN iffD1]) simp_all
  have down: "unat (c - 1) = unat c - 1" if "c \<noteq> 0" using that by (simp add: unat_minus_one)
  have i: "int (unat c) < 2 ^ unat nbits - 1 \<longleftrightarrow> unat c + 1 < 2 ^ unat nbits"
  proof -
    have "int (unat c + 1) < int (2 ^ unat nbits) \<longleftrightarrow> unat c + 1 < 2 ^ unat nbits" by (rule of_nat_less_iff)
    then show ?thesis by (simp only: of_nat_add of_nat_power of_nat_numeral of_nat_1 less_diff_eq)
  qed
  show ?thesis
  proof (cases up)
    case True
    then show ?thesis using assms up unfolding unsignedCtrUpdate_def i by (auto simp: min_def)
  next
    case False
    then show ?thesis using assms down unfolding unsignedCtrUpdate_def by auto
  qed
qed

lemma signedCtrUpdate_ok:
  assumes "1 \<le> nbits" and "nbits \<le> 8" and "- (2 ^ (unat nbits - 1)) \<le> c" and "c < 2 ^ (unat nbits - 1)"
  shows "signedCtrUpdate c up nbits = Inr (if up then min (c + 1) (2 ^ (unat nbits - 1) - 1) else max (c - 1) (- (2 ^ (unat nbits - 1))))"
proof -
  have n: "1 \<le> unat nbits" "unat nbits \<le> 8" using assms(1,2) by (simp_all add: word_le_nat_alt)
  have "nbits \<noteq> 0" using assms(1) by auto
  then have u: "unat (nbits - 1) = unat nbits - 1" by (rule unat_minus_one)
  have "(2 :: int) ^ (unat nbits - 1) \<le> 2 ^ 7" using n by (intro power_increasing) simp_all
  then have r: "to_int8 (c + 1) = c + 1" if "c + 1 < 2 ^ (unat nbits - 1)"
    using that assms(3) by (intro to_int8_range) simp_all
  have l: "to_int8 (c - 1) = c - 1" if "- (2 ^ (unat nbits - 1)) < c"
    using that assms(4) \<open>(2 :: int) ^ _ \<le> 2 ^ 7\<close> by (intro to_int8_range) simp_all
  show ?thesis using n r l assms(3,4) by (auto simp: signedCtrUpdate_def u min_def max_def)
qed

lemma loop_cfgD:
  assumes "loop_cfg_ok s"
  shows "lpp_loopTableConfidenceBits (lp_params s) \<le> 8" and "lpp_loopTableAgeBits (lp_params s) \<le> 8"
    and "unat (x AND lp_loopNumIterMask s) < 2 ^ unat (lpp_loopTableIterBits (lp_params s))"
    and "x AND lp_loopNumIterMask s = take_bit (unat (lpp_loopTableIterBits (lp_params s))) x"
proof -
  have m: "lp_loopNumIterMask s = mask (unat (lpp_loopTableIterBits (lp_params s)))" "unat (lpp_loopTableIterBits (lp_params s)) \<le> 16"
    using assms by (simp_all add: loop_cfg_ok_def LoopPredictorParams_ok_def Let_def word_le_nat_alt)
  show "unat (x AND lp_loopNumIterMask s) < 2 ^ unat (lpp_loopTableIterBits (lp_params s))"
    unfolding m(1) by (rule unat_mask_less) (use m(2) in simp)
  show "x AND lp_loopNumIterMask s = take_bit (unat (lpp_loopTableIterBits (lp_params s))) x"
    unfolding m(1) by (rule take_bit_eq_mask [symmetric])
qed (use assms in \<open>simp_all add: loop_cfg_ok_def LoopPredictorParams_ok_def Let_def\<close>)

lemma count_iteration_ok:
  assumes "loop_cfg_ok s" and "loop_entry_ok (lp_params s) e"
  shows "loop_entry_ok (lp_params s) (count_iteration s e)"
  using assms(2) loop_cfgD(3) [OF assms(1), of "le_currentIter e + 1"]
  by (simp add: count_iteration_def Let_def loop_entry_ok_def)

lemma end_loop_ok:
  assumes "loop_cfg_ok s" and "loop_entry_ok (lp_params s) e"
  shows "\<exists>e'. end_loop s taken e = Inr e' \<and> loop_entry_ok (lp_params s) e'"
proof -
  obtain c where "unsignedCtrUpdate (le_confidence e) True (lpp_loopTableConfidenceBits (lp_params s)) = Inr c"
      "unat c < 2 ^ unat (lpp_loopTableConfidenceBits (lp_params s))"
    using unsignedCtrUpdate_ok [OF loop_cfgD(1) [OF assms(1)], of "le_confidence e" True] assms(2)
    by (auto simp: loop_entry_ok_def)
  then show ?thesis using assms(2) by (auto simp: end_loop_def loop_entry_ok_def Let_def)
qed

lemma update_iteration_ok:
  assumes "loop_cfg_ok s" and "loop_entry_ok (lp_params s) e"
  shows "\<exists>e'. update_iteration s taken e = Inr e' \<and> loop_entry_ok (lp_params s) e'"
  using count_iteration_ok [OF assms] end_loop_ok [OF assms(1), of "count_iteration s e"]
  by (auto simp: update_iteration_def Let_def)

lemma update_hit_ok:
  assumes "loop_cfg_ok s" and "loop_entry_ok (lp_params s) e"
  shows "\<exists>e'. update_hit s taken bi tage_pred ageInc e = Inr e' \<and> loop_entry_ok (lp_params s) e'"
proof -
  obtain a where a: "unsignedCtrUpdate (le_age e) True (lpp_loopTableAgeBits (lp_params s)) = Inr a"
      "unat a < 2 ^ unat (lpp_loopTableAgeBits (lp_params s))"
    using unsignedCtrUpdate_ok [OF loop_cfgD(2) [OF assms(1)], of "le_age e" True] assms(2)
    by (auto simp: loop_entry_ok_def)
  then have a': "loop_entry_ok (lp_params s) (e\<lparr>le_age := a\<rparr>)" using assms(2) by (simp add: loop_entry_ok_def)
  have f: "loop_entry_ok (lp_params s) (free_entry e)" using assms(2) by (simp add: free_entry_def loop_entry_ok_def)
  show ?thesis using f update_iteration_ok [OF assms] update_iteration_ok [OF assms(1) a'] a(1)
    by (cases "lb_loopPredValid bi \<and> taken \<noteq> lb_loopPred bi") (simp_all add: update_hit_def)
qed

lemma allocate_loop_ok:
  assumes "LoopPredictor_wf s" and "loop_bi_ok (lp_params s) bi"
  shows "\<exists>s'. allocate_loop s bi taken nrand ws = Inr s' \<and> LoopPredictor_wf s' \<and> lp_params s' = lp_params s \<and>
    lp_loopUseCounter s' = lp_loopUseCounter s"
  using assms
proof (induction ws arbitrary: s)
  case (Cons i ws)
  let ?p = "lp_params s"
  let ?w = "(nrand + int i) AND (2 ^ unat (lpp_logLoopTableAssoc ?p) - 1)"
  let ?e = "lp_ltable s ! loop_slot s bi ?w"
  have w: "0 \<le> ?w" "?w < 2 ^ unat (lpp_logLoopTableAssoc ?p)"
    by (simp_all add: mask_eq_exp_minus_1 [symmetric] take_bit_eq_mask [symmetric])
  note slot = loop_slot_ok [OF Cons.prems w]
  have keep: "LoopPredictor_wf (s\<lparr>lp_ltable := (lp_ltable s)[loop_slot s bi ?w := e]\<rparr>)" if "loop_entry_ok ?p e" for e
    using Cons.prems(1) that by (auto simp: LoopPredictor_wf_def loop_cfg_ok_def Let_def intro: list_all_update)
  have p: "unat (lpp_initialLoopAge ?p) < 2 ^ unat (lpp_loopTableAgeBits ?p)"
      "unat (lpp_initialLoopIter ?p) < 2 ^ unat (lpp_loopTableIterBits ?p)"
    using Cons.prems(1) by (auto simp: LoopPredictor_wf_def loop_cfg_ok_def LoopPredictorParams_ok_def Let_def)
  have new: "loop_entry_ok ?p (?e\<lparr>le_dir := \<not> taken, le_tag := lb_loopTag bi, le_numIter := 0,
      le_age := ucast (lpp_initialLoopAge ?p), le_confidence := 0, le_currentIter := ucast (lpp_initialLoopIter ?p)\<rparr>)"
    using slot(4) p Cons.prems(2) unat_ucast_le [of "lpp_initialLoopAge ?p", where ?'b = 8]
      unat_ucast_le [of "lpp_initialLoopIter ?p", where ?'b = 16]
    by (simp add: loop_entry_ok_def loop_bi_ok_def)
  have old: "loop_entry_ok ?p (?e\<lparr>le_age := le_age ?e - 1\<rparr>)" if "le_age ?e \<noteq> 0"
    using slot(4) that by (auto simp: loop_entry_ok_def unat_minus_one)
  show ?case
  proof (cases "le_age ?e = 0")
    case True
    then show ?thesis using slot(1,2) keep [OF new] by (simp add: Let_def)
  next
    case False
    let ?s = "s\<lparr>lp_ltable := (lp_ltable s)[loop_slot s bi ?w := ?e\<lparr>le_age := le_age ?e - 1\<rparr>]\<rparr>"
    have "LoopPredictor_wf ?s" "loop_bi_ok (lp_params ?s) bi" using keep [OF old [OF False]] Cons.prems(2) by simp_all
    from Cons.IH [OF this] show ?thesis
      using False slot(1,2) keep [OF old [OF False]] by (simp add: Let_def)
  qed
qed simp

lemma loop_ways_set: "set (loop_ways s) = {..<2 ^ unat (lpp_logLoopTableAssoc (lp_params s))}"
  by (auto simp: loop_ways_def)

lemma getLoop_ok:
  assumes "LoopPredictor_wf s" and "loop_bi_ok (lp_params s) bi"
  shows "\<exists>pred bi'. getLoop ops s pc bi spec sh = Inr (pred, bi') \<and> loop_bi_ok (lp_params s) bi' \<and>
    lb_predTaken bi' = lb_predTaken bi"
proof -
  let ?bi = "loop_address s pc sh bi"
  have a: "loop_bi_ok (lp_params s) ?bi"
    using assms by (intro loop_address_ok) (auto simp: LoopPredictor_wf_def loop_bi_ok_def)
  have p: "lb_predTaken ?bi = lb_predTaken bi" by (simp add: loop_address_def Let_def)
  note f = find_loop_ok [OF assms(1) a, of "loop_ways s", unfolded loop_ways_set, simplified]
  show ?thesis
  proof (cases "find (\<lambda>i. le_tag (lp_ltable s ! loop_slot s ?bi (int i)) = lb_loopTag ?bi) (loop_ways s)")
    case None
    then show ?thesis using f a p by (intro exI [of _ False] exI [of _ ?bi]) (simp add: getLoop_def Let_def)
  next
    case (Some i)
    have "i \<in> set (loop_ways s)" using Some by (auto simp: find_Some_iff)
    then have "loop_bi_ok (lp_params s) (?bi\<lparr>lb_loopHit := int i, lb_loopPredValid := v\<rparr>)" for v
      using a by (simp add: loop_bi_ok_def loop_ways_set)
    then show ?thesis using Some f p by (simp add: getLoop_def Let_def)
  qed
qed

lemma loop_wf_counter:
  assumes "LoopPredictor_wf s"
  shows "LoopPredictor_wf (s\<lparr>lp_loopUseCounter := c\<rparr>) \<longleftrightarrow>
    - (2 ^ (unat (lpp_withLoopBits (lp_params s)) - 1)) \<le> c \<and> c < 2 ^ (unat (lpp_withLoopBits (lp_params s)) - 1)"
  using assms by (simp add: LoopPredictor_wf_def loop_cfg_ok_def Let_def)

lemma loop_iterSpec_ok:
  assumes "LoopPredictor_wf s" and "loop_bi_ok (lp_params s) bi" and "0 \<le> lb_loopHit bi"
    and "\<And>e. loop_entry_ok (lp_params s) e \<Longrightarrow> loop_entry_ok (lp_params s) (f e)"
  shows "\<exists>s'. loop_update_entry s bi (\<lambda>e. Inr (f e)) = Inr s' \<and> LoopPredictor_wf s' \<and> lp_params s' = lp_params s \<and>
    lp_loopUseCounter s' = lp_loopUseCounter s"
proof -
  have h: "lb_loopHit bi < 2 ^ unat (lpp_logLoopTableAssoc (lp_params s))" using assms(2) by (simp add: loop_bi_ok_def)
  have e: "loop_entry_ok (lp_params s) (f (lp_ltable s ! loop_slot s bi (lb_loopHit bi)))"
    by (rule assms(4)) (rule loop_slot_ok(4) [OF assms(1-3) h])
  from loop_update_entry_ok [OF assms(1-3), of "\<lambda>e. Inr (f e)", OF refl e] show ?thesis by simp
qed

lemma specLoopUpdate_ok:
  assumes "LoopPredictor_wf s" and "loop_bi_ok (lp_params s) bi"
  shows "\<exists>s'. specLoopUpdate s taken bi = Inr s' \<and> LoopPredictor_wf s' \<and> lp_params s' = lp_params s \<and>
    lp_loopUseCounter s' = lp_loopUseCounter s"
proof (cases "0 \<le> lb_loopHit bi")
  case True
  have "loop_cfg_ok s" using assms(1) by (simp add: LoopPredictor_wf_def)
  then have "loop_entry_ok (lp_params s) (if taken \<noteq> le_dir e then e\<lparr>le_currentIterSpec := 0\<rparr>
         else e\<lparr>le_currentIterSpec := (le_currentIterSpec e + 1) AND lp_loopNumIterMask s\<rparr>)"
    if "loop_entry_ok (lp_params s) e" for e
    using that loop_cfgD(3) by (simp add: loop_entry_ok_def)
  from loop_iterSpec_ok [OF assms True this] show ?thesis using True by (simp add: specLoopUpdate_def)
qed (use assms in \<open>simp add: specLoopUpdate_def\<close>)

lemma loop_squash_ok:
  assumes "LoopPredictor_wf s" and "loop_bi_ok (lp_params s) bi"
  shows "\<exists>s'. LoopPredictor_squash s bi = Inr s' \<and> squashLoop s bi = Inr s' \<and> LoopPredictor_wf s' \<and> lp_params s' = lp_params s"
proof (cases "0 \<le> lb_loopHit bi")
  case True
  have "loop_entry_ok (lp_params s) (e\<lparr>le_currentIterSpec := lb_currentIter bi\<rparr>)" if "loop_entry_ok (lp_params s) e" for e
    using that assms(2) by (simp add: loop_entry_ok_def loop_bi_ok_def)
  from loop_iterSpec_ok [OF assms True, of "\<lambda>e. e\<lparr>le_currentIterSpec := lb_currentIter bi\<rparr>", OF this] show ?thesis using True by (auto simp: LoopPredictor_squash_def squashLoop_def)
qed (use assms in \<open>simp add: LoopPredictor_squash_def squashLoop_def\<close>)

lemma loopPredict_ok:
  assumes "LoopPredictor_wf s" and "loop_bi_ok (lp_params s) bi"
  shows "\<exists>pred s' bi'. loopPredict ops s pc cond bi prev sh = Inr (pred, s', bi') \<and> LoopPredictor_wf s' \<and>
    loop_bi_ok (lp_params s) bi' \<and> lp_params s' = lp_params s"
proof (cases cond)
  case True
  obtain pred bi1 where g: "getLoop ops s pc bi (lpp_useSpeculation (lp_params s)) sh = Inr (pred, bi1)"
      "loop_bi_ok (lp_params s) bi1" using getLoop_ok [OF assms, of ops pc "lpp_useSpeculation (lp_params s)" sh] by blast
  let ?bi = "bi1\<lparr>lb_loopPred := pred\<rparr>"
  let ?use = "lp_loopUseCounter s \<ge> 0 \<and> lb_loopPredValid ?bi"
  let ?pt = "if ?use then lb_loopPred ?bi else prev" and ?bi2 = "if ?use then ?bi\<lparr>lb_loopPredUsed := True\<rparr> else ?bi"
  have b: "loop_bi_ok (lp_params s) ?bi2" using g(2) by (simp add: loop_bi_ok_def)
  obtain s' where "specLoopUpdate s ?pt ?bi2 = Inr s'" "LoopPredictor_wf s'" "lp_params s' = lp_params s"
    using specLoopUpdate_ok [OF assms(1) b, of ?pt] by blast
  then show ?thesis using True g(1) b assms(1) unfolding loopPredict_def Let_def by (auto simp del: if_split)
qed (use assms in \<open>simp add: loopPredict_def\<close>)

lemma loopUpdate_ok:
  assumes "LoopPredictor_wf s" and "loop_bi_ok (lp_params s) bi"
  shows "\<exists>s'. loopUpdate ops s taken bi tage_pred r1 nrand = Inr s' \<and> LoopPredictor_wf s' \<and> lp_params s' = lp_params s"
proof (cases "0 \<le> lb_loopHit bi")
  case True
  have c: "loop_cfg_ok s" using assms(1) by (simp add: LoopPredictor_wf_def)
  have h: "lb_loopHit bi < 2 ^ unat (lpp_logLoopTableAssoc (lp_params s))" using assms(2) by (simp add: loop_bi_ok_def)
  obtain e where "update_hit s taken bi tage_pred (lo_optionalAgeInc ops r1) (lp_ltable s ! loop_slot s bi (lb_loopHit bi)) = Inr e"
      "loop_entry_ok (lp_params s) e"
    using update_hit_ok [OF c loop_slot_ok(4) [OF assms True h]] by blast
  from loop_update_entry_ok [OF assms True, of "update_hit s taken bi tage_pred (lo_optionalAgeInc ops r1)", OF this]
  show ?thesis using True by (simp add: loopUpdate_def)
next
  case False
  then show ?thesis using assms(1) allocate_loop_ok [OF assms, of taken nrand "loop_ways s"] by (auto simp: loopUpdate_def Let_def)
qed

lemma condBranchUpdate_ok:
  assumes "LoopPredictor_wf s" and "loop_bi_ok (lp_params s) bi"
  shows "\<exists>s' bi'. LoopPredictor_condBranchUpdate ops s pc taken tage_pred bi sh r1 nrand = Inr (s', bi') \<and>
    LoopPredictor_wf s' \<and> lp_params s' = lp_params s"
proof -
  obtain pred bi1 where g: "getLoop ops s pc bi False sh = Inr (pred, bi1)" "loop_bi_ok (lp_params s) bi1"
    using getLoop_ok [OF assms, of ops pc False sh] by blast
  define bi2 where "bi2 = (if lpp_useSpeculation (lp_params s) then bi1\<lparr>lb_loopPred := pred\<rparr> else bi)"
  have b: "loop_bi_ok (lp_params s) bi2" using g(2) assms(2) by (simp add: bi2_def loop_bi_ok_def)
  have w: "1 \<le> lpp_withLoopBits (lp_params s)" "lpp_withLoopBits (lp_params s) \<le> 8"
      "- (2 ^ (unat (lpp_withLoopBits (lp_params s)) - 1)) \<le> lp_loopUseCounter s"
      "lp_loopUseCounter s < 2 ^ (unat (lpp_withLoopBits (lp_params s)) - 1)"
    using assms(1) by (simp_all add: LoopPredictor_wf_def loop_cfg_ok_def LoopPredictorParams_ok_def Let_def)
  have range: "LoopPredictor_wf (s\<lparr>lp_loopUseCounter := lp_loopUseCounter s\<rparr>)"
      "LoopPredictor_wf (s\<lparr>lp_loopUseCounter := min (lp_loopUseCounter s + 1) (2 ^ (unat (lpp_withLoopBits (lp_params s)) - 1) - 1)\<rparr>)"
      "LoopPredictor_wf (s\<lparr>lp_loopUseCounter := max (lp_loopUseCounter s - 1) (- (2 ^ (unat (lpp_withLoopBits (lp_params s)) - 1)))\<rparr>)"
    using w(3,4) unfolding loop_wf_counter [OF assms(1)] by simp_all
  have "\<exists>c. (if lb_loopPredValid bi2 \<and> lb_predTaken bi2 \<noteq> lb_loopPred bi2
             then signedCtrUpdate (lp_loopUseCounter s) (lb_loopPred bi2 = taken) (lpp_withLoopBits (lp_params s))
             else Inr (lp_loopUseCounter s)) = Inr c \<and> LoopPredictor_wf (s\<lparr>lp_loopUseCounter := c\<rparr>)"
    unfolding signedCtrUpdate_ok [OF w] using range by simp
  then obtain c where c: "(if lb_loopPredValid bi2 \<and> lb_predTaken bi2 \<noteq> lb_loopPred bi2
             then signedCtrUpdate (lp_loopUseCounter s) (lb_loopPred bi2 = taken) (lpp_withLoopBits (lp_params s))
             else Inr (lp_loopUseCounter s)) = Inr c" "LoopPredictor_wf (s\<lparr>lp_loopUseCounter := c\<rparr>)"
    by blast
  obtain s' where "loopUpdate ops (s\<lparr>lp_loopUseCounter := c\<rparr>) taken bi2 tage_pred r1 nrand = Inr s'" "LoopPredictor_wf s'"
      "lp_params s' = lp_params s"
    using loopUpdate_ok [OF c(2), of bi2 ops taken tage_pred r1 nrand] b by auto
  moreover have "(if lpp_useSpeculation (lp_params s)
             then bind_r (getLoop ops s pc bi False sh) (\<lambda>(pred, bi). Inr (bi\<lparr>lb_loopPred := pred\<rparr>))
             else Inr bi) = Inr bi2" using g(1) by (simp add: bi2_def)
  ultimately show ?thesis using c(1) unfolding LoopPredictor_condBranchUpdate_def by simp
qed

lemma updateStats_ok:
  assumes "LoopPredictor_wf s"
  shows "LoopPredictor_wf (LoopPredictor_updateStats s taken bi)" and "lp_params (LoopPredictor_updateStats s taken bi) = lp_params s"
    and "lp_ltable (LoopPredictor_updateStats s taken bi) = lp_ltable s"
    and "lp_loopUseCounter (LoopPredictor_updateStats s taken bi) = lp_loopUseCounter s"
  using assms by (simp_all add: LoopPredictor_updateStats_def LoopPredictor_wf_def loop_cfg_ok_def Let_def)

lemma LoopBranchInfo_new_ok: "loop_bi_ok p ((LoopBranchInfo_new u)\<lparr>lb_predTaken := v\<rparr>)" "loop_bi_ok p (LoopBranchInfo_new u)"
  by (simp_all add: loop_bi_ok_def LoopBranchInfo_new_def)

lemma loop_construct:
  assumes "LoopPredictorParams_ok p"
  shows "\<exists>s0 s. LoopPredictor_new p = Inr s0 \<and> LoopPredictor_init s0 = Inr s \<and> LoopPredictor_wf s \<and> lp_params s = p \<and>
    lp_ltable s = replicate (2 ^ unat (lpp_logSizeLoopPred p)) LoopEntry_default"
proof -
  let ?c = "unat (lpp_loopTableConfidenceBits p)" and ?t = "unat (lpp_loopTableTagBits p)" and ?i = "unat (lpp_loopTableIterBits p)"
  let ?g = "unat (lpp_loopTableAgeBits p)" and ?l = "unat (lpp_logSizeLoopPred p)" and ?a = "unat (lpp_logLoopTableAssoc p)"
  have b: "?c \<le> 8" "?t \<le> 16" "?i \<le> 16" "?g \<le> 8" "?l \<le> 30" "?a \<le> ?l"
    using assms by (simp_all add: LoopPredictorParams_ok_def word_le_nat_alt)
  have d: "unat (lpp_logSizeLoopPred p - lpp_logLoopTableAssoc p) = ?l - ?a"
    using assms by (intro unat_sub) (simp add: LoopPredictorParams_ok_def)
  have ones: "unat (word_of_int (2 ^ ?c - 1) :: u8) = 2 ^ ?c - 1" "unat (word_of_int (2 ^ ?g - 1) :: u32) = 2 ^ ?g - 1"
    using b unat_mask [of ?c, where ?'a = 8] unat_mask [of ?g, where ?'a = 32] by (simp_all add: mask_eq_exp_minus_1)
  have age: "lpp_initialLoopAge p \<le> word_of_int (2 ^ ?g - 1)"
    using assms unfolding word_le_nat_alt ones(2) by (auto simp: LoopPredictorParams_ok_def)
  have m: "(word_of_int (2 ^ k - 1) :: u16) = mask k" "(2 ^ k - 1 :: int) = mask k" for k by (simp_all add: mask_eq_exp_minus_1)
  define s where "s = \<lparr>lp_params = p, lp_confidenceThreshold = word_of_int (2 ^ ?c - 1), lp_loopTagMask = word_of_int (2 ^ ?t - 1),
    lp_loopNumIterMask = word_of_int (2 ^ ?i - 1), lp_loopSetMask = 2 ^ (?l - ?a) - 1, lp_ltable = [], lp_loopUseCounter = - 1,
    lp_stats = \<lparr>ls_used = 0, ls_correct = 0, ls_wrong = 0\<rparr>\<rparr>"
  let ?s = "s\<lparr>lp_ltable := replicate (2 ^ ?l) LoopEntry_default\<rparr>"
  have "LoopPredictor_new p = Inr s" using b d age by (simp add: LoopPredictor_new_def s_def)
  moreover have "LoopPredictor_init s = Inr ?s"
    using b by (simp add: LoopPredictor_init_def s_def word_le_nat_alt word_less_nat_alt)
  moreover have "loop_cfg_ok ?s" using assms ones(1) unfolding m(1) by (simp add: loop_cfg_ok_def s_def mask_eq_exp_minus_1)
  moreover have "loop_entry_ok p LoopEntry_default" by (simp add: loop_entry_ok_def LoopEntry_default_def)
  moreover have "(1 :: int) \<le> 2 ^ k" "(- 1 :: int) < 2 ^ k" for k by (simp, rule less_trans [of _ 0], simp_all)
  ultimately have "LoopPredictor_new p = Inr s \<and> LoopPredictor_init s = Inr ?s \<and> LoopPredictor_wf ?s \<and> lp_params ?s = p"
    by (simp add: LoopPredictor_wf_def s_def)
  then show ?thesis by auto
qed

text \<open>The operations of \<open>LTAGE\<close> on the predictor, with the information of the branches in flight.\<close>

datatype loop_event =
    LPredict Addr bool bool bool
  | LSquash nat
  | LRepair nat
  | LUpdate nat Addr bool bool int int

definition loop_predict_step ::
  "LoopOps \<Rightarrow> u32 \<Rightarrow> LoopPredictor \<Rightarrow> Addr \<Rightarrow> bool \<Rightarrow> bool \<Rightarrow> bool \<Rightarrow> (bool \<times> LoopPredictor \<times> LoopBranchInfo) result" where
  "loop_predict_step ops sh s pc cond prev uninit =
     bind_r (loopPredict ops s pc cond (LoopBranchInfo_new uninit) prev sh) (\<lambda>(pred, s, bi).
       Inr (pred, s, bi\<lparr>lb_predTaken := pred\<rparr>))"

fun loop_step ::
  "LoopOps \<Rightarrow> u32 \<Rightarrow> LoopPredictor \<times> LoopBranchInfo list \<Rightarrow> loop_event \<Rightarrow> (LoopPredictor \<times> LoopBranchInfo list) result" where
  "loop_step ops sh (s, bis) (LPredict pc cond prev uninit) =
     bind_r (loop_predict_step ops sh s pc cond prev uninit) (\<lambda>(pred, s, bi). Inr (s, bi # bis))"
| "loop_step ops sh (s, bis) (LSquash k) =
     (if k < length bis
      then bind_r (LoopPredictor_squash s (bis ! k)) (\<lambda>s. Inr (s, take k bis @ drop (Suc k) bis)) else Inr (s, bis))"
| "loop_step ops sh (s, bis) (LRepair k) =
     (if k < length bis then bind_r (squashLoop s (bis ! k)) (\<lambda>s. Inr (s, bis)) else Inr (s, bis))"
| "loop_step ops sh (s, bis) (LUpdate k pc taken tage_pred r1 nrand) =
     (if k < length bis
      then bind_r (LoopPredictor_condBranchUpdate ops (LoopPredictor_updateStats s taken (bis ! k)) pc taken tage_pred (bis ! k)
             sh r1 nrand) (\<lambda>(s, _). Inr (s, take k bis @ drop (Suc k) bis))
      else Inr (s, bis))"

fun loop_run ::
  "LoopOps \<Rightarrow> u32 \<Rightarrow> LoopPredictor \<times> LoopBranchInfo list \<Rightarrow> loop_event list \<Rightarrow> (LoopPredictor \<times> LoopBranchInfo list) result" where
  "loop_run ops sh st [] = Inr st"
| "loop_run ops sh st (ev # evs) = bind_r (loop_step ops sh st ev) (\<lambda>st. loop_run ops sh st evs)"

lemma loop_predict_step_ok:
  assumes "LoopPredictor_wf s"
  shows "\<exists>pred s' bi. loop_predict_step ops sh s pc cond prev uninit = Inr (pred, s', bi) \<and> LoopPredictor_wf s' \<and>
    loop_bi_ok (lp_params s) bi \<and> lp_params s' = lp_params s"
proof -
  obtain pred s' bi where "loopPredict ops s pc cond (LoopBranchInfo_new uninit) prev sh = Inr (pred, s', bi)"
      "LoopPredictor_wf s'" "loop_bi_ok (lp_params s) bi" "lp_params s' = lp_params s"
    using loopPredict_ok [OF assms LoopBranchInfo_new_ok(2)] by blast
  then show ?thesis by (simp add: loop_predict_step_def loop_bi_ok_def)
qed

lemma loop_step_ok:
  assumes "LoopPredictor_wf s" and "list_all (loop_bi_ok (lp_params s)) bis"
  shows "\<exists>s' bis'. loop_step ops sh (s, bis) ev = Inr (s', bis') \<and> LoopPredictor_wf s' \<and> lp_params s' = lp_params s \<and>
    list_all (loop_bi_ok (lp_params s)) bis'"
proof -
  have k: "list_all (loop_bi_ok (lp_params s)) (take k bis @ drop (Suc k) bis)" for k
    using assms(2) by (auto simp: list_all_iff dest: in_set_takeD in_set_dropD)
  have b: "loop_bi_ok (lp_params s) (bis ! k)" if "k < length bis" for k using assms(2) that by (simp add: list_all_length)
  show ?thesis
  proof (cases ev)
    case (LPredict pc cond prev uninit)
    then show ?thesis using loop_predict_step_ok [OF assms(1), of ops sh pc cond prev uninit] assms(2) by auto
  next
    case (LSquash i)
    then show ?thesis using loop_squash_ok [OF assms(1) b [of i]] k [of i] assms by auto
  next
    case (LRepair i)
    then show ?thesis using loop_squash_ok [OF assms(1) b [of i]] assms by auto
  next
    case (LUpdate i pc taken tage_pred r1 nrand)
    show ?thesis
    proof (cases "i < length bis")
      case True
      let ?s = "LoopPredictor_updateStats s taken (bis ! i)"
      have "LoopPredictor_wf ?s" "loop_bi_ok (lp_params ?s) (bis ! i)" "lp_params ?s = lp_params s"
        using updateStats_ok [OF assms(1)] b [OF True] by simp_all
      then show ?thesis
        using condBranchUpdate_ok [of ?s "bis ! i" ops pc taken tage_pred sh r1 nrand] LUpdate True k [of i] by auto
    qed (use LUpdate assms in simp)
  qed
qed

lemma loop_run_ok:
  assumes "LoopPredictor_wf s" and "list_all (loop_bi_ok (lp_params s)) bis"
  shows "\<exists>s' bis'. loop_run ops sh (s, bis) evs = Inr (s', bis') \<and> LoopPredictor_wf s' \<and> lp_params s' = lp_params s"
  using assms
proof (induction evs arbitrary: s bis)
  case (Cons ev evs)
  obtain s1 bis1 where s: "loop_step ops sh (s, bis) ev = Inr (s1, bis1)" "LoopPredictor_wf s1" "lp_params s1 = lp_params s"
      "list_all (loop_bi_ok (lp_params s)) bis1"
    using loop_step_ok [OF Cons.prems, of ops sh ev] by blast
  then show ?case using Cons.IH [of s1 bis1] by simp
qed simp


definition default_loop_params :: LoopPredictorParams where
  "default_loop_params = \<lparr>lpp_logSizeLoopPred = 8, lpp_loopTableAgeBits = 8, lpp_loopTableConfidenceBits = 2,
     lpp_loopTableTagBits = 14, lpp_loopTableIterBits = 14, lpp_logLoopTableAssoc = 2, lpp_withLoopBits = 7,
     lpp_useDirectionBit = False, lpp_useSpeculation = False, lpp_useHashing = False, lpp_restrictAllocation = False,
     lpp_initialLoopIter = 1, lpp_initialLoopAge = 255, lpp_optionalAgeReset = True\<rparr>"


end
