(* ===== verification/Loop_Predictor_Learning.thy ===== *)
theory Loop_Predictor_Learning
  imports Loop_Predictor
begin

text \<open>
  A loop branch with a constant number of iterations under the loop predictor.  The state of its
  entry is abstracted to three numbers, the steps of the code to a function on them, and the function
  is followed through whole executions of the loop: from any state at most three executions
  find the number of iterations, and each further one raises the confidence.
\<close>

section \<open>One entry as three numbers\<close>

text \<open>The recorded number of iterations, the current iteration and the confidence.\<close>

type_synonym loop_state = "nat \<times> nat \<times> nat"

fun abs_step :: "nat \<Rightarrow> nat \<Rightarrow> loop_state \<Rightarrow> bool \<Rightarrow> loop_state" where
  "abs_step W thr (M, C, F) taken =
     (if F = thr \<and> taken \<noteq> (C + 1 \<noteq> M) then (0, 0, 0)
      else let C' = (C + 1) mod W; M' = (if C' > M then 0 else M); F' = (if C' > M then 0 else F)
           in if taken then (M', C', F')
              else if C' = M' then if M' < 3 then (0, 0, 0) else (M', 0, min (F' + 1) thr)
              else if M' = 0 then (C', 0, 0) else (0, 0, 0))"

definition abs_run :: "nat \<Rightarrow> nat \<Rightarrow> loop_state \<Rightarrow> bool list \<Rightarrow> loop_state" where
  "abs_run W thr = foldl (abs_step W thr)"

definition loop_exec :: "nat \<Rightarrow> bool list" where
  "loop_exec N = replicate (N - 1) True @ [False]"

lemma abs_run_append: "abs_run W thr st (xs @ ys) = abs_run W thr (abs_run W thr st xs) ys"
  by (simp add: abs_run_def)

lemma abs_run_simps [simp]:
  "abs_run W thr st [] = st" "abs_run W thr st (x # xs) = abs_run W thr (abs_step W thr st x) xs"
  by (simp_all add: abs_run_def)

declare abs_step.simps [simp del]

lemma abs_exit_zero: "\<exists>M F. abs_step W thr st False = (M, 0, F)"
  by (cases st) (simp add: abs_step.simps Let_def)

lemma abs_exec_zero: "\<exists>M F. abs_run W thr st (loop_exec N) = (M, 0, F)"
  by (simp add: loop_exec_def abs_run_append abs_exit_zero)

text \<open>The body of the loop in the cases that occur.\<close>

lemma abs_body_within:
  assumes "C + n < M" and "M < W"
  shows "abs_run W thr (M, C, F) (replicate n True) = (M, C + n, F)"
  using assms by (induction n arbitrary: C) (simp_all add: abs_step.simps)

lemma abs_body_unknown:
  assumes "C + n < W" and "0 < thr"
  shows "abs_run W thr (0, C, 0) (replicate n True) = (0, C + n, 0)"
  using assms by (induction n arbitrary: C) (simp_all add: abs_step.simps)

lemma abs_exec_unknown:
  assumes "0 < N" and "N < W" and "0 < thr"
  shows "abs_run W thr (0, 0, 0) (loop_exec N) = (N, 0, 0)"
  using abs_body_unknown [of 0 "N - 1" W thr] assms
  by (simp add: loop_exec_def abs_run_append abs_step.simps)

lemma abs_exec_right:
  assumes "3 \<le> N" and "N < W"
  shows "abs_run W thr (N, 0, F) (loop_exec N) = (N, 0, min (F + 1) thr)"
  using abs_body_within [of 0 "N - 1" N W thr F] assms
  by (simp add: loop_exec_def abs_run_append abs_step.simps)

lemma abs_exec_fresh:
  assumes "2 \<le> N" and "N < W" and "0 < thr"
  shows "abs_run W thr (0, 0, F) (loop_exec N) = (N, 0, 0)"
proof -
  have "replicate (N - 1) True = True # replicate (N - 2) True" using assms(1) by (cases N; cases "N - 1") auto
  then show ?thesis
    using abs_body_unknown [of 1 "N - 2" W thr] assms
    by (simp add: loop_exec_def abs_run_append abs_step.simps Suc_diff_le numeral_2_eq_2)
qed

lemma abs_exec_longer:
  assumes "N < M" and "M < W" and "0 < N"
  shows "abs_run W thr (M, 0, F) (loop_exec N) = (0, 0, 0)"
  using abs_body_within [of 0 "N - 1" M W thr F] assms
  by (simp add: loop_exec_def abs_run_append abs_step.simps)

lemma abs_exec_shorter:
  assumes "0 < M" and "M < N" and "N < W" and "0 < thr"
  shows "abs_run W thr (M, 0, F) (loop_exec N) = (if F = thr then (N - M, 0, 0) else (N, 0, 0))"
proof -
  have "replicate (N - 1) True = replicate (M - 1) True @ True # replicate (N - M - 1) True"
    using assms(1,2) by (simp flip: replicate_Suc replicate_add)
  then have r: "loop_exec N = replicate (M - 1) True @ True # replicate (N - M - 1) True @ [False]"
    by (simp add: loop_exec_def)
  have b: "abs_run W thr (M, 0, F) (replicate (M - 1) True) = (M, M - 1, F)"
    using abs_body_within [of 0 "M - 1" M W thr F] assms by simp
  show ?thesis
  proof (cases "F = thr")
    case True
    have s: "abs_step W thr (M, M - 1, F) True = (0, 0, 0)" using assms(1) True by (simp add: abs_step.simps)
    show ?thesis
      using abs_exec_unknown [of "N - M" W thr] assms True
      unfolding r abs_run_append b abs_run_simps s by (simp add: loop_exec_def abs_run_append)
  next
    case False
    have s: "abs_step W thr (M, M - 1, F) True = (M, M, F)" using assms False by (simp add: abs_step.simps)
    show ?thesis
    proof (cases "N - M - 1")
      case 0
      then show ?thesis using assms False unfolding r abs_run_append b abs_run_simps s by (simp add: abs_step.simps)
    next
      case (Suc k)
      have s2: "abs_step W thr (M, M, F) True = (0, M + 1, 0)" using assms False Suc by (simp add: abs_step.simps)
      have u: "abs_run W thr (0, M + 1, 0) (replicate k True) = (0, N - 1, 0)"
        using abs_body_unknown [of "M + 1" k W thr] assms Suc by simp
      show ?thesis using assms False Suc u unfolding r abs_run_append b abs_run_simps s
        by (simp add: s2 [simplified] abs_step.simps)
    qed
  qed
qed

text \<open>From any state at most two executions after the first end find the number of iterations.\<close>

lemma abs_two_execs:
  assumes "3 \<le> N" and "N < W" and "0 < thr" and "M < W"
  shows "\<exists>F'. abs_run W thr (M, 0, F) (loop_exec N @ loop_exec N) = (N, 0, F')"
proof -
  note one = abs_exec_right [OF assms(1,2)] abs_exec_fresh [OF _ assms(2,3)] abs_exec_longer [OF _ assms(4)]
    abs_exec_shorter [OF _ _ assms(2,3)]
  have n: "2 \<le> N" "0 < N" using assms(1) by simp_all
  consider "M = 0" | "0 < M" "M < N" "F = thr" | "0 < M" "M < N" "F \<noteq> thr" | "M = N" | "N < M" by linarith
  then show ?thesis
  proof cases
    case 2
    have "0 < N - M" "N - M < N" using 2 by simp_all
    then show ?thesis using 2 assms(3) one(4) [of M F] one(4) [of "N - M" 0] by (simp add: abs_run_append)
  qed (use one n in \<open>simp_all add: abs_run_append\<close>)
qed

lemma abs_confident:
  assumes "3 \<le> N" and "N < W"
  shows "abs_run W thr (N, 0, F) (concat (replicate k (loop_exec N))) = (N, 0, if k = 0 then F else min (F + k) thr)"
  using abs_exec_right [OF assms]
proof (induction k arbitrary: F)
  case (Suc k)
  then show ?case by (simp add: abs_run_append min_def)
qed simp

lemma abs_learns:
  assumes "3 \<le> N" and "N < W" and "0 < thr" and "\<And>xs. fst (abs_run W thr st xs) < W"
  shows "abs_run W thr st (concat (replicate (3 + thr + k) (loop_exec N))) = (N, 0, thr)"
proof -
  obtain M F where e: "abs_run W thr st (loop_exec N) = (M, 0, F)" using abs_exec_zero by blast
  have "M < W" using assms(4) [of "loop_exec N"] by (simp add: e)
  then obtain F' where f: "abs_run W thr (M, 0, F) (loop_exec N @ loop_exec N) = (N, 0, F')"
    using abs_two_execs [OF assms(1-3)] by blast
  have "concat (replicate (3 + thr + k) (loop_exec N)) =
      loop_exec N @ (loop_exec N @ loop_exec N) @ concat (replicate (thr + k) (loop_exec N))"
    by (simp add: numeral_3_eq_3)
  then show ?thesis using abs_confident [OF assms(1,2), of thr F' "thr + k"] assms(3) by (simp add: abs_run_append e f [unfolded abs_run_append])
qed

section \<open>The code follows the numbers\<close>

definition loop_abs :: "LoopEntry \<Rightarrow> loop_state" where
  "loop_abs e = (unat (le_numIter e), unat (le_currentIter e), unat (le_confidence e))"

lemma unat_next_iter:
  assumes "loop_cfg_ok s"
  shows "unat ((x + 1) AND lp_loopNumIterMask s) = (unat x + 1) mod 2 ^ unat (lpp_loopTableIterBits (lp_params s))"
proof -
  let ?b = "unat (lpp_loopTableIterBits (lp_params s))"
  have b: "?b \<le> 16" using assms by (simp add: loop_cfg_ok_def LoopPredictorParams_ok_def Let_def word_le_nat_alt)
  have "unat ((x + 1) AND lp_loopNumIterMask s) = unat (x + 1) mod 2 ^ ?b"
    unfolding loop_cfgD(4) [OF assms] by (rule unat_take_bit_mod)
  also have "unat (x + 1) = (unat x + 1) mod 2 ^ 16" by (simp add: unat_word_ariths)
  also have "\<dots> mod 2 ^ ?b = (unat x + 1) mod 2 ^ ?b" by (rule mod_mod_cancel) (rule le_imp_power_dvd [OF b])
  finally show ?thesis .
qed

lemma count_iteration_abs:
  assumes "loop_cfg_ok s"
  defines "C' \<equiv> \<lambda>e. (unat (le_currentIter e) + 1) mod 2 ^ unat (lpp_loopTableIterBits (lp_params s))"
  shows "loop_abs (count_iteration s e) =
      (if C' e > unat (le_numIter e) then (0, C' e, 0) else (unat (le_numIter e), C' e, unat (le_confidence e)))"
    and "le_tag (count_iteration s e) = le_tag e"
  using unat_next_iter [OF assms(1), of "le_currentIter e"]
  by (simp_all add: count_iteration_def Let_def loop_abs_def C'_def word_less_nat_alt unat_eq_0)

lemma end_loop_abs:
  assumes "loop_cfg_ok s" and "loop_entry_ok (lp_params s) e" and "end_loop s taken e = Inr e'" and "loop_abs e = (M, C, F)"
  shows "loop_abs e' = (if C = M then if M < 3 then (0, 0, 0) else (M, 0, min (F + 1) (unat (lp_confidenceThreshold s)))
      else if M = 0 then (C, 0, 0) else (0, 0, 0)) \<and> le_tag e' = le_tag e"
proof -
  have m: "unat (le_numIter e) = M" "unat (le_currentIter e) = C" "unat (le_confidence e) = F"
    using assms(4) by (simp_all add: loop_abs_def)
  obtain c where c: "unsignedCtrUpdate (le_confidence e) True (lpp_loopTableConfidenceBits (lp_params s)) = Inr c"
      "unat c = min (F + 1) (unat (lp_confidenceThreshold s))"
    using unsignedCtrUpdate_ok [OF loop_cfgD(1) [OF assms(1)], of "le_confidence e" True] assms(1,2) m(3)
    by (auto simp: loop_entry_ok_def loop_cfg_ok_def Let_def)
  have eq: "le_currentIter e = le_numIter e \<longleftrightarrow> C = M" "le_numIter e = 0 \<longleftrightarrow> M = 0" "le_numIter e < 3 \<longleftrightarrow> M < 3"
    using m by (auto simp: word_unat_eq_iff unat_eq_0 word_less_nat_alt)
  show ?thesis using assms(3) c m unfolding end_loop_def eq
    by (cases "C = M"; cases "M < 3"; cases "M = 0") (auto simp: loop_abs_def Let_def word_less_nat_alt)
qed

lemma update_hit_abs:
  assumes c: "loop_cfg_ok s" and "\<not> lpp_useDirectionBit (lp_params s)" and e: "loop_entry_ok (lp_params s) e"
    and "lb_loopPredValid bi = (le_confidence e = lp_confidenceThreshold s)" and "lb_loopPred bi = loop_direction s False e"
    and u: "update_hit s taken bi tage_pred ageInc e = Inr e'"
  shows "loop_abs e' = abs_step (2 ^ unat (lpp_loopTableIterBits (lp_params s))) (unat (lp_confidenceThreshold s)) (loop_abs e) taken"
    and "le_tag e' = le_tag e"
proof -
  let ?W = "2 ^ unat (lpp_loopTableIterBits (lp_params s))" and ?thr = "unat (lp_confidenceThreshold s)"
  obtain M C F where a: "loop_abs e = (M, C, F)" by (cases "loop_abs e")
  then have m: "unat (le_numIter e) = M" "unat (le_currentIter e) = C" "unat (le_confidence e) = F"
    by (simp_all add: loop_abs_def)
  have v: "lb_loopPredValid bi \<longleftrightarrow> F = ?thr" "lb_loopPred bi \<longleftrightarrow> C + 1 \<noteq> M"
    using assms(2,4,5) m by (auto simp: loop_direction_def word_unat_eq_iff)
  have "loop_abs e' = abs_step ?W ?thr (M, C, F) taken \<and> le_tag e' = le_tag e"
  proof (cases "F = ?thr \<and> taken \<noteq> (C + 1 \<noteq> M)")
    case True
    then show ?thesis using u v by (auto simp: update_hit_def free_entry_def loop_abs_def abs_step.simps)
  next
    case False
    obtain age where age: "unsignedCtrUpdate (le_age e) True (lpp_loopTableAgeBits (lp_params s)) = Inr age"
        "unat age < 2 ^ unat (lpp_loopTableAgeBits (lp_params s))"
      using unsignedCtrUpdate_ok [OF loop_cfgD(2) [OF c], of "le_age e" True] e by (auto simp: loop_entry_ok_def)
    define d where "d = (if lb_loopPredValid bi \<and> (lb_loopPred bi \<noteq> tage_pred \<or> ageInc) then e\<lparr>le_age := age\<rparr> else e)"
    have d: "update_iteration s taken d = Inr e'" "loop_abs d = (M, C, F)" "le_tag d = le_tag e" "loop_entry_ok (lp_params s) d"
      using u age e v False a by (auto simp: update_hit_def d_def loop_abs_def loop_entry_ok_def split: if_splits)
    let ?C = "(C + 1) mod ?W"
    have i: "loop_abs (count_iteration s d) = (if ?C > M then (0, ?C, 0) else (M, ?C, F))" "le_tag (count_iteration s d) = le_tag e"
      using count_iteration_abs [OF c, of d] d(2,3) by (simp_all add: loop_abs_def)
    show ?thesis
    proof (cases taken)
      case True
      then show ?thesis using d(1) i False assms(2) by (auto simp: update_iteration_def Let_def abs_step.simps)
    next
      case nt: False
      then have en: "end_loop s taken (count_iteration s d) = Inr e'" using d(1) assms(2) by (simp add: update_iteration_def Let_def)
      note ok = end_loop_abs [OF c count_iteration_ok [OF c d(4)] en]
      show ?thesis
      proof (cases "?C > M")
        case True
        then show ?thesis using ok [of 0 ?C 0] i False nt by (auto simp: abs_step.simps Let_def)
      next
        case le: False
        then show ?thesis using ok [of M ?C F] i False nt by (auto simp: abs_step.simps Let_def)
      qed
    qed
  qed
  then show "loop_abs e' = abs_step ?W ?thr (loop_abs e) taken" "le_tag e' = le_tag e" using a by simp_all
qed

section \<open>Rounds of one branch\<close>

text \<open>
  A prediction and its update, as \<open>LTAGE\<close> makes them.  An input has the direction of the branch, the
  prediction of TAGE, the uninitialised value and the random numbers; an output has the prediction,
  whether the loop prediction was confident, and the loop prediction.
\<close>

type_synonym loop_input = "bool \<times> bool \<times> bool \<times> int \<times> int"
type_synonym loop_output = "bool \<times> bool \<times> bool"

fun loop_round :: "LoopOps \<Rightarrow> u32 \<Rightarrow> Addr \<Rightarrow> LoopPredictor \<Rightarrow> loop_input \<Rightarrow> (loop_output \<times> LoopPredictor) result" where
  "loop_round ops sh pc s (taken, prev, uninit, r1, nrand) =
     bind_r (loop_predict_step ops sh s pc True prev uninit) (\<lambda>(pred, s, bi).
     bind_r (LoopPredictor_condBranchUpdate ops (LoopPredictor_updateStats s taken bi) pc taken prev bi sh r1 nrand) (\<lambda>(s, _).
       Inr ((pred, lb_loopPredValid bi, lb_loopPred bi), s)))"

fun loop_rounds :: "LoopOps \<Rightarrow> u32 \<Rightarrow> Addr \<Rightarrow> LoopPredictor \<Rightarrow> loop_input list \<Rightarrow> (loop_output list \<times> LoopPredictor) result" where
  "loop_rounds ops sh pc s [] = Inr ([], s)"
| "loop_rounds ops sh pc s (i # is) =
     bind_r (loop_round ops sh pc s i) (\<lambda>(out, s).
     bind_r (loop_rounds ops sh pc s is) (\<lambda>(outs, s). Inr (out # outs, s)))"

text \<open>The slot of the entry that the branch hits.\<close>

definition loop_hit :: "LoopPredictor \<Rightarrow> Addr \<Rightarrow> u32 \<Rightarrow> nat option" where
  "loop_hit s pc sh =
     (let bi = loop_address s pc sh (LoopBranchInfo_new False)
      in map_option (\<lambda>i. loop_slot s bi (int i))
           (find (\<lambda>i. le_tag (lp_ltable s ! loop_slot s bi (int i)) = lb_loopTag bi) (loop_ways s)))"

definition loop_config :: "LoopPredictor \<Rightarrow> LoopPredictor" where
  "loop_config s = s\<lparr>lp_ltable := [], lp_loopUseCounter := 0, lp_stats := \<lparr>ls_used = 0, ls_correct = 0, ls_wrong = 0\<rparr>\<rparr>"

lemma loop_config_fields:
  assumes "loop_config s' = loop_config s"
  shows "lp_params s' = lp_params s" and "lp_confidenceThreshold s' = lp_confidenceThreshold s"
    and "loop_address s' = loop_address s" and "loop_slot s' = loop_slot s" and "loop_ways s' = loop_ways s"
    and "loop_direction s' = loop_direction s"
proof -
  have f: "lp_params s' = lp_params s" "lp_loopTagMask s' = lp_loopTagMask s" "lp_loopSetMask s' = lp_loopSetMask s"
      "lp_confidenceThreshold s' = lp_confidenceThreshold s"
    using arg_cong [OF assms, of lp_params] arg_cong [OF assms, of lp_loopTagMask] arg_cong [OF assms, of lp_loopSetMask]
      arg_cong [OF assms, of lp_confidenceThreshold] by (simp_all add: loop_config_def)
  show "lp_params s' = lp_params s" "lp_confidenceThreshold s' = lp_confidenceThreshold s" by (fact f)+
  show "loop_address s' = loop_address s" by (intro ext) (simp only: loop_address_def lindex_def f)
  show "loop_slot s' = loop_slot s" by (intro ext) (simp only: loop_slot_def finallindex_def f)
  show "loop_ways s' = loop_ways s" "loop_direction s' = loop_direction s"
    by (simp_all add: loop_ways_def loop_direction_def f fun_eq_iff)
qed

lemma loop_hit_same:
  assumes "loop_config s' = loop_config s" and "map le_tag (lp_ltable s') = map le_tag (lp_ltable s)"
    and "\<And>i. i \<in> set (loop_ways s) \<Longrightarrow> loop_slot s (loop_address s pc sh (LoopBranchInfo_new False)) (int i) < length (lp_ltable s)"
  shows "loop_hit s' pc sh = loop_hit s pc sh"
proof -
  have "le_tag (lp_ltable s' ! j) = le_tag (lp_ltable s ! j)" if "j < length (lp_ltable s)" for j
    using arg_cong [OF assms(2), of "\<lambda>l. l ! j"] map_eq_imp_length_eq [OF assms(2)] that by simp
  then have "find (\<lambda>i. le_tag (lp_ltable s' ! loop_slot s (loop_address s pc sh (LoopBranchInfo_new False)) (int i)) =
        lb_loopTag (loop_address s pc sh (LoopBranchInfo_new False))) (loop_ways s) =
      find (\<lambda>i. le_tag (lp_ltable s ! loop_slot s (loop_address s pc sh (LoopBranchInfo_new False)) (int i)) =
        lb_loopTag (loop_address s pc sh (LoopBranchInfo_new False))) (loop_ways s)"
    using assms(3) by (intro find_cong) auto
  then show ?thesis by (simp add: loop_hit_def Let_def loop_config_fields [OF assms(1)])
qed

lemma getLoop_hit:
  assumes "LoopPredictor_wf s" and "loop_hit s pc sh = Some k"
  shows "\<exists>bi i. getLoop LoopPredictor_ops s pc (LoopBranchInfo_new uninit) False sh =
      Inr (loop_direction s False (lp_ltable s ! k), bi) \<and> lb_loopHit bi = int i \<and> loop_slot s bi (int i) = k \<and>
    loop_bi_ok (lp_params s) bi \<and> lb_loopPredValid bi = (le_confidence (lp_ltable s ! k) = lp_confidenceThreshold s) \<and>
    k < length (lp_ltable s)"
proof -
  let ?b = "loop_address s pc sh (LoopBranchInfo_new uninit)" and ?fresh = "loop_address s pc sh (LoopBranchInfo_new False)"
  have same: "lb_loopTag ?b = lb_loopTag ?fresh" "loop_slot s ?b = loop_slot s ?fresh"
    by (simp_all add: loop_address_def LoopBranchInfo_new_def loop_slot_def fun_eq_iff Let_def)
  have a: "loop_bi_ok (lp_params s) ?b"
    using assms(1) by (intro loop_address_ok) (auto simp: LoopPredictor_wf_def LoopBranchInfo_new_def)
  obtain i where i: "find (\<lambda>i. le_tag (lp_ltable s ! loop_slot s ?b (int i)) = lb_loopTag ?b) (loop_ways s) = Some i"
      "loop_slot s ?b (int i) = k"
    using assms(2) unfolding loop_hit_def Let_def same map_option_eq_Some by blast
  have w: "i \<in> set (loop_ways s)" using i(1) by (auto simp: find_Some_iff)
  note f = find_loop_ok [OF assms(1) a, of "loop_ways s", unfolded loop_ways_set i(1), simplified]
  have r: "getLoop LoopPredictor_ops s pc (LoopBranchInfo_new uninit) False sh = Inr (loop_direction s False (lp_ltable s ! k),
      ?b\<lparr>lb_loopHit := int i, lb_loopPredValid := (le_confidence (lp_ltable s ! k) = lp_confidenceThreshold s)\<rparr>)"
    using f i(2) by (simp add: getLoop_def Let_def LoopPredictor_ops_def)
  have l: "k < length (lp_ltable s)"
    using loop_slot_ok(3) [OF assms(1) a, of "int i"] w i(2) by (simp add: loop_ways_set)
  have b: "loop_bi_ok (lp_params s) (?b\<lparr>lb_loopHit := int i, lb_loopPredValid := v\<rparr>)" for v
    using a w by (simp add: loop_bi_ok_def loop_ways_set)
  have "loop_slot s (?b\<lparr>lb_loopHit := int i, lb_loopPredValid := v\<rparr>) (int i) = k" for v
    using i(2) by (simp add: loop_slot_def)
  then show ?thesis using r b l
    by (intro exI [of _ "?b\<lparr>lb_loopHit := int i, lb_loopPredValid := (le_confidence (lp_ltable s ! k) = lp_confidenceThreshold s)\<rparr>"]
        exI [of _ i]) simp
qed

text \<open>The effect of a round on the counter that selects the loop prediction.\<close>

definition next_use :: "LoopPredictor \<Rightarrow> bool \<Rightarrow> bool \<Rightarrow> bool \<Rightarrow> int" where
  "next_use s valid differs right =
     (let m = 2 ^ (unat (lpp_withLoopBits (lp_params s)) - 1); c = lp_loopUseCounter s
      in if valid \<and> differs then if right then min (c + 1) (m - 1) else max (c - 1) (- m) else c)"

lemma update_hit_counter [simp]:
  "count_iteration (s\<lparr>lp_loopUseCounter := c\<rparr>) = count_iteration s" "end_loop (s\<lparr>lp_loopUseCounter := c\<rparr>) = end_loop s"
  "update_iteration (s\<lparr>lp_loopUseCounter := c\<rparr>) = update_iteration s" "update_hit (s\<lparr>lp_loopUseCounter := c\<rparr>) = update_hit s"
proof -
  have p: "lp_params (s\<lparr>lp_loopUseCounter := c\<rparr>) = lp_params s" by simp
  show 1: "count_iteration (s\<lparr>lp_loopUseCounter := c\<rparr>) = count_iteration s" by (intro ext) (simp add: count_iteration_def Let_def)
  show 2: "end_loop (s\<lparr>lp_loopUseCounter := c\<rparr>) = end_loop s" by (intro ext) (simp add: end_loop_def Let_def)
  show 3: "update_iteration (s\<lparr>lp_loopUseCounter := c\<rparr>) = update_iteration s"
    by (intro ext) (simp add: update_iteration_def Let_def 1 2)
  show "update_hit (s\<lparr>lp_loopUseCounter := c\<rparr>) = update_hit s" by (intro ext) (simp only: update_hit_def 3 p)
qed

lemma condBranchUpdate_hit:
  assumes wf: "LoopPredictor_wf s" and bi: "loop_bi_ok (lp_params s) bi" "0 \<le> lb_loopHit bi"
    and spec: "\<not> lpp_useSpeculation (lp_params s)"
    and u: "update_hit s taken bi prev False (lp_ltable s ! loop_slot s bi (lb_loopHit bi)) = Inr e" "loop_entry_ok (lp_params s) e"
  shows "\<exists>s' bi'. LoopPredictor_condBranchUpdate LoopPredictor_ops s pc taken prev bi sh r1 nrand = Inr (s', bi') \<and>
    LoopPredictor_wf s' \<and> loop_config s' = loop_config s \<and>
    lp_ltable s' = (lp_ltable s)[loop_slot s bi (lb_loopHit bi) := e] \<and>
    lp_loopUseCounter s' = next_use s (lb_loopPredValid bi) (lb_predTaken bi \<noteq> lb_loopPred bi) (lb_loopPred bi = taken)"
proof -
  have w: "1 \<le> lpp_withLoopBits (lp_params s)" "lpp_withLoopBits (lp_params s) \<le> 8"
      "- (2 ^ (unat (lpp_withLoopBits (lp_params s)) - 1)) \<le> lp_loopUseCounter s"
      "lp_loopUseCounter s < 2 ^ (unat (lpp_withLoopBits (lp_params s)) - 1)"
    using wf by (simp_all add: LoopPredictor_wf_def loop_cfg_ok_def LoopPredictorParams_ok_def Let_def)
  define c where "c = next_use s (lb_loopPredValid bi) (lb_predTaken bi \<noteq> lb_loopPred bi) (lb_loopPred bi = taken)"
  have c: "(if lb_loopPredValid bi \<and> lb_predTaken bi \<noteq> lb_loopPred bi
             then signedCtrUpdate (lp_loopUseCounter s) (lb_loopPred bi = taken) (lpp_withLoopBits (lp_params s))
             else Inr (lp_loopUseCounter s)) = Inr c"
    unfolding signedCtrUpdate_ok [OF w] by (simp add: c_def next_use_def Let_def)
  let ?s = "s\<lparr>lp_loopUseCounter := c\<rparr>"
  have wf': "LoopPredictor_wf ?s"
    unfolding loop_wf_counter [OF wf] using w(3,4) by (auto simp: c_def next_use_def Let_def min_def max_def)
  have slot: "loop_slot ?s bi = loop_slot s bi" "update_hit ?s = update_hit s"
    by (simp_all add: loop_slot_def finallindex_def fun_eq_iff)
  have f: "update_hit ?s taken bi prev False (lp_ltable ?s ! loop_slot ?s bi (lb_loopHit bi)) = Inr e"
    using u(1) unfolding slot by simp
  note e = loop_update_entry_ok [OF wf' _ bi(2), of "update_hit ?s taken bi prev False", OF _ f]
  have "loopUpdate LoopPredictor_ops ?s taken bi prev r1 nrand = Inr (?s\<lparr>lp_ltable := (lp_ltable s)[loop_slot s bi (lb_loopHit bi) := e]\<rparr>)"
      "LoopPredictor_wf (?s\<lparr>lp_ltable := (lp_ltable s)[loop_slot s bi (lb_loopHit bi) := e]\<rparr>)"
    using e bi u(2) slot by (simp_all add: loopUpdate_def LoopPredictor_ops_def)
  then show ?thesis using c spec unfolding LoopPredictor_condBranchUpdate_def c_def [symmetric]
    by (simp add: loop_config_def)
qed

lemma updateStats_config [simp]: "loop_config (LoopPredictor_updateStats s taken bi) = loop_config s"
  by (simp add: loop_config_def LoopPredictor_updateStats_def Let_def)

lemma loop_round_hit:
  assumes wf: "LoopPredictor_wf s" and hit: "loop_hit s pc sh = Some k"
    and opts: "\<not> lpp_useSpeculation (lp_params s)" "\<not> lpp_useDirectionBit (lp_params s)"
  defines "e \<equiv> lp_ltable s ! k"
  defines "valid \<equiv> le_confidence e = lp_confidenceThreshold s"
  defines "p \<equiv> loop_direction s False e"
  shows "\<exists>pred s'. loop_round LoopPredictor_ops sh pc s (taken, prev, uninit, r1, nrand) = Inr ((pred, valid, p), s') \<and>
    pred = (if 0 \<le> lp_loopUseCounter s \<and> valid then p else prev) \<and>
    LoopPredictor_wf s' \<and> loop_config s' = loop_config s \<and> loop_hit s' pc sh = Some k \<and>
    loop_abs (lp_ltable s' ! k) = abs_step (2 ^ unat (lpp_loopTableIterBits (lp_params s))) (unat (lp_confidenceThreshold s)) (loop_abs e) taken \<and>
    lp_loopUseCounter s' = next_use s valid (pred \<noteq> p) (p = taken)"
proof -
  obtain b i where g: "getLoop LoopPredictor_ops s pc (LoopBranchInfo_new uninit) False sh = Inr (p, b)" "lb_loopHit b = int i"
      "loop_slot s b (int i) = k" "loop_bi_ok (lp_params s) b" "lb_loopPredValid b = valid" "k < length (lp_ltable s)"
    using getLoop_hit [OF wf hit, of uninit] unfolding e_def valid_def p_def by blast
  define pred where "pred = (if 0 \<le> lp_loopUseCounter s \<and> valid then p else prev)"
  define bi where "bi = (if 0 \<le> lp_loopUseCounter s \<and> valid then b\<lparr>lb_loopPred := p, lb_loopPredUsed := True\<rparr>
    else b\<lparr>lb_loopPred := p\<rparr>)\<lparr>lb_predTaken := pred\<rparr>"
  have f: "lb_loopPred bi = p" "lb_loopPredValid bi = valid" "lb_loopHit bi = int i" "lb_predTaken bi = pred"
      "loop_slot s bi = loop_slot s b" "loop_bi_ok (lp_params s) bi"
    using g by (simp_all add: bi_def loop_slot_def loop_bi_ok_def fun_eq_iff)
  have pr: "loop_predict_step LoopPredictor_ops sh s pc True prev uninit = Inr (pred, s, bi)"
    using g(1,5) opts(1) by (simp add: loop_predict_step_def loopPredict_def Let_def bi_def pred_def)
  let ?s = "LoopPredictor_updateStats s taken bi"
  note st = updateStats_ok [OF wf, of taken bi]
  note cf = loop_config_fields [OF updateStats_config [of s taken bi]]
  have c: "loop_cfg_ok s" "loop_entry_ok (lp_params s) e"
    using wf g(6) by (simp_all add: LoopPredictor_wf_def list_all_length e_def)
  have cs: "loop_cfg_ok ?s" using st(1) by (simp add: LoopPredictor_wf_def)
  obtain e' where u: "update_hit ?s taken bi prev False e = Inr e'" "loop_entry_ok (lp_params s) e'"
    using update_hit_ok [OF cs, of e taken bi prev False] c(2) st(2) by auto
  have a: "loop_abs e' = abs_step (2 ^ unat (lpp_loopTableIterBits (lp_params s))) (unat (lp_confidenceThreshold s)) (loop_abs e) taken"
      "le_tag e' = le_tag e"
    using update_hit_abs [OF cs _ _ _ _ u(1)] opts(2) c(2) f(1,2) st(2) cf(2,6) by (simp_all add: valid_def p_def)
  have sl: "loop_slot ?s bi (lb_loopHit bi) = k" using cf(4) f(3,5) g(3) by simp
  obtain s' bi' where r: "LoopPredictor_condBranchUpdate LoopPredictor_ops ?s pc taken prev bi sh r1 nrand = Inr (s', bi')"
      "LoopPredictor_wf s'" "loop_config s' = loop_config ?s" "lp_ltable s' = (lp_ltable ?s)[loop_slot ?s bi (lb_loopHit bi) := e']"
      "lp_loopUseCounter s' = next_use ?s (lb_loopPredValid bi) (lb_predTaken bi \<noteq> lb_loopPred bi) (lb_loopPred bi = taken)"
    using condBranchUpdate_hit [OF st(1), of bi taken prev e' pc sh r1 nrand] f u opts(1) st(2,3) sl e_def by auto
  have tags: "map le_tag (lp_ltable s') = map le_tag (lp_ltable s)"
    using r(4) sl st(3) a(2) g(6) unfolding e_def by (simp add: map_update list_update_same_conv)
  have "loop_hit s' pc sh = loop_hit s pc sh"
  proof (rule loop_hit_same)
    show "loop_config s' = loop_config s" using r(3) by simp
    fix j assume "j \<in> set (loop_ways s)"
    moreover have "loop_bi_ok (lp_params s) (loop_address s pc sh (LoopBranchInfo_new False))"
      using c(1) by (intro loop_address_ok) (simp_all add: LoopBranchInfo_new_def)
    ultimately show "loop_slot s (loop_address s pc sh (LoopBranchInfo_new False)) (int j) < length (lp_ltable s)"
      using wf by (intro loop_slot_ok(3)) (simp_all add: loop_ways_set)
  qed (fact tags)
  then have "loop_hit s' pc sh = Some k" using hit by simp
  moreover have "lp_ltable s' ! k = e'" using r(4) sl st(3) g(6) by simp
  moreover have "next_use ?s = next_use s" using st(2,4) by (simp add: next_use_def fun_eq_iff)
  ultimately show ?thesis using pr r a(1) f
    by (intro exI [of _ pred] exI [of _ s']) (simp add: pred_def)
qed

section \<open>Learning\<close>

text \<open>The directions of the loop from the iteration \<open>C\<close> on.\<close>

fun in_phase :: "nat \<Rightarrow> nat \<Rightarrow> bool list \<Rightarrow> bool" where
  "in_phase N C [] = True"
| "in_phase N C (t # ts) = (t = (C + 1 \<noteq> N) \<and> in_phase N (if t then C + 1 else 0) ts)"

lemma in_phase_body: "C + n < N \<Longrightarrow> in_phase N C (replicate n True @ ts) = in_phase N (C + n) ts"
  by (induction n arbitrary: C) auto

lemma in_phase_execs:
  assumes "0 < N"
  shows "in_phase N 0 (concat (replicate k (loop_exec N)))"
  using assms in_phase_body [of 0 "N - 1" N] by (induction k) (simp_all add: loop_exec_def)

text \<open>The mispredictions of the final prediction in a list of outputs.\<close>

definition final_wrong :: "loop_output list \<Rightarrow> bool list \<Rightarrow> nat" where
  "final_wrong outs takens = length (filter (\<lambda>(out, taken). fst out \<noteq> taken) (zip outs takens))"

lemma final_wrong_Cons: "final_wrong (out # outs) (t # ts) = (if fst out \<noteq> t then 1 else 0) + final_wrong outs ts"
  by (simp add: final_wrong_def)

lemma loop_rounds_trained:
  assumes "LoopPredictor_wf s" and "loop_hit s pc sh = Some k"
    and "\<not> lpp_useSpeculation (lp_params s)" "\<not> lpp_useDirectionBit (lp_params s)"
    and "loop_abs (lp_ltable s ! k) = (N, C, unat (lp_confidenceThreshold s))" and "C < N" and "3 \<le> N"
    and "N < 2 ^ unat (lpp_loopTableIterBits (lp_params s))" and "in_phase N C (map fst ins)"
  shows "\<exists>outs s'. loop_rounds LoopPredictor_ops sh pc s ins = Inr (outs, s') \<and>
    list_all2 (\<lambda>(pred, valid, p) taken. valid \<and> p = taken) outs (map fst ins) \<and>
    int (final_wrong outs (map fst ins)) \<le> max 0 (- lp_loopUseCounter s)"
  using assms
proof (induction ins arbitrary: s C)
  case Nil
  then show ?case by (simp add: final_wrong_def)
next
  case (Cons i ins)
  obtain taken prev uninit r1 nrand where i: "i = (taken, prev, uninit, r1, nrand)" by (cases i)
  let ?e = "lp_ltable s ! k" and ?thr = "unat (lp_confidenceThreshold s)"
  have e: "unat (le_numIter ?e) = N" "unat (le_currentIter ?e) = C" "unat (le_confidence ?e) = ?thr"
    using Cons.prems(5) by (simp_all add: loop_abs_def)
  have v: "le_confidence ?e = lp_confidenceThreshold s" using e(3) by (simp add: word_unat_eq_iff)
  have t: "taken \<longleftrightarrow> C + 1 \<noteq> N" and ph: "in_phase N (if taken then C + 1 else 0) (map fst ins)"
    using Cons.prems(9) unfolding i list.map fst_conv in_phase.simps by blast+
  have p: "loop_direction s False ?e = taken" using e Cons.prems(4) t by (simp add: loop_direction_def)
  obtain pred s1 where r: "loop_round LoopPredictor_ops sh pc s i = Inr ((pred, True, taken), s1)"
      "pred = (if 0 \<le> lp_loopUseCounter s then taken else prev)" "LoopPredictor_wf s1" "loop_config s1 = loop_config s"
      "loop_hit s1 pc sh = Some k"
      "loop_abs (lp_ltable s1 ! k) = abs_step (2 ^ unat (lpp_loopTableIterBits (lp_params s))) ?thr (N, C, ?thr) taken"
      "lp_loopUseCounter s1 = next_use s True (pred \<noteq> taken) True"
    using loop_round_hit [OF Cons.prems(1-4), of taken prev uninit r1 nrand] Cons.prems(5) v p unfolding i by auto
  note c = loop_config_fields [OF r(4)]
  have ab: "loop_abs (lp_ltable s1 ! k) = (N, if taken then C + 1 else 0, unat (lp_confidenceThreshold s1))"
    using r(6) Cons.prems(6-8) t c(2) by (cases taken) (auto simp: abs_step.simps)
  have cn: "(if taken then C + 1 else 0) < N" using t Cons.prems(6) by auto
  obtain outs s' where IH: "loop_rounds LoopPredictor_ops sh pc s1 ins = Inr (outs, s')"
      "list_all2 (\<lambda>(pred, valid, p) taken. valid \<and> p = taken) outs (map fst ins)"
      "int (final_wrong outs (map fst ins)) \<le> max 0 (- lp_loopUseCounter s1)"
    using Cons.IH [OF r(3,5) _ _ ab cn Cons.prems(7) _ ph] Cons.prems(3,4,8) c(1) by auto
  have "1 \<le> (2 :: int) ^ (unat (lpp_withLoopBits (lp_params s)) - 1)" by simp
  then have "int (if pred \<noteq> taken then 1 else 0) + max 0 (- lp_loopUseCounter s1) \<le> max 0 (- lp_loopUseCounter s)"
  proof (cases "pred = taken")
    case False
    then have "lp_loopUseCounter s < 0" using r(2) by (auto split: if_splits)
    moreover from this have "lp_loopUseCounter s + 1 < 2 ^ (unat (lpp_withLoopBits (lp_params s)) - Suc 0)"
      using zero_less_power [of "2::int" "unat (lpp_withLoopBits (lp_params s)) - Suc 0"] by linarith
    ultimately show ?thesis using False r(7) by (simp add: next_use_def Let_def min_def max_def)
  qed (use r(7) in \<open>simp add: next_use_def Let_def\<close>)
  then show ?case using r(1) IH
    by (intro exI [of _ "(pred, True, taken) # outs"] exI [of _ s']) (auto simp: i final_wrong_Cons)
qed

lemma loop_rounds_follow:
  assumes "LoopPredictor_wf s" and "loop_hit s pc sh = Some k"
    and "\<not> lpp_useSpeculation (lp_params s)" "\<not> lpp_useDirectionBit (lp_params s)"
  shows "\<exists>outs s'. loop_rounds LoopPredictor_ops sh pc s ins = Inr (outs, s') \<and> length outs = length ins \<and>
    LoopPredictor_wf s' \<and> loop_config s' = loop_config s \<and> loop_hit s' pc sh = Some k \<and>
    loop_abs (lp_ltable s' ! k) = abs_run (2 ^ unat (lpp_loopTableIterBits (lp_params s))) (unat (lp_confidenceThreshold s))
      (loop_abs (lp_ltable s ! k)) (map fst ins)"
  using assms
proof (induction ins arbitrary: s)
  case (Cons i ins)
  obtain taken prev uninit r1 nrand where i: "i = (taken, prev, uninit, r1, nrand)" by (cases i)
  obtain out s1 where r: "loop_round LoopPredictor_ops sh pc s i = Inr (out, s1)" "LoopPredictor_wf s1" "loop_config s1 = loop_config s"
      "loop_hit s1 pc sh = Some k"
      "loop_abs (lp_ltable s1 ! k) = abs_step (2 ^ unat (lpp_loopTableIterBits (lp_params s))) (unat (lp_confidenceThreshold s))
         (loop_abs (lp_ltable s ! k)) taken"
    using loop_round_hit [OF Cons.prems, of taken prev uninit r1 nrand] unfolding i by blast
  note c = loop_config_fields [OF r(3)]
  obtain outs s' where "loop_rounds LoopPredictor_ops sh pc s1 ins = Inr (outs, s')" "length outs = length ins"
      "LoopPredictor_wf s'" "loop_config s' = loop_config s1" "loop_hit s' pc sh = Some k"
      "loop_abs (lp_ltable s' ! k) = abs_run (2 ^ unat (lpp_loopTableIterBits (lp_params s))) (unat (lp_confidenceThreshold s))
         (loop_abs (lp_ltable s1 ! k)) (map fst ins)"
    using Cons.IH [OF r(2,4)] Cons.prems(3,4) c(1,2) by auto
  then show ?case using r by (intro exI [of _ "out # outs"] exI [of _ s']) (simp add: i)
qed simp

lemma abs_run_bound:
  assumes "fst st < W"
  shows "fst (abs_run W thr st xs) < W"
  using assms
proof (induction xs arbitrary: st)
  case (Cons x xs)
  obtain M C F where st: "st = (M, C, F)" by (cases st)
  have "(C + 1) mod W < W" using Cons.prems by (intro mod_less_divisor) simp
  then have "fst (abs_step W thr st x) < W" using Cons.prems by (simp add: st abs_step.simps Let_def)
  then show ?case using Cons.IH by simp
qed simp


text \<open>A predictor with one entry, which holds a wrong number of iterations with full confidence.\<close>

definition example_loop_params :: LoopPredictorParams where
  "example_loop_params = \<lparr>lpp_logSizeLoopPred = 0, lpp_loopTableAgeBits = 3, lpp_loopTableConfidenceBits = 1,
     lpp_loopTableTagBits = 4, lpp_loopTableIterBits = 2, lpp_logLoopTableAssoc = 0, lpp_withLoopBits = 3,
     lpp_useDirectionBit = False, lpp_useSpeculation = False, lpp_useHashing = False, lpp_restrictAllocation = False,
     lpp_initialLoopIter = 1, lpp_initialLoopAge = 7, lpp_optionalAgeReset = True\<rparr>"

definition example_loop :: LoopPredictor where
  "example_loop = \<lparr>lp_params = example_loop_params, lp_confidenceThreshold = 1, lp_loopTagMask = 15, lp_loopNumIterMask = 3,
     lp_loopSetMask = 0, lp_ltable = [LoopEntry_default\<lparr>le_numIter := 2, le_confidence := 1, le_tag := 5\<rparr>],
     lp_loopUseCounter = - 4, lp_stats = \<lparr>ls_used = 0, ls_correct = 0, ls_wrong = 0\<rparr>\<rparr>"

lemma example_loop_ok: "LoopPredictor_wf example_loop" "loop_hit example_loop 20 2 = Some 0"
  by code_simp+

definition example_rounds :: "nat \<Rightarrow> loop_input list" where
  "example_rounds n = map (\<lambda>taken. (taken, True, False, 0, 0)) (concat (replicate n (loop_exec 3)))"

lemma example_rounds_fst: "map fst (example_rounds n) = concat (replicate n (loop_exec 3))"
  by (simp add: example_rounds_def comp_def)

lemma example_loop_fields:
  "\<not> lpp_useSpeculation (lp_params example_loop)" "\<not> lpp_useDirectionBit (lp_params example_loop)"
  "lpp_loopTableConfidenceBits (lp_params example_loop) \<noteq> 0" "3 < (2 :: nat) ^ unat (lpp_loopTableIterBits (lp_params example_loop))"
  "map fst (example_rounds 4) = concat (replicate (2 ^ unat (lpp_loopTableConfidenceBits (lp_params example_loop)) + 2) (loop_exec 3))"
  "(2 :: nat) ^ (unat (lpp_withLoopBits (lp_params example_loop)) - 1) = 4"
  by (simp_all add: example_loop_def example_loop_params_def example_rounds_fst)

lemma example_later: "map fst (example_rounds 2) = [True, True, False, True, True, False]"
  unfolding example_rounds_fst by code_simp


end
