(* ===== verification/Tage_Base.thy ===== *)
theory Tage_Base
  imports Loop_Predictor Conditional_Predictor "HOL-Library.Signed_Division"
begin

text \<open>
  The TAGE predictor of \<open>cpu/pred/tage_base.cc\<close>: a bimodal table and tables with partial tags
  that are indexed with folded global histories of increasing lengths.  The class \<open>TAGEBase\<close> is the
  record of its fields; its virtual methods are those of the class itself.  The length of a history in
  the middle of the geometric series is computed in floating point, and the function that gives it is
  an argument of the construction.  Memory that the code allocates without initialising it is \<open>None\<close>,
  and reading it is undefined.

  This theory has the definitions.  The histories are the subject of \<open>Tage_History\<close>, the tables of
  \<open>Tage_Tables\<close>, and the predictors \<open>TAGE\<close> and \<open>LTAGE\<close> have theories of their own.
\<close>

section \<open>Data\<close>

record TageEntry =
  te_ctr :: int
  te_tag :: u16
  te_u :: u8

definition TageEntry_default :: TageEntry where
  "TageEntry_default = \<lparr>te_ctr = 0, te_tag = 0, te_u = 0\<rparr>"

record FoldedHistory =
  fh_comp :: u32
  fh_compLength :: int
  fh_origLength :: int
  fh_outpoint :: int

text \<open>A default entry of the arrays, whose element \<open>0\<close> is never initialised and never used.\<close>

definition FoldedHistory_default :: FoldedHistory where
  "FoldedHistory_default = \<lparr>fh_comp = 0, fh_compLength = 0, fh_origLength = 0, fh_outpoint = 0\<rparr>"

definition FoldedHistory_init :: "int \<Rightarrow> int \<Rightarrow> FoldedHistory result" where
  "FoldedHistory_init original_length compressed_length =
     check (compressed_length \<noteq> 0) Undefined
       (Inr \<lparr>fh_comp = 0, fh_compLength = compressed_length, fh_origLength = original_length,
             fh_outpoint = original_length smod compressed_length\<rparr>)"

text \<open>The argument \<open>h\<close> of the code is the pointer to the element \<open>pt\<close> of the buffer.\<close>

definition FoldedHistory_update :: "u8 list \<Rightarrow> int \<Rightarrow> FoldedHistory \<Rightarrow> FoldedHistory result" where
  "FoldedHistory_update buf pt fh =
     check (0 \<le> fh_compLength fh \<and> fh_compLength fh < 32 \<and> 0 \<le> fh_outpoint fh \<and> fh_outpoint fh < 31) Undefined
       (bind_r (arr_get buf pt) (\<lambda>h0.
        bind_r (arr_get buf (pt + fh_origLength fh)) (\<lambda>hL.
          let comp = push_bit 1 (fh_comp fh) OR ucast h0;
              comp = comp XOR push_bit (nat (fh_outpoint fh)) (ucast hL);
              comp = comp XOR drop_bit (nat (fh_compLength fh)) comp
          in Inr (fh\<lparr>fh_comp := comp AND mask (nat (fh_compLength fh))\<rparr>))))"

definition FoldedHistory_restore :: "u8 list \<Rightarrow> int \<Rightarrow> FoldedHistory \<Rightarrow> FoldedHistory result" where
  "FoldedHistory_restore buf pt fh =
     check (1 \<le> fh_compLength fh \<and> fh_compLength fh \<le> 32 \<and> 0 \<le> fh_outpoint fh \<and> fh_outpoint fh < 31) Undefined
       (bind_r (arr_get buf pt) (\<lambda>h0.
        bind_r (arr_get buf (pt + fh_origLength fh)) (\<lambda>hL.
          let comp = fh_comp fh XOR push_bit (nat (fh_outpoint fh)) (ucast hL);
              tmp = (comp AND 1) XOR ucast h0
          in Inr (fh\<lparr>fh_comp := push_bit (nat (fh_compLength fh - 1)) tmp OR drop_bit 1 comp\<rparr>))))"

text \<open>The provider types, and the value of a branch without a prediction.\<close>

definition BIMODAL_ONLY :: u32 where "BIMODAL_ONLY = 0"
definition TAGE_LONGEST_MATCH :: u32 where "TAGE_LONGEST_MATCH = 1"
definition BIMODAL_ALT_MATCH :: u32 where "BIMODAL_ALT_MATCH = 2"
definition TAGE_ALT_MATCH :: u32 where "TAGE_ALT_MATCH = 3"
definition LAST_TAGE_PROVIDER_TYPE :: u32 where "LAST_TAGE_PROVIDER_TYPE = TAGE_ALT_MATCH"

lemmas tage_providers = BIMODAL_ONLY_def TAGE_LONGEST_MATCH_def BIMODAL_ALT_MATCH_def TAGE_ALT_MATCH_def

record TageBI =
  tbi_branchPC :: Addr
  tbi_condBranch :: bool
  tbi_pathHist :: "int option"
  tbi_hitBank :: nat
  tbi_hitBankIndex :: int
  tbi_altBank :: nat
  tbi_altBankIndex :: int
  tbi_bimodalIndex :: int
  tbi_tagePred :: bool
  tbi_altTaken :: bool
  tbi_longestMatchPred :: bool
  tbi_pseudoNewAlloc :: bool
  tbi_tableIndices :: "int option list"
  tbi_tableTags :: "int option list"
  tbi_ci :: "int option list"
  tbi_ct0 :: "int option list"
  tbi_ct1 :: "int option list"
  tbi_provider :: u32
  tbi_ghist :: u64
  tbi_nGhist :: u8
  tbi_modified :: bool
  tbi_valid :: bool

text \<open>The parameters, with the names of the constructor's argument.\<close>

record TAGEBaseParams =
  tp_numThreads :: u32
  tp_instShiftAmt :: u32
  tp_logRatioBiModalHystEntries :: u32
  tp_nHistoryTables :: u32
  tp_tagTableCounterBits :: u32
  tp_tagTableUBits :: u32
  tp_histBufferSize :: u32
  tp_minHist :: u32
  tp_maxHist :: u32
  tp_pathHistBits :: u32
  tp_tagTableTagWidths :: "u32 list"
  tp_logTagTableSizes :: "int list"
  tp_logUResetPeriod :: u64
  tp_initialTCounterValue :: int
  tp_numUseAltOnNa :: u32
  tp_useAltOnNaBits :: u32
  tp_maxNumAlloc :: u32
  tp_takenOnlyHistory :: bool
  tp_noSkip :: "bool list"
  tp_speculativeHistUpdate :: bool

record ThreadHistory =
  th_pathHist :: int
  th_nonSpecPathHist :: int
  th_globalHist :: "u8 list"
  th_ptGhist :: int
  th_computeIndices :: "FoldedHistory list"
  th_computeTags0 :: "FoldedHistory list"
  th_computeTags1 :: "FoldedHistory list"

record TAGEBaseStats =
  ts_longestMatchProviderCorrect :: nat
  ts_altMatchProviderCorrect :: nat
  ts_bimodalAltMatchProviderCorrect :: nat
  ts_bimodalProviderCorrect :: nat
  ts_longestMatchProviderWrong :: nat
  ts_altMatchProviderWrong :: nat
  ts_bimodalAltMatchProviderWrong :: nat
  ts_bimodalProviderWrong :: nat
  ts_altMatchProviderWouldHaveHit :: nat
  ts_longestMatchProviderWouldHaveHit :: nat
  ts_longestMatchProvider :: "nat list"
  ts_altMatchProvider :: "nat list"

text \<open>\<open>tCounter\<close> is an \<open>int64_t\<close> that is only ever incremented and masked.\<close>

record TAGEBase =
  tb_params :: TAGEBaseParams
  tb_btablePrediction :: "bool list"
  tb_btableHysteresis :: "bool list"
  tb_gtable :: "TageEntry list list"
  tb_threadHistory :: "ThreadHistory list"
  tb_histLengths :: "int list"
  tb_tableIndices :: "int option list"
  tb_tableTags :: "int option list"
  tb_useAltPredForNewlyAllocated :: "int list"
  tb_tCounter :: u64
  tb_noSkip :: "bool list"
  tb_initialized :: bool
  tb_stats :: TAGEBaseStats

abbreviation tb_n :: "TAGEBase \<Rightarrow> nat" where
  "tb_n s \<equiv> unat (tp_nHistoryTables (tb_params s))"

definition makeBranchInfo :: "TAGEBase \<Rightarrow> Addr \<Rightarrow> bool \<Rightarrow> TageBI" where
  "makeBranchInfo s pc conditional =
     (let storage = replicate (tb_n s + 1) None
      in \<lparr>tbi_branchPC = pc, tbi_condBranch = conditional, tbi_pathHist = None, tbi_hitBank = 0, tbi_hitBankIndex = 0,
          tbi_altBank = 0, tbi_altBankIndex = 0, tbi_bimodalIndex = 0, tbi_tagePred = False, tbi_altTaken = False,
          tbi_longestMatchPred = False, tbi_pseudoNewAlloc = False, tbi_tableIndices = storage, tbi_tableTags = storage,
          tbi_ci = storage, tbi_ct0 = storage, tbi_ct1 = storage, tbi_provider = - 1, tbi_ghist = 0, tbi_nGhist = 0,
          tbi_modified = False, tbi_valid = False\<rparr>)"

section \<open>Construction\<close>

definition TAGEBaseStats_init :: "nat \<Rightarrow> TAGEBaseStats" where
  "TAGEBaseStats_init n = \<lparr>ts_longestMatchProviderCorrect = 0, ts_altMatchProviderCorrect = 0,
     ts_bimodalAltMatchProviderCorrect = 0, ts_bimodalProviderCorrect = 0, ts_longestMatchProviderWrong = 0,
     ts_altMatchProviderWrong = 0, ts_bimodalAltMatchProviderWrong = 0, ts_bimodalProviderWrong = 0,
     ts_altMatchProviderWouldHaveHit = 0, ts_longestMatchProviderWouldHaveHit = 0,
     ts_longestMatchProvider = replicate (n + 1) 0, ts_altMatchProvider = replicate (n + 1) 0\<rparr>"

definition TAGEBase_new :: "TAGEBaseParams \<Rightarrow> TAGEBase" where
  "TAGEBase_new p =
     (let n = unat (tp_nHistoryTables p)
      in \<lparr>tb_params = p, tb_btablePrediction = [], tb_btableHysteresis = [], tb_gtable = [],
          tb_threadHistory = replicate (unat (tp_numThreads p)) \<lparr>th_pathHist = 0, th_nonSpecPathHist = 0, th_globalHist = [],
            th_ptGhist = 0, th_computeIndices = [], th_computeTags0 = [], th_computeTags1 = []\<rparr>,
          tb_histLengths = [], tb_tableIndices = [], tb_tableTags = [], tb_useAltPredForNewlyAllocated = [], tb_tCounter = 0,
          tb_noSkip = (if tp_noSkip p = [] then replicate (n + 1) True else tp_noSkip p),
          tb_initialized = False, tb_stats = TAGEBaseStats_init n\<rparr>)"

text \<open>
  \<open>len i\<close> is the value of the floating-point expression for the table \<open>i\<close>.  The loop also covers the
  last table, whose length was set to \<open>maxHist\<close> before it.  The element \<open>0\<close> is not used.
\<close>

definition calculateParameters :: "(nat \<Rightarrow> int) \<Rightarrow> TAGEBaseParams \<Rightarrow> int list result" where
  "calculateParameters len p =
     (let n = unat (tp_nHistoryTables p)
      in check (1 \<le> n) Undefined 
           (Inr (map (\<lambda>i. if 2 \<le> i then len i else if i = n then sint (tp_maxHist p) else if i = 1 then sint (tp_minHist p) else 0)
                   [0..<n + 1])))"

text \<open>The folded histories of one thread, for the tables from \<open>1\<close> on.\<close>

definition initFoldedHistories :: "TAGEBaseParams \<Rightarrow> int list \<Rightarrow> ThreadHistory \<Rightarrow> ThreadHistory result" where
  "initFoldedHistories p histLengths th =
     (let banks = [1..<unat (tp_nHistoryTables p) + 1]
      in bind_r (map_r (\<lambda>i. FoldedHistory_init (histLengths ! i) (tp_logTagTableSizes p ! i)) banks) (\<lambda>ci.
         bind_r (map_r (\<lambda>i. FoldedHistory_init (histLengths ! i) (sint (tp_tagTableTagWidths p ! i))) banks) (\<lambda>ct0.
         bind_r (map_r (\<lambda>i. FoldedHistory_init (histLengths ! i) (sint (tp_tagTableTagWidths p ! i - 1))) banks) (\<lambda>ct1.
           Inr (th\<lparr>th_computeIndices := FoldedHistory_default # ci, th_computeTags0 := FoldedHistory_default # ct0,
                   th_computeTags1 := FoldedHistory_default # ct1\<rparr>)))))"

definition buildTageTables :: "TAGEBaseParams \<Rightarrow> TageEntry list list result" where
  "buildTageTables p =
     bind_r (map_r (\<lambda>i. check (0 \<le> tp_logTagTableSizes p ! i \<and> tp_logTagTableSizes p ! i < 31) Undefined
                          (Inr (replicate (2 ^ nat (tp_logTagTableSizes p ! i)) TageEntry_default)))
              [1..<unat (tp_nHistoryTables p) + 1])
       (\<lambda>tables. Inr ([] # tables))"

definition TAGEBase_init :: "(nat \<Rightarrow> int) \<Rightarrow> TAGEBase \<Rightarrow> TAGEBase result" where
  "TAGEBase_init len s =
     (let p = tb_params s; n = unat (tp_nHistoryTables p)
      in if tb_initialized s then Inr s
         else check (tp_tagTableUBits p \<le> 2 \<and> tp_tagTableUBits p > 0) (Assert ''tagTableUBits <= 2 && (tagTableUBits > 0)'')
             (check (tp_pathHistBits p \<le> 32) (Assert ''pathHistBits <= (sizeof(int)*8)'')
             (check (tp_logUResetPeriod p \<noteq> 0) (Assert ''logUResetPeriod != 0'')
             (check (tp_histBufferSize p > tp_maxHist p * 3) (Assert ''histBufferSize > maxHist * 3'')
             (bind_r (calculateParameters len p) (\<lambda>histLengths.
              check (length (tp_tagTableTagWidths p) = n + 1) (Assert ''tagTableTagWidths.size() == (nHistoryTables+1)'')
             (check (length (tp_logTagTableSizes p) = n + 1) (Assert ''logTagTableSizes.size() == (nHistoryTables+1)'')
             (check (tp_tagTableTagWidths p ! 0 = 0) (Assert ''tagTableTagWidths[0] == 0'')
             (bind_r (map_r (\<lambda>th. initFoldedHistories p histLengths
                        (th\<lparr>th_pathHist := 0, th_nonSpecPathHist := 0,
                            th_globalHist := replicate (unat (tp_histBufferSize p)) 0, th_ptGhist := 0\<rparr>))
                      (tb_threadHistory s)) (\<lambda>threads.
              check (0 \<le> tp_logTagTableSizes p ! 0 \<and> tp_logTagTableSizes p ! 0 < 64 \<and> tp_logRatioBiModalHystEntries p < 64) Undefined
             (bind_r (buildTageTables p) (\<lambda>tables.
                let bimodalTableSize = 2 ^ nat (tp_logTagTableSizes p ! 0)
                in Inr (s\<lparr>tb_tCounter := word_of_int (tp_initialTCounterValue p),
                     tb_useAltPredForNewlyAllocated := replicate (unat (tp_numUseAltOnNa p)) 0,
                     tb_threadHistory := threads, tb_histLengths := histLengths,
                     tb_btablePrediction := replicate bimodalTableSize False,
                     tb_btableHysteresis := replicate (bimodalTableSize div 2 ^ unat (tp_logRatioBiModalHystEntries p)) True,
                     tb_gtable := tables, tb_tableIndices := replicate (n + 1) None, tb_tableTags := replicate (n + 1) None,
                     tb_initialized := True\<rparr>)))))))))))))"

section \<open>Indices, tags and counters\<close>

definition bindex :: "TAGEBase \<Rightarrow> Addr \<Rightarrow> int" where
  "bindex s pc_in =
     to_int (drop_bit (unat (tp_instShiftAmt (tb_params s))) pc_in AND mask (nat (tp_logTagTableSizes (tb_params s) ! 0)))"

text \<open>The shift by \<open>logTagTableSizes[bank] - bank\<close> is undefined when it is negative.\<close>

definition tage_F :: "TAGEBase \<Rightarrow> int \<Rightarrow> nat \<Rightarrow> nat \<Rightarrow> int result" where
  "tage_F s A hlen bank =
     bind_r (vec_get (tp_logTagTableSizes (tb_params s)) bank) (\<lambda>lg.
       check (int bank \<le> lg) Undefined
         (let n = nat lg;
              A = A AND mask hlen;
              A1 = A AND mask n;
              A2 = drop_bit n A;
              A2 = (push_bit bank A2 AND mask n) + drop_bit (n - bank) A2;
              A = A1 XOR A2
          in Inr ((push_bit bank A AND mask n) + drop_bit (n - bank) A)))"

definition gindex :: "TAGEBase \<Rightarrow> ThreadID \<Rightarrow> Addr \<Rightarrow> nat \<Rightarrow> int result" where
  "gindex s tid pc bank =
     (let p = tb_params s
      in bind_r (vec_get (tb_histLengths s) bank) (\<lambda>histLength.
         bind_r (vec_get (tp_logTagTableSizes p) bank) (\<lambda>lg.
         bind_r (vec_get (tb_threadHistory s) tid) (\<lambda>th.
         bind_r (vec_get (th_computeIndices th) bank) (\<lambda>fh.
           let hlen = (if word_of_int histLength > tp_pathHistBits p then unat (tp_pathHistBits p) else nat histLength);
               shiftedPc = (ucast (drop_bit (unat (tp_instShiftAmt p)) pc) :: u32)
           in check (\<bar>lg - int bank\<bar> + 1 < 32) Undefined
             (bind_r (tage_F s (th_pathHist th) hlen bank) (\<lambda>f.
                let index = shiftedPc XOR drop_bit (nat (\<bar>lg - int bank\<bar> + 1)) shiftedPc XOR fh_comp fh XOR word_of_int f
                in Inr (int (unat (index AND mask (nat lg)))))))))))"

definition gtag :: "TAGEBase \<Rightarrow> ThreadID \<Rightarrow> Addr \<Rightarrow> nat \<Rightarrow> u16 result" where
  "gtag s tid pc bank =
     (let p = tb_params s
      in bind_r (vec_get (tp_tagTableTagWidths p) bank) (\<lambda>width.
         bind_r (vec_get (tb_threadHistory s) tid) (\<lambda>th.
         bind_r (vec_get (th_computeTags0 th) bank) (\<lambda>f0.
         bind_r (vec_get (th_computeTags1 th) bank) (\<lambda>f1.
           let tag = drop_bit (unat (tp_instShiftAmt p)) pc XOR ucast (fh_comp f0) XOR ucast (push_bit 1 (fh_comp f1))
           in Inr (ucast (tag AND mask (unat width))))))))"

definition ctrUpdate :: "int \<Rightarrow> bool \<Rightarrow> u32 \<Rightarrow> int result" where
  "ctrUpdate ctr taken nbits =
     check (nbits \<le> 8) (Assert ''nbits <= sizeof(T) << 3'')
       (bind_r (int_ones (unat (nbits - 1))) (\<lambda>m.
          Inr (if taken then if ctr < m then to_int8 (ctr + 1) else ctr
               else if ctr > - (m + 1) then to_int8 (ctr - 1) else ctr)))"

definition TAGEBase_unsignedCtrUpdate :: "u8 \<Rightarrow> bool \<Rightarrow> u32 \<Rightarrow> u8 result" where
  "TAGEBase_unsignedCtrUpdate ctr up nbits =
     check (nbits \<le> 8) (Assert ''nbits <= sizeof(uint8_t) << 3'')
       (bind_r (int_ones (unat nbits)) (\<lambda>m.
          Inr (if up then if int (unat ctr) < m then ctr + 1 else ctr else if ctr \<noteq> 0 then ctr - 1 else ctr)))"

definition getBimodePred :: "TAGEBase \<Rightarrow> TageBI \<Rightarrow> bool result" where
  "getBimodePred s bi = arr_get (tb_btablePrediction s) (tbi_bimodalIndex bi)"

definition baseUpdate :: "TAGEBase \<Rightarrow> bool \<Rightarrow> TageBI \<Rightarrow> TAGEBase result" where
  "baseUpdate s taken bi =
     (let hidx = drop_bit (unat (tp_logRatioBiModalHystEntries (tb_params s))) (tbi_bimodalIndex bi)
      in bind_r (arr_get (tb_btablePrediction s) (tbi_bimodalIndex bi)) (\<lambda>pred.
         bind_r (arr_get (tb_btableHysteresis s) hidx) (\<lambda>hyst.
           let inter = 2 * of_bool pred + (of_bool hyst :: int);
               inter = (if taken then if inter < 3 then inter + 1 else inter else if inter > 0 then inter - 1 else inter)
           in bind_r (arr_set (tb_btablePrediction s) (tbi_bimodalIndex bi) (drop_bit 1 inter \<noteq> 0)) (\<lambda>preds.
              bind_r (arr_set (tb_btableHysteresis s) hidx (inter AND 1 \<noteq> 0)) (\<lambda>hysts.
                Inr (s\<lparr>tb_btablePrediction := preds, tb_btableHysteresis := hysts\<rparr>))))))"

section \<open>Histories\<close>

text \<open>The loops over the tables from \<open>1\<close> on.\<close>

definition map_banks :: "('a \<Rightarrow> 'a result) \<Rightarrow> 'a list \<Rightarrow> 'a list result" where
  "map_banks f xs = (case xs of [] \<Rightarrow> Inr [] | x # xs \<Rightarrow> bind_r (map_r f xs) (\<lambda>xs. Inr (x # xs)))"

definition fold_histories :: "(u8 list \<Rightarrow> int \<Rightarrow> FoldedHistory \<Rightarrow> FoldedHistory result) \<Rightarrow> ThreadHistory \<Rightarrow> ThreadHistory result" where
  "fold_histories f th =
     bind_r (map_banks (f (th_globalHist th) (th_ptGhist th)) (th_computeIndices th)) (\<lambda>ci.
     bind_r (map_banks (f (th_globalHist th) (th_ptGhist th)) (th_computeTags0 th)) (\<lambda>ct0.
     bind_r (map_banks (f (th_globalHist th) (th_ptGhist th)) (th_computeTags1 th)) (\<lambda>ct1.
       Inr (th\<lparr>th_computeIndices := ci, th_computeTags0 := ct0, th_computeTags1 := ct1\<rparr>))))"

definition rollbackBuffer :: u32 where
  "rollbackBuffer = 1000"

definition rollover :: "TAGEBaseParams \<Rightarrow> ThreadHistory \<Rightarrow> ThreadHistory result" where
  "rollover p th =
     (let start = tp_histBufferSize p - tp_maxHist p - rollbackBuffer
      in bind_r (fold_r (\<lambda>i buf. bind_r (arr_get buf (th_ptGhist th + int i)) (\<lambda>b. vec_set buf (unat (start + of_nat i)) b))
                   [0..<unat (tp_maxHist p + rollbackBuffer)] (th_globalHist th)) (\<lambda>buf.
           Inr (th\<lparr>th_globalHist := buf, th_ptGhist := sint start\<rparr>)))"

definition shift_ghist :: "bool \<Rightarrow> ThreadHistory \<Rightarrow> ThreadHistory result" where
  "shift_ghist b th =
     (let pt = th_ptGhist th - 1
      in check (0 \<le> pt \<and> nat pt < length (th_globalHist th)) OutOfRange
           (fold_histories FoldedHistory_update
              (th\<lparr>th_ptGhist := pt, th_globalHist := (th_globalHist th)[nat pt := of_bool b]\<rparr>)))"

fun shift_bits :: "nat \<Rightarrow> u64 \<Rightarrow> ThreadHistory \<Rightarrow> ThreadHistory result" where
  "shift_bits 0 bv th = Inr th"
| "shift_bits (Suc n) bv th = bind_r (shift_ghist (bit bv 0) th) (shift_bits n (drop_bit 1 bv))"

definition updateGHist :: "TAGEBaseParams \<Rightarrow> u64 \<Rightarrow> u8 \<Rightarrow> ThreadHistory \<Rightarrow> ThreadHistory result" where
  "updateGHist p bv n th =
     (if n = 0 then Inr th
      else bind_r (if th_ptGhist th < int (unat n) then rollover p th else Inr th) (shift_bits (unat n) bv))"

definition calcNewPathHist :: "TAGEBaseParams \<Rightarrow> Addr \<Rightarrow> int \<Rightarrow> bool \<Rightarrow> int" where
  "calcNewPathHist p pc cur_phist taken =
     (if tp_takenOnlyHistory p \<and> \<not> taken then cur_phist
      else let pathbit = to_int (drop_bit (unat (tp_instShiftAmt p)) pc AND 1)
           in to_int (word_of_int (push_bit 1 cur_phist + pathbit) AND mask (unat (tp_pathHistBits p))))"

definition updatePathAndGlobalHistory ::
  "TAGEBaseParams \<Rightarrow> bool \<Rightarrow> Addr \<Rightarrow> Addr \<Rightarrow> ThreadHistory \<Rightarrow> TageBI \<Rightarrow> (ThreadHistory \<times> TageBI) result" where
  "updatePathAndGlobalHistory p taken branch_pc target th bi =
     (let th = th\<lparr>th_pathHist := calcNewPathHist p branch_pc (th_pathHist th) taken\<rparr>;
          sh = unat (tp_instShiftAmt p);
          bi = (if tp_takenOnlyHistory p
                then if taken
                     then bi\<lparr>tbi_ghist := drop_bit 2 (drop_bit sh branch_pc) XOR drop_bit 3 (drop_bit sh target), tbi_nGhist := 2\<rparr>
                     else bi
                else bi\<lparr>tbi_ghist := of_bool taken, tbi_nGhist := 1\<rparr>)
      in bind_r (updateGHist p (tbi_ghist bi) (tbi_nGhist bi) th) (\<lambda>th. Inr (th, bi)))"

definition recordHistState :: "ThreadHistory \<Rightarrow> TageBI \<Rightarrow> TageBI" where
  "recordHistState th bi =
     (let comps = (\<lambda>fhs. None # map (\<lambda>fh. Some (sint (fh_comp fh))) (tl fhs))
      in bi\<lparr>tbi_pathHist := Some (th_pathHist th), tbi_ci := comps (th_computeIndices th),
            tbi_ct0 := comps (th_computeTags0 th), tbi_ct1 := comps (th_computeTags1 th)\<rparr>)"

text \<open>An uninitialised value is read.\<close>

definition initialised :: "'a option \<Rightarrow> 'a result" where
  "initialised v = (case v of None \<Rightarrow> Inl Undefined | Some x \<Rightarrow> Inr x)"

fun unshift_bits :: "TAGEBaseParams \<Rightarrow> nat \<Rightarrow> ThreadHistory \<Rightarrow> ThreadHistory result" where
  "unshift_bits p 0 th = Inr th"
| "unshift_bits p (Suc n) th =
     bind_r (fold_histories FoldedHistory_restore th) (\<lambda>th.
       let th = th\<lparr>th_ptGhist := th_ptGhist th + 1\<rparr>
       in check (th_ptGhist th + int (unat (tp_maxHist p)) < int (length (th_globalHist th)))
            (Assert ''(tHist.ptGhist + maxHist) < tHist.globalHist.size()'') (unshift_bits p n th))"

definition restoreHistState :: "TAGEBaseParams \<Rightarrow> ThreadHistory \<Rightarrow> TageBI \<Rightarrow> (ThreadHistory \<times> TageBI) result" where
  "restoreHistState p th bi =
     (if \<not> tp_speculativeHistUpdate p then Inr (th, bi)
      else if \<not> tbi_modified bi then Inr (th, bi)
      else bind_r (initialised (tbi_pathHist bi)) (\<lambda>ph.
        let th = th\<lparr>th_pathHist := ph\<rparr>
        in if tbi_nGhist bi = 0 then Inr (th, bi)
           else bind_r (unshift_bits p (unat (tbi_nGhist bi)) th) (\<lambda>th.
                  Inr (th, bi\<lparr>tbi_nGhist := 0, tbi_modified := False\<rparr>))))"

section \<open>Prediction\<close>

definition calculateIndicesAndTags :: "TAGEBase \<Rightarrow> ThreadID \<Rightarrow> Addr \<Rightarrow> TageBI \<Rightarrow> (TAGEBase \<times> TageBI) result" where
  "calculateIndicesAndTags s tid branch_pc bi =
     bind_r (map_r (\<lambda>i. bind_r (gindex s tid branch_pc i) (\<lambda>index. bind_r (gtag s tid branch_pc i) (\<lambda>tag.
                Inr (index, int (unat tag))))) [1..<tb_n s + 1]) (\<lambda>its.
       let indices = None # map (Some \<circ> fst) its; tags = None # map (Some \<circ> snd) its
       in Inr (s\<lparr>tb_tableIndices := indices, tb_tableTags := tags\<rparr>,
               bi\<lparr>tbi_tableIndices := indices, tbi_tableTags := tags, tbi_valid := True\<rparr>))"

definition gtable_get :: "TAGEBase \<Rightarrow> nat \<Rightarrow> int \<Rightarrow> TageEntry result" where
  "gtable_get s bank index = bind_r (vec_get (tb_gtable s) bank) (\<lambda>table. arr_get table index)"

definition gtable_set :: "TAGEBase \<Rightarrow> nat \<Rightarrow> int \<Rightarrow> TageEntry \<Rightarrow> TAGEBase result" where
  "gtable_set s bank index e =
     bind_r (vec_get (tb_gtable s) bank) (\<lambda>table. bind_r (arr_set table index e) (\<lambda>table.
       Inr (s\<lparr>tb_gtable := (tb_gtable s)[bank := table]\<rparr>)))"

definition stored :: "int option list \<Rightarrow> nat \<Rightarrow> int result" where
  "stored xs i = bind_r (vec_get xs i) initialised"

text \<open>The search for a bank among those of the list: \<open>0\<close> when there is none.\<close>

fun find_bank :: "TAGEBase \<Rightarrow> nat list \<Rightarrow> nat result" where
  "find_bank s [] = Inr 0"
| "find_bank s (i # is) =
     bind_r (vec_get (tb_noSkip s) i) (\<lambda>active.
       if active
       then bind_r (stored (tb_tableIndices s) i) (\<lambda>index.
            bind_r (gtable_get s i index) (\<lambda>e.
            bind_r (stored (tb_tableTags s) i) (\<lambda>tag.
              if int (unat (te_tag e)) = tag then Inr i else find_bank s is)))
       else find_bank s is)"

text \<open>The index that the code stores with a bank, which stays as it is when no bank is found.\<close>

definition bank_index :: "TAGEBase \<Rightarrow> nat \<Rightarrow> int \<Rightarrow> int result" where
  "bank_index s bank old = (if bank = 0 then Inr old else stored (tb_tableIndices s) bank)"

definition getUseAltIdx :: "TageBI \<Rightarrow> Addr \<Rightarrow> nat" where
  "getUseAltIdx bi branch_pc = 0"

definition extraAltCalc :: "TageBI \<Rightarrow> TageBI" where
  "extraAltCalc bi = bi"

definition bank_prediction :: "TAGEBase \<Rightarrow> nat \<Rightarrow> bool result" where
  "bank_prediction s bank =
     bind_r (stored (tb_tableIndices s) bank) (\<lambda>index. bind_r (gtable_get s bank index) (\<lambda>e. Inr (te_ctr e \<ge> 0)))"

definition find_banks :: "TAGEBase \<Rightarrow> TageBI \<Rightarrow> TageBI result" where
  "find_banks s bi =
     (let bi = bi\<lparr>tbi_hitBank := 0, tbi_altBank := 0\<rparr>
      in bind_r (find_bank s (rev [1..<tb_n s + 1])) (\<lambda>hit.
         bind_r (bank_index s hit (tbi_hitBankIndex bi)) (\<lambda>hitIndex.
         bind_r (find_bank s (rev [1..<hit])) (\<lambda>alt.
         bind_r (bank_index s alt (tbi_altBankIndex bi)) (\<lambda>altIndex.
           Inr (bi\<lparr>tbi_hitBank := hit, tbi_hitBankIndex := hitIndex, tbi_altBank := alt, tbi_altBankIndex := altIndex\<rparr>))))))"

definition tage_choose :: "TAGEBase \<Rightarrow> Addr \<Rightarrow> TageBI \<Rightarrow> TageBI result" where
  "tage_choose s branch_pc bi =
     (if tbi_hitBank bi > 0
      then bind_r (if tbi_altBank bi > 0
                   then bind_r (bank_prediction s (tbi_altBank bi)) (\<lambda>alt. Inr (extraAltCalc (bi\<lparr>tbi_altTaken := alt\<rparr>)))
                   else bind_r (getBimodePred s bi) (\<lambda>alt. Inr (bi\<lparr>tbi_altTaken := alt\<rparr>))) (\<lambda>bi.
           bind_r (bank_prediction s (tbi_hitBank bi)) (\<lambda>longest.
           bind_r (gtable_get s (tbi_hitBank bi) (tbi_hitBankIndex bi)) (\<lambda>e.
           bind_r (vec_get (tb_useAltPredForNewlyAllocated s) (getUseAltIdx bi branch_pc)) (\<lambda>useAlt.
             let bi = bi\<lparr>tbi_longestMatchPred := longest, tbi_pseudoNewAlloc := (\<bar>2 * te_ctr e + 1\<bar> \<le> 1)\<rparr>
             in Inr (if useAlt < 0 \<or> \<not> tbi_pseudoNewAlloc bi
                     then bi\<lparr>tbi_tagePred := tbi_longestMatchPred bi, tbi_provider := TAGE_LONGEST_MATCH\<rparr>
                     else bi\<lparr>tbi_tagePred := tbi_altTaken bi,
                             tbi_provider := (if tbi_altBank bi \<noteq> 0 then TAGE_ALT_MATCH else BIMODAL_ALT_MATCH)\<rparr>)))))
      else bind_r (getBimodePred s bi) (\<lambda>alt.
             Inr (bi\<lparr>tbi_altTaken := alt, tbi_tagePred := alt, tbi_longestMatchPred := alt, tbi_provider := BIMODAL_ONLY\<rparr>)))"

definition tagePredict :: "TAGEBase \<Rightarrow> ThreadID \<Rightarrow> Addr \<Rightarrow> bool \<Rightarrow> TageBI \<Rightarrow> (bool \<times> TAGEBase \<times> TageBI) result" where
  "tagePredict s tid branch_pc is_cond bi =
     (if \<not> is_cond
      then check (tbi_branchPC bi = branch_pc) (Assert ''bi->branchPC == branch_pc'') (Inr (True, s, bi))
      else bind_r (calculateIndicesAndTags s tid branch_pc bi) (\<lambda>(s, bi).
           bind_r (find_banks s (bi\<lparr>tbi_bimodalIndex := bindex s branch_pc\<rparr>)) (\<lambda>bi.
           bind_r (tage_choose s branch_pc bi) (\<lambda>bi. Inr (tbi_tagePred bi, s, bi)))))"

section \<open>Update of the histories\<close>

definition with_thread ::
  "TAGEBase \<Rightarrow> ThreadID \<Rightarrow> (ThreadHistory \<Rightarrow> (ThreadHistory \<times> TageBI) result) \<Rightarrow> (TAGEBase \<times> TageBI) result" where
  "with_thread s tid f =
     bind_r (vec_get (tb_threadHistory s) tid) (\<lambda>th. bind_r (f th) (\<lambda>(th, bi).
       Inr (s\<lparr>tb_threadHistory := (tb_threadHistory s)[tid := th]\<rparr>, bi)))"

definition TAGEBase_updateHistories ::
  "TAGEBase \<Rightarrow> ThreadID \<Rightarrow> Addr \<Rightarrow> bool \<Rightarrow> bool \<Rightarrow> Addr \<Rightarrow> TageBI \<Rightarrow> (TAGEBase \<times> TageBI) result" where
  "TAGEBase_updateHistories s tid branch_pc speculative taken target bi =
     (let p = tb_params s
      in if speculative \<noteq> tp_speculativeHistUpdate p
         then if \<not> speculative
              then with_thread s tid (\<lambda>th. bind_r (initialised (tbi_pathHist bi)) (\<lambda>ph.
                     Inr (th\<lparr>th_nonSpecPathHist := calcNewPathHist p branch_pc ph taken\<rparr>, bi)))
              else Inr (s, bi)
         else bind_r (with_thread s tid (\<lambda>th.
                let bi = (if tp_speculativeHistUpdate p \<and> \<not> tbi_modified bi then recordHistState th bi else bi)
                in if tbi_modified bi then restoreHistState p th bi else Inr (th, bi))) (\<lambda>(s, bi).
              bind_r (if \<not> tbi_valid bi \<and> tbi_condBranch bi then calculateIndicesAndTags s tid branch_pc bi else Inr (s, bi)) (\<lambda>(s, bi).
              check (tbi_nGhist bi = 0) (Assert ''bi->nGhist == 0'')
                (bind_r (with_thread s tid (\<lambda>th. updatePathAndGlobalHistory p taken branch_pc target th bi)) (\<lambda>(s, bi).
                   Inr (s, bi\<lparr>tbi_modified := True\<rparr>))))))"

definition TAGEBase_squash :: "TAGEBase \<Rightarrow> ThreadID \<Rightarrow> bool \<Rightarrow> Addr \<Rightarrow> TageBI \<Rightarrow> (TAGEBase \<times> TageBI) result" where
  "TAGEBase_squash s tid taken target bi = TAGEBase_updateHistories s tid (tbi_branchPC bi) True taken target bi"

definition TAGEBase_restoreHistState :: "TAGEBase \<Rightarrow> ThreadID \<Rightarrow> TageBI \<Rightarrow> (TAGEBase \<times> TageBI) result" where
  "TAGEBase_restoreHistState s tid bi = with_thread s tid (\<lambda>th. restoreHistState (tb_params s) th bi)"

section \<open>Update of the tables\<close>

definition resetUctr :: "u8 \<Rightarrow> u8" where
  "resetUctr u = drop_bit 1 u"

definition handleUReset :: "TAGEBase \<Rightarrow> TAGEBase result" where
  "handleUReset s =
     check (tp_logUResetPeriod (tb_params s) < 64) Undefined
       (Inr (if tb_tCounter s AND mask (unat (tp_logUResetPeriod (tb_params s))) = 0
             then s\<lparr>tb_gtable := map (map (\<lambda>e. e\<lparr>te_u := resetUctr (te_u e)\<rparr>)) (tb_gtable s)\<rparr>
             else s))"

fun min_useful :: "TAGEBase \<Rightarrow> TageBI \<Rightarrow> u8 \<Rightarrow> nat list \<Rightarrow> u8 result" where
  "min_useful s bi m [] = Inr m"
| "min_useful s bi m (i # is) =
     bind_r (stored (tbi_tableIndices bi) i) (\<lambda>index. bind_r (gtable_get s i index) (\<lambda>e.
       min_useful s bi (if te_u e < m then te_u e else m) is))"

fun allocate_entries :: "bool \<Rightarrow> TageBI \<Rightarrow> TAGEBase \<Rightarrow> u32 \<Rightarrow> nat list \<Rightarrow> TAGEBase result" where
  "allocate_entries taken bi s numAllocated [] = Inr s"
| "allocate_entries taken bi s numAllocated (i # is) =
     bind_r (stored (tbi_tableIndices bi) i) (\<lambda>index. bind_r (gtable_get s i index) (\<lambda>e.
       if te_u e = 0
       then bind_r (stored (tbi_tableTags bi) i) (\<lambda>tag.
            bind_r (gtable_set s i index (e\<lparr>te_tag := word_of_int tag, te_ctr := (if taken then 0 else - 1)\<rparr>)) (\<lambda>s.
              if numAllocated + 1 = tp_maxNumAlloc (tb_params s) then Inr s
              else allocate_entries taken bi s (numAllocated + 1) is))
       else allocate_entries taken bi s numAllocated is))"

definition first_bank :: "TAGEBase \<Rightarrow> TageBI \<Rightarrow> int \<Rightarrow> nat" where
  "first_bank s bi nrand =
     (let Y = nrand AND mask (tb_n s - tbi_hitBank bi - 1); X = tbi_hitBank bi + 1
      in if bit Y 0 then if bit Y 1 then X + 2 else X + 1 else X)"

definition tage_allocate :: "TAGEBase \<Rightarrow> bool \<Rightarrow> TageBI \<Rightarrow> int \<Rightarrow> TAGEBase result" where
  "tage_allocate s taken bi nrand =
     bind_r (min_useful s bi 1 (rev [tbi_hitBank bi + 1..<tb_n s + 1])) (\<lambda>m.
       check (tbi_hitBank bi < tb_n s \<and> tb_n s - tbi_hitBank bi - 1 < 64) Undefined
         (let X = first_bank s bi nrand
          in bind_r (if m > 0
                     then bind_r (stored (tbi_tableIndices bi) X) (\<lambda>index. bind_r (gtable_get s X index) (\<lambda>e.
                            gtable_set s X index (e\<lparr>te_u := 0\<rparr>)))
                     else Inr s) (\<lambda>s'.
               allocate_entries taken bi s' 0 [X..<tb_n s + 1])))"

definition handleAllocAndUReset :: "TAGEBase \<Rightarrow> bool \<Rightarrow> bool \<Rightarrow> TageBI \<Rightarrow> int \<Rightarrow> TAGEBase result" where
  "handleAllocAndUReset s alloc taken bi nrand =
     bind_r (if alloc then tage_allocate s taken bi nrand else Inr s)
       (\<lambda>s. handleUReset (s\<lparr>tb_tCounter := tb_tCounter s + 1\<rparr>))"

definition update_ctr :: "TAGEBase \<Rightarrow> nat \<Rightarrow> int \<Rightarrow> bool \<Rightarrow> TAGEBase result" where
  "update_ctr s bank index taken =
     bind_r (gtable_get s bank index) (\<lambda>e.
     bind_r (ctrUpdate (te_ctr e) taken (tp_tagTableCounterBits (tb_params s))) (\<lambda>c.
       gtable_set s bank index (e\<lparr>te_ctr := c\<rparr>)))"

definition handleTAGEUpdate :: "TAGEBase \<Rightarrow> bool \<Rightarrow> TageBI \<Rightarrow> TAGEBase result" where
  "handleTAGEUpdate s taken bi =
     (if tbi_hitBank bi > 0
      then bind_r (update_ctr s (tbi_hitBank bi) (tbi_hitBankIndex bi) taken) (\<lambda>s.
           bind_r (gtable_get s (tbi_hitBank bi) (tbi_hitBankIndex bi)) (\<lambda>e.
           bind_r (if te_u e = 0
                   then if tbi_altBank bi > 0 then update_ctr s (tbi_altBank bi) (tbi_altBankIndex bi) taken
                        else baseUpdate s taken bi
                   else Inr s) (\<lambda>s.
             if tbi_tagePred bi \<noteq> tbi_altTaken bi
             then bind_r (gtable_get s (tbi_hitBank bi) (tbi_hitBankIndex bi)) (\<lambda>e.
                  bind_r (TAGEBase_unsignedCtrUpdate (te_u e) (tbi_tagePred bi = taken) (tp_tagTableUBits (tb_params s))) (\<lambda>u.
                    gtable_set s (tbi_hitBank bi) (tbi_hitBankIndex bi) (e\<lparr>te_u := u\<rparr>)))
             else Inr s)))
      else baseUpdate s taken bi)"

definition adjustAlloc :: "bool \<Rightarrow> bool \<Rightarrow> bool \<Rightarrow> bool" where
  "adjustAlloc alloc taken pred_taken = alloc"

definition TAGEBase_condBranchUpdate ::
  "TAGEBase \<Rightarrow> Addr \<Rightarrow> bool \<Rightarrow> TageBI \<Rightarrow> int \<Rightarrow> bool \<Rightarrow> bool \<Rightarrow> TAGEBase result" where
  "TAGEBase_condBranchUpdate s branch_pc taken bi nrand pred preAdjustAlloc =
     (let alloc = (tbi_tagePred bi \<noteq> taken \<and> tbi_hitBank bi < tb_n s);
          alloc = (if preAdjustAlloc then adjustAlloc alloc taken pred else alloc);
          newAlloc = (tbi_hitBank bi > 0 \<and> tbi_pseudoNewAlloc bi);
          alloc = (if newAlloc \<and> tbi_longestMatchPred bi = taken then False else alloc);
          idx = getUseAltIdx bi branch_pc
      in bind_r (if newAlloc \<and> tbi_longestMatchPred bi \<noteq> tbi_altTaken bi
                 then bind_r (vec_get (tb_useAltPredForNewlyAllocated s) idx) (\<lambda>c.
                      bind_r (ctrUpdate c (tbi_altTaken bi = taken) (tp_useAltOnNaBits (tb_params s))) (\<lambda>c.
                      bind_r (vec_set (tb_useAltPredForNewlyAllocated s) idx c) (\<lambda>cs.
                        Inr (s\<lparr>tb_useAltPredForNewlyAllocated := cs\<rparr>))))
                 else Inr s) (\<lambda>s.
           let alloc = (if \<not> preAdjustAlloc then adjustAlloc alloc taken pred else alloc)
           in bind_r (handleAllocAndUReset s alloc taken bi nrand) (\<lambda>s. handleTAGEUpdate s taken bi)))"

section \<open>Statistics and other methods\<close>

definition bump :: "nat list \<Rightarrow> nat \<Rightarrow> nat list result" where
  "bump xs i = bind_r (vec_get xs i) (\<lambda>x. vec_set xs i (x + 1))"

definition provider_stats :: "bool \<Rightarrow> TageBI \<Rightarrow> TAGEBaseStats \<Rightarrow> TAGEBaseStats" where
  "provider_stats taken bi st =
     (let pr = tbi_provider bi
      in if taken = tbi_tagePred bi
         then if pr = BIMODAL_ONLY then st\<lparr>ts_bimodalProviderCorrect := ts_bimodalProviderCorrect st + 1\<rparr>
              else if pr = TAGE_LONGEST_MATCH then st\<lparr>ts_longestMatchProviderCorrect := ts_longestMatchProviderCorrect st + 1\<rparr>
              else if pr = BIMODAL_ALT_MATCH then st\<lparr>ts_bimodalAltMatchProviderCorrect := ts_bimodalAltMatchProviderCorrect st + 1\<rparr>
              else if pr = TAGE_ALT_MATCH then st\<lparr>ts_altMatchProviderCorrect := ts_altMatchProviderCorrect st + 1\<rparr>
              else st
         else let st = (if pr = BIMODAL_ONLY then st\<lparr>ts_bimodalProviderWrong := ts_bimodalProviderWrong st + 1\<rparr>
                else if pr = TAGE_LONGEST_MATCH
                then let st = st\<lparr>ts_longestMatchProviderWrong := ts_longestMatchProviderWrong st + 1\<rparr>
                     in if tbi_altTaken bi = taken
                        then st\<lparr>ts_altMatchProviderWouldHaveHit := ts_altMatchProviderWouldHaveHit st + 1\<rparr> else st
                else if pr = BIMODAL_ALT_MATCH then st\<lparr>ts_bimodalAltMatchProviderWrong := ts_bimodalAltMatchProviderWrong st + 1\<rparr>
                else if pr = TAGE_ALT_MATCH then st\<lparr>ts_altMatchProviderWrong := ts_altMatchProviderWrong st + 1\<rparr>
                else st)
              in if (pr = BIMODAL_ALT_MATCH \<or> pr = TAGE_ALT_MATCH) \<and> tbi_longestMatchPred bi = taken
                 then st\<lparr>ts_longestMatchProviderWouldHaveHit := ts_longestMatchProviderWouldHaveHit st + 1\<rparr> else st)"

definition TAGEBase_updateStats :: "TAGEBase \<Rightarrow> bool \<Rightarrow> TageBI \<Rightarrow> TAGEBase result" where
  "TAGEBase_updateStats s taken bi =
     (let st = provider_stats taken bi (tb_stats s)
      in bind_r (if tbi_provider bi = TAGE_LONGEST_MATCH \<or> tbi_provider bi = TAGE_ALT_MATCH
                 then bind_r (bump (ts_longestMatchProvider st) (tbi_hitBank bi)) (\<lambda>l.
                      bind_r (bump (ts_altMatchProvider st) (tbi_altBank bi)) (\<lambda>a.
                        Inr (st\<lparr>ts_longestMatchProvider := l, ts_altMatchProvider := a\<rparr>)))
                 else Inr st) (\<lambda>st. Inr (s\<lparr>tb_stats := st\<rparr>)))"

definition getGHR :: "TAGEBase \<Rightarrow> ThreadID \<Rightarrow> u32 result" where
  "getGHR s tid =
     bind_r (vec_get (tb_threadHistory s) tid) (\<lambda>th.
       fold_r (\<lambda>i val. check (0 \<le> th_ptGhist th + int i) OutOfRange
                 (bind_r (vec_at (th_globalHist th) (nat (th_ptGhist th + int i))) (\<lambda>b.
                    Inr (val OR push_bit i (ucast b AND 1))))) [0..<16] 0)"

definition getCtr :: "TAGEBase \<Rightarrow> nat \<Rightarrow> int \<Rightarrow> int result" where
  "getCtr s hitBank hitBankIndex = bind_r (gtable_get s hitBank hitBankIndex) (\<lambda>e. Inr (te_ctr e))"

definition getTageCtrBits :: "TAGEBase \<Rightarrow> u32" where
  "getTageCtrBits s = tp_tagTableCounterBits (tb_params s)"

definition getPathHist :: "TAGEBase \<Rightarrow> ThreadID \<Rightarrow> bool \<Rightarrow> int result" where
  "getPathHist s tid speculative =
     bind_r (vec_get (tb_threadHistory s) tid) (\<lambda>th. Inr (if speculative then th_pathHist th else th_nonSpecPathHist th))"

definition isSpeculativeUpdateEnabled :: "TAGEBase \<Rightarrow> bool" where
  "isSpeculativeUpdateEnabled s = tp_speculativeHistUpdate (tb_params s)"

definition TAGEBase_getSizeInBits :: "TAGEBase \<Rightarrow> u64" where
  "TAGEBase_getSizeInBits s =
     (let p = tb_params s; bimodalTableSize = push_bit (nat (tp_logTagTableSizes p ! 0)) 1 :: u64
      in sum_list (map (\<lambda>i. ucast (push_bit (nat (tp_logTagTableSizes p ! i)) 1 *
                      (tp_tagTableCounterBits p + tp_tagTableUBits p + tp_tagTableTagWidths p ! i))) [1..<tb_n s + 1]) +
         ucast (tp_numUseAltOnNa p * tp_useAltOnNaBits p) + bimodalTableSize +
         drop_bit (unat (tp_logRatioBiModalHystEntries p)) bimodalTableSize +
         word_of_int (tb_histLengths s ! tb_n s) + ucast (tp_pathHistBits p) + tp_logUResetPeriod p)"

end
