(* ===== verification/Tage_History.thy ===== *)
theory Tage_History
  imports Tage_Base
begin

text \<open>
  The global histories of TAGE.  The specification of a thread's history is the list \<open>H\<close> of the bits
  shifted in, youngest first.  The circular buffer holds \<open>H\<close> from the pointer on, every folded history
  is the exclusive or of the bits of \<open>H\<close> up to its length, the bit \<open>j\<close> at the position
  \<open>j mod compLength\<close>, and shifting bits in, rolling the buffer over and shifting bits out keep this.
\<close>

section \<open>Folding a history\<close>

definition hbit :: "bool list \<Rightarrow> nat \<Rightarrow> bool" where
  "hbit H j \<longleftrightarrow> j < length H \<and> H ! j"

primrec folded :: "nat \<Rightarrow> bool list \<Rightarrow> nat \<Rightarrow> u32" where
  "folded C H 0 = 0"
| "folded C H (Suc L) = folded C H L XOR push_bit (L mod C) (of_bool (hbit H L))"

definition rotl :: "nat \<Rightarrow> u32 \<Rightarrow> u32" where
  "rotl C x = take_bit C (push_bit 1 x) XOR drop_bit (C - 1) (take_bit C x)"

lemma hbit_Cons [simp]: "hbit (b # H) 0 = b" "hbit (b # H) (Suc j) = hbit H j"
  by (simp_all add: hbit_def)

lemma hbit_Nil [simp]: "\<not> hbit [] j"
  by (simp add: hbit_def)

lemma bit_shift_one: "bit (push_bit 1 x :: u32) i \<longleftrightarrow> 0 < i \<and> i < 32 \<and> bit x (i - 1)"
  by (auto simp: bit_push_bit_iff simp del: push_bit_Suc)

lemmas word_bits = bit_shift_one bit_and_iff bit_or_iff bit_xor_iff bit_drop_bit_eq bit_take_bit_iff bit_mask_iff

lemma bit_rotl:
  assumes "0 < C" and "C \<le> 32"
  shows "bit (rotl C x) i \<longleftrightarrow> i < C \<and> bit x (if i = 0 then C - 1 else i - 1)"
proof -
  have "bit (rotl C x) i \<longleftrightarrow> (i < C \<and> 0 < i \<and> i < 32 \<and> bit x (i - 1)) \<noteq> (C - 1 + i < C \<and> bit x (C - 1 + i))"
    by (simp only: rotl_def word_bits comp_def)
  then show ?thesis using assms by (cases "i = 0") auto
qed

lemma rotl_xor: "rotl C (x XOR y) = rotl C x XOR rotl C y"
  by (rule bit_eqI) (auto simp: rotl_def bit_simps)

lemma rotl_zero [simp]: "rotl C 0 = 0"
  by (simp add: rotl_def)

lemma rotl_push:
  assumes "p < C" and "C \<le> 32"
  shows "rotl C (push_bit p (of_bool b)) = push_bit (Suc p mod C) (of_bool b)"
proof (cases "Suc p = C")
  case True
  then show ?thesis using assms by (intro bit_eqI) (auto simp: rotl_def bit_simps)
next
  case False
  then show ?thesis using assms by (intro bit_eqI) (auto simp: rotl_def bit_simps)
qed

lemma take_bit_folded:
  assumes "0 < C"
  shows "take_bit C (folded C H L) = folded C H L"
proof (induction L)
  case (Suc L)
  have "take_bit C (push_bit (L mod C) (of_bool b)) = (push_bit (L mod C) (of_bool b) :: u32)" for b
    using assms by (intro bit_eqI) (auto simp: bit_simps)
  then show ?case using Suc by simp
qed simp

lemma folded_Cons:
  assumes "0 < C" and "C \<le> 32"
  shows "folded C (b # H) (Suc L) = rotl C (folded C H L) XOR of_bool b"
proof (induction L)
  case (Suc L)
  have "rotl C (push_bit (L mod C) (of_bool (hbit H L))) = push_bit (Suc L mod C) (of_bool (hbit H L))"
    using rotl_push [of "L mod C" C] assms by (simp add: mod_Suc_eq)
  then show ?case unfolding folded.simps(2) [of C "b # H" "Suc L"] folded.simps(2) [of C H L] Suc rotl_xor hbit_Cons
    by (simp only: ac_simps)
qed simp

text \<open>A shift changes the folded history by a rotation, the new bit and the bit that leaves it.\<close>

lemma folded_shift:
  assumes "0 < C" and "C \<le> 32"
  shows "folded C (b # H) L = rotl C (folded C H L) XOR of_bool b XOR push_bit (L mod C) (of_bool (hbit (b # H) L))"
proof -
  have swap: "x = q XOR r" if "x XOR r = q" for x q r :: u32 using that by (auto simp: xor.assoc)
  show ?thesis using swap [OF folded_Cons [OF assms, of b H L, unfolded folded.simps(2)]] by (simp only: xor.assoc)
qed

section \<open>One folded history\<close>

definition fh_ok :: "nat \<Rightarrow> bool list \<Rightarrow> FoldedHistory \<Rightarrow> bool" where
  "fh_ok m H fh \<longleftrightarrow> 1 \<le> fh_compLength fh \<and> fh_compLength fh < 32 \<and> 0 \<le> fh_origLength fh \<and> fh_origLength fh \<le> int m \<and>
     fh_outpoint fh = fh_origLength fh mod fh_compLength fh \<and>
     fh_comp fh = folded (nat (fh_compLength fh)) H (nat (fh_origLength fh))"

text \<open>The lengths of a folded history, which no operation changes.\<close>

definition fh_lens :: "FoldedHistory \<Rightarrow> int \<times> int" where
  "fh_lens fh = (fh_compLength fh, fh_origLength fh)"

definition window :: "bool list \<Rightarrow> u8 list \<Rightarrow> int \<Rightarrow> bool" where
  "window H buf pt \<longleftrightarrow> 0 \<le> pt \<and> (\<forall>j. nat pt + j < length buf \<longrightarrow> buf ! (nat pt + j) = of_bool (hbit H j))"

lemma window_get:
  assumes "window H buf pt" and "0 \<le> k" and "pt + k < int (length buf)"
  shows "arr_get buf (pt + k) = Inr (of_bool (hbit H (nat k)))"
proof -
  have "nat (pt + k) = nat pt + nat k" and "nat pt + nat k < length buf"
    using assms by (auto simp: window_def)
  then show ?thesis using assms by (simp add: window_def)
qed

lemma fh_okD:
  assumes "fh_ok m H fh"
  shows "0 < nat (fh_compLength fh)" "nat (fh_compLength fh) < 32" "0 \<le> fh_outpoint fh" "fh_outpoint fh < 31"
    "nat (fh_outpoint fh) = nat (fh_origLength fh) mod nat (fh_compLength fh)"
proof -
  have c: "1 \<le> fh_compLength fh" "fh_compLength fh < 32" "0 \<le> fh_origLength fh"
      "fh_outpoint fh = fh_origLength fh mod fh_compLength fh"
    using assms by (simp_all add: fh_ok_def)
  have b: "0 \<le> fh_origLength fh mod fh_compLength fh" "fh_origLength fh mod fh_compLength fh < fh_compLength fh"
    using c by simp_all
  show "0 < nat (fh_compLength fh)" "nat (fh_compLength fh) < 32" "0 \<le> fh_outpoint fh" "fh_outpoint fh < 31"
    using b c by linarith+
  show "nat (fh_outpoint fh) = nat (fh_origLength fh) mod nat (fh_compLength fh)"
    using c by (simp add: nat_mod_distrib)
qed

lemma ucast_of_bool_word [simp]: "(ucast (of_bool b :: u8) :: u32) = of_bool b"
  by (cases b) simp_all

lemma update_bits:
  fixes x :: u32 and h0 hL :: bool
  assumes "0 < C" and "C < 32" and "out < C"
  defines "c \<equiv> (push_bit 1 (take_bit C x) OR of_bool h0) XOR push_bit out (of_bool hL)"
  shows "(c XOR drop_bit C c) AND mask C = rotl C x XOR of_bool h0 XOR push_bit out (of_bool hL)"
proof (rule bit_eqI)
  fix i
  assume "possible_bit TYPE(u32) i"
  have "C \<le> 32" using assms(2) by simp
  note rot = bit_rotl [OF assms(1) this]
  have c: "bit c j \<longleftrightarrow> (0 < j \<and> j \<le> C \<and> bit x (j - 1) \<or> j = 0 \<and> h0) \<noteq> (j = out \<and> hL)" if "j < 32" for j
    using that assms(2,3) by (auto simp: c_def word_bits bit_push_bit_iff bit_of_bool_iff simp del: push_bit_Suc)
  show "bit ((c XOR drop_bit C c) AND mask C) i = bit (rotl C x XOR of_bool h0 XOR push_bit out (of_bool hL)) i"
  proof (cases "i < C")
    case True
    have d: "bit (drop_bit C c) i \<longleftrightarrow> i = 0 \<and> bit x (C - 1)"
    proof (cases "C + i < 32")
      case lt: True
      then show ?thesis using True assms(1,3) by (auto simp: word_bits c)
    next
      case False
      then have "\<not> bit c (C + i)" using bit_imp_le_length [of c "C + i"] by auto
      then show ?thesis using False assms(2) by (auto simp: word_bits)
    qed
    show ?thesis using True assms(2,3) c [of i] d
      by (auto simp: word_bits rot bit_push_bit_iff bit_of_bool_iff simp del: push_bit_Suc)
  next
    case False
    then show ?thesis using assms(1,3) by (auto simp: word_bits rot bit_push_bit_iff bit_of_bool_iff)
  qed
qed

lemma restore_bits:
  fixes x :: u32 and h0 hL :: bool
  assumes "0 < C" and "C < 32"
  defines "c \<equiv> rotl C x XOR of_bool h0"
  shows "push_bit (C - 1) ((c AND 1) XOR of_bool h0) OR drop_bit 1 c = take_bit C x"
proof (rule bit_eqI)
  fix i
  assume "possible_bit TYPE(u32) i"
  have "C \<le> 32" using assms(2) by simp
  note rot = bit_rotl [OF assms(1) this]
  have c: "bit c j \<longleftrightarrow> (j < C \<and> bit x (if j = 0 then C - 1 else j - 1)) \<noteq> (j = 0 \<and> h0)" for j
    by (simp only: c_def word_bits rot bit_of_bool_iff)
  have t: "(c AND 1) XOR of_bool h0 = of_bool (bit x (C - 1))"
    using assms(1) by (intro bit_eqI) (auto simp: word_bits c bit_of_bool_iff bit_1_iff)
  show "bit (push_bit (C - 1) ((c AND 1) XOR of_bool h0) OR drop_bit 1 c) i = bit (take_bit C x) i"
  proof (cases "Suc i = C")
    case True
    then have "i = C - 1" "C - 1 < 32" using assms(2) by simp_all
    then show ?thesis unfolding t using True by (auto simp: word_bits c bit_push_bit_iff bit_of_bool_iff simp del: push_bit_Suc)
  next
    case False
    then show ?thesis unfolding t using assms(1,2)
      by (auto simp: word_bits c bit_push_bit_iff bit_of_bool_iff simp del: push_bit_Suc)
  qed
qed

lemma FoldedHistory_update_ok:
  assumes "fh_ok m H fh" and "window (b # H) buf pt" and "pt + int m < int (length buf)"
  shows "\<exists>fh'. FoldedHistory_update buf pt fh = Inr fh' \<and> fh_ok m (b # H) fh' \<and> fh_lens fh' = fh_lens fh"
proof -
  note d = fh_okD [OF assms(1)]
  have f: "0 \<le> fh_compLength fh" "fh_compLength fh < 32" "0 \<le> fh_origLength fh" "fh_origLength fh \<le> int m"
      "fh_comp fh = folded (nat (fh_compLength fh)) H (nat (fh_origLength fh))"
    using assms(1) by (simp_all add: fh_ok_def)
  have h0: "arr_get buf pt = Inr (of_bool b)" using window_get [OF assms(2), of 0] assms(3) by simp
  have hL: "arr_get buf (pt + fh_origLength fh) = Inr (of_bool (hbit (b # H) (nat (fh_origLength fh))))"
    using window_get [OF assms(2) f(3)] f(4) assms(3) by simp
  have o: "nat (fh_outpoint fh) < nat (fh_compLength fh)" using d(1,5) by simp
  have c: "nat (fh_compLength fh) \<le> 32" using d(2) by simp
  let ?x = "folded (nat (fh_compLength fh)) H (nat (fh_origLength fh))"
  note u = update_bits [OF d(1,2) o, of ?x b "hbit (b # H) (nat (fh_origLength fh))", unfolded take_bit_folded [OF d(1)]]
  let ?fh = "fh\<lparr>fh_comp := folded (nat (fh_compLength fh)) (b # H) (nat (fh_origLength fh))\<rparr>"
  have "FoldedHistory_update buf pt fh = Inr ?fh"
  proof -
    have "0 \<le> fh_compLength fh \<and> fh_compLength fh < 32 \<and> 0 \<le> fh_outpoint fh \<and> fh_outpoint fh < 31" using f d by simp
    then show ?thesis
      unfolding FoldedHistory_update_def Let_def h0 hL bind_r_simps ucast_of_bool_word f(5) u
      by (simp only: check_simps folded_shift [OF d(1) c] d(5) xor.assoc)
  qed
  moreover have "fh_ok m (b # H) ?fh" "fh_lens ?fh = fh_lens fh" using assms(1) by (simp_all add: fh_ok_def fh_lens_def)
  ultimately show ?thesis by blast
qed

lemma FoldedHistory_restore_ok:
  assumes "fh_ok m (b # H) fh" and "window (b # H) buf pt" and "pt + int m < int (length buf)"
  shows "\<exists>fh'. FoldedHistory_restore buf pt fh = Inr fh' \<and> fh_ok m H fh' \<and> fh_lens fh' = fh_lens fh"
proof -
  note d = fh_okD [OF assms(1)]
  have f: "1 \<le> fh_compLength fh" "fh_compLength fh \<le> 32" "0 \<le> fh_origLength fh" "fh_origLength fh \<le> int m"
      "fh_comp fh = folded (nat (fh_compLength fh)) (b # H) (nat (fh_origLength fh))"
    using assms(1) by (simp_all add: fh_ok_def)
  have h0: "arr_get buf pt = Inr (of_bool b)" using window_get [OF assms(2), of 0] assms(3) by simp
  have hL: "arr_get buf (pt + fh_origLength fh) = Inr (of_bool (hbit (b # H) (nat (fh_origLength fh))))"
    using window_get [OF assms(2) f(3)] f(4) assms(3) by simp
  have c: "nat (fh_compLength fh) \<le> 32" using d(2) by simp
  let ?x = "folded (nat (fh_compLength fh)) H (nat (fh_origLength fh))"
  have x: "fh_comp fh XOR push_bit (nat (fh_outpoint fh)) (of_bool (hbit (b # H) (nat (fh_origLength fh)))) =
      rotl (nat (fh_compLength fh)) ?x XOR of_bool b"
    unfolding f(5) folded_shift [OF d(1) c] d(5) by (simp only: xor.assoc xor_self_eq xor.right_neutral)
  have k: "nat (fh_compLength fh - 1) = nat (fh_compLength fh) - 1" using f(1) by simp
  let ?fh = "fh\<lparr>fh_comp := ?x\<rparr>"
  have "FoldedHistory_restore buf pt fh = Inr ?fh"
  proof -
    have "1 \<le> fh_compLength fh \<and> fh_compLength fh \<le> 32 \<and> 0 \<le> fh_outpoint fh \<and> fh_outpoint fh < 31" using f d by simp
    then show ?thesis
      unfolding FoldedHistory_restore_def Let_def h0 hL bind_r_simps ucast_of_bool_word x k
        restore_bits [OF d(1,2), of ?x b, unfolded take_bit_folded [OF d(1)]] by (simp only: check_simps)
  qed
  moreover have "fh_ok m H ?fh" "fh_lens ?fh = fh_lens fh" using assms(1) by (simp_all add: fh_ok_def fh_lens_def)
  ultimately show ?thesis by blast
qed

section \<open>The history of a thread\<close>

text \<open>
  \<open>th_follows p H r th\<close>: the thread's history is \<open>H\<close>, and \<open>r\<close> bits can be shifted out of it.
\<close>

definition th_follows :: "TAGEBaseParams \<Rightarrow> bool list \<Rightarrow> nat \<Rightarrow> ThreadHistory \<Rightarrow> bool" where
  "th_follows p H r th \<longleftrightarrow>
     length (th_globalHist th) = unat (tp_histBufferSize p) \<and> window H (th_globalHist th) (th_ptGhist th) \<and>
     th_ptGhist th + int r + int (unat (tp_maxHist p)) < int (unat (tp_histBufferSize p)) \<and>
     list_all (fh_ok (unat (tp_maxHist p)) H) (tl (th_computeIndices th)) \<and>
     list_all (fh_ok (unat (tp_maxHist p)) H) (tl (th_computeTags0 th)) \<and>
     list_all (fh_ok (unat (tp_maxHist p)) H) (tl (th_computeTags1 th))"

text \<open>The fields that the shifts leave unchanged.\<close>

definition th_lens :: "ThreadHistory \<Rightarrow> (int \<times> int) list \<times> (int \<times> int) list \<times> (int \<times> int) list" where
  "th_lens th = (map fh_lens (th_computeIndices th), map fh_lens (th_computeTags0 th), map fh_lens (th_computeTags1 th))"

definition th_frame :: "ThreadHistory \<Rightarrow> int \<times> int \<times> (int \<times> int) list \<times> (int \<times> int) list \<times> (int \<times> int) list" where
  "th_frame th = (th_pathHist th, th_nonSpecPathHist th, th_lens th)"

lemma th_follows_mono: "th_follows p H r th \<Longrightarrow> r' \<le> r \<Longrightarrow> th_follows p H r' th"
  by (simp add: th_follows_def)

lemma map_banks_ok:
  assumes "\<And>x. P x \<Longrightarrow> \<exists>y. f x = Inr y \<and> Q y \<and> g y = g x" and "list_all P (tl xs)"
  shows "\<exists>ys. map_banks f xs = Inr ys \<and> list_all Q (tl ys) \<and> map g ys = map g xs"
proof (cases xs)
  case (Cons x xs')
  then have "\<And>x. x \<in> set xs' \<Longrightarrow> \<exists>y. f x = Inr y \<and> Q y \<and> g y = g x" using assms by (auto simp: list_all_iff)
  from map_r_total [of xs' f "\<lambda>x y. Q y \<and> g y = g x", OF this] obtain ys where
    "map_r f xs' = Inr ys" "list_all2 (\<lambda>x y. Q y \<and> g y = g x) xs' ys" by blast
  moreover from this have "list_all Q ys" "map g ys = map g xs'"
    by (auto simp: list_all2_conv_all_nth list_all_length intro!: nth_equalityI)
  ultimately show ?thesis using Cons by (simp add: map_banks_def)
qed (simp add: map_banks_def)

lemma fold_histories_ok:
  assumes "\<And>fh. fh_ok m H fh \<Longrightarrow> \<exists>fh'. f (th_globalHist th) (th_ptGhist th) fh = Inr fh' \<and> fh_ok m H' fh' \<and> fh_lens fh' = fh_lens fh"
    and "list_all (fh_ok m H) (tl (th_computeIndices th))" "list_all (fh_ok m H) (tl (th_computeTags0 th))"
      "list_all (fh_ok m H) (tl (th_computeTags1 th))"
  shows "\<exists>th'. fold_histories f th = Inr th' \<and> th_frame th' = th_frame th \<and> th_globalHist th' = th_globalHist th \<and>
    th_ptGhist th' = th_ptGhist th \<and> list_all (fh_ok m H') (tl (th_computeIndices th')) \<and>
    list_all (fh_ok m H') (tl (th_computeTags0 th')) \<and> list_all (fh_ok m H') (tl (th_computeTags1 th'))"
proof -
  note one = map_banks_ok [of "fh_ok m H" "f (th_globalHist th) (th_ptGhist th)" "fh_ok m H'" fh_lens, OF assms(1)]
  obtain ci ct0 ct1 where "map_banks (f (th_globalHist th) (th_ptGhist th)) (th_computeIndices th) = Inr ci"
      "map_banks (f (th_globalHist th) (th_ptGhist th)) (th_computeTags0 th) = Inr ct0"
      "map_banks (f (th_globalHist th) (th_ptGhist th)) (th_computeTags1 th) = Inr ct1"
      "list_all (fh_ok m H') (tl ci)" "list_all (fh_ok m H') (tl ct0)" "list_all (fh_ok m H') (tl ct1)"
      "map fh_lens ci = map fh_lens (th_computeIndices th)" "map fh_lens ct0 = map fh_lens (th_computeTags0 th)"
      "map fh_lens ct1 = map fh_lens (th_computeTags1 th)"
    using one [OF _ assms(2)] one [OF _ assms(3)] one [OF _ assms(4)] by blast
  then show ?thesis by (simp add: fold_histories_def th_frame_def th_lens_def)
qed

lemma shift_ghist_ok:
  assumes "th_follows p H r th" and "1 \<le> th_ptGhist th"
  shows "\<exists>th'. shift_ghist b th = Inr th' \<and> th_follows p (b # H) (Suc r) th' \<and> th_frame th' = th_frame th \<and>
    th_ptGhist th' = th_ptGhist th - 1"
proof -
  let ?m = "unat (tp_maxHist p)" and ?pt = "th_ptGhist th - 1"
  define t where "t = th\<lparr>th_ptGhist := ?pt, th_globalHist := (th_globalHist th)[nat ?pt := of_bool b]\<rparr>"
  have f: "length (th_globalHist th) = unat (tp_histBufferSize p)" "window H (th_globalHist th) (th_ptGhist th)"
      "th_ptGhist th + int r + int ?m < int (unat (tp_histBufferSize p))"
      "list_all (fh_ok ?m H) (tl (th_computeIndices th))" "list_all (fh_ok ?m H) (tl (th_computeTags0 th))"
      "list_all (fh_ok ?m H) (tl (th_computeTags1 th))"
    using assms(1) by (simp_all add: th_follows_def)
  have lt: "nat ?pt < length (th_globalHist th)" using f(1,3) assms(2) by linarith
  have w: "window (b # H) (th_globalHist t) (th_ptGhist t)"
    unfolding window_def
  proof (intro conjI allI impI)
    fix j
    assume j: "nat (th_ptGhist t) + j < length (th_globalHist t)"
    show "th_globalHist t ! (nat (th_ptGhist t) + j) = of_bool (hbit (b # H) j)"
    proof (cases j)
      case (Suc k)
      then have e: "nat (th_ptGhist th) + k = nat ?pt + j" using assms(2) by simp
      have "th_globalHist th ! (nat (th_ptGhist th) + k) = of_bool (hbit H k)"
      proof -
        have "nat (th_ptGhist th) + k < length (th_globalHist th)" unfolding e using j by (simp add: t_def)
        then show ?thesis using f(2) unfolding window_def by blast
      qed
      then show ?thesis unfolding e using Suc by (simp add: t_def del: of_bool_eq_iff)
    qed (use lt in \<open>simp add: t_def\<close>)
  qed (use assms(2) in \<open>simp add: t_def\<close>)
  have len: "th_ptGhist t + int ?m < int (length (th_globalHist t))" using f(1,3) by (simp add: t_def)
  obtain th' where th': "fold_histories FoldedHistory_update t = Inr th'" "th_frame th' = th_frame t" "th_globalHist th' = th_globalHist t"
      "th_ptGhist th' = th_ptGhist t" "list_all (fh_ok ?m (b # H)) (tl (th_computeIndices th'))"
      "list_all (fh_ok ?m (b # H)) (tl (th_computeTags0 th'))" "list_all (fh_ok ?m (b # H)) (tl (th_computeTags1 th'))"
    using fold_histories_ok [of ?m H FoldedHistory_update t "b # H", OF FoldedHistory_update_ok [OF _ w len]] f(4-6)
    by (auto simp: t_def)
  have "shift_ghist b th = Inr th'" using th'(1) lt assms(2) by (simp add: shift_ghist_def t_def)
  moreover have "th_follows p (b # H) (Suc r) th'" using th'(3-7) w f(1,3) by (simp add: th_follows_def t_def)
  moreover have "th_frame th' = th_frame th" using th'(2) by (simp add: t_def th_frame_def th_lens_def)
  moreover have "th_ptGhist th' = th_ptGhist th - 1" using th'(4) by (simp add: t_def)
  ultimately show ?thesis by blast
qed

text \<open>The bits of a vector, the one shifted in last first.\<close>

fun ghist_bits :: "nat \<Rightarrow> u64 \<Rightarrow> bool list" where
  "ghist_bits 0 bv = []"
| "ghist_bits (Suc n) bv = ghist_bits n (drop_bit 1 bv) @ [bit bv 0]"

lemma length_ghist_bits [simp]: "length (ghist_bits n bv) = n"
  by (induction n arbitrary: bv) simp_all

lemma shift_bits_ok:
  assumes "th_follows p H r th" and "int n \<le> th_ptGhist th"
  shows "\<exists>th'. shift_bits n bv th = Inr th' \<and> th_follows p (ghist_bits n bv @ H) (n + r) th' \<and> th_frame th' = th_frame th"
  using assms
proof (induction n arbitrary: bv H r th)
  case (Suc n)
  have "1 \<le> th_ptGhist th" using Suc.prems(2) by simp
  from shift_ghist_ok [OF Suc.prems(1) this, of "bit bv 0"]
  obtain th1 where t: "shift_ghist (bit bv 0) th = Inr th1" "th_follows p (bit bv 0 # H) (Suc r) th1" "th_frame th1 = th_frame th"
      "th_ptGhist th1 = th_ptGhist th - 1" by blast
  have "int n \<le> th_ptGhist th1" using Suc.prems(2) t(4) by simp
  from Suc.IH [OF t(2) this, of "drop_bit 1 bv"] show ?case using t(1,3) by auto
qed simp

text \<open>The copy at a rollover.\<close>

lemma copy_ok:
  assumes "0 \<le> pt" and "nat pt + k \<le> st" and "st + k \<le> length buf" and "\<And>i. i < k \<Longrightarrow> unat (start + of_nat i :: u32) = st + i"
  shows "\<exists>buf'. fold_r (\<lambda>i buf. bind_r (arr_get buf (pt + int i)) (\<lambda>b. vec_set buf (unat (start + of_nat i)) b)) [0..<k] buf = Inr buf' \<and>
    length buf' = length buf \<and> (\<forall>j < k. buf' ! (st + j) = buf ! (nat pt + j)) \<and> (\<forall>j < st. buf' ! j = buf ! j)"
  using assms
proof (induction k)
  case (Suc k)
  obtain b1 where b: "fold_r (\<lambda>i buf. bind_r (arr_get buf (pt + int i)) (\<lambda>b. vec_set buf (unat (start + of_nat i)) b)) [0..<k] buf = Inr b1"
      "length b1 = length buf" "\<forall>j < k. b1 ! (st + j) = buf ! (nat pt + j)" "\<forall>j < st. b1 ! j = buf ! j"
    using Suc by auto
  have n: "nat (pt + int k) = nat pt + k" using Suc.prems(1) by simp
  have g: "arr_get b1 (pt + int k) = Inr (buf ! (nat pt + k))" using Suc.prems b(2,4) n by simp
  have s: "vec_set b1 (unat (start + of_nat k)) v = Inr (b1[st + k := v])" for v using Suc.prems(3,4) b(2) by simp
  have "(b1[st + k := v]) ! (st + j) = (if j = k then v else b1 ! (st + j))" for v j
    using Suc.prems(3) b(2) by simp
  then show ?case using b g s by (simp add: fold_r_append less_Suc_eq)
qed simp

definition hist_params_ok :: "TAGEBaseParams \<Rightarrow> bool" where
  "hist_params_ok p \<longleftrightarrow> 2 * (unat (tp_maxHist p) + 1000) + 2 \<le> unat (tp_histBufferSize p) \<and> unat (tp_histBufferSize p) < 2 ^ 31"

lemma sint_less:
  fixes x :: u32
  assumes "unat x < 2 ^ 31"
  shows "sint x = int (unat x)"
proof -
  have "(ucast (ucast x :: u64) :: u32) = x" by (intro bit_eqI) (auto simp: bit_simps)
  then have "to_int (ucast x) = sint x" by (simp add: to_int_def)
  then show ?thesis using to_int_less [of "ucast x"] assms by (simp add: unat_ucast_up)
qed

lemma rollover_ok:
  assumes "th_follows p H r th" and "hist_params_ok p" and "r < 1000" and "th_ptGhist th \<le> 2"
  shows "\<exists>th'. rollover p th = Inr th' \<and> th_follows p H r th' \<and> th_frame th' = th_frame th \<and> 2 \<le> th_ptGhist th'"
proof -
  let ?B = "tp_histBufferSize p" and ?M = "tp_maxHist p" and ?buf = "th_globalHist th" and ?pt = "th_ptGhist th"
  define start where "start = ?B - ?M - rollbackBuffer"
  define k where "k = unat ?M + 1000"
  have p: "2 * k + 2 \<le> unat ?B" "unat ?B < 2 ^ 31" using assms(2) by (simp_all add: hist_params_ok_def k_def)
  have f: "length ?buf = unat ?B" "window H ?buf ?pt" using assms(1) by (simp_all add: th_follows_def)
  have pt: "0 \<le> ?pt" using f(2) by (simp add: window_def)
  have m: "unat (?M + rollbackBuffer) = k"
    using p by (subst unat_add_lem [THEN iffD1]) (simp_all add: rollbackBuffer_def k_def)
  have st: "unat start = unat ?B - k"
    using p by (simp add: start_def rollbackBuffer_def k_def unat_sub word_le_nat_alt)
  have idx: "unat (start + of_nat i) = unat start + i" if "i < k" for i
  proof -
    have i: "unat (of_nat i :: u32) = i" using that p by (simp add: unat_of_nat take_bit_nat_eq_self)
    show ?thesis using that p st by (subst unat_add_lem [THEN iffD1]) (simp_all add: i)
  qed
  have "nat ?pt + k \<le> unat start" "unat start + k \<le> length ?buf" using p st f(1) assms(4) by linarith+
  from copy_ok [OF pt this idx] obtain buf where
    buf: "fold_r (\<lambda>i buf. bind_r (arr_get buf (?pt + int i)) (\<lambda>b. vec_set buf (unat (start + of_nat i)) b)) [0..<k] ?buf = Inr buf"
      "length buf = length ?buf" "\<forall>j < k. buf ! (unat start + j) = ?buf ! (nat ?pt + j)" by blast
  have s: "sint start = int (unat start)" using p st by (intro sint_less) simp
  let ?t = "th\<lparr>th_globalHist := buf, th_ptGhist := int (unat start)\<rparr>"
  have "rollover p th = Inr ?t" using buf(1) by (simp add: rollover_def start_def [symmetric] m s)
  moreover have "th_follows p H r ?t"
  proof -
    have "window H buf (int (unat start))"
      unfolding window_def nat_int
    proof (intro conjI allI impI)
      fix j assume "unat start + j < length buf"
      then have j: "j < k" using st buf(2) f(1) p by simp
      have "nat ?pt + j < length ?buf" using j p f(1) assms(4) by linarith
      then show "buf ! (unat start + j) = of_bool (hbit H j)" using buf(3) j f(2) unfolding window_def by metis
    qed simp
    moreover have "int (unat start + r + unat ?M) < int (unat ?B)"
    proof -
      have "unat start + r + unat ?M < unat ?B" using st p assms(3) by (simp add: k_def)
      then show ?thesis by (rule of_nat_less_iff [THEN iffD2])
    qed
    ultimately show ?thesis using assms(1) buf(2) by (simp add: th_follows_def)
  qed
  moreover have "int 2 \<le> int (unat start)"
  proof -
    have "2 \<le> unat start" using st p by simp
    then show ?thesis by (rule of_nat_le_iff [THEN iffD2])
  qed
  ultimately show ?thesis by (simp add: th_frame_def th_lens_def)
qed

lemma updateGHist_ok:
  assumes "th_follows p H r th" and "hist_params_ok p" and "r < 1000" and "n \<le> 2"
  shows "\<exists>th'. updateGHist p bv n th = Inr th' \<and> th_follows p (ghist_bits (unat n) bv @ H) (unat n + r) th' \<and> th_frame th' = th_frame th"
proof (cases "n = 0 \<or> int (unat n) \<le> th_ptGhist th")
  case True
  then show ?thesis using shift_bits_ok [OF assms(1), of "unat n" bv] assms(1) by (auto simp: updateGHist_def)
next
  case False
  have n: "unat n \<le> 2" using assms(4) by (simp add: word_le_nat_alt)
  then have "th_ptGhist th \<le> 2" using False by linarith
  from rollover_ok [OF assms(1-3) this] obtain t where
    t: "rollover p th = Inr t" "th_follows p H r t" "th_frame t = th_frame th" "2 \<le> th_ptGhist t" by blast
  have "int (unat n) \<le> th_ptGhist t" using n t(4) by linarith
  from shift_bits_ok [OF t(2) this, of bv] show ?thesis using t(1,3) False by (auto simp: updateGHist_def)
qed

lemma unshift_bits_ok:
  assumes "th_follows p (bs @ H) (length bs + r) th"
  shows "\<exists>th'. unshift_bits p (length bs) th = Inr th' \<and> th_follows p H r th' \<and> th_frame th' = th_frame th"
  using assms
proof (induction bs arbitrary: th)
  case (Cons b bs)
  let ?m = "unat (tp_maxHist p)" and ?H = "bs @ H"
  have f: "length (th_globalHist th) = unat (tp_histBufferSize p)" "window (b # ?H) (th_globalHist th) (th_ptGhist th)"
      "th_ptGhist th + int (Suc (length bs + r)) + int ?m < int (unat (tp_histBufferSize p))"
      "list_all (fh_ok ?m (b # ?H)) (tl (th_computeIndices th))" "list_all (fh_ok ?m (b # ?H)) (tl (th_computeTags0 th))"
      "list_all (fh_ok ?m (b # ?H)) (tl (th_computeTags1 th))"
    using Cons.prems by (simp_all add: th_follows_def)
  have len: "th_ptGhist th + int ?m < int (length (th_globalHist th))" using f(1,3) by simp
  obtain t where t: "fold_histories FoldedHistory_restore th = Inr t" "th_frame t = th_frame th" "th_globalHist t = th_globalHist th"
      "th_ptGhist t = th_ptGhist th" "list_all (fh_ok ?m ?H) (tl (th_computeIndices t))"
      "list_all (fh_ok ?m ?H) (tl (th_computeTags0 t))" "list_all (fh_ok ?m ?H) (tl (th_computeTags1 t))"
    using fold_histories_ok [of ?m "b # ?H" FoldedHistory_restore th ?H, OF FoldedHistory_restore_ok [OF _ f(2) len] f(4-6)] by blast
  let ?t = "t\<lparr>th_ptGhist := th_ptGhist t + 1\<rparr>"
  have "window ?H (th_globalHist th) (th_ptGhist th + 1)"
    unfolding window_def
  proof (intro conjI allI impI)
    fix j
    assume j: "nat (th_ptGhist th + 1) + j < length (th_globalHist th)"
    have e: "nat (th_ptGhist th + 1) + j = nat (th_ptGhist th) + Suc j" using f(2) by (simp add: window_def nat_add_distrib)
    show "th_globalHist th ! (nat (th_ptGhist th + 1) + j) = of_bool (hbit ?H j)"
    proof -
      have "th_globalHist th ! (nat (th_ptGhist th) + Suc j) = of_bool (hbit (b # ?H) (Suc j))"
        using f(2) j unfolding window_def e by blast
      then show ?thesis unfolding e hbit_Cons .
    qed
  qed (use f(2) in \<open>simp add: window_def\<close>)
  then have "th_follows p ?H (length bs + r) ?t" using t(3-7) f(1,3) by (simp add: th_follows_def)
  from Cons.IH [OF this] show ?case using t f(1,3) by (auto simp: Let_def th_frame_def th_lens_def)
qed simp

end
