(* ===== verification/Tage_Tables.thy ===== *)
theory Tage_Tables
  imports Tage_History
begin

text \<open>
  The tables of TAGE: parameters for which the predictor is defined, the widths of the entries, and
  that prediction and update return and keep them.  The prediction is that of the longest history
  whose table holds the tag of the branch.
\<close>

section \<open>Well-formed predictors\<close>

definition bank_ok :: "TAGEBaseParams \<Rightarrow> nat \<Rightarrow> bool" where
  "bank_ok p i \<longleftrightarrow> int i \<le> tp_logTagTableSizes p ! i \<and> tp_logTagTableSizes p ! i < 31 \<and>
     2 \<le> tp_tagTableTagWidths p ! i \<and> tp_tagTableTagWidths p ! i \<le> 16"

definition TAGEBaseParams_ok :: "TAGEBaseParams \<Rightarrow> bool" where
  "TAGEBaseParams_ok p \<longleftrightarrow> hist_params_ok p \<and> tp_speculativeHistUpdate p \<and>
     1 \<le> tp_nHistoryTables p \<and> tp_nHistoryTables p \<le> 30 \<and>
     length (tp_tagTableTagWidths p) = unat (tp_nHistoryTables p) + 1 \<and> length (tp_logTagTableSizes p) = unat (tp_nHistoryTables p) + 1 \<and>
     tp_tagTableTagWidths p ! 0 = 0 \<and> list_all (bank_ok p) [1..<unat (tp_nHistoryTables p) + 1] \<and>
     int (unat (tp_logRatioBiModalHystEntries p)) \<le> tp_logTagTableSizes p ! 0 \<and> tp_logTagTableSizes p ! 0 < 31 \<and>
     1 \<le> tp_tagTableUBits p \<and> tp_tagTableUBits p \<le> 2 \<and> 1 \<le> tp_tagTableCounterBits p \<and> tp_tagTableCounterBits p \<le> 8 \<and>
     1 \<le> tp_useAltOnNaBits p \<and> tp_useAltOnNaBits p \<le> 8 \<and> 1 \<le> tp_numUseAltOnNa p \<and>
     1 \<le> tp_logUResetPeriod p \<and> tp_logUResetPeriod p < 64 \<and> tp_pathHistBits p \<le> 30 \<and> tp_minHist p \<le> tp_maxHist p \<and>
     unat (tp_maxHist p) * 3 < unat (tp_histBufferSize p) \<and>
     (tp_noSkip p = [] \<or> length (tp_noSkip p) = unat (tp_nHistoryTables p) + 1)"

text \<open>The lengths that the floating-point expression gives.\<close>

definition lengths_ok :: "(nat \<Rightarrow> int) \<Rightarrow> TAGEBaseParams \<Rightarrow> bool" where
  "lengths_ok len p \<longleftrightarrow> list_all (\<lambda>i. 0 \<le> len i \<and> len i \<le> int (unat (tp_maxHist p))) [2..<unat (tp_nHistoryTables p) + 1]"

abbreviation tsize :: "TAGEBaseParams \<Rightarrow> nat \<Rightarrow> int" where
  "tsize p i \<equiv> 2 ^ nat (tp_logTagTableSizes p ! i)"

definition signed_within :: "u32 \<Rightarrow> int \<Rightarrow> bool" where
  "signed_within bits c \<longleftrightarrow> - (2 ^ (unat bits - 1)) \<le> c \<and> c < 2 ^ (unat bits - 1)"

definition te_ok :: "TAGEBaseParams \<Rightarrow> nat \<Rightarrow> TageEntry \<Rightarrow> bool" where
  "te_ok p i e \<longleftrightarrow> signed_within (tp_tagTableCounterBits p) (te_ctr e) \<and> unat (te_u e) < 2 ^ unat (tp_tagTableUBits p) \<and>
     unat (te_tag e) < 2 ^ unat (tp_tagTableTagWidths p ! i)"

definition gtable_ok :: "TAGEBaseParams \<Rightarrow> TageEntry list list \<Rightarrow> bool" where
  "gtable_ok p gt \<longleftrightarrow> length gt = unat (tp_nHistoryTables p) + 1 \<and>
     (\<forall>i \<in> {1..unat (tp_nHistoryTables p)}. length (gt ! i) = 2 ^ nat (tp_logTagTableSizes p ! i) \<and> list_all (te_ok p i) (gt ! i))"

definition bimodal_ok :: "TAGEBaseParams \<Rightarrow> bool list \<Rightarrow> bool list \<Rightarrow> bool" where
  "bimodal_ok p bp bh \<longleftrightarrow> length bp = 2 ^ nat (tp_logTagTableSizes p ! 0) \<and>
     length bh = 2 ^ nat (tp_logTagTableSizes p ! 0) div 2 ^ unat (tp_logRatioBiModalHystEntries p)"

definition alt_ok :: "TAGEBaseParams \<Rightarrow> int list \<Rightarrow> bool" where
  "alt_ok p cs \<longleftrightarrow> cs \<noteq> [] \<and> list_all (signed_within (tp_useAltOnNaBits p)) cs"

definition stats_len :: "TAGEBaseParams \<Rightarrow> TAGEBaseStats \<Rightarrow> bool" where
  "stats_len p st \<longleftrightarrow> length (ts_longestMatchProvider st) = unat (tp_nHistoryTables p) + 1 \<and>
     length (ts_altMatchProvider st) = unat (tp_nHistoryTables p) + 1"

definition th_shape :: "TAGEBaseParams \<Rightarrow> ThreadHistory \<Rightarrow> bool" where
  "th_shape p th \<longleftrightarrow> length (th_computeIndices th) = unat (tp_nHistoryTables p) + 1 \<and>
     length (th_computeTags0 th) = unat (tp_nHistoryTables p) + 1 \<and> length (th_computeTags1 th) = unat (tp_nHistoryTables p) + 1"

definition tables_wf :: "TAGEBase \<Rightarrow> bool" where
  "tables_wf s \<longleftrightarrow> TAGEBaseParams_ok (tb_params s) \<and> gtable_ok (tb_params s) (tb_gtable s) \<and>
     bimodal_ok (tb_params s) (tb_btablePrediction s) (tb_btableHysteresis s) \<and> alt_ok (tb_params s) (tb_useAltPredForNewlyAllocated s) \<and>
     stats_len (tb_params s) (tb_stats s) \<and> length (tb_noSkip s) = tb_n s + 1 \<and>
     length (tb_histLengths s) = tb_n s + 1 \<and> list_all (th_shape (tb_params s)) (tb_threadHistory s)"

text \<open>The parts of the state that the operations on the tables leave unchanged.\<close>

definition same_hist :: "TAGEBase \<Rightarrow> TAGEBase \<Rightarrow> bool" where
  "same_hist s s' \<longleftrightarrow> tb_params s' = tb_params s \<and> tb_threadHistory s' = tb_threadHistory s \<and> tb_histLengths s' = tb_histLengths s"

lemma same_hist_refl [simp]: "same_hist s s"
  by (simp add: same_hist_def)

lemma same_hist_trans: "same_hist s s' \<Longrightarrow> same_hist s' s'' \<Longrightarrow> same_hist s s''"
  by (simp add: same_hist_def)

section \<open>Indices and tags\<close>

lemma tage_params:
  assumes "TAGEBaseParams_ok p"
  shows "hist_params_ok p" "tp_speculativeHistUpdate p" "1 \<le> unat (tp_nHistoryTables p)" "unat (tp_nHistoryTables p) \<le> 30"
    "unat (tp_logRatioBiModalHystEntries p) \<le> nat (tp_logTagTableSizes p ! 0)" "nat (tp_logTagTableSizes p ! 0) < 31"
    "0 \<le> tp_logTagTableSizes p ! 0"
    "1 \<le> tp_tagTableUBits p" "tp_tagTableUBits p \<le> 8" "1 \<le> tp_tagTableCounterBits p" "tp_tagTableCounterBits p \<le> 8"
    "1 \<le> tp_useAltOnNaBits p" "tp_useAltOnNaBits p \<le> 8" "1 \<le> unat (tp_numUseAltOnNa p)" "tp_logUResetPeriod p < 64"
    "unat (tp_pathHistBits p) \<le> 30"
proof -
  note d = assms [unfolded TAGEBaseParams_ok_def]
  show "hist_params_ok p" "tp_speculativeHistUpdate p" "1 \<le> tp_tagTableUBits p" "1 \<le> tp_tagTableCounterBits p"
      "tp_tagTableCounterBits p \<le> 8" "1 \<le> tp_useAltOnNaBits p" "tp_useAltOnNaBits p \<le> 8" "tp_logUResetPeriod p < 64"
    using d by blast+
  have l: "int (unat (tp_logRatioBiModalHystEntries p)) \<le> tp_logTagTableSizes p ! 0" "tp_logTagTableSizes p ! 0 < 31" using d by blast+
  show "0 \<le> tp_logTagTableSizes p ! 0" by (rule order_trans [OF _ l(1)]) simp
  show "unat (tp_logRatioBiModalHystEntries p) \<le> nat (tp_logTagTableSizes p ! 0)" "nat (tp_logTagTableSizes p ! 0) < 31"
    using l by linarith+
  have n: "1 \<le> tp_nHistoryTables p" "tp_nHistoryTables p \<le> 30" "tp_tagTableUBits p \<le> 2" "1 \<le> tp_numUseAltOnNa p" "tp_pathHistBits p \<le> 30"
    using d by blast+
  then show "1 \<le> unat (tp_nHistoryTables p)" "unat (tp_nHistoryTables p) \<le> 30" "tp_tagTableUBits p \<le> 8" "1 \<le> unat (tp_numUseAltOnNa p)"
      "unat (tp_pathHistBits p) \<le> 30"
    by (simp_all add: word_le_nat_alt)
qed

lemma bank_okD:
  assumes "TAGEBaseParams_ok p" and "1 \<le> i" and "i \<le> unat (tp_nHistoryTables p)"
  shows "int i \<le> tp_logTagTableSizes p ! i" "tp_logTagTableSizes p ! i < 31" "2 \<le> unat (tp_tagTableTagWidths p ! i)"
    "unat (tp_tagTableTagWidths p ! i) \<le> 16" "i < length (tp_logTagTableSizes p)" "i < length (tp_tagTableTagWidths p)"
proof -
  have "bank_ok p i" using assms by (auto simp: TAGEBaseParams_ok_def list_all_iff)
  then show "int i \<le> tp_logTagTableSizes p ! i" "tp_logTagTableSizes p ! i < 31" "2 \<le> unat (tp_tagTableTagWidths p ! i)"
      "unat (tp_tagTableTagWidths p ! i) \<le> 16"
    by (simp_all add: bank_ok_def word_le_nat_alt)
  show "i < length (tp_logTagTableSizes p)" "i < length (tp_tagTableTagWidths p)"
    using assms by (simp_all add: TAGEBaseParams_ok_def)
qed

lemma gindex_ok:
  assumes "tables_wf s" and "tid < length (tb_threadHistory s)" and "1 \<le> i" and "i \<le> tb_n s"
  shows "\<exists>x. gindex s tid pc i = Inr x \<and> 0 \<le> x \<and> x < tsize (tb_params s) i"
proof -
  let ?p = "tb_params s"
  have wf: "TAGEBaseParams_ok ?p" "length (tb_histLengths s) = tb_n s + 1" "th_shape ?p (tb_threadHistory s ! tid)"
    using assms(1,2) by (simp_all add: tables_wf_def list_all_length)
  note b = bank_okD [OF wf(1) assms(3,4)]
  have F: "\<exists>f. tage_F s A h i = Inr f" for A h using b(1,5) by (simp add: tage_F_def Let_def)
  have l: "\<bar>tp_logTagTableSizes ?p ! i - int i\<bar> + 1 < 32" using b(1,2) by simp
  have k: "nat (tp_logTagTableSizes ?p ! i) \<le> LENGTH(32)" using b(2) by simp
  have lt: "int (unat (x AND mask (nat (tp_logTagTableSizes ?p ! i)) :: u32)) < tsize ?p i" for x
    using unat_mask_less [OF k, of x] by (simp only: of_nat_less_numeral_power_cancel_iff)
  define h where "h = (if word_of_int (tb_histLengths s ! i) > tp_pathHistBits ?p then unat (tp_pathHistBits ?p)
    else nat (tb_histLengths s ! i))"
  obtain f where f: "tage_F s (th_pathHist (tb_threadHistory s ! tid)) h i = Inr f" using F by blast
  have "i < length (tb_histLengths s)" "i < length (th_computeIndices (tb_threadHistory s ! tid))"
    using wf(2,3) assms(4) by (simp_all add: th_shape_def)
  then have "\<exists>x. gindex s tid pc i = Inr (int (unat (x AND mask (nat (tp_logTagTableSizes ?p ! i)) :: u32)))"
    unfolding gindex_def Let_def using b(5) assms(2) l f [unfolded h_def] by (simp only: vec_get_in bind_r_simps check_simps) blast
  then show ?thesis using lt by auto
qed

lemma gtag_ok:
  assumes "tables_wf s" and "tid < length (tb_threadHistory s)" and "1 \<le> i" and "i \<le> tb_n s"
  shows "\<exists>t. gtag s tid pc i = Inr t \<and> unat t < 2 ^ unat (tp_tagTableTagWidths (tb_params s) ! i)"
proof -
  let ?p = "tb_params s" and ?w = "unat (tp_tagTableTagWidths (tb_params s) ! i)"
  have wf: "TAGEBaseParams_ok ?p" "th_shape ?p (tb_threadHistory s ! tid)"
    using assms(1,2) by (simp_all add: tables_wf_def list_all_length)
  note b = bank_okD [OF wf(1) assms(3,4)]
  have "?w \<le> LENGTH(64)" using b(4) by simp
  then have "unat (x AND mask ?w :: u64) < 2 ^ ?w" for x by (rule unat_mask_less)
  then have "unat (ucast (x AND mask ?w :: u64) :: u16) < 2 ^ ?w" for x
    using unat_ucast_le [of "x AND mask ?w"] le_less_trans by blast
  then show ?thesis using wf(2) b assms(2,4) by (simp add: gtag_def Let_def th_shape_def)
qed

text \<open>The indices and tags stored for a branch.\<close>

definition idx_ok :: "TAGEBaseParams \<Rightarrow> int option list \<Rightarrow> int option list \<Rightarrow> bool" where
  "idx_ok p is ts \<longleftrightarrow> (\<forall>i \<in> {1..unat (tp_nHistoryTables p)}.
     (\<exists>x. stored is i = Inr x \<and> 0 \<le> x \<and> x < tsize p i) \<and>
     (\<exists>t. stored ts i = Inr t \<and> 0 \<le> t \<and> t < 2 ^ unat (tp_tagTableTagWidths p ! i)))"

lemma calculateIndicesAndTags_ok:
  assumes "tables_wf s" and "tid < length (tb_threadHistory s)"
  shows "\<exists>is ts. calculateIndicesAndTags s tid pc bi = Inr (s\<lparr>tb_tableIndices := is, tb_tableTags := ts\<rparr>,
      bi\<lparr>tbi_tableIndices := is, tbi_tableTags := ts, tbi_valid := True\<rparr>) \<and> idx_ok (tb_params s) is ts \<and>
    (\<forall>i \<in> {1..tb_n s}. \<exists>x t. gindex s tid pc i = Inr x \<and> gtag s tid pc i = Inr t \<and> stored is i = Inr x \<and> stored ts i = Inr (int (unat t)))"
proof -
  let ?f = "\<lambda>i. bind_r (gindex s tid pc i) (\<lambda>index. bind_r (gtag s tid pc i) (\<lambda>tag. Inr (index, int (unat tag))))"
  let ?P = "\<lambda>i it. 0 \<le> fst it \<and> fst it < tsize (tb_params s) i \<and> 0 \<le> snd it \<and> snd it < 2 ^ unat (tp_tagTableTagWidths (tb_params s) ! i) \<and>
    (\<exists>t. gindex s tid pc i = Inr (fst it) \<and> gtag s tid pc i = Inr t \<and> snd it = int (unat t))"
  have "\<exists>y. ?f i = Inr y \<and> ?P i y" if "i \<in> set [1..<tb_n s + 1]" for i
  proof -
    have i: "1 \<le> i" "i \<le> tb_n s" using that by auto
    obtain x t where x: "gindex s tid pc i = Inr x" "0 \<le> x" "x < tsize (tb_params s) i"
        and t: "gtag s tid pc i = Inr t" "unat t < 2 ^ unat (tp_tagTableTagWidths (tb_params s) ! i)"
      using gindex_ok [OF assms i] gtag_ok [OF assms i] by blast
    have "int (unat t) < 2 ^ unat (tp_tagTableTagWidths (tb_params s) ! i)"
      using t(2) by (simp only: of_nat_less_numeral_power_cancel_iff)
    then show ?thesis using x t(1) by simp
  qed
  from map_r_total [of "[1..<tb_n s + 1]" ?f ?P, OF this] obtain its where its: "map_r ?f [1..<tb_n s + 1] = Inr its" "list_all2 ?P [1..<tb_n s + 1] its"
    by blast
  let ?is = "None # map (Some \<circ> fst) its" and ?ts = "None # map (Some \<circ> snd) its"
  have at: "stored ?is i = Inr (fst (its ! (i - 1)))" "stored ?ts i = Inr (snd (its ! (i - 1)))" "?P i (its ! (i - 1))"
    if "1 \<le> i" "i \<le> tb_n s" for i
  proof -
    have l: "length its = tb_n s" "i - 1 < length its" using list_all2_lengthD [OF its(2)] that by auto
    show "stored ?is i = Inr (fst (its ! (i - 1)))" "stored ?ts i = Inr (snd (its ! (i - 1)))"
      using l that by (cases i; simp add: stored_def initialised_def)+
    have n: "[1..<tb_n s + 1] ! (i - 1) = i" using nth_upt [of 1 "i - 1" "tb_n s + 1"] that by (simp del: upt_Suc)
    show "?P i (its ! (i - 1))" using list_all2_nthD2 [OF its(2) l(2)] unfolding n .
  qed
  have "calculateIndicesAndTags s tid pc bi = Inr (s\<lparr>tb_tableIndices := ?is, tb_tableTags := ?ts\<rparr>,
      bi\<lparr>tbi_tableIndices := ?is, tbi_tableTags := ?ts, tbi_valid := True\<rparr>)"
    using its(1) by (simp add: calculateIndicesAndTags_def Let_def)
  moreover have "idx_ok (tb_params s) ?is ?ts" unfolding idx_ok_def using at by auto
  moreover have "\<forall>i \<in> {1..tb_n s}. \<exists>x t. gindex s tid pc i = Inr x \<and> gtag s tid pc i = Inr t \<and> stored ?is i = Inr x \<and>
      stored ?ts i = Inr (int (unat t))"
    using at by fastforce
  ultimately show ?thesis by blast
qed

section \<open>Prediction\<close>

text \<open>The entry of a branch in a table, and whether the table is active and holds its tag.\<close>

definition table_entry :: "TAGEBase \<Rightarrow> ThreadID \<Rightarrow> Addr \<Rightarrow> nat \<Rightarrow> TageEntry" where
  "table_entry s tid pc i = (case gindex s tid pc i of Inl _ \<Rightarrow> TageEntry_default | Inr x \<Rightarrow> tb_gtable s ! i ! nat x)"

definition table_matches :: "TAGEBase \<Rightarrow> ThreadID \<Rightarrow> Addr \<Rightarrow> nat \<Rightarrow> bool" where
  "table_matches s tid pc i \<longleftrightarrow> tb_noSkip s ! i \<and> gtag s tid pc i = Inr (te_tag (table_entry s tid pc i))"

text \<open>\<open>longest M k i\<close>: \<open>i\<close> is the largest of the tables \<open>1, \<dots>, k - 1\<close> that satisfies \<open>M\<close>, or \<open>0\<close>.\<close>

definition longest :: "(nat \<Rightarrow> bool) \<Rightarrow> nat \<Rightarrow> nat \<Rightarrow> bool" where
  "longest M k i \<longleftrightarrow> (i = 0 \<or> 1 \<le> i \<and> i < k \<and> M i) \<and> (\<forall>j. i < j \<and> j < k \<longrightarrow> \<not> M j)"

lemma find_rev_upt: "longest M k (case find M (rev [1..<k]) of None \<Rightarrow> 0 | Some i \<Rightarrow> i)"
proof (induction k)
  case (Suc k)
  show ?case
  proof (cases "1 \<le> k \<and> M k")
    case True
    then show ?thesis by (auto simp: longest_def)
  next
    case False
    then have "find M (rev [1..<Suc k]) = find M (rev [1..<k])" by (cases k) auto
    then show ?thesis using Suc False by (auto simp: longest_def less_Suc_eq)
  qed
qed (simp add: longest_def)

lemma gtable_get_ok:
  assumes "tables_wf s" and "1 \<le> i" and "i \<le> tb_n s" and "0 \<le> x" and "x < tsize (tb_params s) i"
  shows "gtable_get s i x = Inr (tb_gtable s ! i ! nat x)" and "te_ok (tb_params s) i (tb_gtable s ! i ! nat x)"
    and "nat x < length (tb_gtable s ! i)" and "i < length (tb_gtable s)"
proof -
  have "i \<in> {1..tb_n s}" using assms(2,3) by simp
  then have g: "length (tb_gtable s) = tb_n s + 1" "length (tb_gtable s ! i) = 2 ^ nat (tp_logTagTableSizes (tb_params s) ! i)"
      "list_all (te_ok (tb_params s) i) (tb_gtable s ! i)"
    using assms(1) unfolding tables_wf_def gtable_ok_def by blast+
  have "nat x < 2 ^ nat (tp_logTagTableSizes (tb_params s) ! i)" using assms(4,5) by (simp add: nat_less_iff)
  then show l: "nat x < length (tb_gtable s ! i)" and "i < length (tb_gtable s)" using g(1,2) assms(3) by simp_all
  then show "gtable_get s i x = Inr (tb_gtable s ! i ! nat x)" using assms(4) by (simp add: gtable_get_def)
  show "te_ok (tb_params s) i (tb_gtable s ! i ! nat x)" using g(3) l by (simp add: list_all_length)
qed

text \<open>The stored indices and tags are those of the branch.\<close>

definition indexed :: "TAGEBase \<Rightarrow> ThreadID \<Rightarrow> Addr \<Rightarrow> int option list \<Rightarrow> int option list \<Rightarrow> bool" where
  "indexed s tid pc is ts \<longleftrightarrow> tables_wf s \<and> idx_ok (tb_params s) is ts \<and>
     (\<forall>i \<in> {1..tb_n s}. \<exists>x t. gindex s tid pc i = Inr x \<and> gtag s tid pc i = Inr t \<and>
        stored is i = Inr x \<and> stored ts i = Inr (int (unat t)))"

lemma indexedD:
  assumes "indexed s tid pc is ts" and "1 \<le> i" and "i \<le> tb_n s"
  shows "\<exists>x t. stored is i = Inr x \<and> stored ts i = Inr (int (unat t)) \<and> 0 \<le> x \<and> x < tsize (tb_params s) i \<and>
    gtable_get s i x = Inr (table_entry s tid pc i) \<and> te_ok (tb_params s) i (table_entry s tid pc i) \<and>
    (te_tag (table_entry s tid pc i) = t \<longleftrightarrow> gtag s tid pc i = Inr (te_tag (table_entry s tid pc i)))"
proof -
  have "i \<in> {1..tb_n s}" using assms(2,3) by simp
  then obtain x t where x: "gindex s tid pc i = Inr x" "gtag s tid pc i = Inr t" "stored is i = Inr x"
      "stored ts i = Inr (int (unat t))" "0 \<le> x" "x < tsize (tb_params s) i"
    using assms(1) unfolding indexed_def idx_ok_def by fastforce
  have wf: "tables_wf s" using assms(1) by (simp add: indexed_def)
  note g = gtable_get_ok [OF wf assms(2,3) x(5,6)]
  have "table_entry s tid pc i = tb_gtable s ! i ! nat x" by (simp add: table_entry_def x(1))
  then show ?thesis using x g by auto
qed

lemma find_bank_indexed:
  assumes "indexed s tid pc is ts" and "set banks \<subseteq> {1..tb_n s}"
  shows "find_bank (s\<lparr>tb_tableIndices := is, tb_tableTags := ts\<rparr>) banks =
    Inr (case find (table_matches s tid pc) banks of None \<Rightarrow> 0 | Some i \<Rightarrow> i)"
  using assms(2)
proof (induction banks)
  case (Cons i banks)
  have i: "1 \<le> i" "i \<le> tb_n s" using Cons.prems by simp_all
  obtain x t where x: "stored is i = Inr x" "stored ts i = Inr (int (unat t))" "gtable_get s i x = Inr (table_entry s tid pc i)"
      "te_tag (table_entry s tid pc i) = t \<longleftrightarrow> gtag s tid pc i = Inr (te_tag (table_entry s tid pc i))"
    using indexedD [OF assms(1) i] by blast
  have "i < length (tb_noSkip s)" using assms(1) i by (simp add: indexed_def tables_wf_def)
  moreover have "gtable_get (s\<lparr>tb_tableIndices := is, tb_tableTags := ts\<rparr>) i x = gtable_get s i x" by (simp add: gtable_get_def)
  moreover have "int (unat (te_tag (table_entry s tid pc i))) = int (unat t) \<longleftrightarrow> te_tag (table_entry s tid pc i) = t"
    by (simp only: of_nat_eq_iff word_unat_eq_iff)
  ultimately show ?case using Cons x by (cases "tb_noSkip s ! i") (simp_all add: table_matches_def del: of_nat_eq_iff)
qed simp

text \<open>The information of a predicted conditional branch: banks, indices and tags within the tables.\<close>

definition tbi_ok :: "TAGEBaseParams \<Rightarrow> TageBI \<Rightarrow> bool" where
  "tbi_ok p bi \<longleftrightarrow> idx_ok p (tbi_tableIndices bi) (tbi_tableTags bi) \<and>
     tbi_hitBank bi \<le> unat (tp_nHistoryTables p) \<and> tbi_altBank bi \<le> unat (tp_nHistoryTables p) \<and>
     (tbi_hitBank bi \<noteq> 0 \<longrightarrow> 0 \<le> tbi_hitBankIndex bi \<and> tbi_hitBankIndex bi < tsize p (tbi_hitBank bi)) \<and>
     (tbi_altBank bi \<noteq> 0 \<longrightarrow> 0 \<le> tbi_altBankIndex bi \<and> tbi_altBankIndex bi < tsize p (tbi_altBank bi)) \<and>
     0 \<le> tbi_bimodalIndex bi \<and> tbi_bimodalIndex bi < tsize p 0"

text \<open>The part of the information that the histories use.\<close>

definition hist_part :: "TageBI \<Rightarrow> Addr \<times> bool \<times> int option \<times> u8 \<times> bool" where
  "hist_part bi = (tbi_branchPC bi, tbi_condBranch bi, tbi_pathHist bi, tbi_nGhist bi, tbi_modified bi)"

definition provided :: "TAGEBase \<Rightarrow> ThreadID \<Rightarrow> Addr \<Rightarrow> TageBI \<Rightarrow> bool" where
  "provided s tid pc bi \<longleftrightarrow>
     (let M = table_matches s tid pc; ctr = (\<lambda>i. te_ctr (table_entry s tid pc i)); hit = tbi_hitBank bi; alt = tbi_altBank bi
      in longest M (tb_n s + 1) hit \<and> longest M hit alt \<and>
         tbi_altTaken bi = (if alt \<noteq> 0 then 0 \<le> ctr alt else tb_btablePrediction s ! nat (bindex s pc)) \<and>
         tbi_tagePred bi = (if hit \<noteq> 0 \<and> (tb_useAltPredForNewlyAllocated s ! 0 < 0 \<or> ctr hit \<notin> {- 1, 0}) then 0 \<le> ctr hit
                            else tbi_altTaken bi))"

lemma bindex_ok:
  assumes "TAGEBaseParams_ok (tb_params s)"
  shows "0 \<le> bindex s pc" "bindex s pc < tsize (tb_params s) 0"
proof -
  let ?k = "nat (tp_logTagTableSizes (tb_params s) ! 0)"
  have k: "?k < 31" by (rule tage_params(6) [OF assms])
  define x where "x = drop_bit (unat (tp_instShiftAmt (tb_params s))) pc AND mask ?k"
  have x: "unat x < 2 ^ ?k" unfolding x_def by (rule unat_mask_less) (use k in simp)
  also have "(2 :: nat) ^ ?k \<le> 2 ^ 31" using k by (intro power_increasing) simp_all
  finally have "to_int x = int (unat x)" by (rule to_int_less)
  moreover have "int (unat x) < 2 ^ ?k" using x by (simp only: of_nat_less_numeral_power_cancel_iff)
  ultimately show "0 \<le> bindex s pc" "bindex s pc < tsize (tb_params s) 0" by (simp_all add: bindex_def x_def)
qed

lemma bimode_get:
  assumes "tables_wf s" and "0 \<le> x" and "x < tsize (tb_params s) 0"
  shows "nat x < length (tb_btablePrediction s)"
    and "nat (drop_bit (unat (tp_logRatioBiModalHystEntries (tb_params s))) x) < length (tb_btableHysteresis s)"
    and "0 \<le> drop_bit (unat (tp_logRatioBiModalHystEntries (tb_params s))) x"
proof -
  let ?l = "nat (tp_logTagTableSizes (tb_params s) ! 0)" and ?r = "unat (tp_logRatioBiModalHystEntries (tb_params s))"
  have b: "length (tb_btablePrediction s) = 2 ^ ?l" "length (tb_btableHysteresis s) = 2 ^ ?l div 2 ^ ?r" "TAGEBaseParams_ok (tb_params s)"
    using assms(1) by (simp_all add: tables_wf_def bimodal_ok_def)
  have n: "nat x < 2 ^ ?l" using assms(2,3) by (simp add: nat_less_iff)
  then show "nat x < length (tb_btablePrediction s)" using b(1) by simp
  have r: "?r \<le> ?l" by (rule tage_params(5) [OF b(3)])
  have "nat x div 2 ^ ?r < 2 ^ ?l div 2 ^ ?r"
    using n r by (simp add: less_mult_imp_div_less power_diff [symmetric] power_add [symmetric] flip: power_add)
  moreover have "nat (drop_bit ?r x) = nat x div 2 ^ ?r" using assms(2) by (simp add: drop_bit_eq_div nat_div_distrib nat_power_eq)
  ultimately show "nat (drop_bit ?r x) < length (tb_btableHysteresis s)" using b(2) by simp
  show "0 \<le> drop_bit ?r x" using assms(2) by simp
qed

lemma find_banks_ok:
  fixes s :: TAGEBase and tid :: ThreadID and pc :: Addr
  defines "M \<equiv> table_matches s tid pc"
  assumes "indexed s tid pc is ts"
  shows "\<exists>hit hx alt ax. find_banks (s\<lparr>tb_tableIndices := is, tb_tableTags := ts\<rparr>) bi =
      Inr (bi\<lparr>tbi_hitBank := hit, tbi_hitBankIndex := hx, tbi_altBank := alt, tbi_altBankIndex := ax\<rparr>) \<and>
    longest M (tb_n s + 1) hit \<and> longest M hit alt \<and> hit \<le> tb_n s \<and> alt \<le> tb_n s \<and>
    (hit \<noteq> 0 \<longrightarrow> stored is hit = Inr hx) \<and> (alt \<noteq> 0 \<longrightarrow> stored is alt = Inr ax)"
proof -
  let ?s = "s\<lparr>tb_tableIndices := is, tb_tableTags := ts\<rparr>"
  let ?f = "\<lambda>k. case find M (rev [1..<k]) of None \<Rightarrow> 0 | Some i \<Rightarrow> i"
  define hit where "hit = ?f (tb_n s + 1)"
  define alt where "alt = ?f hit"
  have l: "longest M (tb_n s + 1) hit" "longest M hit alt" unfolding hit_def alt_def by (rule find_rev_upt)+
  have b: "hit \<le> tb_n s" "alt \<le> tb_n s" using l by (auto simp: longest_def)
  have h: "find_bank ?s (rev [1..<tb_n s + 1]) = Inr hit"
    unfolding hit_def M_def by (rule find_bank_indexed [OF assms(2)]) auto
  have a: "find_bank ?s (rev [1..<hit]) = Inr alt"
    unfolding alt_def M_def by (rule find_bank_indexed [OF assms(2)]) (use b(1) in auto)
  have x: "\<exists>x. bank_index ?s i old = Inr x \<and> (i \<noteq> 0 \<longrightarrow> stored is i = Inr x)" if "i \<le> tb_n s" for i old
    using indexedD [OF assms(2), of i] that by (cases "i = 0") (auto simp: bank_index_def)
  obtain hx where hx: "bank_index ?s hit (tbi_hitBankIndex bi) = Inr hx" "hit \<noteq> 0 \<longrightarrow> stored is hit = Inr hx" using x [OF b(1)] by blast
  obtain ax where ax: "bank_index ?s alt (tbi_altBankIndex bi) = Inr ax" "alt \<noteq> 0 \<longrightarrow> stored is alt = Inr ax" using x [OF b(2)] by blast
  have "find_banks ?s bi = Inr (bi\<lparr>tbi_hitBank := hit, tbi_hitBankIndex := hx, tbi_altBank := alt, tbi_altBankIndex := ax\<rparr>)"
    using h a hx(1) ax(1) by (simp add: find_banks_def Let_def)
  then show ?thesis using l b hx(2) ax(2) by blast
qed

lemma tagePredict_ok:
  assumes "tables_wf s" and "tid < length (tb_threadHistory s)"
  shows "\<exists>s' bi'. tagePredict s tid pc True bi = Inr (tbi_tagePred bi', s', bi') \<and> tables_wf s' \<and> same_hist s s' \<and>
    tbi_ok (tb_params s) bi' \<and> hist_part bi' = hist_part bi \<and> tbi_valid bi' \<and> provided s tid pc bi'"
proof -
  obtain "is" ts where c: "calculateIndicesAndTags s tid pc bi = Inr (s\<lparr>tb_tableIndices := is, tb_tableTags := ts\<rparr>,
      bi\<lparr>tbi_tableIndices := is, tbi_tableTags := ts, tbi_valid := True\<rparr>)" and ix: "indexed s tid pc is ts"
    using calculateIndicesAndTags_ok [OF assms, of pc bi] assms(1) unfolding indexed_def by blast
  let ?s = "s\<lparr>tb_tableIndices := is, tb_tableTags := ts\<rparr>" and ?M = "table_matches s tid pc"
    and ?ctr = "\<lambda>i. te_ctr (table_entry s tid pc i)"
  have wf': "tables_wf ?s" using assms(1) by (simp add: tables_wf_def)
  have p: "TAGEBaseParams_ok (tb_params s)" using assms(1) by (simp add: tables_wf_def)
  define b where "b = bi\<lparr>tbi_tableIndices := is, tbi_tableTags := ts, tbi_valid := True, tbi_bimodalIndex := bindex s pc\<rparr>"
  obtain hit hx alt ax where f: "find_banks ?s b = Inr (b\<lparr>tbi_hitBank := hit, tbi_hitBankIndex := hx, tbi_altBank := alt, tbi_altBankIndex := ax\<rparr>)"
      "longest ?M (tb_n s + 1) hit" "longest ?M hit alt" "hit \<le> tb_n s" "alt \<le> tb_n s"
      "hit \<noteq> 0 \<longrightarrow> stored is hit = Inr hx" "alt \<noteq> 0 \<longrightarrow> stored is alt = Inr ax"
    using find_banks_ok [OF ix, of b] by blast
  define b1 where "b1 = b\<lparr>tbi_hitBank := hit, tbi_hitBankIndex := hx, tbi_altBank := alt, tbi_altBankIndex := ax\<rparr>"
  have e: "gtable_get ?s i x = Inr (table_entry s tid pc i)" "bank_prediction ?s i = Inr (0 \<le> ?ctr i)" "0 \<le> x" "x < tsize (tb_params s) i"
    if "stored is i = Inr x" "i \<noteq> 0" "i \<le> tb_n s" for i x
  proof -
    have "1 \<le> i" using that(2) by simp
    from indexedD [OF ix this that(3)] that(1)
    have g: "gtable_get s i x = Inr (table_entry s tid pc i)" "0 \<le> x" "x < tsize (tb_params s) i" by auto
    then show "gtable_get ?s i x = Inr (table_entry s tid pc i)" "0 \<le> x" "x < tsize (tb_params s) i"
      by (simp_all add: gtable_get_def)
    then show "bank_prediction ?s i = Inr (0 \<le> ?ctr i)" using that(1) by (simp add: bank_prediction_def)
  qed
  note bx = bindex_ok [OF p, of pc]
  have bim: "getBimodePred ?s b1 = Inr (tb_btablePrediction s ! nat (bindex s pc))"
    using bimode_get(1) [OF assms(1) bx] bx by (simp add: getBimodePred_def b1_def b_def)
  have ua: "vec_get (tb_useAltPredForNewlyAllocated ?s) (getUseAltIdx bb pc) = Inr (tb_useAltPredForNewlyAllocated s ! 0)" for bb
    using assms(1) by (simp add: tables_wf_def alt_ok_def getUseAltIdx_def)
  have w: "\<bar>2 * x + 1\<bar> \<le> 1 \<longleftrightarrow> x \<in> {- 1, 0}" for x :: int by auto
  have b1: "tbi_hitBank b1 = hit" "tbi_altBank b1 = alt" "tbi_hitBankIndex b1 = hx" by (simp_all add: b1_def)
  obtain r where r: "tage_choose ?s pc b1 = Inr r" "tbi_hitBank r = hit" "tbi_altBank r = alt"
      "tbi_altTaken r = (if alt \<noteq> 0 then 0 \<le> ?ctr alt else tb_btablePrediction s ! nat (bindex s pc))"
      "tbi_tagePred r = (if hit \<noteq> 0 \<and> (tb_useAltPredForNewlyAllocated s ! 0 < 0 \<or> ?ctr hit \<notin> {- 1, 0}) then 0 \<le> ?ctr hit else tbi_altTaken r)"
      "tbi_hitBankIndex r = hx" "tbi_altBankIndex r = ax" "tbi_bimodalIndex r = bindex s pc" "tbi_tableIndices r = is" "tbi_tableTags r = ts"
      "hist_part r = hist_part bi" "tbi_valid r"
  proof (cases "hit = 0")
    case True
    then have "alt = 0" using f(3) by (simp add: longest_def)
    then show ?thesis using True bim
      by (intro that [of "b1\<lparr>tbi_altTaken := tb_btablePrediction s ! nat (bindex s pc), tbi_tagePred := tb_btablePrediction s ! nat (bindex s pc),
            tbi_longestMatchPred := tb_btablePrediction s ! nat (bindex s pc), tbi_provider := BIMODAL_ONLY\<rparr>"])
        (simp_all add: tage_choose_def b1, simp_all add: b1_def b_def hist_part_def)
  next
    case False
    then have hx: "stored is hit = Inr hx" using f(6) by blast
    note eh = e [OF hx False f(4)]
    define a where "a = (if alt \<noteq> 0 then 0 \<le> ?ctr alt else tb_btablePrediction s ! nat (bindex s pc))"
    have alt: "(if 0 < tbi_altBank b1 then bind_r (bank_prediction ?s (tbi_altBank b1)) (\<lambda>alt. Inr (extraAltCalc (b1\<lparr>tbi_altTaken := alt\<rparr>)))
        else bind_r (getBimodePred ?s b1) (\<lambda>alt. Inr (b1\<lparr>tbi_altTaken := alt\<rparr>))) = Inr (b1\<lparr>tbi_altTaken := a\<rparr>)"
      using e(2) [of alt ax] f(5,7) bim by (cases "alt = 0") (auto simp: b1 a_def extraAltCalc_def)
    define b2 where "b2 = b1\<lparr>tbi_altTaken := a, tbi_longestMatchPred := 0 \<le> ?ctr hit, tbi_pseudoNewAlloc := ?ctr hit \<in> {- 1, 0}\<rparr>"
    define r where "r = (if tb_useAltPredForNewlyAllocated s ! 0 < 0 \<or> ?ctr hit \<notin> {- 1, 0}
        then b2\<lparr>tbi_tagePred := 0 \<le> ?ctr hit, tbi_provider := TAGE_LONGEST_MATCH\<rparr>
        else b2\<lparr>tbi_tagePred := a, tbi_provider := (if alt \<noteq> 0 then TAGE_ALT_MATCH else BIMODAL_ALT_MATCH)\<rparr>)"
    have "tage_choose ?s pc b1 = Inr r"
      unfolding tage_choose_def alt using False eh ua w by (simp add: b1 Let_def r_def b2_def)
    then show ?thesis using False
      by (intro that [of r]) (simp_all add: r_def b2_def a_def, simp_all add: b1_def b_def hist_part_def)
  qed
  have t: "tagePredict s tid pc True bi = Inr (tbi_tagePred r, ?s, r)"
  proof -
    have "bindex ?s pc = bindex s pc" by (simp add: bindex_def)
    then show ?thesis using c f(1) r(1) by (simp add: tagePredict_def b_def b1_def)
  qed
  have "tbi_ok (tb_params s) r"
    using r f(4-7) e(3,4) bx ix by (auto simp: tbi_ok_def indexed_def)
  moreover have "provided s tid pc r" using r f(2,3) by (simp add: provided_def Let_def)
  moreover have "same_hist s ?s" by (simp add: same_hist_def)
  ultimately show ?thesis using t wf' r(11,12) by blast
qed

section \<open>Update\<close>

lemma ctrUpdate_ok:
  assumes "1 \<le> bits" and "bits \<le> 8" and "signed_within bits c"
  shows "\<exists>c'. ctrUpdate c taken bits = Inr c' \<and> signed_within bits c'"
proof -
  have "ctrUpdate c taken bits = signedCtrUpdate c taken bits" using assms(2) by (simp add: ctrUpdate_def signedCtrUpdate_def)
  then show ?thesis using signedCtrUpdate_ok [OF assms(1,2), of c taken] assms(3) by (auto simp: signed_within_def)
qed

lemma TAGEBase_unsignedCtrUpdate_ok:
  assumes "bits \<le> 8" and "unat c < 2 ^ unat bits"
  shows "\<exists>c'. TAGEBase_unsignedCtrUpdate c up bits = Inr c' \<and> unat c' < 2 ^ unat bits"
proof -
  have "unat bits < 31" using assms(1) by (simp add: word_le_nat_alt)
  then have "TAGEBase_unsignedCtrUpdate c up bits = unsignedCtrUpdate c up bits"
    using assms(1) by (simp add: TAGEBase_unsignedCtrUpdate_def unsignedCtrUpdate_def)
  then show ?thesis using unsignedCtrUpdate_ok [OF assms, of up] by auto
qed

text \<open>What every step of an update keeps.\<close>

definition keeps :: "TAGEBase \<Rightarrow> TAGEBase result \<Rightarrow> bool" where
  "keeps s r \<longleftrightarrow> (\<exists>s'. r = Inr s' \<and> tables_wf s' \<and> same_hist s s')"

lemma keepsI: "tables_wf s' \<Longrightarrow> same_hist s s' \<Longrightarrow> keeps s (Inr s')"
  by (simp add: keeps_def)

lemma keeps_bind:
  assumes "keeps s r" and "\<And>s'. tables_wf s' \<Longrightarrow> same_hist s s' \<Longrightarrow> keeps s' (f s')"
  shows "keeps s (bind_r r f)"
  using assms same_hist_trans by (fastforce simp: keeps_def)

lemma same_histD: "same_hist s s' \<Longrightarrow> tb_params s' = tb_params s" "same_hist s s' \<Longrightarrow> tb_threadHistory s' = tb_threadHistory s"
  by (simp_all add: same_hist_def)

lemma gtable_set_ok:
  assumes "tables_wf s" and "1 \<le> i" and "i \<le> tb_n s" and "0 \<le> x" and "x < tsize (tb_params s) i" and "te_ok (tb_params s) i e"
  shows "keeps s (gtable_set s i x e)"
proof -
  note g = gtable_get_ok [OF assms(1-5)]
  let ?t = "(tb_gtable s ! i)[nat x := e]"
  have "gtable_ok (tb_params s) ((tb_gtable s)[i := ?t])"
    unfolding gtable_ok_def
  proof (intro conjI ballI)
    have "gtable_ok (tb_params s) (tb_gtable s)" using assms(1) by (simp add: tables_wf_def)
    note gt = this [unfolded gtable_ok_def]
    show "length ((tb_gtable s)[i := ?t]) = tb_n s + 1" using gt by simp
    fix j assume j: "j \<in> {1..tb_n s}"
    then have jt: "length (tb_gtable s ! j) = 2 ^ nat (tp_logTagTableSizes (tb_params s) ! j)" "list_all (te_ok (tb_params s) j) (tb_gtable s ! j)"
      using gt by blast+
    show "length ((tb_gtable s)[i := ?t] ! j) = 2 ^ nat (tp_logTagTableSizes (tb_params s) ! j)"
      using jt(1) g(4) by (cases "j = i") simp_all
    show "list_all (te_ok (tb_params s) j) ((tb_gtable s)[i := ?t] ! j)"
      using jt(2) g(4) assms(6) by (cases "j = i") (auto intro: list_all_update)
  qed
  then have "tables_wf (s\<lparr>tb_gtable := (tb_gtable s)[i := ?t]\<rparr>)" using assms(1) by (simp add: tables_wf_def)
  moreover have "gtable_set s i x e = Inr (s\<lparr>tb_gtable := (tb_gtable s)[i := ?t]\<rparr>)"
    using g(3,4) assms(4) by (simp add: gtable_set_def)
  ultimately show ?thesis by (simp add: keeps_def same_hist_def)
qed

lemma gtable_change_ok:
  assumes "tables_wf s" and "1 \<le> i" and "i \<le> tb_n s" and "0 \<le> x" and "x < tsize (tb_params s) i"
    and "\<And>e. te_ok (tb_params s) i e \<Longrightarrow> \<exists>e'. f e = Inr e' \<and> te_ok (tb_params s) i e'"
  shows "keeps s (bind_r (gtable_get s i x) (\<lambda>e. bind_r (f e) (gtable_set s i x)))"
proof -
  note g = gtable_get_ok [OF assms(1-5)]
  obtain e where "f (tb_gtable s ! i ! nat x) = Inr e" "te_ok (tb_params s) i e" using assms(6) [OF g(2)] by blast
  then show ?thesis using g(1) gtable_set_ok [OF assms(1-5)] by simp
qed

lemma baseUpdate_ok:
  assumes "tables_wf s" and "0 \<le> tbi_bimodalIndex bi" and "tbi_bimodalIndex bi < tsize (tb_params s) 0"
  shows "keeps s (baseUpdate s taken bi)"
proof -
  note b = bimode_get [OF assms]
  have "tables_wf (s\<lparr>tb_btablePrediction := (tb_btablePrediction s)[i := x], tb_btableHysteresis := (tb_btableHysteresis s)[j := y]\<rparr>)" for i j x y
    using assms(1) by (simp add: tables_wf_def bimodal_ok_def)
  then show ?thesis using b assms(2) by (simp add: baseUpdate_def Let_def keeps_def same_hist_def)
qed

lemma update_ctr_ok:
  assumes "tables_wf s" and "1 \<le> i" and "i \<le> tb_n s" and "0 \<le> x" and "x < tsize (tb_params s) i"
  shows "keeps s (update_ctr s i x taken)"
proof -
  have "TAGEBaseParams_ok (tb_params s)" using assms(1) by (simp add: tables_wf_def)
  note c = tage_params(10,11) [OF this]
  have "\<exists>e'. bind_r (ctrUpdate (te_ctr e) taken (tp_tagTableCounterBits (tb_params s))) (\<lambda>c. Inr (e\<lparr>te_ctr := c\<rparr>)) = Inr e' \<and> te_ok (tb_params s) i e'"
    if "te_ok (tb_params s) i e" for e
    using ctrUpdate_ok [OF c, of "te_ctr e" taken] that by (auto simp: te_ok_def)
  from gtable_change_ok [OF assms this] show ?thesis by (simp add: update_ctr_def bind_r_assoc)
qed

lemma handleUReset_ok:
  assumes "tables_wf s"
  shows "keeps s (handleUReset s)"
proof -
  have "unat (drop_bit 1 u) \<le> unat u" for u :: u8 by (simp add: unat_drop_bit_div)
  then have e: "te_ok p i (e\<lparr>te_u := resetUctr (te_u e)\<rparr>)" if "te_ok p i e" for p i e
    using that le_less_trans by (fastforce simp: te_ok_def resetUctr_def)
  have "gtable_ok (tb_params s) (map (map (\<lambda>e. e\<lparr>te_u := resetUctr (te_u e)\<rparr>)) (tb_gtable s))"
    using assms e unfolding tables_wf_def gtable_ok_def by (auto simp: list_all_iff)
  moreover have "TAGEBaseParams_ok (tb_params s)" using assms by (simp add: tables_wf_def)
  ultimately show ?thesis using assms tage_params(15) by (simp add: handleUReset_def keeps_def same_hist_def tables_wf_def)
qed

lemma idx_okD:
  assumes "idx_ok p is ts" and "1 \<le> i" and "i \<le> unat (tp_nHistoryTables p)"
  shows "\<exists>x t. stored is i = Inr x \<and> 0 \<le> x \<and> x < tsize p i \<and> stored ts i = Inr t \<and> 0 \<le> t \<and> t < 2 ^ unat (tp_tagTableTagWidths p ! i)"
proof -
  have "i \<in> {1..unat (tp_nHistoryTables p)}" using assms(2,3) by simp
  then show ?thesis using assms(1) unfolding idx_ok_def by blast
qed

lemma min_useful_ok:
  assumes "tables_wf s" and "idx_ok (tb_params s) (tbi_tableIndices bi) (tbi_tableTags bi)" and "set banks \<subseteq> {1..tb_n s}"
  shows "\<exists>m'. min_useful s bi m banks = Inr m'"
  using assms(3)
proof (induction banks arbitrary: m)
  case (Cons i banks)
  have i: "1 \<le> i" "i \<le> tb_n s" using Cons.prems by simp_all
  obtain x where x: "stored (tbi_tableIndices bi) i = Inr x" "0 \<le> x" "x < tsize (tb_params s) i" using idx_okD [OF assms(2) i] by blast
  then show ?case using gtable_get_ok(1) [OF assms(1) i x(2,3)] Cons by simp
qed simp

lemma signed_within_weak: "1 \<le> bits \<Longrightarrow> signed_within bits (if b then 0 else - 1)"
  by (simp add: signed_within_def order_less_trans [of "- 1" 0])

lemma allocate_entries_ok:
  assumes "tables_wf s" and "idx_ok (tb_params s) (tbi_tableIndices bi) (tbi_tableTags bi)" and "set banks \<subseteq> {1..tb_n s}"
  shows "keeps s (allocate_entries taken bi s k banks)"
  using assms
proof (induction banks arbitrary: s k)
  case (Cons i banks)
  let ?p = "tb_params s"
  have i: "1 \<le> i" "i \<le> tb_n s" and r: "set banks \<subseteq> {1..tb_n s}" using Cons.prems(3) by simp_all
  have p: "TAGEBaseParams_ok ?p" using Cons.prems(1) by (simp add: tables_wf_def)
  obtain x t where x: "stored (tbi_tableIndices bi) i = Inr x" "0 \<le> x" "x < tsize ?p i"
      "stored (tbi_tableTags bi) i = Inr t" "0 \<le> t" "t < 2 ^ unat (tp_tagTableTagWidths ?p ! i)" using idx_okD [OF Cons.prems(2) i] by blast
  note g = gtable_get_ok [OF Cons.prems(1) i x(2,3)]
  let ?e = "tb_gtable s ! i ! nat x" and ?new = "(tb_gtable s ! i ! nat x)\<lparr>te_tag := word_of_int t, te_ctr := (if taken then 0 else - 1)\<rparr>"
  have new: "te_ok ?p i ?new"
  proof -
    have "(2 :: int) ^ unat (tp_tagTableTagWidths ?p ! i) \<le> 2 ^ 16" using bank_okD(4) [OF p i] by (intro power_increasing) simp_all
    then have "uint (word_of_int t :: u16) = t" using x(5,6) by (intro word_of_int_inverse [OF refl]) simp_all
    then have "unat (word_of_int t :: u16) = nat t" by (simp add: unat_eq_nat_uint)
    moreover have "nat t < 2 ^ unat (tp_tagTableTagWidths ?p ! i)" using x(5,6) by (simp add: nat_less_iff)
    ultimately show ?thesis using g(2) signed_within_weak [OF tage_params(10) [OF p]] by (simp add: te_ok_def)
  qed
  have skip: "keeps s (allocate_entries taken bi s k banks)" by (rule Cons.IH [OF Cons.prems(1,2) r])
  have next_bank: "keeps s' (if k + 1 = tp_maxNumAlloc (tb_params s') then Inr s' else allocate_entries taken bi s' (k + 1) banks)"
    if "tables_wf s'" "same_hist s s'" for s'
    using Cons.IH [of s' "k + 1"] that Cons.prems(2) r by (simp add: same_histD keepsI)
  show ?case
  proof (cases "te_u ?e = 0")
    case True
    have "keeps s (bind_r (gtable_set s i x ?new)
        (\<lambda>s. if k + 1 = tp_maxNumAlloc (tb_params s) then Inr s else allocate_entries taken bi s (k + 1) banks))"
      by (rule keeps_bind [OF gtable_set_ok [OF Cons.prems(1) i x(2,3) new] next_bank])
    then show ?thesis using True x g(1) by simp
  qed (use skip x g(1) in simp)
qed (simp add: keepsI)

lemma first_bank_ok:
  assumes "tbi_hitBank bi < tb_n s"
  shows "1 \<le> first_bank s bi nrand" and "first_bank s bi nrand \<le> tb_n s"
  using assms by (auto simp: first_bank_def Let_def bit_and_iff bit_mask_iff)

lemma tage_allocate_ok:
  assumes "tables_wf s" and "tbi_ok (tb_params s) bi" and "tbi_hitBank bi < tb_n s"
  shows "keeps s (tage_allocate s taken bi nrand)"
proof -
  let ?p = "tb_params s" and ?X = "first_bank s bi nrand" and ?banks = "rev [tbi_hitBank bi + 1..<tb_n s + 1]"
  have p: "TAGEBaseParams_ok ?p" using assms(1) by (simp add: tables_wf_def)
  have ix: "idx_ok ?p (tbi_tableIndices bi) (tbi_tableTags bi)" using assms(2) by (simp add: tbi_ok_def)
  note X = first_bank_ok [OF assms(3), of nrand]
  have "set ?banks \<subseteq> {1..tb_n s}" by auto
  then obtain m where m: "min_useful s bi 1 ?banks = Inr m" using min_useful_ok [OF assms(1) ix] by blast
  have c: "tbi_hitBank bi < tb_n s \<and> tb_n s - tbi_hitBank bi - 1 < 64" using assms(3) tage_params(4) [OF p] by simp
  obtain x where x: "stored (tbi_tableIndices bi) ?X = Inr x" "0 \<le> x" "x < tsize ?p ?X" using idx_okD [OF ix X] by blast
  have u: "\<exists>e'. Inr (e\<lparr>te_u := 0\<rparr>) = Inr e' \<and> te_ok ?p ?X e'" if "te_ok ?p ?X e" for e using that by (simp add: te_ok_def)
  have "keeps s (if m > 0 then bind_r (stored (tbi_tableIndices bi) ?X) (\<lambda>index. bind_r (gtable_get s ?X index) (\<lambda>e.
      gtable_set s ?X index (e\<lparr>te_u := 0\<rparr>))) else Inr s)"
    using gtable_change_ok [OF assms(1) X x(2,3) u] x(1) assms(1) by (simp add: keepsI)
  moreover have "keeps s' (allocate_entries taken bi s' 0 [?X..<tb_n s + 1])" if "tables_wf s'" "same_hist s s'" for s'
    using that ix X(1) by (intro allocate_entries_ok) (auto simp: same_histD)
  ultimately show ?thesis
    unfolding tage_allocate_def m bind_r_simps check_simps(1) [OF c] Let_def by (rule keeps_bind)
qed

lemma handleAllocAndUReset_ok:
  assumes "tables_wf s" and "tbi_ok (tb_params s) bi" and "alloc \<Longrightarrow> tbi_hitBank bi < tb_n s"
  shows "keeps s (handleAllocAndUReset s alloc taken bi nrand)"
  unfolding handleAllocAndUReset_def
proof (rule keeps_bind)
  show "keeps s (if alloc then tage_allocate s taken bi nrand else Inr s)"
    using tage_allocate_ok [OF assms(1,2)] assms(1,3) by (simp add: keepsI)
  fix s' assume "tables_wf s'" "same_hist s s'"
  then have "tables_wf (s'\<lparr>tb_tCounter := tb_tCounter s' + 1\<rparr>)" by (simp add: tables_wf_def)
  then show "keeps s' (handleUReset (s'\<lparr>tb_tCounter := tb_tCounter s' + 1\<rparr>))"
    using handleUReset_ok by (fastforce simp: keeps_def same_hist_def)
qed

lemma handleTAGEUpdate_ok:
  assumes "tables_wf s" and bi: "tbi_ok (tb_params s) bi"
  shows "keeps s (handleTAGEUpdate s taken bi)"
proof (cases "tbi_hitBank bi = 0")
  case True
  then show ?thesis using baseUpdate_ok [OF assms(1), of bi taken] bi by (simp add: handleTAGEUpdate_def tbi_ok_def)
next
  case False
  let ?p = "tb_params s" and ?h = "tbi_hitBank bi" and ?x = "tbi_hitBankIndex bi"
  have h: "1 \<le> ?h" "?h \<le> unat (tp_nHistoryTables ?p)" "0 \<le> ?x" "?x < tsize ?p ?h" using bi False by (simp_all add: tbi_ok_def)
  have a: "1 \<le> tbi_altBank bi" "tbi_altBank bi \<le> unat (tp_nHistoryTables ?p)" "0 \<le> tbi_altBankIndex bi" "tbi_altBankIndex bi < tsize ?p (tbi_altBank bi)"
    if "0 < tbi_altBank bi"
    using bi that by (simp_all add: tbi_ok_def)
  have b: "0 \<le> tbi_bimodalIndex bi" "tbi_bimodalIndex bi < tsize ?p 0" using bi by (simp_all add: tbi_ok_def)
  have p: "TAGEBaseParams_ok ?p" using assms(1) by (simp add: tables_wf_def)
  have u: "\<exists>e'. bind_r (TAGEBase_unsignedCtrUpdate (te_u e) up (tp_tagTableUBits ?p)) (\<lambda>u. Inr (e\<lparr>te_u := u\<rparr>)) = Inr e' \<and> te_ok ?p ?h e'"
    if "te_ok ?p ?h e" for e up
    using TAGEBase_unsignedCtrUpdate_ok [OF tage_params(9) [OF p], of "te_u e" up] that by (auto simp: te_ok_def)
  have rest: "keeps s1 (bind_r (gtable_get s1 ?h ?x) (\<lambda>e. bind_r (if te_u e = 0
        then if tbi_altBank bi > 0 then update_ctr s1 (tbi_altBank bi) (tbi_altBankIndex bi) taken else baseUpdate s1 taken bi
        else Inr s1) (\<lambda>s. if tbi_tagePred bi \<noteq> tbi_altTaken bi
          then bind_r (gtable_get s ?h ?x) (\<lambda>e. bind_r (TAGEBase_unsignedCtrUpdate (te_u e) (tbi_tagePred bi = taken) (tp_tagTableUBits (tb_params s))) (\<lambda>u.
                 gtable_set s ?h ?x (e\<lparr>te_u := u\<rparr>)))
          else Inr s)))" (is "keeps s1 (bind_r _ (\<lambda>e. bind_r (?mid e) ?last))")
    if s1: "tables_wf s1" "same_hist s s1" for s1
  proof -
    have q: "tb_params s1 = ?p" using s1(2) by (simp add: same_histD)
    have g: "gtable_get s1 ?h ?x = Inr (tb_gtable s1 ! ?h ! nat ?x)" by (rule gtable_get_ok(1) [OF s1(1)]) (use h q in simp_all)
    have "keeps s1 (?mid e)" for e
      using update_ctr_ok [OF s1(1), of "tbi_altBank bi" "tbi_altBankIndex bi" taken] baseUpdate_ok [OF s1(1), of bi taken] a b s1(1)
      by (simp add: q keepsI)
    moreover have "keeps s2 (?last s2)" if s2: "tables_wf s2" "same_hist s1 s2" for s2
    proof -
      have q2: "tb_params s2 = ?p" using s2(2) q by (simp add: same_histD)
      have k: "keeps s2 (bind_r (gtable_get s2 ?h ?x) (\<lambda>e. bind_r (TAGEBase_unsignedCtrUpdate (te_u e) up (tp_tagTableUBits ?p)) (\<lambda>u.
          gtable_set s2 ?h ?x (e\<lparr>te_u := u\<rparr>))))" for up
        using gtable_change_ok [OF s2(1), of ?h ?x "\<lambda>e. bind_r (TAGEBase_unsignedCtrUpdate (te_u e) up (tp_tagTableUBits ?p))
            (\<lambda>u. Inr (e\<lparr>te_u := u\<rparr>))"] h u q2
        by (simp add: bind_r_assoc)
      show ?thesis
      proof (cases "tbi_tagePred bi = tbi_altTaken bi")
        case False
        then show ?thesis using k by (simp only: q2 if_True simp_thms)
      qed (use s2(1) in \<open>simp add: keepsI\<close>)
    qed
    ultimately show ?thesis unfolding g bind_r_simps by (rule keeps_bind)
  qed
  have k: "keeps s (update_ctr s ?h ?x taken)" using update_ctr_ok [OF assms(1)] h by simp
  have "0 < ?h" using False by simp
  then show ?thesis unfolding handleTAGEUpdate_def by (simp only: if_True) (rule keeps_bind [OF k rest])
qed

lemma TAGEBase_condBranchUpdate_ok:
  assumes "tables_wf s" and bi: "tbi_ok (tb_params s) bi"
  shows "keeps s (TAGEBase_condBranchUpdate s pc taken bi nrand pred pre)"
proof -
  let ?p = "tb_params s"
  have p: "TAGEBaseParams_ok ?p" using assms(1) by (simp add: tables_wf_def)
  define newAlloc where "newAlloc = (tbi_hitBank bi > 0 \<and> tbi_pseudoNewAlloc bi)"
  define alloc where "alloc = (if newAlloc \<and> tbi_longestMatchPred bi = taken then False else tbi_tagePred bi \<noteq> taken \<and> tbi_hitBank bi < tb_n s)"
  let ?idx = "getUseAltIdx bi pc"
  let ?first = "if newAlloc \<and> tbi_longestMatchPred bi \<noteq> tbi_altTaken bi
                 then bind_r (vec_get (tb_useAltPredForNewlyAllocated s) ?idx) (\<lambda>c.
                      bind_r (ctrUpdate c (tbi_altTaken bi = taken) (tp_useAltOnNaBits (tb_params s))) (\<lambda>c.
                      bind_r (vec_set (tb_useAltPredForNewlyAllocated s) ?idx c) (\<lambda>cs.
                        Inr (s\<lparr>tb_useAltPredForNewlyAllocated := cs\<rparr>))))
                 else Inr s"
  have eq: "TAGEBase_condBranchUpdate s pc taken bi nrand pred pre =
      bind_r ?first (\<lambda>s. bind_r (handleAllocAndUReset s alloc taken bi nrand) (\<lambda>s. handleTAGEUpdate s taken bi))"
    by (simp add: TAGEBase_condBranchUpdate_def Let_def adjustAlloc_def newAlloc_def alloc_def)
  have al: "alt_ok ?p (tb_useAltPredForNewlyAllocated s)" using assms(1) by (simp add: tables_wf_def)
  then have i: "?idx < length (tb_useAltPredForNewlyAllocated s)" "signed_within (tp_useAltOnNaBits ?p) (tb_useAltPredForNewlyAllocated s ! ?idx)"
    by (simp_all add: alt_ok_def getUseAltIdx_def list_all_length)
  obtain c where c: "ctrUpdate (tb_useAltPredForNewlyAllocated s ! ?idx) (tbi_altTaken bi = taken) (tp_useAltOnNaBits ?p) = Inr c"
      "signed_within (tp_useAltOnNaBits ?p) c"
    using ctrUpdate_ok [OF tage_params(12,13) [OF p] i(2)] by blast
  have "tables_wf (s\<lparr>tb_useAltPredForNewlyAllocated := (tb_useAltPredForNewlyAllocated s)[?idx := c]\<rparr>)"
    using assms(1) c(2) by (simp add: tables_wf_def alt_ok_def list_all_update)
  then have "keeps s ?first" using i(1) c(1) assms(1) by (simp add: keeps_def same_hist_def)
  then show ?thesis unfolding eq
  proof (rule keeps_bind)
    fix s1 assume s1: "tables_wf s1" "same_hist s s1"
    have q: "tb_params s1 = ?p" using s1(2) by (simp add: same_histD)
    have "keeps s1 (handleAllocAndUReset s1 alloc taken bi nrand)"
      by (rule handleAllocAndUReset_ok [OF s1(1)]) (use bi q in \<open>auto simp: alloc_def split: if_splits\<close>)
    then show "keeps s1 (bind_r (handleAllocAndUReset s1 alloc taken bi nrand) (\<lambda>s. handleTAGEUpdate s taken bi))"
      by (rule keeps_bind) (use handleTAGEUpdate_ok bi q in \<open>simp add: same_histD\<close>)
  qed
qed

lemma provider_stats_vectors [simp]:
  "ts_longestMatchProvider (provider_stats taken bi st) = ts_longestMatchProvider st"
  "ts_altMatchProvider (provider_stats taken bi st) = ts_altMatchProvider st"
  by (simp_all add: provider_stats_def Let_def)

lemma TAGEBase_updateStats_ok:
  assumes "tables_wf s" and "tbi_ok (tb_params s) bi"
  shows "keeps s (TAGEBase_updateStats s taken bi)"
proof -
  have b: "tbi_hitBank bi < tb_n s + 1" "tbi_altBank bi < tb_n s + 1" using assms(2) by (simp_all add: tbi_ok_def)
  have st: "stats_len (tb_params s) (tb_stats s)" using assms(1) by (simp add: tables_wf_def)
  have wf: "keeps s (Inr (s\<lparr>tb_stats := st'\<rparr>))" if "stats_len (tb_params s) st'" for st'
    using assms(1) that by (simp add: tables_wf_def keeps_def same_hist_def)
  show ?thesis
    unfolding TAGEBase_updateStats_def Let_def bump_def
    using st b by (cases "tbi_provider bi = TAGE_LONGEST_MATCH \<or> tbi_provider bi = TAGE_ALT_MATCH")
      (simp_all add: stats_len_def wf)
qed

end
