(* ===== verification/Tage_Speculation.thy ===== *)
theory Tage_Speculation
  imports Tage_Tables
begin

text \<open>
  Speculative update of the TAGE histories.  The history of a thread is determined by the list of its
  branches with their directions, youngest first: the bits each branch shifts in and the path history.
  A prediction pushes the branch on it, a squash takes it off, a repair replaces it, and a commit moves
  the non-speculative path history past it.  Fewer than \<open>1000\<close> bits of branches in flight can be taken
  off after the buffer has been rolled over.
\<close>

section \<open>The history of a list of branches\<close>

definition br_ghist :: "TAGEBaseParams \<Rightarrow> branch \<Rightarrow> u64" where
  "br_ghist p br =
     (if tp_takenOnlyHistory p
      then drop_bit 2 (drop_bit (unat (tp_instShiftAmt p)) (br_pc br)) XOR drop_bit 3 (drop_bit (unat (tp_instShiftAmt p)) (br_target br))
      else of_bool (br_taken br))"

definition br_nbits :: "TAGEBaseParams \<Rightarrow> branch \<Rightarrow> nat" where
  "br_nbits p br = (if tp_takenOnlyHistory p then if br_taken br then 2 else 0 else 1)"

definition br_bits :: "TAGEBaseParams \<Rightarrow> branch \<Rightarrow> bool list" where
  "br_bits p br = ghist_bits (br_nbits p br) (br_ghist p br)"

definition thread_bits :: "TAGEBaseParams \<Rightarrow> ThreadID \<Rightarrow> branch list \<Rightarrow> bool list" where
  "thread_bits p tid brs = concat (map (br_bits p) (filter (\<lambda>br. br_tid br = tid) brs))"

definition thread_path :: "TAGEBaseParams \<Rightarrow> ThreadID \<Rightarrow> branch list \<Rightarrow> int" where
  "thread_path p tid brs =
     foldr (\<lambda>br ph. calcNewPathHist p (br_pc br) ph (br_taken br)) (filter (\<lambda>br. br_tid br = tid) brs) 0"

lemma br_nbits_le: "br_nbits p br \<le> 2"
  by (simp add: br_nbits_def)

lemma length_br_bits [simp]: "length (br_bits p br) = br_nbits p br"
  by (simp add: br_bits_def)

lemma thread_bits_Cons: "thread_bits p tid (br # brs) = (if br_tid br = tid then br_bits p br else []) @ thread_bits p tid brs"
  by (simp add: thread_bits_def)

lemma thread_bits_append: "thread_bits p tid (xs @ ys) = thread_bits p tid xs @ thread_bits p tid ys"
  by (simp add: thread_bits_def)

lemma thread_path_Cons: "thread_path p tid (br # brs) =
    (if br_tid br = tid then calcNewPathHist p (br_pc br) (thread_path p tid brs) (br_taken br) else thread_path p tid brs)"
  by (simp add: thread_path_def)

lemma length_thread_bits: "length (thread_bits p tid brs) \<le> 2 * length brs"
proof (induction brs)
  case (Cons br brs)
  then show ?case using br_nbits_le [of p br] by (simp add: thread_bits_Cons)
qed (simp add: thread_bits_def)

section \<open>One thread\<close>

definition th_at :: "TAGEBaseParams \<Rightarrow> ThreadID \<Rightarrow> branch list \<Rightarrow> branch list \<Rightarrow> ThreadHistory \<Rightarrow> bool" where
  "th_at p tid fl dn th \<longleftrightarrow> th_follows p (thread_bits p tid (fl @ dn)) (length (thread_bits p tid fl)) th \<and>
     th_pathHist th = thread_path p tid (fl @ dn) \<and> th_nonSpecPathHist th = thread_path p tid dn \<and> th_shape p th"

lemma th_shape_lens: "th_lens th' = th_lens th \<Longrightarrow> th_shape p th' = th_shape p th"
  by (auto simp: th_lens_def th_shape_def dest!: map_eq_imp_length_eq)

lemma th_frameD:
  assumes "th_frame th' = th_frame th"
  shows "th_pathHist th' = th_pathHist th" "th_nonSpecPathHist th' = th_nonSpecPathHist th" "th_lens th' = th_lens th"
    "th_shape p th' = th_shape p th"
proof -
  show "th_pathHist th' = th_pathHist th" "th_nonSpecPathHist th' = th_nonSpecPathHist th" and l: "th_lens th' = th_lens th"
    using assms by (simp_all add: th_frame_def)
  show "th_shape p th' = th_shape p th" by (rule th_shape_lens [OF l])
qed

lemma th_at_other: "br_tid br \<noteq> tid \<Longrightarrow> th_at p tid (br # fl) dn = th_at p tid fl dn"
  by (simp add: th_at_def thread_bits_Cons thread_path_Cons fun_eq_iff)

lemma push_thread:
  assumes "th_at p tid fl dn th" and "hist_params_ok p" and "length fl < 500" and "br_tid br = tid" and "tbi_nGhist bi = 0"
  shows "\<exists>th' g. updatePathAndGlobalHistory p (br_taken br) (br_pc br) (br_target br) th bi =
      Inr (th', bi\<lparr>tbi_ghist := g, tbi_nGhist := of_nat (br_nbits p br)\<rparr>) \<and> th_at p tid (br # fl) dn th' \<and> th_lens th' = th_lens th"
proof -
  let ?th = "th\<lparr>th_pathHist := calcNewPathHist p (br_pc br) (th_pathHist th) (br_taken br)\<rparr>"
  have f: "th_follows p (thread_bits p tid (fl @ dn)) (length (thread_bits p tid fl)) ?th"
    using assms(1) by (simp add: th_at_def th_follows_def)
  have r: "length (thread_bits p tid fl) < 1000" using length_thread_bits [of p tid fl] assms(3) by simp
  have n: "(of_nat (br_nbits p br) :: u8) \<le> 2" "unat (of_nat (br_nbits p br) :: u8) = br_nbits p br" by (simp_all add: br_nbits_def)
  obtain th' where t: "updateGHist p (br_ghist p br) (of_nat (br_nbits p br)) ?th = Inr th'"
      "th_follows p (br_bits p br @ thread_bits p tid (fl @ dn)) (br_nbits p br + length (thread_bits p tid fl)) th'" "th_frame th' = th_frame ?th"
    using updateGHist_ok [OF f assms(2) r n(1), of "br_ghist p br"] unfolding n(2) br_bits_def by blast
  have sh: "th_lens ?th = th_lens th" "th_shape p ?th = th_shape p th" by (simp_all add: th_lens_def th_shape_def)
  have "th_at p tid (br # fl) dn th'" "th_lens th' = th_lens th"
    using t(2) th_frameD [OF t(3)] sh assms(1,4) by (simp_all add: th_at_def thread_bits_Cons thread_path_Cons)
  moreover have "\<exists>g. updatePathAndGlobalHistory p (br_taken br) (br_pc br) (br_target br) th bi =
      Inr (th', bi\<lparr>tbi_ghist := g, tbi_nGhist := of_nat (br_nbits p br)\<rparr>)"
  proof (cases "tp_takenOnlyHistory p \<and> \<not> br_taken br")
    case True
    then have "bi = bi\<lparr>tbi_ghist := tbi_ghist bi, tbi_nGhist := of_nat (br_nbits p br)\<rparr>" using assms(5) by (simp add: br_nbits_def)
    moreover have "updatePathAndGlobalHistory p (br_taken br) (br_pc br) (br_target br) th bi = Inr (th', bi)"
      using True t(1) assms(5) by (simp add: updatePathAndGlobalHistory_def Let_def br_nbits_def updateGHist_def)
    ultimately show ?thesis by metis
  next
    case False
    then show ?thesis using t(1)
      by (intro exI [of _ "br_ghist p br"]) (auto simp: updatePathAndGlobalHistory_def Let_def br_nbits_def br_ghist_def split: if_splits)
  qed
  ultimately show ?thesis by blast
qed

text \<open>What the information of a branch in flight records, with the older branches of the run.\<close>

definition bi_hist :: "TAGEBaseParams \<Rightarrow> branch \<Rightarrow> branch list \<Rightarrow> TageBI \<Rightarrow> bool" where
  "bi_hist p br older bi \<longleftrightarrow> tbi_branchPC bi = br_pc br \<and> tbi_condBranch bi = (\<not> br_uncond br) \<and> tbi_modified bi \<and>
     tbi_pathHist bi = Some (thread_path p (br_tid br) older) \<and> tbi_nGhist bi = of_nat (br_nbits p br)"

lemma restore_thread:
  assumes "th_at p tid (br # fl) dn th" and "br_tid br = tid" and "bi_hist p br (fl @ dn) bi" and "tp_speculativeHistUpdate p"
  shows "\<exists>th' m. restoreHistState p th bi = Inr (th', bi\<lparr>tbi_nGhist := 0, tbi_modified := m\<rparr>) \<and> th_at p tid fl dn th' \<and> th_lens th' = th_lens th"
proof -
  let ?th = "th\<lparr>th_pathHist := thread_path p tid (fl @ dn)\<rparr>"
  have f: "th_follows p (br_bits p br @ thread_bits p tid (fl @ dn)) (length (br_bits p br) + length (thread_bits p tid fl)) ?th"
    using assms(1,2) by (simp add: th_at_def th_follows_def thread_bits_Cons)
  obtain th' where t: "unshift_bits p (br_nbits p br) ?th = Inr th'"
      "th_follows p (thread_bits p tid (fl @ dn)) (length (thread_bits p tid fl)) th'" "th_frame th' = th_frame ?th"
    using unshift_bits_ok [OF f] by auto
  have sh: "th_lens ?th = th_lens th" "th_shape p ?th = th_shape p th" by (simp_all add: th_lens_def th_shape_def)
  have at: "th_at p tid fl dn th'" "th_lens th' = th_lens th"
    using t(2) th_frameD [OF t(3)] sh assms(1) by (simp_all add: th_at_def)
  have b: "tbi_modified bi" "tbi_pathHist bi = Some (thread_path p tid (fl @ dn))" "tbi_nGhist bi = of_nat (br_nbits p br)"
    using assms(2,3) by (simp_all add: bi_hist_def)
  have n: "unat (of_nat (br_nbits p br) :: u8) = br_nbits p br" "(of_nat (br_nbits p br) :: u8) = 0 \<longleftrightarrow> br_nbits p br = 0"
    by (simp_all add: br_nbits_def)
  show ?thesis
  proof (cases "br_nbits p br = 0")
    case True
    then have "bi = bi\<lparr>tbi_nGhist := 0, tbi_modified := True\<rparr>" using b by simp
    then show ?thesis using t(1) True at b assms(4) by (intro exI [of _ th'] exI [of _ True]) (simp add: restoreHistState_def initialised_def)
  next
    case False
    then show ?thesis using t(1) at b n assms(4)
      by (intro exI [of _ th'] exI [of _ False]) (simp add: restoreHistState_def initialised_def)
  qed
qed

section \<open>All threads\<close>

text \<open>The lengths of the folded histories of the tables, those of the element \<open>0\<close> first.\<close>

definition bank_lens :: "TAGEBaseParams \<Rightarrow> int list \<Rightarrow> (int \<times> int) list \<times> (int \<times> int) list \<times> (int \<times> int) list" where
  "bank_lens p hl =
     (let lens = (\<lambda>c. (0, 0) # map (\<lambda>i. (c i, hl ! i)) [1..<unat (tp_nHistoryTables p) + 1])
      in (lens (\<lambda>i. tp_logTagTableSizes p ! i), lens (\<lambda>i. sint (tp_tagTableTagWidths p ! i)), lens (\<lambda>i. sint (tp_tagTableTagWidths p ! i - 1))))"

definition base_at :: "TAGEBaseParams \<Rightarrow> int list \<Rightarrow> branch list \<Rightarrow> branch list \<Rightarrow> TAGEBase \<Rightarrow> bool" where
  "base_at p hl fl dn s \<longleftrightarrow> tables_wf s \<and> tb_params s = p \<and> tb_histLengths s = hl \<and> length (tb_threadHistory s) = unat (tp_numThreads p) \<and> length fl \<le> 500 \<and>
     (\<forall>tid < unat (tp_numThreads p). th_at p tid fl dn (tb_threadHistory s ! tid) \<and>
        th_lens (tb_threadHistory s ! tid) = bank_lens p hl)"

definition bi_at :: "TAGEBaseParams \<Rightarrow> branch \<Rightarrow> branch list \<Rightarrow> TageBI \<Rightarrow> bool" where
  "bi_at p br older bi \<longleftrightarrow> bi_hist p br older bi \<and> (br_uncond br \<or> tbi_valid bi \<and> tbi_ok p bi)"

lemma base_at_keeps: "base_at p hl fl dn s \<Longrightarrow> tables_wf s' \<Longrightarrow> same_hist s s' \<Longrightarrow> base_at p hl fl dn s'"
  by (simp add: base_at_def same_hist_def)

lemma base_at_thread:
  assumes "base_at p hl fl dn s" and "tid < unat (tp_numThreads p)" and "th_at p tid fl' dn' th'" and "th_lens th' = th_lens (tb_threadHistory s ! tid)" and "length fl' \<le> 500"
    and "\<And>t. t \<noteq> tid \<Longrightarrow> th_at p t fl' dn' = th_at p t fl dn"
  shows "base_at p hl fl' dn' (s\<lparr>tb_threadHistory := (tb_threadHistory s)[tid := th']\<rparr>)"
proof -
  have "th_shape p th'" using assms(3) by (simp add: th_at_def)
  then have "tables_wf (s\<lparr>tb_threadHistory := (tb_threadHistory s)[tid := th']\<rparr>)"
    using assms(1) by (auto simp: base_at_def tables_wf_def intro: list_all_update)
  then show ?thesis using assms by (auto simp: base_at_def nth_list_update)
qed

lemma tbi_ok_hist [simp]:
  "tbi_ok p (bi\<lparr>tbi_nGhist := n\<rparr>) = tbi_ok p bi" "tbi_ok p (bi\<lparr>tbi_ghist := g\<rparr>) = tbi_ok p bi"
  "tbi_ok p (bi\<lparr>tbi_modified := m\<rparr>) = tbi_ok p bi" "tbi_ok p (bi\<lparr>tbi_pathHist := ph\<rparr>) = tbi_ok p bi"
  "tbi_ok p (bi\<lparr>tbi_ci := c\<rparr>) = tbi_ok p bi" "tbi_ok p (bi\<lparr>tbi_ct0 := c\<rparr>) = tbi_ok p bi" "tbi_ok p (bi\<lparr>tbi_ct1 := c\<rparr>) = tbi_ok p bi"
  "tbi_ok p (bi\<lparr>tbi_provider := v\<rparr>) = tbi_ok p bi"
  by (simp_all add: tbi_ok_def)

text \<open>The common end of a first update and of a repair: the thread's history is that of the older branches.\<close>

lemma push_base:
  assumes "base_at p hl fl dn s" and "br_tid br < unat (tp_numThreads p)" and "length fl < 500" and "tbi_nGhist bi = 0"
  shows "\<exists>s' g. with_thread s (br_tid br) (\<lambda>th. updatePathAndGlobalHistory p (br_taken br) (br_pc br) (br_target br) th bi) =
      Inr (s', bi\<lparr>tbi_ghist := g, tbi_nGhist := of_nat (br_nbits p br)\<rparr>) \<and> base_at p hl (br # fl) dn s'"
proof -
  have "TAGEBaseParams_ok p" using assms(1) by (auto simp: base_at_def tables_wf_def)
  note h = tage_params(1) [OF this]
  have th: "th_at p (br_tid br) fl dn (tb_threadHistory s ! br_tid br)" "br_tid br < length (tb_threadHistory s)"
    using assms(1,2) by (simp_all add: base_at_def)
  obtain th' g where t: "updatePathAndGlobalHistory p (br_taken br) (br_pc br) (br_target br) (tb_threadHistory s ! br_tid br) bi =
      Inr (th', bi\<lparr>tbi_ghist := g, tbi_nGhist := of_nat (br_nbits p br)\<rparr>)" "th_at p (br_tid br) (br # fl) dn th'"
      "th_lens th' = th_lens (tb_threadHistory s ! br_tid br)"
    using push_thread [OF th(1) h assms(3) refl assms(4)] by blast
  have "base_at p hl (br # fl) dn (s\<lparr>tb_threadHistory := (tb_threadHistory s)[br_tid br := th']\<rparr>)"
    by (rule base_at_thread [OF assms(1,2) t(2,3)]) (use assms(3) in \<open>simp_all add: th_at_other\<close>)
  then show ?thesis using t(1) th(2)
    by (intro exI [of _ "s\<lparr>tb_threadHistory := (tb_threadHistory s)[br_tid br := th']\<rparr>"] exI [of _ g]) (simp add: with_thread_def)
qed

lemma speculate_update:
  assumes "base_at p hl fl dn s" and "br_tid br < unat (tp_numThreads p)" and "length fl < 500"
    and bi: "tbi_branchPC bi = br_pc br" "tbi_condBranch bi = (\<not> br_uncond br)" "\<not> tbi_modified bi" "tbi_nGhist bi = 0"
      "br_uncond br \<or> tbi_valid bi \<and> tbi_ok p bi"
  shows "\<exists>s' bi'. TAGEBase_updateHistories s (br_tid br) (br_pc br) True (br_taken br) (br_target br) bi = Inr (s', bi') \<and>
    base_at p hl (br # fl) dn s' \<and> bi_at p br (fl @ dn) bi'"
proof -
  have p: "tb_params s = p" "tp_speculativeHistUpdate p"
    using assms(1) tage_params(2) by (auto simp: base_at_def tables_wf_def)
  have th: "th_at p (br_tid br) fl dn (tb_threadHistory s ! br_tid br)" "br_tid br < length (tb_threadHistory s)"
    using assms(1,2) by (simp_all add: base_at_def)
  let ?bi = "recordHistState (tb_threadHistory s ! br_tid br) bi"
  have r: "tbi_nGhist ?bi = 0" "tbi_branchPC ?bi = br_pc br" "tbi_condBranch ?bi = (\<not> br_uncond br)" "\<not> tbi_modified ?bi"
      "br_uncond br \<or> tbi_valid ?bi \<and> tbi_ok p ?bi" "tbi_pathHist ?bi = Some (thread_path p (br_tid br) (fl @ dn))"
    using bi th(1) by (simp_all add: recordHistState_def Let_def th_at_def)
  obtain s' g where u: "with_thread s (br_tid br) (\<lambda>th. updatePathAndGlobalHistory p (br_taken br) (br_pc br) (br_target br) th ?bi) =
      Inr (s', ?bi\<lparr>tbi_ghist := g, tbi_nGhist := of_nat (br_nbits p br)\<rparr>)" "base_at p hl (br # fl) dn s'"
    using push_base [OF assms(1-3) r(1)] by blast
  have w: "with_thread s (br_tid br) (\<lambda>th. let bi = (if tp_speculativeHistUpdate p \<and> \<not> tbi_modified bi then recordHistState th bi else bi)
      in if tbi_modified bi then restoreHistState p th bi else Inr (th, bi)) = Inr (s, ?bi)"
    using th(2) bi(3) r(4) p(2) by (simp add: with_thread_def Let_def)
  have v: "(if \<not> tbi_valid ?bi \<and> tbi_condBranch ?bi then calculateIndicesAndTags s (br_tid br) (br_pc br) ?bi else Inr (s, ?bi)) = Inr (s, ?bi)"
    using r(3,5) by auto
  let ?bi2 = "?bi\<lparr>tbi_ghist := g, tbi_nGhist := of_nat (br_nbits p br), tbi_modified := True\<rparr>"
  have "TAGEBase_updateHistories s (br_tid br) (br_pc br) True (br_taken br) (br_target br) bi = Inr (s', ?bi2)"
    unfolding TAGEBase_updateHistories_def Let_def p(1) using w [unfolded Let_def] v u(1) r(1) p(2) by simp
  moreover have "bi_at p br (fl @ dn) ?bi2" using r by (simp add: bi_at_def bi_hist_def)
  ultimately show ?thesis using u(2) by blast
qed

lemma repair_update:
  fixes t :: bool and a :: Addr
  assumes "base_at p hl (br # fl) dn s" and "br_tid br < unat (tp_numThreads p)" and "bi_at p br (fl @ dn) bi"
  defines "br' \<equiv> br\<lparr>br_taken := t, br_target := a\<rparr>"
  shows "\<exists>s' bi'. TAGEBase_squash s (br_tid br) t a bi = Inr (s', bi') \<and> base_at p hl (br' # fl) dn s' \<and> bi_at p br' (fl @ dn) bi'"
proof -
  have p: "tb_params s = p" "tp_speculativeHistUpdate p"
    using assms(1) tage_params(2) by (auto simp: base_at_def tables_wf_def)
  have th: "th_at p (br_tid br) (br # fl) dn (tb_threadHistory s ! br_tid br)" "br_tid br < length (tb_threadHistory s)" "length fl < 500"
    using assms(1,2) by (simp_all add: base_at_def)
  have h: "bi_hist p br (fl @ dn) bi" "br_uncond br \<or> tbi_valid bi \<and> tbi_ok p bi" using assms(3) by (simp_all add: bi_at_def)
  have m: "tbi_modified bi" "tbi_branchPC bi = br_pc br" "tbi_condBranch bi = (\<not> br_uncond br)" using h(1) by (simp_all add: bi_hist_def)
  obtain th' md where r: "restoreHistState p (tb_threadHistory s ! br_tid br) bi = Inr (th', bi\<lparr>tbi_nGhist := 0, tbi_modified := md\<rparr>)"
      "th_at p (br_tid br) fl dn th'" "th_lens th' = th_lens (tb_threadHistory s ! br_tid br)"
    using restore_thread [OF th(1) refl h(1) p(2)] by blast
  let ?s = "s\<lparr>tb_threadHistory := (tb_threadHistory s)[br_tid br := th']\<rparr>" and ?bi = "bi\<lparr>tbi_nGhist := 0, tbi_modified := md\<rparr>"
  have b: "base_at p hl fl dn ?s"
    by (rule base_at_thread [OF assms(1,2) r(2,3)]) (use th(3) in \<open>simp_all add: th_at_other\<close>)
  have br': "br_tid br' = br_tid br" "br_pc br' = br_pc br" "br_taken br' = t" "br_target br' = a" "br_uncond br' = br_uncond br"
    by (simp_all add: br'_def)
  have z: "tbi_nGhist ?bi = 0" by simp
  obtain s' g where u: "with_thread ?s (br_tid br) (\<lambda>th. updatePathAndGlobalHistory p t (br_pc br) a th ?bi) =
      Inr (s', ?bi\<lparr>tbi_ghist := g, tbi_nGhist := of_nat (br_nbits p br')\<rparr>)" "base_at p hl (br' # fl) dn s'"
    using push_base [OF b, of br' ?bi] assms(2) th(3) br' z by auto
  have w: "with_thread s (br_tid br) (\<lambda>th. let bi = (if tp_speculativeHistUpdate p \<and> \<not> tbi_modified bi then recordHistState th bi else bi)
      in if tbi_modified bi then restoreHistState p th bi else Inr (th, bi)) = Inr (?s, ?bi)"
    using th(2) m(1) r(1) by (simp add: with_thread_def Let_def)
  have v: "(if \<not> tbi_valid ?bi \<and> tbi_condBranch ?bi then calculateIndicesAndTags ?s (br_tid br) (br_pc br) ?bi else Inr (?s, ?bi)) = Inr (?s, ?bi)"
    using h(2) m(3) by auto
  let ?bi2 = "?bi\<lparr>tbi_ghist := g, tbi_nGhist := of_nat (br_nbits p br'), tbi_modified := True\<rparr>"
  have "TAGEBase_updateHistories s (br_tid br) (br_pc br) True t a bi = Inr (s', ?bi2)"
  proof -
    have "bind_r (with_thread s (br_tid br) (\<lambda>th. let bi = (if tp_speculativeHistUpdate p \<and> \<not> tbi_modified bi then recordHistState th bi else bi)
      in if tbi_modified bi then restoreHistState p th bi else Inr (th, bi))) k = k (?s, ?bi)" for k :: "TAGEBase \<times> TageBI \<Rightarrow> 'x result"
      unfolding w by simp
    then show ?thesis unfolding TAGEBase_updateHistories_def Let_def p(1) using w [unfolded Let_def] v u(1) p(2) by simp
  qed
  moreover have "bi_at p br' (fl @ dn) ?bi2"
    using h m br' by (simp add: bi_at_def bi_hist_def)
  ultimately show ?thesis using u(2) m(2) by (auto simp: TAGEBase_squash_def)
qed

lemma squash_restore:
  assumes "base_at p hl (br # fl) dn s" and "br_tid br < unat (tp_numThreads p)" and "bi_at p br (fl @ dn) bi"
  shows "\<exists>s' bi'. TAGEBase_restoreHistState s (br_tid br) bi = Inr (s', bi') \<and> base_at p hl fl dn s'"
proof -
  have p: "tb_params s = p" "tp_speculativeHistUpdate p"
    using assms(1) tage_params(2) by (auto simp: base_at_def tables_wf_def)
  have th: "th_at p (br_tid br) (br # fl) dn (tb_threadHistory s ! br_tid br)" "br_tid br < length (tb_threadHistory s)" "length fl < 500"
    using assms(1,2) by (simp_all add: base_at_def)
  have "bi_hist p br (fl @ dn) bi" using assms(3) by (simp add: bi_at_def)
  from restore_thread [OF th(1) refl this p(2)] obtain th' bi' where
    r: "restoreHistState p (tb_threadHistory s ! br_tid br) bi = Inr (th', bi')" "th_at p (br_tid br) fl dn th'"
      "th_lens th' = th_lens (tb_threadHistory s ! br_tid br)" by blast
  have "base_at p hl fl dn (s\<lparr>tb_threadHistory := (tb_threadHistory s)[br_tid br := th']\<rparr>)"
    by (rule base_at_thread [OF assms(1,2) r(2,3)]) (use th(3) in \<open>simp_all add: th_at_other\<close>)
  then show ?thesis using r(1) th(2) p(1) by (simp add: TAGEBase_restoreHistState_def with_thread_def)
qed

lemma commit_update:
  assumes "base_at p hl (fl @ [br]) dn s" and "br_tid br < unat (tp_numThreads p)" and "bi_at p br dn bi"
  shows "\<exists>s' bi'. TAGEBase_updateHistories s (br_tid br) (br_pc br) False (br_taken br) (br_target br) bi = Inr (s', bi') \<and>
    base_at p hl fl (br # dn) s'"
proof -
  have p: "tb_params s = p" "tp_speculativeHistUpdate p"
    using assms(1) tage_params(2) by (auto simp: base_at_def tables_wf_def)
  have th: "th_at p (br_tid br) (fl @ [br]) dn (tb_threadHistory s ! br_tid br)" "br_tid br < length (tb_threadHistory s)" "length fl \<le> 500"
    using assms(1,2) by (simp_all add: base_at_def)
  have b: "tbi_pathHist bi = Some (thread_path p (br_tid br) dn)" using assms(3) by (simp add: bi_at_def bi_hist_def)
  let ?th = "(tb_threadHistory s ! br_tid br)\<lparr>th_nonSpecPathHist := calcNewPathHist p (br_pc br) (thread_path p (br_tid br) dn) (br_taken br)\<rparr>"
  have less: "th_follows p H (length (thread_bits p tid fl)) th" if "th_follows p H (length (thread_bits p tid (fl @ [br]))) th" for H tid th
    using that by (rule th_follows_mono) (simp add: thread_bits_append)
  have "th_follows p (thread_bits p (br_tid br) (fl @ br # dn)) (length (thread_bits p (br_tid br) fl)) ?th"
    using less [of "thread_bits p (br_tid br) (fl @ br # dn)" "br_tid br" "tb_threadHistory s ! br_tid br"] th(1)
    by (simp add: th_at_def th_follows_def)
  then have at: "th_at p (br_tid br) fl (br # dn) ?th"
    using th(1) by (simp add: th_at_def thread_path_Cons th_shape_def)
  have ot: "th_at p t fl (br # dn) (tb_threadHistory s ! t)" if "t \<noteq> br_tid br" "t < unat (tp_numThreads p)" for t
  proof -
    have "th_at p t (fl @ [br]) dn (tb_threadHistory s ! t)" using assms(1) that(2) by (simp add: base_at_def)
    then show ?thesis using that(1) less [of "thread_bits p t (fl @ br # dn)" t] by (simp add: th_at_def thread_path_Cons)
  qed
  have "base_at p hl fl (br # dn) (s\<lparr>tb_threadHistory := (tb_threadHistory s)[br_tid br := ?th]\<rparr>)"
  proof -
    have "th_shape p ?th" using th(1) by (simp add: th_at_def th_shape_def)
    then have "tables_wf (s\<lparr>tb_threadHistory := (tb_threadHistory s)[br_tid br := ?th]\<rparr>)"
      using assms(1) by (auto simp: base_at_def tables_wf_def intro: list_all_update)
    moreover have "th_lens ?th = th_lens (tb_threadHistory s ! br_tid br)" by (simp add: th_lens_def)
    ultimately show ?thesis using assms(1,2) at ot th(3) by (auto simp: base_at_def nth_list_update)
  qed
  then show ?thesis using p b th(2) by (simp add: TAGEBase_updateHistories_def with_thread_def initialised_def)
qed

section \<open>Construction\<close>

lemma folded_Nil: "folded C [] L = 0"
  by (induction L) simp_all

lemma FoldedHistory_init_ok:
  assumes "1 \<le> c" and "c < 32" and "0 \<le> l" and "l \<le> int m"
  shows "\<exists>fh. FoldedHistory_init l c = Inr fh \<and> fh_ok m [] fh \<and> fh_lens fh = (c, l)"
proof -
  have "l smod c = l mod c" using assms by (simp add: smod_int_alt_def sgn_if)
  then show ?thesis using assms by (simp add: FoldedHistory_init_def fh_ok_def fh_lens_def folded_Nil)
qed

lemma histLengths_ok:
  assumes "TAGEBaseParams_ok p" and "lengths_ok len p"
  shows "\<exists>hl. calculateParameters len p = Inr hl \<and> length hl = unat (tp_nHistoryTables p) + 1 \<and>
    (\<forall>i \<in> {1..unat (tp_nHistoryTables p)}. 0 \<le> hl ! i \<and> hl ! i \<le> int (unat (tp_maxHist p)))"
proof -
  let ?n = "unat (tp_nHistoryTables p)" and ?M = "tp_maxHist p"
  define hl where "hl = map (\<lambda>i. if 2 \<le> i then len i else if i = ?n then sint ?M else if i = 1 then sint (tp_minHist p) else 0) [0..<?n + 1]"
  have "unat ?M < 2 ^ 31" using tage_params(1) [OF assms(1)] by (simp add: hist_params_ok_def)
  moreover have le: "unat (tp_minHist p) \<le> unat ?M" using assms(1) by (simp add: TAGEBaseParams_ok_def word_le_nat_alt)
  ultimately have s: "sint ?M = int (unat ?M)" "sint (tp_minHist p) = int (unat (tp_minHist p))" by (simp_all add: sint_less)
  have "0 \<le> hl ! i \<and> hl ! i \<le> int (unat ?M)" if "i \<in> {1..?n}" for i
  proof (cases "2 \<le> i")
    case True
    then have "i \<in> set [2..<?n + 1]" using that by auto
    then have "0 \<le> len i \<and> len i \<le> int (unat ?M)" using assms(2) unfolding lengths_ok_def list_all_iff by blast
    moreover have "hl ! i = len i" using True that by (auto simp: hl_def nth_append)
    ultimately show ?thesis by simp
  next
    case False
    then have "hl ! i = (if i = ?n then sint ?M else sint (tp_minHist p))" using that by (auto simp: hl_def nth_append)
    then show ?thesis unfolding s using le by (simp only: of_nat_le_iff of_nat_0_le_iff order_refl simp_thms split: if_splits)
  qed
  then show ?thesis using tage_params(3) [OF assms(1)]
    by (intro exI [of _ hl]) (simp add: calculateParameters_def Let_def hl_def)
qed

lemma folds_ok:
  assumes "\<And>i. i \<in> set banks \<Longrightarrow> 1 \<le> c i \<and> c i < 32 \<and> 0 \<le> hl ! i \<and> hl ! i \<le> int m"
  shows "\<exists>fhs. map_r (\<lambda>i. FoldedHistory_init (hl ! i) (c i)) banks = Inr fhs \<and> map fh_lens fhs = map (\<lambda>i. (c i, hl ! i)) banks \<and>
    list_all (fh_ok m []) fhs"
proof -
  have "\<exists>fh. FoldedHistory_init (hl ! i) (c i) = Inr fh \<and> fh_ok m [] fh \<and> fh_lens fh = (c i, hl ! i)" if "i \<in> set banks" for i
    using FoldedHistory_init_ok assms [OF that] by blast
  from map_r_total [of banks "\<lambda>i. FoldedHistory_init (hl ! i) (c i)" "\<lambda>i fh. fh_ok m [] fh \<and> fh_lens fh = (c i, hl ! i)", OF this] show ?thesis
    by (auto simp: list_all2_conv_all_nth list_all_length intro!: nth_equalityI)
qed

lemma initFoldedHistories_ok:
  assumes "TAGEBaseParams_ok p" and "\<forall>i \<in> {1..unat (tp_nHistoryTables p)}. 0 \<le> hl ! i \<and> hl ! i \<le> int (unat (tp_maxHist p))"
    and "th_pathHist th = 0" "th_nonSpecPathHist th = 0" "th_globalHist th = replicate (unat (tp_histBufferSize p)) 0" "th_ptGhist th = 0"
  shows "\<exists>th'. initFoldedHistories p hl th = Inr th' \<and> th_at p tid [] [] th' \<and> th_lens th' = bank_lens p hl"
proof -
  let ?n = "unat (tp_nHistoryTables p)" and ?m = "unat (tp_maxHist p)" and ?banks = "[1..<unat (tp_nHistoryTables p) + 1]"
  have b: "1 \<le> tp_logTagTableSizes p ! i \<and> tp_logTagTableSizes p ! i < 32" "1 \<le> sint (tp_tagTableTagWidths p ! i) \<and> sint (tp_tagTableTagWidths p ! i) < 32"
      "1 \<le> sint (tp_tagTableTagWidths p ! i - 1) \<and> sint (tp_tagTableTagWidths p ! i - 1) < 32" "0 \<le> hl ! i \<and> hl ! i \<le> int ?m"
    if "i \<in> set ?banks" for i
  proof -
    have i: "1 \<le> i" "i \<le> ?n" using that by auto
    note o = bank_okD [OF assms(1) i]
    show "1 \<le> tp_logTagTableSizes p ! i \<and> tp_logTagTableSizes p ! i < 32" using o(1,2) i(1) by linarith
    let ?w = "tp_tagTableTagWidths p ! i"
    have s: "sint ?w = int (unat ?w)" by (rule sint_less) (use o(4) in simp)
    show "1 \<le> sint ?w \<and> sint ?w < 32" unfolding s using o(3,4) by linarith
    have "?w \<noteq> 0" using o(3) by auto
    then have m: "unat (?w - 1) = unat ?w - 1" by (rule unat_minus_one)
    then have "unat (?w - 1) < 2 ^ 31" using o(4) by simp
    from sint_less [OF this] have s1: "sint (?w - 1) = int (unat ?w - 1)" using m by simp
    show "1 \<le> sint (?w - 1) \<and> sint (?w - 1) < 32" unfolding s1 using o(3,4) by linarith
    have "i \<in> {1..?n}" using i by simp
    then show "0 \<le> hl ! i \<and> hl ! i \<le> int ?m" using assms(2) by blast
  qed
  obtain ci where ci: "map_r (\<lambda>i. FoldedHistory_init (hl ! i) (tp_logTagTableSizes p ! i)) ?banks = Inr ci" "map fh_lens ci = map (\<lambda>i. (tp_logTagTableSizes p ! i, hl ! i)) ?banks"
       "list_all (fh_ok ?m []) ci"
    using folds_ok [of ?banks "\<lambda>i. tp_logTagTableSizes p ! i" hl ?m] b by blast
  obtain c0 where c0: "map_r (\<lambda>i. FoldedHistory_init (hl ! i) (sint (tp_tagTableTagWidths p ! i))) ?banks = Inr c0"
      "map fh_lens c0 = map (\<lambda>i. (sint (tp_tagTableTagWidths p ! i), hl ! i)) ?banks" "list_all (fh_ok ?m []) c0"
    using folds_ok [of ?banks "\<lambda>i. sint (tp_tagTableTagWidths p ! i)" hl ?m] b by blast
  obtain c1 where c1: "map_r (\<lambda>i. FoldedHistory_init (hl ! i) (sint (tp_tagTableTagWidths p ! i - 1))) ?banks = Inr c1"
      "map fh_lens c1 = map (\<lambda>i. (sint (tp_tagTableTagWidths p ! i - 1), hl ! i)) ?banks" "list_all (fh_ok ?m []) c1"
    using folds_ok [of ?banks "\<lambda>i. sint (tp_tagTableTagWidths p ! i - 1)" hl ?m] b by blast
  let ?t = "th\<lparr>th_computeIndices := FoldedHistory_default # ci, th_computeTags0 := FoldedHistory_default # c0, th_computeTags1 := FoldedHistory_default # c1\<rparr>"
  have "initFoldedHistories p hl th = Inr ?t" unfolding initFoldedHistories_def Let_def ci(1) c0(1) c1(1) by simp
  moreover have "int ?m < int (unat (tp_histBufferSize p))"
    unfolding of_nat_less_iff using tage_params(1) [OF assms(1)] by (simp add: hist_params_ok_def)
  then have "th_at p tid [] [] ?t"
    using assms(3-6) ci(3) c0(3) c1(3) map_eq_imp_length_eq [OF ci(2)] map_eq_imp_length_eq [OF c0(2)] map_eq_imp_length_eq [OF c1(2)]
    by (simp add: th_at_def th_follows_def window_def thread_bits_def thread_path_def th_shape_def)
  moreover have "th_lens ?t = bank_lens p hl"
    using ci(2) c0(2) c1(2) by (simp add: th_lens_def bank_lens_def Let_def FoldedHistory_default_def fh_lens_def del: upt_Suc)
  ultimately show ?thesis by blast
qed

lemma TAGEBase_init_ok:
  assumes "TAGEBaseParams_ok p" and "lengths_ok len p"
  shows "\<exists>s hl. calculateParameters len p = Inr hl \<and> TAGEBase_init len (TAGEBase_new p) = Inr s \<and> base_at p hl [] [] s"
proof -
  let ?n = "unat (tp_nHistoryTables p)" and ?banks = "[1..<unat (tp_nHistoryTables p) + 1]" and ?l0 = "tp_logTagTableSizes p ! 0"
  obtain hl where hl: "calculateParameters len p = Inr hl" "length hl = ?n + 1"
      "\<forall>i \<in> {1..?n}. 0 \<le> hl ! i \<and> hl ! i \<le> int (unat (tp_maxHist p))"
    using histLengths_ok [OF assms] by blast
  let ?th = "\<lparr>th_pathHist = 0, th_nonSpecPathHist = 0, th_globalHist = replicate (unat (tp_histBufferSize p)) 0,
      th_ptGhist = 0, th_computeIndices = [], th_computeTags0 = [], th_computeTags1 = []\<rparr>"
  obtain th where th: "initFoldedHistories p hl ?th = Inr th"
    using initFoldedHistories_ok [OF assms(1) hl(3), of ?th] by auto
  have at: "th_at p tid [] [] th" "th_lens th = bank_lens p hl" for tid
    using initFoldedHistories_ok [OF assms(1) hl(3), of ?th tid] th by auto
  have ths: "map_r (\<lambda>th. initFoldedHistories p hl (th\<lparr>th_pathHist := 0, th_nonSpecPathHist := 0,
      th_globalHist := replicate (unat (tp_histBufferSize p)) 0, th_ptGhist := 0\<rparr>)) (tb_threadHistory (TAGEBase_new p)) =
      Inr (replicate (unat (tp_numThreads p)) th)"
    using th by (subst map_r_Inr [of _ _ "\<lambda>_. th"]) (auto simp: TAGEBase_new_def Let_def map_replicate_const)
  let ?tab = "\<lambda>i. replicate (2 ^ nat (tp_logTagTableSizes p ! i)) TageEntry_default"
  have t: "buildTageTables p = Inr ([] # map ?tab ?banks)"
    unfolding buildTageTables_def using bank_okD(1,2) [OF assms(1)]
    by (subst map_r_Inr [of _ _ ?tab]) (fastforce intro!: check_simps(1))+
  note p = tage_params [OF assms(1)]
  define s where "s = (TAGEBase_new p)\<lparr>tb_tCounter := word_of_int (tp_initialTCounterValue p),
     tb_useAltPredForNewlyAllocated := replicate (unat (tp_numUseAltOnNa p)) 0,
     tb_threadHistory := replicate (unat (tp_numThreads p)) th, tb_histLengths := hl,
     tb_btablePrediction := replicate (2 ^ nat ?l0) False,
     tb_btableHysteresis := replicate (2 ^ nat ?l0 div 2 ^ unat (tp_logRatioBiModalHystEntries p)) True,
     tb_gtable := [] # map ?tab ?banks, tb_tableIndices := replicate (?n + 1) None, tb_tableTags := replicate (?n + 1) None,
     tb_initialized := True\<rparr>"
  note d = assms(1) [unfolded TAGEBaseParams_ok_def]
  have c: "tp_tagTableUBits p \<le> 2 \<and> tp_tagTableUBits p > 0" "tp_pathHistBits p \<le> 32" "tp_logUResetPeriod p \<noteq> 0"
    using d by (auto simp: word_le_nat_alt word_less_nat_alt)
  have h: "tp_histBufferSize p > tp_maxHist p * 3"
  proof -
    have "unat (tp_maxHist p) * 3 < unat (tp_histBufferSize p)" using d by blast
    moreover have "unat (tp_histBufferSize p) < 2 ^ 31" using p(1) by (simp add: hist_params_ok_def)
    ultimately have "unat (tp_maxHist p * 3) = unat (tp_maxHist p) * 3" by (subst unat_mult_lem [THEN iffD1]) simp_all
    then show ?thesis using d by (simp add: word_less_nat_alt)
  qed
  have l: "length (tp_tagTableTagWidths p) = ?n + 1" "length (tp_logTagTableSizes p) = ?n + 1" "tp_tagTableTagWidths p ! 0 = 0" using d by blast+
  have b: "0 \<le> ?l0 \<and> ?l0 < 64 \<and> tp_logRatioBiModalHystEntries p < 64"
    using p(5-7) by (simp add: word_less_nat_alt nat_less_iff)
  have new: "tb_params (TAGEBase_new p) = p" "\<not> tb_initialized (TAGEBase_new p)" by (simp_all add: TAGEBase_new_def Let_def)
  have "TAGEBase_init len (TAGEBase_new p) = Inr s"
    unfolding TAGEBase_init_def Let_def new(1) hl(1) bind_r_simps ths t
    using new(2) by (simp only: c h l b check_simps bind_r_simps if_False simp_thms s_def)
  moreover have "gtable_ok p ([] # map ?tab ?banks)"
  proof -
    have "te_ok p i TageEntry_default" for i using p(10) by (simp add: te_ok_def TageEntry_default_def signed_within_def)
    moreover have "([] # map ?tab ?banks) ! i = ?tab i" if "i \<in> {1..?n}" for i
      using that nth_upt [of 1 "i - 1" "?n + 1"] by (cases i) (simp_all del: upt_Suc)
    ultimately show ?thesis unfolding gtable_ok_def by (auto simp del: upt_Suc)
  qed
  then have "tables_wf s"
    using assms(1) hl(2) p(14) at(1) [of 0] d
    by (auto simp: tables_wf_def s_def TAGEBase_new_def Let_def bimodal_ok_def alt_ok_def stats_len_def TAGEBaseStats_init_def
        th_at_def signed_within_def simp del: upt_Suc)
  then have "base_at p hl [] [] s" using at by (simp add: base_at_def s_def TAGEBase_new_def Let_def)
  ultimately show ?thesis using hl(1) by blast
qed

text \<open>What the relation says of the folded histories of a table.\<close>

lemma base_at_folds:
  assumes "base_at p hl fl dn s" and "tid < unat (tp_numThreads p)" and "1 \<le> i" and "i \<le> unat (tp_nHistoryTables p)"
  defines "th \<equiv> tb_threadHistory s ! tid" and "H \<equiv> thread_bits p tid (fl @ dn)"
  shows "fh_comp (th_computeIndices th ! i) = folded (nat (tp_logTagTableSizes p ! i)) H (nat (hl ! i))"
    and "fh_comp (th_computeTags0 th ! i) = folded (unat (tp_tagTableTagWidths p ! i)) H (nat (hl ! i))"
    and "fh_comp (th_computeTags1 th ! i) = folded (unat (tp_tagTableTagWidths p ! i) - 1) H (nat (hl ! i))"
proof -
  have p: "TAGEBaseParams_ok p" using assms(1) by (auto simp: base_at_def tables_wf_def)
  note w = bank_okD [OF p assms(3,4)]
  let ?w = "tp_tagTableTagWidths p ! i"
  have s0: "sint ?w = int (unat ?w)" by (rule sint_less) (use w(4) in simp)
  have "?w \<noteq> 0" using w(3) by auto
  then have m: "unat (?w - 1) = unat ?w - 1" by (rule unat_minus_one)
  then have "unat (?w - 1) < 2 ^ 31" using w(4) by simp
  from sint_less [OF this] have s1: "sint (?w - 1) = int (unat ?w - 1)" using m by simp
  have at: "th_at p tid fl dn th" "th_lens th = bank_lens p hl" using assms(1,2) by (simp_all add: base_at_def th_def)
  have one: "fh_comp (fhs ! i) = folded (nat (c i)) H (nat (hl ! i))"
    if "list_all (fh_ok m H) (tl fhs)" "map fh_lens fhs = (0, 0) # map (\<lambda>i. (c i, hl ! i)) [1..<unat (tp_nHistoryTables p) + 1]" for fhs c m
  proof -
    have l: "length fhs = unat (tp_nHistoryTables p) + 1" using arg_cong [OF that(2), of length] by simp
    have "fh_lens (fhs ! i) = ((0, 0) # map (\<lambda>i. (c i, hl ! i)) [1..<unat (tp_nHistoryTables p) + 1]) ! i"
      using arg_cong [OF that(2), of "\<lambda>xs. xs ! i"] l assms(4) by simp
    also have "\<dots> = (c i, hl ! i)"
      using assms(3,4) nth_upt [of 1 "i - 1" "unat (tp_nHistoryTables p) + 1"] by (cases i) (simp_all del: upt_Suc)
    finally have f: "fh_compLength (fhs ! i) = c i" "fh_origLength (fhs ! i) = hl ! i" by (simp_all add: fh_lens_def)
    have "fhs ! i = tl fhs ! (i - 1)" "i - 1 < length (tl fhs)" using l assms(3,4) by (simp_all add: nth_tl)
    then have "fh_ok m H (fhs ! i)" using that(1) by (simp add: list_all_length)
    then show ?thesis using f by (simp add: fh_ok_def)
  qed
  have fo: "list_all (fh_ok (unat (tp_maxHist p)) H) (tl (th_computeIndices th))" "list_all (fh_ok (unat (tp_maxHist p)) H) (tl (th_computeTags0 th))"
      "list_all (fh_ok (unat (tp_maxHist p)) H) (tl (th_computeTags1 th))"
    using at(1) by (simp_all add: th_at_def th_follows_def H_def)
  note le = at(2) [unfolded th_lens_def bank_lens_def Let_def prod.inject]
  show "fh_comp (th_computeIndices th ! i) = folded (nat (tp_logTagTableSizes p ! i)) H (nat (hl ! i))" by (rule one [OF fo(1) conjunct1 [OF le]])
  show "fh_comp (th_computeTags0 th ! i) = folded (unat ?w) H (nat (hl ! i))" 
    using one [OF fo(2) conjunct1 [OF conjunct2 [OF le]]] by (simp only: s0 nat_int)
  show "fh_comp (th_computeTags1 th ! i) = folded (unat ?w - 1) H (nat (hl ! i))" 
    using one [OF fo(3) conjunct2 [OF conjunct2 [OF le]]] by (simp only: s1 nat_int)
qed

end
