(* ===== verification/Bounded_History.thy ===== *)
theory Bounded_History
  imports Conditional_Predictor
begin

text \<open>
  Conditional predictors whose histories can be taken back only for a bounded number of branches.
  In contrast to the contract \<open>speculative_history\<close> a repair may change the history object of the
  branch, and a prediction may assume that fewer than \<open>limit\<close> branches are in flight.  The locale
  \<open>bounded_history\<close> derives from the laws of the four operations that every run within the limit
  returns and keeps the relation between the state and the branches.
\<close>

text \<open>Fewer than \<open>k\<close> branches are in flight when one is predicted.\<close>

fun within_limit :: "nat \<Rightarrow> branch list \<times> branch list \<Rightarrow> cp_event list \<Rightarrow> bool" where
  "within_limit k brs [] = True"
| "within_limit k brs (ev # evs) =
     ((case ev of Speculate _ \<Rightarrow> length (fst brs) < k | _ \<Rightarrow> True) \<and> within_limit k (br_step brs ev) evs)"

locale bounded_history =
  fixes cp :: "('s, 'h) ConditionalPredictor"
    and follows :: "'s \<Rightarrow> branch list \<Rightarrow> branch list \<Rightarrow> bool"
    and recorded :: "branch \<Rightarrow> 'h option \<Rightarrow> branch list \<Rightarrow> bool"
    and br_ok :: "branch \<Rightarrow> bool"
    and limit :: nat
  assumes br_ok_repair: "br_ok br \<Longrightarrow> br_ok (br\<lparr>br_taken := t, br_target := a\<rparr>)"
    and speculate_law: "\<lbrakk>follows s fl dn; br_ok br; length fl < limit\<rbrakk> \<Longrightarrow>
      \<exists>b s' h. speculate cp s br = Inr (b, s', h) \<and> follows s' (br # fl) dn \<and> recorded br h (fl @ dn)"
    and squash_law: "\<lbrakk>follows s (br # fl) dn; br_ok br; recorded br h (fl @ dn)\<rbrakk> \<Longrightarrow>
      \<exists>s'. cp_squash cp s (br_tid br) h = Inr (s', None) \<and> follows s' fl dn"
    and repair_law: "\<lbrakk>follows s (br # fl) dn; br_ok br; recorded br h (fl @ dn)\<rbrakk> \<Longrightarrow>
      \<exists>s' h'. cp_update cp s (br_tid br) (br_pc br) t h True (br_inst br) a = Inr (s', h') \<and>
        follows s' (br\<lparr>br_taken := t, br_target := a\<rparr> # fl) dn \<and> recorded (br\<lparr>br_taken := t, br_target := a\<rparr>) h' (fl @ dn)"
    and commit_law: "\<lbrakk>follows s (fl @ [br]) dn; br_ok br; recorded br h dn\<rbrakk> \<Longrightarrow>
      \<exists>s'. cp_update cp s (br_tid br) (br_pc br) (br_taken br) h False (br_inst br) (br_target br) = Inr (s', None) \<and>
        follows s' fl (br # dn)"
begin

fun chained :: "branch list \<Rightarrow> (branch \<times> 'h option) list \<Rightarrow> bool" where
  "chained dn [] = True"
| "chained dn ((br, h) # fl) = (br_ok br \<and> recorded br h (map fst fl @ dn) \<and> chained dn fl)"

lemma chained_snoc:
  assumes "chained dn (fl @ [(br, h)])"
  shows "chained (br # dn) fl" and "br_ok br" and "recorded br h dn"
  using assms by (induction fl) auto

definition simulates :: "'s \<times> (branch \<times> 'h option) list \<Rightarrow> branch list \<times> branch list \<Rightarrow> bool" where
  "simulates st brs \<longleftrightarrow> follows (fst st) (fst brs) (snd brs) \<and> map fst (snd st) = fst brs \<and> chained (snd brs) (snd st)"

lemma simulates_step:
  assumes "simulates (s, fl) (bl, dn)" and "event_ok br_ok ev" and "case ev of Speculate _ \<Rightarrow> length bl < limit | _ \<Rightarrow> True"
  shows "\<exists>st'. cp_step cp (s, fl) ev = Inr st' \<and> simulates st' (br_step (bl, dn) ev)"
proof (cases ev)
  case (Speculate br)
  obtain b s' h where "speculate cp s br = Inr (b, s', h)" "follows s' (br # bl) dn" "recorded br h (bl @ dn)"
    using speculate_law [of s bl dn br] assms Speculate by (auto simp: simulates_def)
  then show ?thesis using Speculate assms by (auto simp: simulates_def)
next
  case Squash
  show ?thesis
  proof (cases fl)
    case (Cons e fl')
    obtain br h where e: "e = (br, h)" by (cases e)
    obtain s' where "cp_squash cp s (br_tid br) h = Inr (s', None)" "follows s' (tl bl) dn"
      using squash_law [of s br "tl bl" dn h] assms(1) Cons e by (auto simp: simulates_def)
    then show ?thesis using Squash Cons e assms(1) by (auto simp: simulates_def)
  qed (use Squash assms(1) in \<open>auto simp: simulates_def\<close>)
next
  case (Repair t a)
  show ?thesis
  proof (cases fl)
    case (Cons e fl')
    obtain br h where e: "e = (br, h)" by (cases e)
    obtain s' h' where "cp_update cp s (br_tid br) (br_pc br) t h True (br_inst br) a = Inr (s', h')"
        "follows s' (br\<lparr>br_taken := t, br_target := a\<rparr> # tl bl) dn" "recorded (br\<lparr>br_taken := t, br_target := a\<rparr>) h' (tl bl @ dn)"
      using repair_law [of s br "tl bl" dn h t a] assms(1) Cons e by (auto simp: simulates_def)
    then show ?thesis using Repair Cons e assms(1) br_ok_repair by (auto simp: simulates_def)
  qed (use Repair assms(1) in \<open>auto simp: simulates_def\<close>)
next
  case Commit
  show ?thesis
  proof (cases fl rule: rev_cases)
    case (snoc fl' e)
    obtain br h where e: "e = (br, h)" by (cases e)
    have "chained dn (fl' @ [(br, h)])" using assms(1) snoc e by (simp add: simulates_def)
    note c = chained_snoc [OF this]
    have bl: "bl = map fst fl' @ [br]" using assms(1) snoc e by (simp add: simulates_def)
    obtain s' where "cp_update cp s (br_tid br) (br_pc br) (br_taken br) h False (br_inst br) (br_target br) = Inr (s', None)"
        "follows s' (map fst fl') (br # dn)"
      using commit_law [of s "map fst fl'" br dn h] assms(1) c bl by (auto simp: simulates_def)
    then show ?thesis using Commit snoc e bl c(1) by (auto simp: simulates_def)
  qed (use Commit assms(1) in \<open>auto simp: simulates_def\<close>)
qed

lemma simulates_run:
  assumes "simulates st brs" and "list_all (event_ok br_ok) evs" and "within_limit limit brs evs"
  shows "\<exists>st'. cp_run cp st evs = Inr st' \<and> simulates st' (br_run brs evs)"
  using assms
proof (induction evs arbitrary: st brs)
  case (Cons ev evs)
  obtain st1 where "cp_step cp st ev = Inr st1" "simulates st1 (br_step brs ev)"
    using simulates_step [of "fst st" "snd st" "fst brs" "snd brs" ev] Cons.prems by auto
  with Cons.IH [of st1 "br_step brs ev"] Cons.prems show ?case by (simp add: br_run_def)
qed (simp add: br_run_def)

theorem bounded_run:
  assumes "follows s [] []" and "list_all (event_ok br_ok) evs" and "within_limit limit ([], []) evs"
  shows "\<exists>s' fl. cp_run cp (s, []) evs = Inr (s', fl) \<and> map fst fl = fst (br_run ([], []) evs) \<and>
    follows s' (fst (br_run ([], []) evs)) (snd (br_run ([], []) evs))"
proof -
  have "simulates (s, []) ([], [])" using assms(1) by (simp add: simulates_def)
  from simulates_run [OF this assms(2,3)] show ?thesis by (auto simp: simulates_def)
qed

end

end
