(* ===== verification/Tage.thy ===== *)
theory Tage
  imports Tage_Speculation Bounded_History
begin

text \<open>
  The predictor \<open>TAGE\<close> of \<open>cpu/pred/tage.cc\<close>: the methods of \<open>ConditionalPredictor\<close> on top of
  \<open>TAGEBase\<close>.  The random number generator is a parameter, with its state in the predictor.  \<open>lookup\<close>
  and \<open>updateHistories\<close> call the virtual method \<open>predict\<close>, which is an argument, since \<open>LTAGE\<close> inherits
  them with its own \<open>predict\<close>.
\<close>

section \<open>The predictor\<close>

record 'g TAGE =
  tg_tage :: TAGEBase
  tg_rng :: 'g

record TageBranchInfo =
  tgi_tageBranchInfo :: TageBI

definition TAGE_predict :: "'g TAGE \<Rightarrow> ThreadID \<Rightarrow> Addr \<Rightarrow> bool \<Rightarrow> (bool \<times> 'g TAGE \<times> TageBranchInfo) result" where
  "TAGE_predict s tid pc is_cond =
     bind_r (tagePredict (tg_tage s) tid pc is_cond (makeBranchInfo (tg_tage s) pc is_cond)) (\<lambda>(pred, t, bi).
       Inr (pred, s\<lparr>tg_tage := t\<rparr>, \<lparr>tgi_tageBranchInfo = bi\<rparr>))"

definition TAGE_lookup ::
  "('s \<Rightarrow> ThreadID \<Rightarrow> Addr \<Rightarrow> bool \<Rightarrow> (bool \<times> 's \<times> 'h) result) \<Rightarrow> 's \<Rightarrow> ThreadID \<Rightarrow> Addr \<Rightarrow> 'h option \<Rightarrow> (bool \<times> 's \<times> 'h option) result" where
  "TAGE_lookup predict s tid pc bp_history = bind_r (predict s tid pc True) (\<lambda>(retval, s, bi). Inr (retval, s, Some bi))"

definition TAGE_updateHistories ::
  "(('g, 'z) TAGE_scheme \<Rightarrow> ThreadID \<Rightarrow> Addr \<Rightarrow> bool \<Rightarrow> (bool \<times> ('g, 'z) TAGE_scheme \<times> 'y TageBranchInfo_scheme) result) \<Rightarrow>
   ('g, 'z) TAGE_scheme \<Rightarrow> ThreadID \<Rightarrow> Addr \<Rightarrow> bool \<Rightarrow> bool \<Rightarrow> Addr \<Rightarrow> StaticInst \<Rightarrow> 'y TageBranchInfo_scheme option \<Rightarrow>
   (('g, 'z) TAGE_scheme \<times> 'y TageBranchInfo_scheme option) result" where
  "TAGE_updateHistories predict s tid pc uncond taken target inst bp_history =
     bind_r (case bp_history of
               None \<Rightarrow> check uncond (Assert ''uncond'') (bind_r (predict s tid pc False) (\<lambda>(_, s, bi). Inr (s, bi)))
             | Some bi \<Rightarrow> Inr (s, bi)) (\<lambda>(s, bi).
       bind_r (TAGEBase_updateHistories (tg_tage s) tid pc True taken target (tgi_tageBranchInfo bi)) (\<lambda>(t, b).
         Inr (s\<lparr>tg_tage := t\<rparr>, Some (bi\<lparr>tgi_tageBranchInfo := b\<rparr>))))"

definition TAGE_update ::
  "('g \<Rightarrow> int \<times> 'g) \<Rightarrow> 'g TAGE \<Rightarrow> ThreadID \<Rightarrow> Addr \<Rightarrow> bool \<Rightarrow> TageBranchInfo option \<Rightarrow> bool \<Rightarrow> StaticInst \<Rightarrow> Addr \<Rightarrow>
   ('g TAGE \<times> TageBranchInfo option) result" where
  "TAGE_update rnd s tid pc taken bp_history squashed inst target =
     (case bp_history of
        None \<Rightarrow> Inl (Assert ''bp_history'')
      | Some bi \<Rightarrow>
          let tage_bi = tgi_tageBranchInfo bi
          in if squashed
             then bind_r (TAGEBase_squash (tg_tage s) tid taken target tage_bi) (\<lambda>(t, b).
                    Inr (s\<lparr>tg_tage := t\<rparr>, Some (bi\<lparr>tgi_tageBranchInfo := b\<rparr>)))
             else let (r, g) = rnd (tg_rng s); nrand = r AND 3
                  in bind_r (if tbi_condBranch tage_bi
                             then bind_r (TAGEBase_updateStats (tg_tage s) taken tage_bi) (\<lambda>t.
                                    TAGEBase_condBranchUpdate t pc taken tage_bi nrand (tbi_tagePred tage_bi) False)
                             else Inr (tg_tage s)) (\<lambda>t.
                     bind_r (TAGEBase_updateHistories t tid pc False taken target tage_bi) (\<lambda>(t, b).
                       Inr (s\<lparr>tg_tage := t, tg_rng := g\<rparr>, None))))"

definition TAGE_squash ::
  "('g, 'z) TAGE_scheme \<Rightarrow> ThreadID \<Rightarrow> 'y TageBranchInfo_scheme option \<Rightarrow>
   (('g, 'z) TAGE_scheme \<times> 'y TageBranchInfo_scheme option) result" where
  "TAGE_squash s tid bp_history =
     (case bp_history of
        None \<Rightarrow> Inl Undefined
      | Some bi \<Rightarrow> bind_r (TAGEBase_restoreHistState (tg_tage s) tid (tgi_tageBranchInfo bi)) (\<lambda>(t, _). Inr (s\<lparr>tg_tage := t\<rparr>, None)))"

definition TAGE_branchPlaceholder ::
  "'g TAGE \<Rightarrow> ThreadID \<Rightarrow> Addr \<Rightarrow> bool \<Rightarrow> TageBranchInfo option \<Rightarrow> ('g TAGE \<times> TageBranchInfo option) result" where
  "TAGE_branchPlaceholder s tid pc uncond bpHistory = Inr (s, Some \<lparr>tgi_tageBranchInfo = makeBranchInfo (tg_tage s) pc (\<not> uncond)\<rparr>)"

definition TAGE_ops :: "('g \<Rightarrow> int \<times> 'g) \<Rightarrow> ('g TAGE, TageBranchInfo) ConditionalPredictor" where
  "TAGE_ops rnd = \<lparr>cp_lookup = TAGE_lookup TAGE_predict, cp_updateHistories = TAGE_updateHistories TAGE_predict,
     cp_squash = TAGE_squash, cp_update = TAGE_update rnd, cp_branchPlaceholder = TAGE_branchPlaceholder\<rparr>"

section \<open>The contract\<close>

definition tage_follows :: "TAGEBaseParams \<Rightarrow> int list \<Rightarrow> 'g TAGE \<Rightarrow> branch list \<Rightarrow> branch list \<Rightarrow> bool" where
  "tage_follows p hl s fl dn \<longleftrightarrow> base_at p hl fl dn (tg_tage s)"

definition tage_recorded :: "TAGEBaseParams \<Rightarrow> branch \<Rightarrow> TageBranchInfo option \<Rightarrow> branch list \<Rightarrow> bool" where
  "tage_recorded p br h older \<longleftrightarrow> (\<exists>bi. h = Some bi \<and> bi_at p br older (tgi_tageBranchInfo bi))"

definition tage_tid_ok :: "TAGEBaseParams \<Rightarrow> branch \<Rightarrow> bool" where
  "tage_tid_ok p br \<longleftrightarrow> br_tid br < unat (tp_numThreads p)"

text \<open>The prediction of a branch before the histories are updated.\<close>

lemma base_predict:
  assumes "base_at p hl fl dn s" and "tage_tid_ok p br"
  shows "\<exists>pred s' bi. tagePredict s (br_tid br) (br_pc br) (\<not> br_uncond br) (makeBranchInfo s (br_pc br) (\<not> br_uncond br)) = Inr (pred, s', bi) \<and>
    base_at p hl fl dn s' \<and> tbi_branchPC bi = br_pc br \<and> tbi_condBranch bi = (\<not> br_uncond br) \<and> \<not> tbi_modified bi \<and> tbi_nGhist bi = 0 \<and>
    (br_uncond br \<or> tbi_valid bi \<and> tbi_ok p bi)"
proof (cases "br_uncond br")
  case True
  then show ?thesis using assms(1) by (auto simp: tagePredict_def makeBranchInfo_def Let_def)
next
  case False
  let ?bi = "makeBranchInfo s (br_pc br) True"
  have wf: "tables_wf s" "br_tid br < length (tb_threadHistory s)" "tb_params s = p"
    using assms by (simp_all add: base_at_def tage_tid_ok_def)
  obtain s' bi where t: "tagePredict s (br_tid br) (br_pc br) True ?bi = Inr (tbi_tagePred bi, s', bi)" "tables_wf s'" "same_hist s s'"
      "tbi_ok p bi" "hist_part bi = hist_part ?bi" "tbi_valid bi"
    using tagePredict_ok [OF wf(1,2), of "br_pc br" ?bi] wf(3) by blast
  have "base_at p hl fl dn s'" by (rule base_at_keeps [OF assms(1) t(2,3)])
  then show ?thesis using False t by (simp add: hist_part_def makeBranchInfo_def Let_def)
qed

text \<open>The update of the tables when a branch commits.\<close>

lemma base_commit_tables:
  assumes "base_at p hl fl dn s" and "tbi_ok p bi"
  shows "\<exists>s'. bind_r (TAGEBase_updateStats s taken bi) (\<lambda>t. TAGEBase_condBranchUpdate t pc taken bi nrand pred False) = Inr s' \<and> base_at p hl fl dn s'"
proof -
  have wf: "tables_wf s" "tb_params s = p" using assms(1) by (simp_all add: base_at_def)
  have b: "tbi_ok (tb_params s) bi" using assms(2) wf(2) by simp
  have "keeps s (bind_r (TAGEBase_updateStats s taken bi) (\<lambda>t. TAGEBase_condBranchUpdate t pc taken bi nrand pred False))"
    by (rule keeps_bind [OF TAGEBase_updateStats_ok [OF wf(1) b]]) (use b in \<open>auto intro: TAGEBase_condBranchUpdate_ok simp: same_histD\<close>)
  then show ?thesis unfolding keeps_def using base_at_keeps [OF assms(1)] by blast
qed

interpretation tage: bounded_history "TAGE_ops rnd" "tage_follows p hl" "tage_recorded p" "tage_tid_ok p" 500 for rnd p hl
proof (unfold_locales, goal_cases)
  case (1 br t a)
  then show ?case by (simp add: tage_tid_ok_def)
next
  case (2 s fl dn br)
  have b: "base_at p hl fl dn (tg_tage s)" using 2(1) by (simp add: tage_follows_def)
  obtain pred t bi where pr: "tagePredict (tg_tage s) (br_tid br) (br_pc br) (\<not> br_uncond br) (makeBranchInfo (tg_tage s) (br_pc br) (\<not> br_uncond br)) = Inr (pred, t, bi)"
      "base_at p hl fl dn t" "tbi_branchPC bi = br_pc br" "tbi_condBranch bi = (\<not> br_uncond br)" "\<not> tbi_modified bi" "tbi_nGhist bi = 0"
      "br_uncond br \<or> tbi_valid bi \<and> tbi_ok p bi"
    using base_predict [OF b 2(2)] by blast
  have tid: "br_tid br < unat (tp_numThreads p)" using 2(2) by (simp add: tage_tid_ok_def)
  obtain t' bi' where u: "TAGEBase_updateHistories t (br_tid br) (br_pc br) True (br_taken br) (br_target br) bi = Inr (t', bi')"
      "base_at p hl (br # fl) dn t'" "bi_at p br (fl @ dn) bi'"
    using speculate_update [OF pr(2) tid 2(3) pr(3-7)] by blast
  have "\<exists>b. speculate (TAGE_ops rnd) s br = Inr (b, s\<lparr>tg_tage := t'\<rparr>, Some \<lparr>tgi_tageBranchInfo = bi'\<rparr>)"
    using pr(1) u(1)
    by (cases "br_uncond br") (auto simp: speculate_def TAGE_ops_def TAGE_updateHistories_def TAGE_lookup_def TAGE_predict_def)
  then show ?case using u(2,3) by (fastforce simp: tage_follows_def tage_recorded_def)
next
  case (3 s br fl dn h)
  obtain bi where h: "h = Some bi" "bi_at p br (fl @ dn) (tgi_tageBranchInfo bi)" using 3(3) by (auto simp: tage_recorded_def)
  then show ?case using squash_restore [of p hl br fl dn "tg_tage s" "tgi_tageBranchInfo bi"] 3(1,2)
    by (auto simp: TAGE_ops_def TAGE_squash_def tage_follows_def tage_tid_ok_def)
next
  case (4 s br fl dn h t a)
  obtain bi where h: "h = Some bi" "bi_at p br (fl @ dn) (tgi_tageBranchInfo bi)" using 4(3) by (auto simp: tage_recorded_def)
  then show ?case using repair_update [of p hl br fl dn "tg_tage s" "tgi_tageBranchInfo bi" t a] 4(1,2)
    by (auto simp: TAGE_ops_def TAGE_update_def tage_follows_def tage_tid_ok_def tage_recorded_def Let_def)
next
  case (5 s fl br dn h)
  obtain bi where h: "h = Some bi" "bi_at p br dn (tgi_tageBranchInfo bi)" using 5(3) by (auto simp: tage_recorded_def)
  let ?bi = "tgi_tageBranchInfo bi"
  obtain r g where rg: "rnd (tg_rng s) = (r, g)" by (cases "rnd (tg_rng s)")
  have b: "base_at p hl (fl @ [br]) dn (tg_tage s)" "br_tid br < unat (tp_numThreads p)" using 5(1,2) by (simp_all add: tage_follows_def tage_tid_ok_def)
  have cb: "tbi_condBranch ?bi = (\<not> br_uncond br)" "br_uncond br \<or> tbi_ok p ?bi" using h(2) by (auto simp: bi_at_def bi_hist_def)
  obtain t where t: "(if tbi_condBranch ?bi then bind_r (TAGEBase_updateStats (tg_tage s) (br_taken br) ?bi) (\<lambda>t.
      TAGEBase_condBranchUpdate t (br_pc br) (br_taken br) ?bi (r AND 3) (tbi_tagePred ?bi) False) else Inr (tg_tage s)) = Inr t"
      "base_at p hl (fl @ [br]) dn t"
    using base_commit_tables [OF b(1), of ?bi "br_taken br" "br_pc br" "r AND 3" "tbi_tagePred ?bi"] b(1) cb by (cases "br_uncond br") auto
  obtain t' bi' where u: "TAGEBase_updateHistories t (br_tid br) (br_pc br) False (br_taken br) (br_target br) ?bi = Inr (t', bi')" "base_at p hl fl (br # dn) t'"
    using commit_update [OF t(2) b(2) h(2)] by blast
  have "cp_update (TAGE_ops rnd) s (br_tid br) (br_pc br) (br_taken br) h False (br_inst br) (br_target br) = Inr (s\<lparr>tg_tage := t', tg_rng := g\<rparr>, None)"
    using t(1) u(1) rg h(1) by (simp add: TAGE_ops_def TAGE_update_def Let_def)
  then show ?case using u(2) by (simp add: tage_follows_def)
qed

section \<open>Runs of the predictor\<close>

lemma tage_run:
  assumes "TAGEBaseParams_ok p" and "lengths_ok len p" and "list_all (event_ok (tage_tid_ok p)) evs" and "within_limit 500 ([], []) evs"
  shows "\<exists>hl t s fl. calculateParameters len p = Inr hl \<and> TAGEBase_init len (TAGEBase_new p) = Inr t \<and>
    cp_run (TAGE_ops rnd) (\<lparr>tg_tage = t, tg_rng = g\<rparr>, []) evs = Inr (s, fl) \<and> map fst fl = fst (br_run ([], []) evs) \<and>
    base_at p hl (fst (br_run ([], []) evs)) (snd (br_run ([], []) evs)) (tg_tage s)"
proof -
  obtain t hl where t: "calculateParameters len p = Inr hl" "TAGEBase_init len (TAGEBase_new p) = Inr t" "base_at p hl [] [] t"
    using TAGEBase_init_ok [OF assms(1,2)] by blast
  then have "tage_follows p hl \<lparr>tg_tage = t, tg_rng = g\<rparr> [] []" by (simp add: tage_follows_def)
  from tage.bounded_run [OF this assms(3,4)] show ?thesis using t(1,2) by (auto simp: tage_follows_def)
qed

text \<open>C36: The histories of TAGE are exactly those of the branches.  On a constructed predictor, for
  parameters and history lengths within the bounds, any random numbers and any sequence of predictions,
  squashes, repairs and commits with fewer than 500 branches in flight at a prediction, every operation
  returns.  Afterwards the three folded histories of every thread and table are the fold of the bits that
  the branches in flight and the committed branches of the thread shifted in, with their final directions
  and targets, over the history length of the table; the path history is that of the same branches and the
  non-speculative path history that of the committed ones.  In particular no rollover of the circular
  buffer loses a bit that a squash or a prediction needs.\<close>

theorem tage_histories_exact:
  assumes "TAGEBaseParams_ok p" and "lengths_ok len p" and "list_all (event_ok (tage_tid_ok p)) evs" and "within_limit 500 ([], []) evs"
  shows "\<exists>hl t s fl. calculateParameters len p = Inr hl \<and> TAGEBase_init len (TAGEBase_new p) = Inr t \<and>
    cp_run (TAGE_ops rnd) (\<lparr>tg_tage = t, tg_rng = g\<rparr>, []) evs = Inr (s, fl) \<and> map fst fl = fst (br_run ([], []) evs) \<and>
    (\<forall>tid < unat (tp_numThreads p).
       let th = tb_threadHistory (tg_tage s) ! tid; dn = snd (br_run ([], []) evs); brs = fst (br_run ([], []) evs) @ dn;
           H = thread_bits p tid brs
       in th_pathHist th = thread_path p tid brs \<and> th_nonSpecPathHist th = thread_path p tid dn \<and>
          (\<forall>i. 1 \<le> i \<and> i \<le> unat (tp_nHistoryTables p) \<longrightarrow>
             fh_comp (th_computeIndices th ! i) = folded (nat (tp_logTagTableSizes p ! i)) H (nat (hl ! i)) \<and>
             fh_comp (th_computeTags0 th ! i) = folded (unat (tp_tagTableTagWidths p ! i)) H (nat (hl ! i)) \<and>
             fh_comp (th_computeTags1 th ! i) = folded (unat (tp_tagTableTagWidths p ! i) - 1) H (nat (hl ! i))))"
proof -
  obtain hl t s fl where r: "calculateParameters len p = Inr hl" "TAGEBase_init len (TAGEBase_new p) = Inr t"
      "cp_run (TAGE_ops rnd) (\<lparr>tg_tage = t, tg_rng = g\<rparr>, []) evs = Inr (s, fl)" "map fst fl = fst (br_run ([], []) evs)"
      "base_at p hl (fst (br_run ([], []) evs)) (snd (br_run ([], []) evs)) (tg_tage s)"
    using tage_run [OF assms, of rnd g] by blast
  have "th_at p tid (fst (br_run ([], []) evs)) (snd (br_run ([], []) evs)) (tb_threadHistory (tg_tage s) ! tid)"
    if "tid < unat (tp_numThreads p)" for tid
    using r(5) that by (simp add: base_at_def)
  then show ?thesis using r base_at_folds [OF r(5)]
    by (intro exI [of _ hl] exI [of _ t] exI [of _ s] exI [of _ fl]) (simp add: Let_def th_at_def)
qed

text \<open>C37: TAGE predicts with the longest matching history.  In every state that a run can reach, the
  lookup of a conditional branch returns.  The hit bank is the table with the longest history among those
  that are active and hold the tag of the branch at its index, and the alternate bank the next shorter one.
  The prediction is the sign of the hit bank's counter, unless that counter is weak and the counter
  that prefers the alternate prediction is not negative: then it is that of the alternate bank.  Where the
  bank that decides does not exist, it is that of the bimodal table.\<close>

theorem tage_longest_match:
  assumes "TAGEBaseParams_ok p" and "lengths_ok len p" and "list_all (event_ok (tage_tid_ok p)) evs" and "within_limit 500 ([], []) evs"
    and "tid < unat (tp_numThreads p)"
  shows "\<exists>t s fl pred s' bi. TAGEBase_init len (TAGEBase_new p) = Inr t \<and>
    cp_run (TAGE_ops rnd) (\<lparr>tg_tage = t, tg_rng = g\<rparr>, []) evs = Inr (s, fl) \<and>
    cp_lookup (TAGE_ops rnd) s tid pc None = Inr (pred, s', Some bi) \<and>
    (let b = tg_tage s; M = table_matches b tid pc; ctr = (\<lambda>i. te_ctr (table_entry b tid pc i));
         hit = tbi_hitBank (tgi_tageBranchInfo bi); alt = tbi_altBank (tgi_tageBranchInfo bi)
     in longest M (unat (tp_nHistoryTables p) + 1) hit \<and> longest M hit alt \<and>
        pred = (if hit \<noteq> 0 \<and> (tb_useAltPredForNewlyAllocated b ! 0 < 0 \<or> ctr hit \<notin> {- 1, 0}) then 0 \<le> ctr hit
                else if alt \<noteq> 0 then 0 \<le> ctr alt else tb_btablePrediction b ! nat (bindex b pc)))"
proof -
  obtain hl t s fl where r: "TAGEBase_init len (TAGEBase_new p) = Inr t"
      "cp_run (TAGE_ops rnd) (\<lparr>tg_tage = t, tg_rng = g\<rparr>, []) evs = Inr (s, fl)"
      "base_at p hl (fst (br_run ([], []) evs)) (snd (br_run ([], []) evs)) (tg_tage s)"
    using tage_run [OF assms(1-4), of rnd g] by blast
  have wf: "tables_wf (tg_tage s)" "tb_params (tg_tage s) = p" "tid < length (tb_threadHistory (tg_tage s))"
    using r(3) assms(5) by (simp_all add: base_at_def)
  obtain b bi where pr: "tagePredict (tg_tage s) tid pc True (makeBranchInfo (tg_tage s) pc True) = Inr (tbi_tagePred bi, b, bi)"
      "provided (tg_tage s) tid pc bi"
    using tagePredict_ok [OF wf(1,3)] by blast
  have "cp_lookup (TAGE_ops rnd) s tid pc None = Inr (tbi_tagePred bi, s\<lparr>tg_tage := b\<rparr>, Some \<lparr>tgi_tageBranchInfo = bi\<rparr>)"
    using pr(1) by (simp add: TAGE_ops_def TAGE_lookup_def TAGE_predict_def)
  then show ?thesis using r(1,2) pr(2) wf(2)
    by (intro exI [of _ t] exI [of _ s] exI [of _ fl] exI [of _ "tbi_tagePred bi"] exI [of _ "s\<lparr>tg_tage := b\<rparr>"]
        exI [of _ "\<lparr>tgi_tageBranchInfo = bi\<rparr>"]) (auto simp: provided_def Let_def)
qed

section \<open>A small predictor\<close>

definition tage_small :: TAGEBaseParams where
  "tage_small = \<lparr>tp_numThreads = 2, tp_instShiftAmt = 2, tp_logRatioBiModalHystEntries = 1, tp_nHistoryTables = 2,
     tp_tagTableCounterBits = 3, tp_tagTableUBits = 2, tp_histBufferSize = 2048, tp_minHist = 4, tp_maxHist = 8, tp_pathHistBits = 6,
     tp_tagTableTagWidths = [0, 4, 5], tp_logTagTableSizes = [3, 3, 3], tp_logUResetPeriod = 4, tp_initialTCounterValue = 8,
     tp_numUseAltOnNa = 1, tp_useAltOnNaBits = 4, tp_maxNumAlloc = 1, tp_takenOnlyHistory = False, tp_noSkip = [],
     tp_speculativeHistUpdate = True\<rparr>"

lemma tage_small_ok: "TAGEBaseParams_ok tage_small" "lengths_ok (\<lambda>_. 8) tage_small"
  by (simp_all add: TAGEBaseParams_ok_def lengths_ok_def hist_params_ok_def bank_ok_def tage_small_def upt_conv_Cons)

lemma tage_small_demo: "list_all (event_ok (tage_tid_ok tage_small)) demo_events" "within_limit 500 ([], []) demo_events"
  by (rule demo_events_ok) (simp_all add: tage_tid_ok_def cond_branch_def tage_small_def, simp add: demo_events_def)

theorem tage_histories_exact_witness:
  "\<exists>t s fl. TAGEBase_init (\<lambda>_. 8) (TAGEBase_new tage_small) = Inr t \<and>
     cp_run (TAGE_ops (\<lambda>g. (g, g + 1))) (\<lparr>tg_tage = t, tg_rng = 0\<rparr>, []) demo_events = Inr (s, fl) \<and>
     map fst fl = [cond_branch 1 68 True] \<and>
     th_pathHist (tb_threadHistory (tg_tage s) ! 1) = 1 \<and> th_nonSpecPathHist (tb_threadHistory (tg_tage s) ! 1) = 0 \<and>
     fh_comp (th_computeIndices (tb_threadHistory (tg_tage s) ! 1) ! 2) = 1"
proof -
  let ?H = "thread_bits tage_small 1 ([cond_branch 1 68 True] @ [(cond_branch 1 64 True)\<lparr>br_taken := False, br_target := 68\<rparr>])"
  have v: "unat (tp_numThreads tage_small) = 2" "unat (tp_nHistoryTables tage_small) = 2" "nat (tp_logTagTableSizes tage_small ! 2) = 3"
    by (simp_all add: tage_small_def)
  have h: "?H = [True, False]" by (simp add: thread_bits_def br_bits_def br_nbits_def br_ghist_def cond_branch_def tage_small_def)
  have pa: "thread_path tage_small 1 ([cond_branch 1 68 True] @ [(cond_branch 1 64 True)\<lparr>br_taken := False, br_target := 68\<rparr>]) = 1"
      "thread_path tage_small 1 [(cond_branch 1 64 True)\<lparr>br_taken := False, br_target := 68\<rparr>] = 0"
    by code_simp+
  have f: "folded 3 [True, False] 8 = 1" by code_simp
  have hl: "hl ! 2 = 8" if "calculateParameters (\<lambda>_. 8) tage_small = Inr hl" for hl
    using that by (auto simp: calculateParameters_def tage_small_def upt_conv_Cons)
  obtain hl t s fl where r: "calculateParameters (\<lambda>_. 8) tage_small = Inr hl" "TAGEBase_init (\<lambda>_. 8) (TAGEBase_new tage_small) = Inr t"
      "cp_run (TAGE_ops (\<lambda>g. (g, g + 1))) (\<lparr>tg_tage = t, tg_rng = 0\<rparr>, []) demo_events = Inr (s, fl)" "map fst fl = [cond_branch 1 68 True]"
      and a: "\<forall>tid < 2. let th = tb_threadHistory (tg_tage s) ! tid; dn = [(cond_branch 1 64 True)\<lparr>br_taken := False, br_target := 68\<rparr>];
        brs = [cond_branch 1 68 True] @ dn; H = thread_bits tage_small tid brs
       in th_pathHist th = thread_path tage_small tid brs \<and> th_nonSpecPathHist th = thread_path tage_small tid dn \<and>
          (\<forall>i. 1 \<le> i \<and> i \<le> 2 \<longrightarrow>
             fh_comp (th_computeIndices th ! i) = folded (nat (tp_logTagTableSizes tage_small ! i)) H (nat (hl ! i)) \<and>
             fh_comp (th_computeTags0 th ! i) = folded (unat (tp_tagTableTagWidths tage_small ! i)) H (nat (hl ! i)) \<and>
             fh_comp (th_computeTags1 th ! i) = folded (unat (tp_tagTableTagWidths tage_small ! i) - 1) H (nat (hl ! i)))"
    using tage_histories_exact [OF tage_small_ok tage_small_demo, of "\<lambda>g. (g, g + 1)" 0]
    unfolding demo_br_run v fst_conv snd_conv by (elim exE conjE) (rule that)
  have "(1 :: nat) < 2" "1 \<le> (2 :: nat) \<and> (2 :: nat) \<le> 2" by simp_all
  note b = a [rule_format, OF this(1), unfolded Let_def h pa]
  from b have "fh_comp (th_computeIndices (tb_threadHistory (tg_tage s) ! 1) ! 2) = folded (nat (tp_logTagTableSizes tage_small ! 2)) [True, False] (nat (hl ! 2))"
    using \<open>1 \<le> (2 :: nat) \<and> (2 :: nat) \<le> 2\<close> by blast
  then have "fh_comp (th_computeIndices (tb_threadHistory (tg_tage s) ! 1) ! 2) = 1" unfolding v hl [OF r(1)] by (simp add: f)
  with r(2-4) b [THEN conjunct1] b [THEN conjunct2, THEN conjunct1] show ?thesis by (intro exI conjI)
qed

theorem tage_longest_match_witness:
  "\<exists>t s fl pred s' bi. TAGEBase_init (\<lambda>_. 8) (TAGEBase_new tage_small) = Inr t \<and>
    cp_run (TAGE_ops (\<lambda>g. (g, g + 1))) (\<lparr>tg_tage = t, tg_rng = 0\<rparr>, []) demo_events = Inr (s, fl) \<and>
    cp_lookup (TAGE_ops (\<lambda>g. (g, g + 1))) s 1 64 None = Inr (pred, s', Some bi) \<and>
    longest (table_matches (tg_tage s) 1 64) 3 (tbi_hitBank (tgi_tageBranchInfo bi))"
proof -
  have "unat (tp_numThreads tage_small) = 2" "unat (tp_nHistoryTables tage_small) + 1 = 3" by (simp_all add: tage_small_def)
  then show ?thesis
    using tage_longest_match [OF tage_small_ok tage_small_demo, of 1 "\<lambda>g. (g, g + 1)" 0 64] by (auto simp: Let_def)
qed

end
