(* ===== verification/Predictor_Simulation.thy ===== *)
theory Predictor_Simulation
  imports Conditional_Predictor
begin

text \<open>
  Simulation of one conditional predictor by another, for a predictor that extends another one.
  The laws relate the operations one by one: whenever the operation of the first predictor returns, so
  does that of the second in a related state, with related results.  The locale derives that every
  run of the first predictor that returns has a related run of the second.
\<close>

locale predictor_simulation =
  fixes cp :: "('s, 'h) ConditionalPredictor"
    and cp' :: "('t, 'k) ConditionalPredictor"
    and R :: "'s \<Rightarrow> 't \<Rightarrow> bool"
    and H :: "'h option \<Rightarrow> 'k option \<Rightarrow> bool"
  assumes speculate_sim: "\<lbrakk>R s t; speculate cp s br = Inr (b, s', h)\<rbrakk> \<Longrightarrow>
      \<exists>b' t' k. speculate cp' t br = Inr (b', t', k) \<and> R s' t' \<and> H h k"
    and squash_sim: "\<lbrakk>R s t; H h k; cp_squash cp s tid h = Inr (s', h')\<rbrakk> \<Longrightarrow>
      \<exists>t' k'. cp_squash cp' t tid k = Inr (t', k') \<and> R s' t'"
    and repair_sim: "\<lbrakk>R s t; H h k; cp_update cp s tid pc taken h True inst target = Inr (s', h')\<rbrakk> \<Longrightarrow>
      \<exists>t' k'. cp_update cp' t tid pc taken k True inst target = Inr (t', k') \<and> R s' t' \<and> H h' k'"
    and commit_sim: "\<lbrakk>R s t; H h k; cp_update cp s tid pc taken h False inst target = Inr (s', h')\<rbrakk> \<Longrightarrow>
      \<exists>t' k'. cp_update cp' t tid pc taken k False inst target = Inr (t', k') \<and> R s' t'"
begin

definition paired :: "(branch \<times> 'h option) list \<Rightarrow> (branch \<times> 'k option) list \<Rightarrow> bool" where
  "paired = list_all2 (\<lambda>x y. fst x = fst y \<and> H (snd x) (snd y))"

lemma paired_simps [simp]:
  "paired [] []" "paired [] gl \<longleftrightarrow> gl = []" "paired (x # fl) (y # gl) \<longleftrightarrow> fst x = fst y \<and> H (snd x) (snd y) \<and> paired fl gl"
  by (simp_all add: paired_def)

lemma paired_Cons: "paired ((br, h) # fl) gl \<Longrightarrow> \<exists>k gl'. gl = (br, k) # gl' \<and> H h k \<and> paired fl gl'"
  unfolding paired_def list_all2_Cons1 by auto

lemma paired_snoc: "paired (fl @ [(br, h)]) gl \<Longrightarrow> \<exists>k gl'. gl = gl' @ [(br, k)] \<and> H h k \<and> paired fl gl'"
  unfolding paired_def list_all2_append1 by (auto simp: list_all2_Cons1)

lemma paired_fst: "paired fl gl \<Longrightarrow> map fst gl = map fst fl"
  unfolding paired_def by (induction rule: list_all2_induct) simp_all

lemma step_sim:
  assumes "R s t" and "paired fl gl" and "cp_step cp (s, fl) ev = Inr (s', fl')"
  shows "\<exists>t' gl'. cp_step cp' (t, gl) ev = Inr (t', gl') \<and> R s' t' \<and> paired fl' gl'"
proof (cases ev)
  case (Speculate br)
  obtain b h where "speculate cp s br = Inr (b, s', h)" "fl' = (br, h) # fl" using assms(3) Speculate by (auto simp: bind_r_eq_Inr_iff)
  then show ?thesis using speculate_sim [OF assms(1), of br b s' h] assms(2) Speculate by auto
next
  case Squash
  show ?thesis
  proof (cases fl)
    case Nil
    then show ?thesis using assms Squash by simp
  next
    case (Cons e fl0)
    obtain br h where e: "e = (br, h)" by (cases e)
    obtain k gl0 where g: "gl = (br, k) # gl0" "H h k" "paired fl0 gl0" using paired_Cons assms(2) Cons e by blast
    obtain h' where "cp_squash cp s (br_tid br) h = Inr (s', h')" "fl' = fl0" using assms(3) Squash Cons e by (auto simp: bind_r_eq_Inr_iff)
    then show ?thesis using squash_sim [OF assms(1) g(2), of "br_tid br" s' h'] Squash g by auto
  qed
next
  case (Repair taken target)
  show ?thesis
  proof (cases fl)
    case Nil
    then show ?thesis using assms Repair by simp
  next
    case (Cons e fl0)
    obtain br h where e: "e = (br, h)" by (cases e)
    obtain k gl0 where g: "gl = (br, k) # gl0" "H h k" "paired fl0 gl0" using paired_Cons assms(2) Cons e by blast
    obtain h' where "cp_update cp s (br_tid br) (br_pc br) taken h True (br_inst br) target = Inr (s', h')"
        "fl' = (br\<lparr>br_taken := taken, br_target := target\<rparr>, h') # fl0" using assms(3) Repair Cons e by (auto simp: bind_r_eq_Inr_iff)
    then show ?thesis using repair_sim [OF assms(1) g(2), of "br_tid br" "br_pc br" taken "br_inst br" target s' h'] Repair g by auto
  qed
next
  case Commit
  show ?thesis
  proof (cases fl rule: rev_cases)
    case Nil
    then show ?thesis using assms Commit by simp
  next
    case (snoc fl0 e)
    obtain br h where e: "e = (br, h)" by (cases e)
    obtain k gl0 where g: "gl = gl0 @ [(br, k)]" "H h k" "paired fl0 gl0" using paired_snoc assms(2) snoc e by blast
    obtain h' where "cp_update cp s (br_tid br) (br_pc br) (br_taken br) h False (br_inst br) (br_target br) = Inr (s', h')" "fl' = fl0"
      using assms(3) Commit snoc e by (auto simp: bind_r_eq_Inr_iff)
    then show ?thesis using commit_sim [OF assms(1) g(2), of "br_tid br" "br_pc br" "br_taken br" "br_inst br" "br_target br" s' h'] Commit g by auto
  qed
qed

theorem run_sim:
  assumes "R s t" and "paired fl gl" and "cp_run cp (s, fl) evs = Inr (s', fl')"
  shows "\<exists>t' gl'. cp_run cp' (t, gl) evs = Inr (t', gl') \<and> R s' t' \<and> paired fl' gl'"
  using assms
proof (induction evs arbitrary: s t fl gl)
  case (Cons ev evs)
  obtain s1 fl1 where st: "cp_step cp (s, fl) ev = Inr (s1, fl1)" "cp_run cp (s1, fl1) evs = Inr (s', fl')"
    using Cons.prems(3) by (auto simp: bind_r_eq_Inr_iff)
  obtain t1 gl1 where "cp_step cp' (t, gl) ev = Inr (t1, gl1)" "R s1 t1" "paired fl1 gl1"
    using step_sim [OF Cons.prems(1,2) st(1)] by blast
  with Cons.IH [OF _ _ st(2)] show ?case by simp
qed simp

end

end
