(* ===== verification/LTage.thy ===== *)
theory LTage
  imports Tage Predictor_Simulation
begin

text \<open>
  The predictor \<open>LTAGE\<close> of \<open>cpu/pred/ltage.cc\<close>: \<open>TAGE\<close> with a loop predictor that may override its
  prediction.  The random numbers of the loop predictor and the value that \<open>loopPredUsed\<close> has before it
  is written come from an environment with a state of its own.  The locale \<open>predictor_simulation\<close> is
  interpreted on \<open>TAGE\<close> and \<open>LTAGE\<close>: the loop predictor changes nothing of TAGE except its statistics.
\<close>

section \<open>The predictor\<close>

definition LOOP :: u32 where
  "LOOP = LAST_TAGE_PROVIDER_TYPE + 1"

record ('g, 'e) LTAGE = "'g TAGE" +
  lt_loopPredictor :: LoopPredictor
  lt_instShiftAmt :: u32
  lt_env :: 'e

record LTageBranchInfo = TageBranchInfo +
  lti_lpBranchInfo :: LoopBranchInfo

text \<open>The loop predictor's virtual methods, its random numbers and the content of fresh memory.\<close>

record 'e LTageEnv =
  en_loop :: LoopOps
  en_random :: "'e \<Rightarrow> (int \<times> int) \<times> 'e"
  en_memory :: "'e \<Rightarrow> bool \<times> 'e"

definition LTAGE_new :: "TAGEBase \<Rightarrow> LoopPredictor \<Rightarrow> u32 \<Rightarrow> 'g \<Rightarrow> 'e \<Rightarrow> ('g, 'e) LTAGE" where
  "LTAGE_new tage loop_predictor instShiftAmt g e =
     \<lparr>tg_tage = tage, tg_rng = g, lt_loopPredictor = loop_predictor, lt_instShiftAmt = instShiftAmt, lt_env = e\<rparr>"

definition LTAGE_predict ::
  "'e LTageEnv \<Rightarrow> ('g, 'e) LTAGE \<Rightarrow> ThreadID \<Rightarrow> Addr \<Rightarrow> bool \<Rightarrow> (bool \<times> ('g, 'e) LTAGE \<times> LTageBranchInfo) result" where
  "LTAGE_predict en s tid branch_pc is_cond =
     (let (uninit, e) = en_memory en (lt_env s)
      in bind_r (tagePredict (tg_tage s) tid branch_pc is_cond (makeBranchInfo (tg_tage s) branch_pc is_cond)) (\<lambda>(pred, t, bi).
         bind_r (loopPredict (en_loop en) (lt_loopPredictor s) branch_pc is_cond (LoopBranchInfo_new uninit) pred (lt_instShiftAmt s))
           (\<lambda>(pred, lp, lb).
              Inr (pred, s\<lparr>tg_tage := t, lt_loopPredictor := lp, lt_env := e\<rparr>,
                \<lparr>tgi_tageBranchInfo = (if is_cond \<and> lb_loopPredUsed lb then bi\<lparr>tbi_provider := LOOP\<rparr> else bi),
                 lti_lpBranchInfo = lb\<lparr>lb_predTaken := pred\<rparr>\<rparr>))))"

text \<open>\<open>pred\<close> in the call of \<open>TAGEBase::condBranchUpdate\<close> is the final prediction.\<close>

definition LTAGE_update ::
  "('g \<Rightarrow> int \<times> 'g) \<Rightarrow> 'e LTageEnv \<Rightarrow> ('g, 'e) LTAGE \<Rightarrow> ThreadID \<Rightarrow> Addr \<Rightarrow> bool \<Rightarrow> LTageBranchInfo option \<Rightarrow> bool \<Rightarrow> StaticInst \<Rightarrow> Addr \<Rightarrow>
   (('g, 'e) LTAGE \<times> LTageBranchInfo option) result" where
  "LTAGE_update rnd en s tid pc taken bp_history squashed inst target =
     (case bp_history of
        None \<Rightarrow> Inl (Assert ''bp_history'')
      | Some bi \<Rightarrow>
          let tage_bi = tgi_tageBranchInfo bi; lb = lti_lpBranchInfo bi
          in if squashed
             then if isSpeculativeUpdateEnabled (tg_tage s)
                  then bind_r (TAGEBase_squash (tg_tage s) tid taken target tage_bi) (\<lambda>(t, b).
                       bind_r (if tbi_condBranch b then squashLoop (lt_loopPredictor s) lb else Inr (lt_loopPredictor s)) (\<lambda>lp.
                         Inr (s\<lparr>tg_tage := t, lt_loopPredictor := lp\<rparr>, Some (bi\<lparr>tgi_tageBranchInfo := b\<rparr>))))
                  else Inr (s, Some bi)
             else let (r, g) = rnd (tg_rng s); nrand = r AND 3; ((r1, r2), e) = en_random en (lt_env s)
                  in bind_r (if tbi_condBranch tage_bi
                             then bind_r (TAGEBase_updateStats (tg_tage s) taken tage_bi) (\<lambda>t.
                                  bind_r (LoopPredictor_condBranchUpdate (en_loop en) (LoopPredictor_updateStats (lt_loopPredictor s) taken lb)
                                            pc taken (tbi_tagePred tage_bi) lb (lt_instShiftAmt s) r1 r2) (\<lambda>(lp, lb).
                                  bind_r (TAGEBase_condBranchUpdate t pc taken tage_bi nrand (lb_predTaken lb) False) (\<lambda>t.
                                    Inr (t, lp))))
                             else Inr (tg_tage s, lt_loopPredictor s)) (\<lambda>(t, lp).
                     bind_r (TAGEBase_updateHistories t tid pc False taken target tage_bi) (\<lambda>(t, b).
                       Inr (s\<lparr>tg_tage := t, tg_rng := g, lt_loopPredictor := lp, lt_env := e\<rparr>, None))))"

definition LTAGE_squash ::
  "('g, 'e) LTAGE \<Rightarrow> ThreadID \<Rightarrow> LTageBranchInfo option \<Rightarrow> (('g, 'e) LTAGE \<times> LTageBranchInfo option) result" where
  "LTAGE_squash s tid bp_history =
     (case bp_history of
        None \<Rightarrow> Inl Undefined
      | Some bi \<Rightarrow>
          bind_r (if tbi_condBranch (tgi_tageBranchInfo bi) then LoopPredictor_squash (lt_loopPredictor s) (lti_lpBranchInfo bi)
                  else Inr (lt_loopPredictor s)) (\<lambda>lp.
            TAGE_squash (s\<lparr>lt_loopPredictor := lp\<rparr>) tid bp_history))"

definition LTAGE_branchPlaceholder ::
  "'e LTageEnv \<Rightarrow> ('g, 'e) LTAGE \<Rightarrow> ThreadID \<Rightarrow> Addr \<Rightarrow> bool \<Rightarrow> LTageBranchInfo option \<Rightarrow> (('g, 'e) LTAGE \<times> LTageBranchInfo option) result" where
  "LTAGE_branchPlaceholder en s tid pc uncond bpHistory =
     (let (uninit, e) = en_memory en (lt_env s)
      in Inr (s\<lparr>lt_env := e\<rparr>, Some \<lparr>tgi_tageBranchInfo = makeBranchInfo (tg_tage s) pc (\<not> uncond),
           lti_lpBranchInfo = LoopBranchInfo_new uninit\<rparr>))"

definition LTAGE_ops :: "('g \<Rightarrow> int \<times> 'g) \<Rightarrow> 'e LTageEnv \<Rightarrow> (('g, 'e) LTAGE, LTageBranchInfo) ConditionalPredictor" where
  "LTAGE_ops rnd en = \<lparr>cp_lookup = TAGE_lookup (LTAGE_predict en), cp_updateHistories = TAGE_updateHistories (LTAGE_predict en),
     cp_squash = LTAGE_squash, cp_update = LTAGE_update rnd en, cp_branchPlaceholder = LTAGE_branchPlaceholder en\<rparr>"

section \<open>TAGE without its statistics\<close>

text \<open>No operation of \<open>TAGEBase\<close> but \<open>updateStats\<close> reads the statistics or the provider of a branch.\<close>

abbreviation (input) put_stats :: "TAGEBaseStats \<Rightarrow> TAGEBase result \<Rightarrow> TAGEBase result" where
  "put_stats x r \<equiv> bind_r r (\<lambda>t. Inr (t\<lparr>tb_stats := x\<rparr>))"

named_theorems statless

lemma put_stats_commute [statless]:
  "s\<lparr>tb_stats := x, tb_tableIndices := a\<rparr> = s\<lparr>tb_tableIndices := a, tb_stats := x\<rparr>"
  "s\<lparr>tb_stats := x, tb_tableTags := a\<rparr> = s\<lparr>tb_tableTags := a, tb_stats := x\<rparr>"
  "s\<lparr>tb_stats := x, tb_gtable := b\<rparr> = s\<lparr>tb_gtable := b, tb_stats := x\<rparr>"
  "s\<lparr>tb_stats := x, tb_btablePrediction := c\<rparr> = s\<lparr>tb_btablePrediction := c, tb_stats := x\<rparr>"
  "s\<lparr>tb_stats := x, tb_btableHysteresis := c\<rparr> = s\<lparr>tb_btableHysteresis := c, tb_stats := x\<rparr>"
  "s\<lparr>tb_stats := x, tb_useAltPredForNewlyAllocated := d\<rparr> = s\<lparr>tb_useAltPredForNewlyAllocated := d, tb_stats := x\<rparr>"
  "s\<lparr>tb_stats := x, tb_tCounter := e\<rparr> = s\<lparr>tb_tCounter := e, tb_stats := x\<rparr>"
  "s\<lparr>tb_stats := x, tb_threadHistory := f\<rparr> = s\<lparr>tb_threadHistory := f, tb_stats := x\<rparr>"
  by simp_all

lemma put_provider_commute [statless]:
  "bi\<lparr>tbi_provider := v, tbi_tableIndices := a\<rparr> = bi\<lparr>tbi_tableIndices := a, tbi_provider := v\<rparr>"
  "bi\<lparr>tbi_provider := v, tbi_tableTags := a\<rparr> = bi\<lparr>tbi_tableTags := a, tbi_provider := v\<rparr>"
  "bi\<lparr>tbi_provider := v, tbi_ci := a\<rparr> = bi\<lparr>tbi_ci := a, tbi_provider := v\<rparr>"
  "bi\<lparr>tbi_provider := v, tbi_ct0 := a\<rparr> = bi\<lparr>tbi_ct0 := a, tbi_provider := v\<rparr>"
  "bi\<lparr>tbi_provider := v, tbi_ct1 := a\<rparr> = bi\<lparr>tbi_ct1 := a, tbi_provider := v\<rparr>"
  "bi\<lparr>tbi_provider := v, tbi_pathHist := b\<rparr> = bi\<lparr>tbi_pathHist := b, tbi_provider := v\<rparr>"
  "bi\<lparr>tbi_provider := v, tbi_valid := c\<rparr> = bi\<lparr>tbi_valid := c, tbi_provider := v\<rparr>"
  "bi\<lparr>tbi_provider := v, tbi_modified := c\<rparr> = bi\<lparr>tbi_modified := c, tbi_provider := v\<rparr>"
  "bi\<lparr>tbi_provider := v, tbi_nGhist := d\<rparr> = bi\<lparr>tbi_nGhist := d, tbi_provider := v\<rparr>"
  "bi\<lparr>tbi_provider := v, tbi_ghist := e\<rparr> = bi\<lparr>tbi_ghist := e, tbi_provider := v\<rparr>"
  by simp_all

lemma reads_statless [statless]:
  "gtable_get (s\<lparr>tb_stats := x\<rparr>) = gtable_get s" "bank_prediction (s\<lparr>tb_stats := x\<rparr>) = bank_prediction s"
  "bank_index (s\<lparr>tb_stats := x\<rparr>) = bank_index s" "bindex (s\<lparr>tb_stats := x\<rparr>) = bindex s" "tage_F (s\<lparr>tb_stats := x\<rparr>) = tage_F s"
  "getBimodePred (s\<lparr>tb_stats := x\<rparr>) = getBimodePred s" "first_bank (s\<lparr>tb_stats := x\<rparr>) = first_bank s"
  "makeBranchInfo (s\<lparr>tb_stats := x\<rparr>) = makeBranchInfo s"
  by (simp_all add: fun_eq_iff gtable_get_def bank_prediction_def bank_index_def bindex_def tage_F_def getBimodePred_def first_bank_def makeBranchInfo_def)

lemma indices_statless [statless]: "gindex (s\<lparr>tb_stats := x\<rparr>) = gindex s" "gtag (s\<lparr>tb_stats := x\<rparr>) = gtag s"
  by (simp_all add: fun_eq_iff gindex_def gtag_def reads_statless)

lemma find_bank_statless [statless]: "find_bank (s\<lparr>tb_stats := x\<rparr>) is = find_bank s is"
  by (induction "is") (simp_all add: statless cong: if_cong)

lemma find_banks_statless [statless]: "find_banks (s\<lparr>tb_stats := x\<rparr>) bi = find_banks s bi"
  by (simp add: find_banks_def statless)

lemma tage_choose_statless [statless]: "tage_choose (s\<lparr>tb_stats := x\<rparr>) pc bi = tage_choose s pc bi"
  by (simp add: tage_choose_def statless)

lemma calculateIndicesAndTags_statless [statless]:
  "calculateIndicesAndTags (s\<lparr>tb_stats := x\<rparr>) tid pc bi = bind_r (calculateIndicesAndTags s tid pc bi) (\<lambda>(t, b). Inr (t\<lparr>tb_stats := x\<rparr>, b))"
  "calculateIndicesAndTags s tid pc (bi\<lparr>tbi_provider := v\<rparr>) = bind_r (calculateIndicesAndTags s tid pc bi) (\<lambda>(t, b). Inr (t, b\<lparr>tbi_provider := v\<rparr>))"
  by (simp_all add: calculateIndicesAndTags_def statless bind_r_assoc Let_def del: upt_Suc)

lemma tagePredict_statless:
  "tagePredict (s\<lparr>tb_stats := x\<rparr>) tid pc c bi = bind_r (tagePredict s tid pc c bi) (\<lambda>(p, t, b). Inr (p, t\<lparr>tb_stats := x\<rparr>, b))"
  by (auto simp: tagePredict_def statless bind_r_def check_def split: sum.splits)

lemma restoreHistState_provider:
  "restoreHistState p th (bi\<lparr>tbi_provider := v\<rparr>) = bind_r (restoreHistState p th bi) (\<lambda>(th, b). Inr (th, b\<lparr>tbi_provider := v\<rparr>))"
  by (auto simp: restoreHistState_def statless Let_def bind_r_def split: sum.splits)

lemma updatePathAndGlobalHistory_provider:
  "updatePathAndGlobalHistory p taken pc target th (bi\<lparr>tbi_provider := v\<rparr>) =
     bind_r (updatePathAndGlobalHistory p taken pc target th bi) (\<lambda>(th, b). Inr (th, b\<lparr>tbi_provider := v\<rparr>))"
  by (simp add: updatePathAndGlobalHistory_def statless bind_r_assoc Let_def)

lemma with_thread_statless:
  assumes "\<And>th. f th = bind_r (f' th) (\<lambda>(th, b). Inr (th, b\<lparr>tbi_provider := v\<rparr>))"
  shows "with_thread (s\<lparr>tb_stats := x\<rparr>) tid f = bind_r (with_thread s tid f') (\<lambda>(t, b). Inr (t\<lparr>tb_stats := x\<rparr>, b\<lparr>tbi_provider := v\<rparr>))"
  by (auto simp: with_thread_def assms statless bind_r_def split: sum.splits)

lemma recordHistState_provider [statless]: "recordHistState th (bi\<lparr>tbi_provider := v\<rparr>) = (recordHistState th bi)\<lparr>tbi_provider := v\<rparr>"
  by (simp add: recordHistState_def Let_def statless)

lemma bind_statless:
  assumes "\<And>t b. f (t\<lparr>tb_stats := x\<rparr>, b\<lparr>tbi_provider := v\<rparr>) = bind_r (f' (t, b)) (\<lambda>(t, b). Inr (t\<lparr>tb_stats := x\<rparr>, b\<lparr>tbi_provider := v\<rparr>))"
  shows "bind_r (bind_r r (\<lambda>(t, b). Inr (t\<lparr>tb_stats := x\<rparr>, b\<lparr>tbi_provider := v\<rparr>))) f =
    bind_r (bind_r r f') (\<lambda>(t, b). Inr (t\<lparr>tb_stats := x\<rparr>, b\<lparr>tbi_provider := v\<rparr>))"
  using assms by (auto simp: bind_r_def split: sum.splits)

lemma updateHistories_statless:
  "TAGEBase_updateHistories (s\<lparr>tb_stats := x\<rparr>) tid pc spec taken target (bi\<lparr>tbi_provider := v\<rparr>) =
     bind_r (TAGEBase_updateHistories s tid pc spec taken target bi) (\<lambda>(t, b). Inr (t\<lparr>tb_stats := x\<rparr>, b\<lparr>tbi_provider := v\<rparr>))"
proof -
  let ?p = "tb_params s"
  let ?calc = "\<lambda>(s, bi). if \<not> tbi_valid bi \<and> tbi_condBranch bi then calculateIndicesAndTags s tid pc bi else Inr (s, bi)"
  have calc: "?calc (t\<lparr>tb_stats := x\<rparr>, b\<lparr>tbi_provider := v\<rparr>) = bind_r (?calc (t, b)) (\<lambda>(t, b). Inr (t\<lparr>tb_stats := x\<rparr>, b\<lparr>tbi_provider := v\<rparr>))" for t b
    by (auto simp: statless bind_r_def split: sum.splits)
  have commit: "with_thread (s\<lparr>tb_stats := x\<rparr>) tid (\<lambda>th. bind_r (initialised (tbi_pathHist bi)) (\<lambda>ph.
        Inr (th\<lparr>th_nonSpecPathHist := calcNewPathHist ?p pc ph taken\<rparr>, bi\<lparr>tbi_provider := v\<rparr>))) =
      bind_r (with_thread s tid (\<lambda>th. bind_r (initialised (tbi_pathHist bi)) (\<lambda>ph.
        Inr (th\<lparr>th_nonSpecPathHist := calcNewPathHist ?p pc ph taken\<rparr>, bi)))) (\<lambda>(t, b). Inr (t\<lparr>tb_stats := x\<rparr>, b\<lparr>tbi_provider := v\<rparr>))"
    by (rule with_thread_statless) (simp add: bind_r_assoc)
  have restore: "with_thread (s\<lparr>tb_stats := x\<rparr>) tid (\<lambda>th.
        let bi = (if tp_speculativeHistUpdate ?p \<and> \<not> tbi_modified (bi\<lparr>tbi_provider := v\<rparr>) then recordHistState th (bi\<lparr>tbi_provider := v\<rparr>)
                  else bi\<lparr>tbi_provider := v\<rparr>)
        in if tbi_modified bi then restoreHistState ?p th bi else Inr (th, bi)) =
      bind_r (with_thread s tid (\<lambda>th.
        let bi = (if tp_speculativeHistUpdate ?p \<and> \<not> tbi_modified bi then recordHistState th bi else bi)
        in if tbi_modified bi then restoreHistState ?p th bi else Inr (th, bi))) (\<lambda>(t, b). Inr (t\<lparr>tb_stats := x\<rparr>, b\<lparr>tbi_provider := v\<rparr>))"
    by (rule with_thread_statless) (simp add: Let_def statless restoreHistState_provider)
  have push: "with_thread (t\<lparr>tb_stats := x\<rparr>) tid (\<lambda>th. updatePathAndGlobalHistory ?p taken pc target th (b\<lparr>tbi_provider := v\<rparr>)) =
      bind_r (with_thread t tid (\<lambda>th. updatePathAndGlobalHistory ?p taken pc target th b)) (\<lambda>(t, b). Inr (t\<lparr>tb_stats := x\<rparr>, b\<lparr>tbi_provider := v\<rparr>))" for t b
    by (rule with_thread_statless) (rule updatePathAndGlobalHistory_provider)
  let ?push = "\<lambda>(s, bi). check (tbi_nGhist bi = 0) (Assert ''bi->nGhist == 0'')
    (bind_r (with_thread s tid (\<lambda>th. updatePathAndGlobalHistory ?p taken pc target th bi)) (\<lambda>(s, bi). Inr (s, bi\<lparr>tbi_modified := True\<rparr>)))"
  have push': "?push (t\<lparr>tb_stats := x\<rparr>, b\<lparr>tbi_provider := v\<rparr>) = bind_r (?push (t, b)) (\<lambda>(t, b). Inr (t\<lparr>tb_stats := x\<rparr>, b\<lparr>tbi_provider := v\<rparr>))" for t b
    using push [of t b] by (auto simp: bind_r_def check_def statless split: sum.splits)
  show ?thesis
  proof (cases "spec = tp_speculativeHistUpdate ?p")
    case True
    have params: "tb_params (s\<lparr>tb_stats := x\<rparr>) = ?p" by simp
    have "TAGEBase_updateHistories s' tid pc spec taken target b = bind_r (with_thread s' tid (\<lambda>th.
        let bi = (if tp_speculativeHistUpdate ?p \<and> \<not> tbi_modified b then recordHistState th b else b)
        in if tbi_modified bi then restoreHistState ?p th bi else Inr (th, bi))) (\<lambda>z. bind_r (?calc z) ?push)" if "tb_params s' = ?p" for s' b
      unfolding TAGEBase_updateHistories_def that Let_def [of ?p] using True by (simp only: split_def simp_thms if_False not_True_eq_False)
    note eq = this [of "s\<lparr>tb_stats := x\<rparr>" "bi\<lparr>tbi_provider := v\<rparr>", OF params] this [of s, OF refl]
    show ?thesis unfolding eq restore by (rule bind_statless) (simp only: calc, rule bind_statless, rule push')
  next
    case False
    then show ?thesis using commit by (cases spec) (simp_all add: TAGEBase_updateHistories_def)
  qed
qed

lemma restore_statless:
  "TAGEBase_restoreHistState (s\<lparr>tb_stats := x\<rparr>) tid (bi\<lparr>tbi_provider := v\<rparr>) =
     bind_r (TAGEBase_restoreHistState s tid bi) (\<lambda>(t, b). Inr (t\<lparr>tb_stats := x\<rparr>, b\<lparr>tbi_provider := v\<rparr>))"
  unfolding TAGEBase_restoreHistState_def by (simp add: with_thread_statless [OF restoreHistState_provider])

lemma gtable_set_statless [statless]: "gtable_set (s\<lparr>tb_stats := x\<rparr>) i j e = put_stats x (gtable_set s i j e)"
  by (simp add: gtable_set_def statless bind_r_assoc)

lemma baseUpdate_statless [statless]:
  "baseUpdate (s\<lparr>tb_stats := x\<rparr>) taken (bi\<lparr>tbi_provider := v\<rparr>) = put_stats x (baseUpdate s taken bi)"
  by (simp add: baseUpdate_def Let_def statless bind_r_assoc)

lemma min_useful_statless [statless]: "min_useful (s\<lparr>tb_stats := x\<rparr>) (bi\<lparr>tbi_provider := v\<rparr>) m is = min_useful s bi m is"
  by (induction "is" arbitrary: m) (simp_all add: statless)

lemma allocate_entries_statless [statless]:
  "allocate_entries taken (bi\<lparr>tbi_provider := v\<rparr>) (s\<lparr>tb_stats := x\<rparr>) n is = put_stats x (allocate_entries taken bi s n is)"
proof (induction "is" arbitrary: n s)
  case (Cons i "is")
  then show ?case by (auto simp: statless bind_r_def split: sum.splits)
qed simp

lemma tage_allocate_statless [statless]:
  "tage_allocate (s\<lparr>tb_stats := x\<rparr>) taken (bi\<lparr>tbi_provider := v\<rparr>) nrand = put_stats x (tage_allocate s taken bi nrand)"
  by (auto simp: tage_allocate_def first_bank_def Let_def statless check_def bind_r_def split: sum.splits)

lemma handleAlloc_statless [statless]:
  "handleAllocAndUReset (s\<lparr>tb_stats := x\<rparr>) alloc taken (bi\<lparr>tbi_provider := v\<rparr>) nrand = put_stats x (handleAllocAndUReset s alloc taken bi nrand)"
  by (auto simp: handleAllocAndUReset_def handleUReset_def statless check_def bind_r_def split: sum.splits)

lemma update_ctr_statless [statless]: "update_ctr (s\<lparr>tb_stats := x\<rparr>) i j taken = put_stats x (update_ctr s i j taken)"
  by (simp add: update_ctr_def statless bind_r_assoc)

lemma handleTAGEUpdate_statless [statless]:
  "handleTAGEUpdate (s\<lparr>tb_stats := x\<rparr>) taken (bi\<lparr>tbi_provider := v\<rparr>) = put_stats x (handleTAGEUpdate s taken bi)"
  by (auto simp: handleTAGEUpdate_def statless bind_r_def split: sum.splits)

lemma condBranchUpdate_statless:
  "TAGEBase_condBranchUpdate (s\<lparr>tb_stats := x\<rparr>) pc taken (bi\<lparr>tbi_provider := v\<rparr>) nrand pred pre =
     put_stats x (TAGEBase_condBranchUpdate s pc taken bi nrand pred' pre)"
proof -
  have params: "tb_params (s\<lparr>tb_stats := x\<rparr>) = tb_params s" by simp
  have "bind_r (handleAllocAndUReset (s\<lparr>tb_stats := x\<rparr>) a taken (bi\<lparr>tbi_provider := v\<rparr>) nrand) (\<lambda>s. handleTAGEUpdate s taken (bi\<lparr>tbi_provider := v\<rparr>)) =
      put_stats x (bind_r (handleAllocAndUReset s a taken bi nrand) (\<lambda>s. handleTAGEUpdate s taken bi))" for a s
    by (simp add: statless bind_r_assoc)
  note this [simp]
  show ?thesis
    unfolding TAGEBase_condBranchUpdate_def getUseAltIdx_def adjustAlloc_def Let_def params
    by (simp add: statless bind_r_assoc split del: if_split cong: if_cong) (simp add: bind_r_assoc statless)
qed

section \<open>The simulation\<close>

definition stats_shape :: "TAGEBaseStats \<Rightarrow> nat \<times> nat" where
  "stats_shape st = (length (ts_longestMatchProvider st), length (ts_altMatchProvider st))"

definition ltage_sim :: "LoopPredictorParams \<Rightarrow> 'g TAGE \<Rightarrow> ('g, 'e) LTAGE \<Rightarrow> bool" where
  "ltage_sim q s l \<longleftrightarrow> tg_tage l = (tg_tage s)\<lparr>tb_stats := tb_stats (tg_tage l)\<rparr> \<and>
     stats_shape (tb_stats (tg_tage l)) = stats_shape (tb_stats (tg_tage s)) \<and> tg_rng l = tg_rng s \<and>
     LoopPredictor_wf (lt_loopPredictor l) \<and> lp_params (lt_loopPredictor l) = q"

definition ltage_hist :: "LoopPredictorParams \<Rightarrow> TageBranchInfo option \<Rightarrow> LTageBranchInfo option \<Rightarrow> bool" where
  "ltage_hist q h k \<longleftrightarrow> (\<exists>b c. h = Some b \<and> k = Some c \<and> loop_bi_ok q (lti_lpBranchInfo c) \<and>
     (\<exists>v \<in> {tbi_provider (tgi_tageBranchInfo b), LOOP}. tgi_tageBranchInfo c = (tgi_tageBranchInfo b)\<lparr>tbi_provider := v\<rparr>))"

lemma stats_kept:
  "TAGEBase_updateHistories s tid pc spec taken target bi = Inr (s', bi') \<Longrightarrow> tb_stats s' = tb_stats s \<and> tbi_provider bi' = tbi_provider bi"
  "TAGEBase_restoreHistState s tid bi = Inr (s', bi') \<Longrightarrow> tb_stats s' = tb_stats s"
  "TAGEBase_condBranchUpdate s pc taken bi nrand pred pre = Inr s' \<Longrightarrow> tb_stats s' = tb_stats s"
  "tagePredict s tid pc c bi = Inr (p, s', bi') \<Longrightarrow> tb_stats s' = tb_stats s"
proof -
  have id: "s\<lparr>tb_stats := tb_stats s\<rparr> = s" "bi\<lparr>tbi_provider := tbi_provider bi\<rparr> = bi" for s and bi :: TageBI by simp_all
  have stats: "tb_stats s' = x" if "s' = s'\<lparr>tb_stats := x\<rparr>" for s' x using arg_cong [OF that, of tb_stats] by simp
  have prov: "tbi_provider b = v" if "b = b\<lparr>tbi_provider := v\<rparr>" for b :: TageBI and v using arg_cong [OF that, of tbi_provider] by simp
  show "tb_stats s' = tb_stats s \<and> tbi_provider bi' = tbi_provider bi" if "TAGEBase_updateHistories s tid pc spec taken target bi = Inr (s', bi')"
    using updateHistories_statless [where x = "tb_stats s" and s = s and bi = bi and v = "tbi_provider bi" and tid = tid and pc = pc and spec = spec and taken = taken and target = target]
    unfolding id that by (auto intro!: stats prov)
  show "tb_stats s' = tb_stats s" if "TAGEBase_restoreHistState s tid bi = Inr (s', bi')"
    using restore_statless [where x = "tb_stats s" and s = s and bi = bi and v = "tbi_provider bi" and tid = tid] unfolding id that by (auto intro!: stats)
  show "tb_stats s' = tb_stats s" if "TAGEBase_condBranchUpdate s pc taken bi nrand pred pre = Inr s'"
    using condBranchUpdate_statless [where x = "tb_stats s" and s = s and bi = bi and v = "tbi_provider bi" and pc = pc and taken = taken and nrand = nrand and pred = pred and pre = pre and pred' = pred]
    unfolding id that by (auto intro!: stats)
  show "tb_stats s' = tb_stats s" if "tagePredict s tid pc c bi = Inr (p, s', bi')"
    using tagePredict_statless [where x = "tb_stats s" and s = s and bi = bi and tid = tid and pc = pc and c = c] unfolding id that by (auto intro!: stats)
qed

lemma provider_stats_shape: "stats_shape (provider_stats taken bi st) = stats_shape st"
  by (simp add: provider_stats_def stats_shape_def Let_def)

definition stats_counted :: "TageBI \<Rightarrow> bool" where
  "stats_counted bi \<longleftrightarrow> tbi_provider bi = TAGE_LONGEST_MATCH \<or> tbi_provider bi = TAGE_ALT_MATCH"

definition stats_fit :: "TageBI \<Rightarrow> TAGEBaseStats \<Rightarrow> bool" where
  "stats_fit bi st \<longleftrightarrow> (stats_counted bi \<longrightarrow> tbi_hitBank bi < fst (stats_shape st) \<and> tbi_altBank bi < snd (stats_shape st))"

lemma stats_shape_update:
  "stats_shape (st\<lparr>ts_longestMatchProvider := l, ts_altMatchProvider := a\<rparr>) = (length l, length a)"
  by (simp add: stats_shape_def)

lemma updateStats_returns:
  assumes "stats_fit bi (tb_stats s)"
  shows "\<exists>y. TAGEBase_updateStats s taken bi = Inr (s\<lparr>tb_stats := y\<rparr>) \<and> stats_shape y = stats_shape (tb_stats s)"
proof -
  define st where "st = provider_stats taken bi (tb_stats s)"
  have sh: "stats_shape st = stats_shape (tb_stats s)" by (simp add: st_def provider_stats_shape)
  have eq: "TAGEBase_updateStats s taken bi = bind_r (if stats_counted bi
      then bind_r (bump (ts_longestMatchProvider st) (tbi_hitBank bi)) (\<lambda>l. bind_r (bump (ts_altMatchProvider st) (tbi_altBank bi)) (\<lambda>a.
             Inr (st\<lparr>ts_longestMatchProvider := l, ts_altMatchProvider := a\<rparr>)))
      else Inr st) (\<lambda>st. Inr (s\<lparr>tb_stats := st\<rparr>))"
    unfolding TAGEBase_updateStats_def Let_def st_def stats_counted_def by (rule refl)
  show ?thesis
  proof (cases "stats_counted bi")
    case True
    then have l: "tbi_hitBank bi < length (ts_longestMatchProvider st)" "tbi_altBank bi < length (ts_altMatchProvider st)"
      using assms sh by (simp_all add: stats_fit_def stats_shape_def)
    show ?thesis unfolding eq sh [symmetric] using True l
      by (simp add: bump_def stats_shape_def) (intro exI conjI, rule refl, simp_all)
  next
    case False
    then show ?thesis unfolding eq using sh by (simp only: if_False bind_r_simps) blast
  qed
qed

lemma updateStats_fit:
  assumes "TAGEBase_updateStats s taken bi = Inr s'"
  shows "stats_fit bi (tb_stats s)"
proof -
  define st where "st = provider_stats taken bi (tb_stats s)"
  have sh: "stats_shape st = stats_shape (tb_stats s)" by (simp add: st_def provider_stats_shape)
  have "tbi_hitBank bi < length (ts_longestMatchProvider st) \<and> tbi_altBank bi < length (ts_altMatchProvider st)" if "stats_counted bi"
    using assms that unfolding TAGEBase_updateStats_def Let_def st_def [symmetric] stats_counted_def bump_def
    by (auto simp: bind_r_eq_Inr_iff vec_get_eq_Inr_iff)
  then show ?thesis using sh by (simp add: stats_fit_def stats_shape_def)
qed

lemma stats_fit_provider:
  assumes "stats_fit bi st" and "v \<in> {tbi_provider bi, LOOP}" and "stats_shape x = stats_shape st"
  shows "stats_fit (bi\<lparr>tbi_provider := v\<rparr>) x"
  using assms by (auto simp: stats_fit_def stats_counted_def tage_providers LOOP_def LAST_TAGE_PROVIDER_TYPE_def)

lemma updateStats_sim:
  assumes "TAGEBase_updateStats s taken bi = Inr s'" and "v \<in> {tbi_provider bi, LOOP}" and "stats_shape x = stats_shape (tb_stats s)"
  shows "\<exists>z y. s' = s\<lparr>tb_stats := z\<rparr> \<and> stats_shape z = stats_shape (tb_stats s) \<and> stats_shape y = stats_shape (tb_stats s) \<and>
    TAGEBase_updateStats (s\<lparr>tb_stats := x\<rparr>) taken (bi\<lparr>tbi_provider := v\<rparr>) = Inr (s\<lparr>tb_stats := y\<rparr>)"
proof -
  note fit = updateStats_fit [OF assms(1)]
  obtain z where z: "TAGEBase_updateStats s taken bi = Inr (s\<lparr>tb_stats := z\<rparr>)" "stats_shape z = stats_shape (tb_stats s)"
    using updateStats_returns [OF fit, of taken] by blast
  have "stats_fit (bi\<lparr>tbi_provider := v\<rparr>) (tb_stats (s\<lparr>tb_stats := x\<rparr>))" using stats_fit_provider [OF fit assms(2,3)] by simp
  from updateStats_returns [OF this, of taken]
  obtain y where "TAGEBase_updateStats (s\<lparr>tb_stats := x\<rparr>) taken (bi\<lparr>tbi_provider := v\<rparr>) = Inr (s\<lparr>tb_stats := y\<rparr>)" "stats_shape y = stats_shape x"
    by auto
  then show ?thesis using z assms(1,3) by auto
qed

lemma ltage_simI:
  assumes "ltage_sim q s l" and "stats_shape x = stats_shape (tb_stats t)" and "LoopPredictor_wf lp" and "lp_params lp = q"
  shows "ltage_sim q (s\<lparr>tg_tage := t, tg_rng := g\<rparr>) (l\<lparr>tg_tage := t\<lparr>tb_stats := x\<rparr>, tg_rng := g, lt_loopPredictor := lp, lt_env := e\<rparr>)"
  using assms by (simp add: ltage_sim_def)

lemma predict_sim:
  assumes "ltage_sim q s l" and "TAGE_predict s tid pc c = Inr (p, s', b)"
  shows "\<exists>p' l' k. LTAGE_predict en l tid pc c = Inr (p', l', k) \<and> ltage_sim q s' l' \<and> ltage_hist q (Some b) (Some k)"
proof -
  obtain t bi where t: "tagePredict (tg_tage s) tid pc c (makeBranchInfo (tg_tage s) pc c) = Inr (p, t, bi)"
      "s' = s\<lparr>tg_tage := t\<rparr>" "b = \<lparr>tgi_tageBranchInfo = bi\<rparr>"
    using assms(2) by (auto simp: TAGE_predict_def bind_r_eq_Inr_iff)
  let ?x = "tb_stats (tg_tage l)"
  have l: "tg_tage l = (tg_tage s)\<lparr>tb_stats := ?x\<rparr>" "stats_shape ?x = stats_shape (tb_stats (tg_tage s))" "tg_rng l = tg_rng s"
      "LoopPredictor_wf (lt_loopPredictor l)" "lp_params (lt_loopPredictor l) = q"
    using assms(1) unfolding ltage_sim_def by blast+
  obtain u e where u: "en_memory en (lt_env l) = (u, e)" by (cases "en_memory en (lt_env l)")
  have pr: "tagePredict (tg_tage l) tid pc c (makeBranchInfo (tg_tage l) pc c) = Inr (p, t\<lparr>tb_stats := ?x\<rparr>, bi)"
    by (subst (1 2) l(1)) (simp add: tagePredict_statless statless t(1))
  obtain p' lp lb where lo: "loopPredict (en_loop en) (lt_loopPredictor l) pc c (LoopBranchInfo_new u) p (lt_instShiftAmt l) = Inr (p', lp, lb)"
      "LoopPredictor_wf lp" "loop_bi_ok q lb" "lp_params lp = q"
    using loopPredict_ok [OF l(4) LoopBranchInfo_new_ok(2), of "en_loop en" pc c u p "lt_instShiftAmt l"] l(5) by auto
  let ?v = "if c \<and> lb_loopPredUsed lb then LOOP else tbi_provider bi"
  let ?l = "l\<lparr>tg_tage := t\<lparr>tb_stats := ?x\<rparr>, lt_loopPredictor := lp, lt_env := e\<rparr>"
  let ?k = "\<lparr>tgi_tageBranchInfo = bi\<lparr>tbi_provider := ?v\<rparr>, lti_lpBranchInfo = lb\<lparr>lb_predTaken := p'\<rparr>\<rparr>"
  have "LTAGE_predict en l tid pc c = Inr (p', ?l, ?k)" by (simp add: LTAGE_predict_def u pr lo(1))
  moreover have "ltage_sim q s' ?l" using l t(2) stats_kept(4) [OF t(1)] lo by (simp add: ltage_sim_def)
  moreover have "ltage_hist q (Some b) (Some ?k)" unfolding ltage_hist_def using lo(3) t(3) by (simp add: loop_bi_ok_def)
  ultimately show ?thesis by blast
qed

lemma update_histories_sim:
  assumes "TAGEBase_updateHistories t tid pc spec taken target b = Inr (t', b')" and "stats_shape x = stats_shape (tb_stats t)"
    and "v \<in> {tbi_provider b, LOOP}"
  shows "TAGEBase_updateHistories (t\<lparr>tb_stats := x\<rparr>) tid pc spec taken target (b\<lparr>tbi_provider := v\<rparr>) = Inr (t'\<lparr>tb_stats := x\<rparr>, b'\<lparr>tbi_provider := v\<rparr>)"
    and "stats_shape x = stats_shape (tb_stats t')" and "v \<in> {tbi_provider b', LOOP}"
  using assms stats_kept(1) [OF assms(1)] by (simp_all add: updateHistories_statless)

lemma ltage_simD:
  assumes "ltage_sim q s l"
  obtains x where "tg_tage l = (tg_tage s)\<lparr>tb_stats := x\<rparr>" and "stats_shape x = stats_shape (tb_stats (tg_tage s))" and "tg_rng l = tg_rng s"
    and "LoopPredictor_wf (lt_loopPredictor l)" and "lp_params (lt_loopPredictor l) = q"
  using assms unfolding ltage_sim_def by blast

lemma ltage_histD:
  assumes "ltage_hist q h k"
  obtains b c v where "h = Some b" and "k = Some c" and "loop_bi_ok q (lti_lpBranchInfo c)"
    and "v \<in> {tbi_provider (tgi_tageBranchInfo b), LOOP}" and "tgi_tageBranchInfo c = (tgi_tageBranchInfo b)\<lparr>tbi_provider := v\<rparr>"
  using assms unfolding ltage_hist_def by blast

lemma tage_updateHistories_sim:
  assumes "ltage_sim q s l" and "ltage_hist q h k" and "TAGE_updateHistories TAGE_predict s tid pc unc taken target inst h = Inr (s', h')"
  shows "\<exists>l' k'. TAGE_updateHistories (LTAGE_predict en) l tid pc unc taken target inst k = Inr (l', k') \<and> ltage_sim q s' l' \<and> ltage_hist q h' k'"
proof -
  obtain x where l: "tg_tage l = (tg_tage s)\<lparr>tb_stats := x\<rparr>" "stats_shape x = stats_shape (tb_stats (tg_tage s))" "tg_rng l = tg_rng s"
      "LoopPredictor_wf (lt_loopPredictor l)" "lp_params (lt_loopPredictor l) = q"
    by (rule ltage_simD [OF assms(1)])
  obtain b c v where h: "h = Some b" "k = Some c" "loop_bi_ok q (lti_lpBranchInfo c)" "v \<in> {tbi_provider (tgi_tageBranchInfo b), LOOP}"
      "tgi_tageBranchInfo c = (tgi_tageBranchInfo b)\<lparr>tbi_provider := v\<rparr>"
    by (rule ltage_histD [OF assms(2)])
  obtain t bi where t: "TAGEBase_updateHistories (tg_tage s) tid pc True taken target (tgi_tageBranchInfo b) = Inr (t, bi)"
      "s' = s\<lparr>tg_tage := t\<rparr>" "h' = Some (b\<lparr>tgi_tageBranchInfo := bi\<rparr>)"
    using assms(3) h(1) by (auto simp: TAGE_updateHistories_def bind_r_eq_Inr_iff)
  note u = update_histories_sim [OF t(1) l(2) h(4)]
  let ?l = "l\<lparr>tg_tage := t\<lparr>tb_stats := x\<rparr>\<rparr>" and ?c = "c\<lparr>tgi_tageBranchInfo := bi\<lparr>tbi_provider := v\<rparr>\<rparr>"
  have "TAGE_updateHistories (LTAGE_predict en) l tid pc unc taken target inst k = Inr (?l, Some ?c)"
    using h l u(1) by (simp add: TAGE_updateHistories_def)
  moreover have "ltage_sim q s' ?l" using l t(2) u(2) by (simp add: ltage_sim_def)
  moreover have "ltage_hist q h' (Some ?c)" unfolding ltage_hist_def using u(3) h(3) t(3) by auto
  ultimately show ?thesis by blast
qed

lemma commit_tables_sim:
  assumes "bind_r (TAGEBase_updateStats t taken b) (\<lambda>t. TAGEBase_condBranchUpdate t pc taken b nrand (tbi_tagePred b) False) = Inr t2"
    and "stats_shape x = stats_shape (tb_stats t)" and "v \<in> {tbi_provider b, LOOP}"
  shows "\<exists>t1 y. TAGEBase_updateStats (t\<lparr>tb_stats := x\<rparr>) taken (b\<lparr>tbi_provider := v\<rparr>) = Inr t1 \<and>
    (\<forall>pred. TAGEBase_condBranchUpdate t1 pc taken (b\<lparr>tbi_provider := v\<rparr>) nrand pred False = Inr (t2\<lparr>tb_stats := y\<rparr>)) \<and>
    stats_shape y = stats_shape (tb_stats t2)"
proof -
  obtain t1 where t1: "TAGEBase_updateStats t taken b = Inr t1" "TAGEBase_condBranchUpdate t1 pc taken b nrand (tbi_tagePred b) False = Inr t2"
    using assms(1) by (auto simp: bind_r_eq_Inr_iff)
  obtain z y where z: "t1 = t\<lparr>tb_stats := z\<rparr>" "stats_shape z = stats_shape (tb_stats t)" "stats_shape y = stats_shape (tb_stats t)"
      "TAGEBase_updateStats (t\<lparr>tb_stats := x\<rparr>) taken (b\<lparr>tbi_provider := v\<rparr>) = Inr (t\<lparr>tb_stats := y\<rparr>)"
    using updateStats_sim [OF t1(1) assms(3,2)] by blast
  have "tb_stats t2 = z" using stats_kept(3) [OF t1(2)] z(1) by simp
  moreover have "TAGEBase_condBranchUpdate (t1\<lparr>tb_stats := y\<rparr>) pc taken (b\<lparr>tbi_provider := v\<rparr>) nrand pred False = Inr (t2\<lparr>tb_stats := y\<rparr>)" for pred
    by (simp add: condBranchUpdate_statless [where pred' = "tbi_tagePred b"] t1(2))
  moreover have "t1\<lparr>tb_stats := y\<rparr> = t\<lparr>tb_stats := y\<rparr>" by (simp add: z(1))
  ultimately show ?thesis using z by auto
qed

lemma commit_loop_ok:
  assumes "LoopPredictor_wf lp" and "loop_bi_ok (lp_params lp) lb"
  shows "\<exists>lp' lb'. LoopPredictor_condBranchUpdate ops (LoopPredictor_updateStats lp taken lb) pc taken tage_pred lb sh r1 r2 = Inr (lp', lb') \<and>
    LoopPredictor_wf lp' \<and> lp_params lp' = lp_params lp"
  using condBranchUpdate_ok [of "LoopPredictor_updateStats lp taken lb" lb ops pc taken tage_pred sh r1 r2] updateStats_ok [OF assms(1), of taken lb] assms(2)
  by simp

lemma ltage_commit_sim:
  assumes "ltage_sim q s l" and "ltage_hist q h k" and "TAGE_update rnd s tid pc taken h False inst target = Inr (s', h')"
  shows "\<exists>l' k'. LTAGE_update rnd en l tid pc taken k False inst target = Inr (l', k') \<and> ltage_sim q s' l'"
proof -
  obtain x where l: "tg_tage l = (tg_tage s)\<lparr>tb_stats := x\<rparr>" "stats_shape x = stats_shape (tb_stats (tg_tage s))" "tg_rng l = tg_rng s"
      "LoopPredictor_wf (lt_loopPredictor l)" "lp_params (lt_loopPredictor l) = q"
    by (rule ltage_simD [OF assms(1)])
  obtain b c v where h: "h = Some b" "k = Some c" "loop_bi_ok q (lti_lpBranchInfo c)" "v \<in> {tbi_provider (tgi_tageBranchInfo b), LOOP}"
      "tgi_tageBranchInfo c = (tgi_tageBranchInfo b)\<lparr>tbi_provider := v\<rparr>"
    by (rule ltage_histD [OF assms(2)])
  obtain r g where rg: "rnd (tg_rng s) = (r, g)" by (cases "rnd (tg_rng s)")
  obtain r1 r2 e where en: "en_random en (lt_env l) = ((r1, r2), e)" by (cases "en_random en (lt_env l)") auto
  let ?b = "tgi_tageBranchInfo b" and ?lb = "lti_lpBranchInfo c"
  obtain t2 t3 b3 where t: "(if tbi_condBranch ?b then bind_r (TAGEBase_updateStats (tg_tage s) taken ?b) (\<lambda>t.
        TAGEBase_condBranchUpdate t pc taken ?b (r AND 3) (tbi_tagePred ?b) False) else Inr (tg_tage s)) = Inr t2"
      "TAGEBase_updateHistories t2 tid pc False taken target ?b = Inr (t3, b3)" "s' = s\<lparr>tg_tage := t3, tg_rng := g\<rparr>"
    using assms(3) h(1) rg by (auto simp: TAGE_update_def Let_def bind_r_eq_Inr_iff split: if_splits)
  obtain lp y where tabs: "(if tbi_condBranch ?b
      then bind_r (TAGEBase_updateStats (tg_tage l) taken (?b\<lparr>tbi_provider := v\<rparr>)) (\<lambda>t.
           bind_r (LoopPredictor_condBranchUpdate (en_loop en) (LoopPredictor_updateStats (lt_loopPredictor l) taken ?lb)
                     pc taken (tbi_tagePred ?b) ?lb (lt_instShiftAmt l) r1 r2) (\<lambda>(lp, lb).
           bind_r (TAGEBase_condBranchUpdate t pc taken (?b\<lparr>tbi_provider := v\<rparr>) (r AND 3) (lb_predTaken lb) False) (\<lambda>t. Inr (t, lp))))
      else Inr (tg_tage l, lt_loopPredictor l)) = Inr (t2\<lparr>tb_stats := y\<rparr>, lp)"
      "LoopPredictor_wf lp" "lp_params lp = q" "stats_shape y = stats_shape (tb_stats t2)"
  proof (cases "tbi_condBranch ?b")
    case True
    obtain lp lb where lo: "LoopPredictor_condBranchUpdate (en_loop en) (LoopPredictor_updateStats (lt_loopPredictor l) taken ?lb)
          pc taken (tbi_tagePred ?b) ?lb (lt_instShiftAmt l) r1 r2 = Inr (lp, lb)" "LoopPredictor_wf lp" "lp_params lp = q"
      using commit_loop_ok [OF l(4), of ?lb "en_loop en" taken pc "tbi_tagePred ?b" "lt_instShiftAmt l" r1 r2] l(5) h(3) by auto
    have "bind_r (TAGEBase_updateStats (tg_tage s) taken ?b) (\<lambda>t. TAGEBase_condBranchUpdate t pc taken ?b (r AND 3) (tbi_tagePred ?b) False) = Inr t2"
      using t(1) True by simp
    from commit_tables_sim [OF this l(2) h(4)]
    obtain t1 y where "TAGEBase_updateStats (tg_tage l) taken (?b\<lparr>tbi_provider := v\<rparr>) = Inr t1"
        "\<And>pred. TAGEBase_condBranchUpdate t1 pc taken (?b\<lparr>tbi_provider := v\<rparr>) (r AND 3) pred False = Inr (t2\<lparr>tb_stats := y\<rparr>)"
        "stats_shape y = stats_shape (tb_stats t2)"
      unfolding l(1) by blast
    with lo True show ?thesis by (intro that [of y lp]) simp_all
  next
    case False
    then show ?thesis using l t(1) by (intro that [of x "lt_loopPredictor l"]) simp_all
  qed
  note u = update_histories_sim [OF t(2) tabs(4) h(4)]
  let ?l = "l\<lparr>tg_tage := t3\<lparr>tb_stats := y\<rparr>, tg_rng := g, lt_loopPredictor := lp, lt_env := e\<rparr>"
  have sel: "tbi_condBranch (?b\<lparr>tbi_provider := v\<rparr>) = tbi_condBranch ?b" "tbi_tagePred (?b\<lparr>tbi_provider := v\<rparr>) = tbi_tagePred ?b" by simp_all
  have "LTAGE_update rnd en l tid pc taken k False inst target = Inr (?l, None)"
    unfolding LTAGE_update_def h(2) h(5) option.case Let_def l(3) rg en prod.case if_False sel tabs(1) bind_r_simps u(1) by (rule refl)
  moreover have "ltage_sim q s' ?l" unfolding t(3) by (rule ltage_simI [OF assms(1) u(2) tabs(2,3)])
  ultimately show ?thesis by blast
qed

interpretation ltage: predictor_simulation "TAGE_ops rnd" "LTAGE_ops rnd en" "ltage_sim q" "ltage_hist q" for rnd en q
proof (unfold_locales, goal_cases)
  case (1 s l br b s' h)
  let ?H = "\<lambda>l k. TAGE_updateHistories (LTAGE_predict en) l (br_tid br) (br_pc br) (br_uncond br) (br_taken br) (br_target br) (br_inst br) k"
  obtain s1 bi p where pr: "TAGE_predict s (br_tid br) (br_pc br) (\<not> br_uncond br) = Inr (p, s1, bi)"
      "TAGE_updateHistories TAGE_predict s1 (br_tid br) (br_pc br) (br_uncond br) (br_taken br) (br_target br) (br_inst br) (Some bi) = Inr (s', h)"
    using 1(2) by (cases "br_uncond br") (auto simp: speculate_def TAGE_ops_def TAGE_lookup_def TAGE_updateHistories_def bind_r_eq_Inr_iff)
  obtain p' l1 k where l1: "LTAGE_predict en l (br_tid br) (br_pc br) (\<not> br_uncond br) = Inr (p', l1, k)" "ltage_sim q s1 l1" "ltage_hist q (Some bi) (Some k)"
    using predict_sim [OF 1(1) pr(1)] by blast
  obtain l' k' where l': "?H l1 (Some k) = Inr (l', k')" "ltage_sim q s' l'" "ltage_hist q h k'"
    using tage_updateHistories_sim [OF l1(2,3) pr(2)] by blast
  have "\<exists>b'. speculate (LTAGE_ops rnd en) l br = Inr (b', l', k')"
    using l1(1) l'(1) by (cases "br_uncond br") (auto simp: speculate_def LTAGE_ops_def TAGE_lookup_def TAGE_updateHistories_def)
  then show ?case using l'(2,3) by blast
next
  case (2 s l h k tid s' h')
  obtain x where l: "tg_tage l = (tg_tage s)\<lparr>tb_stats := x\<rparr>" "stats_shape x = stats_shape (tb_stats (tg_tage s))" "tg_rng l = tg_rng s"
      "LoopPredictor_wf (lt_loopPredictor l)" "lp_params (lt_loopPredictor l) = q"
    by (rule ltage_simD [OF 2(1)])
  obtain b c v where h: "h = Some b" "k = Some c" "loop_bi_ok q (lti_lpBranchInfo c)" "v \<in> {tbi_provider (tgi_tageBranchInfo b), LOOP}"
      "tgi_tageBranchInfo c = (tgi_tageBranchInfo b)\<lparr>tbi_provider := v\<rparr>"
    by (rule ltage_histD [OF 2(2)])
  obtain t bi where t: "TAGEBase_restoreHistState (tg_tage s) tid (tgi_tageBranchInfo b) = Inr (t, bi)" "s' = s\<lparr>tg_tage := t\<rparr>"
    using 2(3) h(1) by (auto simp: TAGE_ops_def TAGE_squash_def bind_r_eq_Inr_iff)
  have r: "TAGEBase_restoreHistState (tg_tage l) tid (tgi_tageBranchInfo c) = Inr (t\<lparr>tb_stats := x\<rparr>, bi\<lparr>tbi_provider := v\<rparr>)"
    unfolding l(1) h(5) by (simp add: restore_statless t(1))
  obtain lp where lp: "LoopPredictor_squash (lt_loopPredictor l) (lti_lpBranchInfo c) = Inr lp" "LoopPredictor_wf lp" "lp_params lp = q"
    using loop_squash_ok [OF l(4), of "lti_lpBranchInfo c"] l(5) h(3) by auto
  let ?l = "l\<lparr>tg_tage := t\<lparr>tb_stats := x\<rparr>, lt_loopPredictor := if tbi_condBranch (tgi_tageBranchInfo c) then lp else lt_loopPredictor l\<rparr>"
  have "cp_squash (LTAGE_ops rnd en) l tid k = Inr (?l, None)" using r lp(1) h(2) by (simp add: LTAGE_ops_def LTAGE_squash_def TAGE_squash_def)
  moreover have "ltage_sim q s' ?l" using l lp t(2) stats_kept(2) [OF t(1)] by (simp add: ltage_sim_def)
  ultimately show ?case by blast
next
  case (3 s l h k tid pc taken inst target s' h')
  obtain x where l: "tg_tage l = (tg_tage s)\<lparr>tb_stats := x\<rparr>" "stats_shape x = stats_shape (tb_stats (tg_tage s))" "tg_rng l = tg_rng s"
      "LoopPredictor_wf (lt_loopPredictor l)" "lp_params (lt_loopPredictor l) = q"
    by (rule ltage_simD [OF 3(1)])
  obtain b c v where h: "h = Some b" "k = Some c" "loop_bi_ok q (lti_lpBranchInfo c)" "v \<in> {tbi_provider (tgi_tageBranchInfo b), LOOP}"
      "tgi_tageBranchInfo c = (tgi_tageBranchInfo b)\<lparr>tbi_provider := v\<rparr>"
    by (rule ltage_histD [OF 3(2)])
  obtain t bi where t: "TAGEBase_squash (tg_tage s) tid taken target (tgi_tageBranchInfo b) = Inr (t, bi)" "s' = s\<lparr>tg_tage := t\<rparr>"
      "h' = Some (b\<lparr>tgi_tageBranchInfo := bi\<rparr>)"
    using 3(3) h(1) by (auto simp: TAGE_ops_def TAGE_update_def bind_r_eq_Inr_iff)
  have pc: "tbi_branchPC (tgi_tageBranchInfo c) = tbi_branchPC (tgi_tageBranchInfo b)" by (simp add: h(5))
  note u = update_histories_sim [OF t(1) [unfolded TAGEBase_squash_def] l(2) h(4)]
  obtain lp where lp: "squashLoop (lt_loopPredictor l) (lti_lpBranchInfo c) = Inr lp" "LoopPredictor_wf lp" "lp_params lp = q"
    using loop_squash_ok [OF l(4), of "lti_lpBranchInfo c"] l(5) h(3) by auto
  show ?case
  proof (cases "isSpeculativeUpdateEnabled (tg_tage l)")
    case True
    let ?l = "l\<lparr>tg_tage := t\<lparr>tb_stats := x\<rparr>, lt_loopPredictor := if tbi_condBranch bi then lp else lt_loopPredictor l\<rparr>"
    let ?c = "c\<lparr>tgi_tageBranchInfo := bi\<lparr>tbi_provider := v\<rparr>\<rparr>"
    have "cp_update (LTAGE_ops rnd en) l tid pc taken k True inst target = Inr (?l, Some ?c)"
      using u(1) lp(1) h(2,5) True by (simp add: LTAGE_ops_def LTAGE_update_def TAGEBase_squash_def l(1) Let_def)
    moreover have "ltage_sim q s' ?l" using l lp t(2) u(2) by (simp add: ltage_sim_def)
    moreover have "ltage_hist q h' (Some ?c)" unfolding ltage_hist_def using u(3) h(3) t(3) by auto
    ultimately show ?thesis by blast
  next
    case False
    then have "t = tg_tage s" "bi = tgi_tageBranchInfo b"
      using t(1) l(1) by (simp_all add: isSpeculativeUpdateEnabled_def TAGEBase_squash_def TAGEBase_updateHistories_def Let_def)
    then have "s' = s" "h' = h" using t(2,3) h(1) by simp_all
    moreover have "cp_update (LTAGE_ops rnd en) l tid pc taken k True inst target = Inr (l, k)"
      using h(2) False by (simp add: LTAGE_ops_def LTAGE_update_def Let_def)
    ultimately show ?thesis using 3(1,2) by blast
  qed
next
  case (4 s l h k tid pc taken inst target s' h')
  show ?case using ltage_commit_sim [OF 4(1,2), of rnd tid pc taken inst target s' h' en] 4(3) by (simp add: TAGE_ops_def LTAGE_ops_def)
qed

end
