(* ===== verification/LTage_Runs.thy ===== *)
theory LTage_Runs
  imports LTage
begin

text \<open>
  What LTAGE computes on whole runs: its TAGE component is that of a TAGE predictor on the same branches,
  its prediction is the one of a confident loop entry or that of TAGE, and with the default parameters
  the index function of the last tables is undefined.
\<close>

section \<open>Runs of both predictors\<close>

lemma ltage_run:
  assumes "TAGEBaseParams_ok p" and "lengths_ok len p" and "LoopPredictorParams_ok q"
    and "list_all (event_ok (tage_tid_ok p)) evs" and "within_limit 500 ([], []) evs"
  shows "\<exists>hl t lp0 lp s fl l gl. TAGEBase_init len (TAGEBase_new p) = Inr t \<and> LoopPredictor_new q = Inr lp0 \<and> LoopPredictor_init lp0 = Inr lp \<and>
    cp_run (TAGE_ops rnd) (\<lparr>tg_tage = t, tg_rng = g\<rparr>, []) evs = Inr (s, fl) \<and>
    cp_run (LTAGE_ops rnd en) (LTAGE_new t lp sh g e, []) evs = Inr (l, gl) \<and> map fst gl = map fst fl \<and> ltage_sim q s l \<and>
    base_at p hl (fst (br_run ([], []) evs)) (snd (br_run ([], []) evs)) (tg_tage s)"
proof -
  obtain hl t s fl where r: "TAGEBase_init len (TAGEBase_new p) = Inr t" "cp_run (TAGE_ops rnd) (\<lparr>tg_tage = t, tg_rng = g\<rparr>, []) evs = Inr (s, fl)"
      "base_at p hl (fst (br_run ([], []) evs)) (snd (br_run ([], []) evs)) (tg_tage s)"
    using tage_run [OF assms(1,2,4,5), of rnd g] by blast
  obtain lp0 lp where lp: "LoopPredictor_new q = Inr lp0" "LoopPredictor_init lp0 = Inr lp" "LoopPredictor_wf lp" "lp_params lp = q"
    using loop_construct [OF assms(3)] by blast
  have "ltage_sim q \<lparr>tg_tage = t, tg_rng = g\<rparr> (LTAGE_new t lp sh g e)" using lp(3,4) by (simp add: ltage_sim_def LTAGE_new_def)
  from ltage.run_sim [OF this ltage.paired_simps(1) r(2)]
  obtain l gl where "cp_run (LTAGE_ops rnd en) (LTAGE_new t lp sh g e, []) evs = Inr (l, gl)" "ltage_sim q s l" "ltage.paired q fl gl"
    by blast
  with r lp(1,2) ltage.paired_fst show ?thesis by blast
qed


text \<open>The entry of the loop table that a branch hits.\<close>

definition loop_hit :: "LoopPredictor \<Rightarrow> Addr \<Rightarrow> u32 \<Rightarrow> LoopEntry option" where
  "loop_hit lp pc sh =
     (let a = loop_address lp pc sh (LoopBranchInfo_new False)
      in map_option (\<lambda>i. lp_ltable lp ! loop_slot lp a (int i))
           (find (\<lambda>i. le_tag (lp_ltable lp ! loop_slot lp a (int i)) = lb_loopTag a) (loop_ways lp)))"

lemma loop_address_memory:
  "lb_loopTag (loop_address lp pc sh (LoopBranchInfo_new u)) = lb_loopTag (loop_address lp pc sh (LoopBranchInfo_new False))"
  "loop_slot lp (loop_address lp pc sh (LoopBranchInfo_new u)) = loop_slot lp (loop_address lp pc sh (LoopBranchInfo_new False))"
  by (simp_all add: fun_eq_iff loop_address_def loop_slot_def LoopBranchInfo_new_def Let_def)

lemma loopPredict_hit:
  assumes "LoopPredictor_wf lp" and "loopPredict ops lp pc True (LoopBranchInfo_new u) prev sh = Inr (pred, lp', lb)"
  shows "pred = (case loop_hit lp pc sh of
      Some en \<Rightarrow> if 0 \<le> lp_loopUseCounter lp \<and> lo_calcConf ops lp en then loop_direction lp (lpp_useSpeculation (lp_params lp)) en else prev
    | None \<Rightarrow> prev)"
proof -
  let ?a = "loop_address lp pc sh (LoopBranchInfo_new u)"
  have ok: "loop_bi_ok (lp_params lp) ?a"
    using assms(1) LoopBranchInfo_new_ok(2) [of "lp_params lp" u] by (intro loop_address_ok) (auto simp: LoopPredictor_wf_def loop_bi_ok_def)
  note f = find_loop_ok [OF assms(1) ok, of "loop_ways lp", unfolded loop_ways_set, simplified]
  have v: "\<not> lb_loopPredValid ?a" by (simp add: loop_address_def Let_def)
  show ?thesis
  proof (cases "find (\<lambda>i. le_tag (lp_ltable lp ! loop_slot lp ?a (int i)) = lb_loopTag ?a) (loop_ways lp)")
    case None
    then have "loop_hit lp pc sh = None" by (simp add: loop_hit_def Let_def loop_address_memory [of lp pc sh u])
    then show ?thesis using assms(2) f None v by (auto simp: loopPredict_def getLoop_def Let_def bind_r_eq_Inr_iff)
  next
    case (Some i)
    then have "loop_hit lp pc sh = Some (lp_ltable lp ! loop_slot lp ?a (int i))" by (simp add: loop_hit_def Let_def loop_address_memory [of lp pc sh u])
    then show ?thesis using assms(2) f Some by (auto simp: loopPredict_def getLoop_def Let_def bind_r_eq_Inr_iff)
  qed
qed


section \<open>The default parameters\<close>

text \<open>The defaults of \<open>TAGEBase\<close> with those of \<open>LTAGE_TAGE\<close>, for \<open>k\<close> threads and a shift by two.\<close>

definition LTAGE_TAGE :: "u32 \<Rightarrow> TAGEBaseParams" where
  "LTAGE_TAGE k = \<lparr>tp_numThreads = k, tp_instShiftAmt = 2, tp_logRatioBiModalHystEntries = 2, tp_nHistoryTables = 12,
     tp_tagTableCounterBits = 3, tp_tagTableUBits = 2, tp_histBufferSize = 2097152, tp_minHist = 4, tp_maxHist = 640, tp_pathHistBits = 16,
     tp_tagTableTagWidths = [0, 7, 7, 8, 8, 9, 10, 11, 12, 12, 13, 14, 15],
     tp_logTagTableSizes = [14, 10, 10, 11, 11, 11, 11, 10, 10, 10, 10, 9, 9], tp_logUResetPeriod = 19, tp_initialTCounterValue = 2 ^ 17,
     tp_numUseAltOnNa = 1, tp_useAltOnNaBits = 4, tp_maxNumAlloc = 1, tp_takenOnlyHistory = False, tp_noSkip = [],
     tp_speculativeHistUpdate = True\<rparr>"

lemma init_shape:
  assumes "TAGEBase_init len (TAGEBase_new p) = Inr t"
  shows "tb_params t = p" and "length (tb_histLengths t) = unat (tp_nHistoryTables p) + 1"
    and "length (tb_threadHistory t) = unat (tp_numThreads p)"
    and "th \<in> set (tb_threadHistory t) \<Longrightarrow> length (th_computeIndices th) = unat (tp_nHistoryTables p) + 1 \<and>
      length (th_computeTags0 th) = unat (tp_nHistoryTables p) + 1 \<and> length (th_computeTags1 th) = unat (tp_nHistoryTables p) + 1"
proof -
  let ?n = "unat (tp_nHistoryTables p)"
  have new: "tb_params (TAGEBase_new p) = p" "\<not> tb_initialized (TAGEBase_new p)" "length (tb_threadHistory (TAGEBase_new p)) = unat (tp_numThreads p)"
    by (simp_all add: TAGEBase_new_def Let_def)
  obtain hl ths where h: "calculateParameters len p = Inr hl" "map_r (\<lambda>th. initFoldedHistories p hl (th\<lparr>th_pathHist := 0, th_nonSpecPathHist := 0,
      th_globalHist := replicate (unat (tp_histBufferSize p)) 0, th_ptGhist := 0\<rparr>)) (tb_threadHistory (TAGEBase_new p)) = Inr ths"
      and t: "tb_params t = p" "tb_histLengths t = hl" "tb_threadHistory t = ths"
    using assms unfolding TAGEBase_init_def Let_def new(1) by (auto simp: bind_r_eq_Inr_iff check_eq_Inr_iff new)
  show "tb_params t = p" by (rule t)
  from h(1) have "length hl = ?n + 1" by (auto simp: calculateParameters_def Let_def check_eq_Inr_iff)
  then show "length (tb_histLengths t) = ?n + 1" using t(2) by simp
  note m = map_r_eq_InrD [OF h(2)]
  show "length (tb_threadHistory t) = unat (tp_numThreads p)" using list_all2_lengthD [OF m] new(3) t(3) by simp
  have fold: "length (th_computeIndices y) = ?n + 1 \<and> length (th_computeTags0 y) = ?n + 1 \<and> length (th_computeTags1 y) = ?n + 1"
    if "initFoldedHistories p hl x = Inr y" for x y
    using that unfolding initFoldedHistories_def Let_def
    by (auto simp: bind_r_eq_Inr_iff simp del: upt_Suc dest!: map_r_eq_InrD list_all2_lengthD)
  show "length (th_computeIndices th) = ?n + 1 \<and> length (th_computeTags0 th) = ?n + 1 \<and> length (th_computeTags1 th) = ?n + 1" if "th \<in> set (tb_threadHistory t)"
  proof -
    obtain i where i: "i < length ths" "th = ths ! i" using \<open>th \<in> set (tb_threadHistory t)\<close> t(3) by (auto simp: in_set_conv_nth)
    show ?thesis unfolding i(2) by (rule fold [OF list_all2_nthD2 [OF m i(1)]])
  qed
qed

lemma gindex_undefined:
  assumes "i < length (tb_histLengths s)" and "i < length (tp_logTagTableSizes (tb_params s))" and "tid < length (tb_threadHistory s)"
    and "i < length (th_computeIndices (tb_threadHistory s ! tid))" and "tp_logTagTableSizes (tb_params s) ! i < int i"
  shows "gindex s tid pc i = Inl Undefined"
  using assms unfolding gindex_def Let_def tage_F_def by (simp only: vec_get_in bind_r_simps check_def) auto

lemma gindex_returns:
  assumes "i < length (tb_histLengths s)" and "i < length (tp_logTagTableSizes (tb_params s))" and "tid < length (tb_threadHistory s)"
    and "i < length (th_computeIndices (tb_threadHistory s ! tid))" and "int i \<le> tp_logTagTableSizes (tb_params s) ! i" and "tp_logTagTableSizes (tb_params s) ! i < 31"
  shows "\<exists>x. gindex s tid pc i = Inr x"
  using assms unfolding gindex_def Let_def tage_F_def by (simp only: vec_get_in bind_r_simps check_def) auto

lemma map_r_Inl:
  assumes "\<And>x. x \<in> set xs \<Longrightarrow> \<exists>y. f x = Inr y" and "f z = Inl e"
  shows "map_r f (xs @ z # zs) = Inl e"
  using assms(1)
proof (induction xs)
  case Nil
  then show ?case by (simp add: assms(2))
next
  case (Cons x xs)
  obtain y where "f x = Inr y" using Cons.prems by auto
  moreover have "map_r f (xs @ z # zs) = Inl e" by (rule Cons.IH) (use Cons.prems in auto)
  ultimately show ?case by simp
qed

text \<open>C40: LTAGE with its default parameters has undefined behaviour at every lookup.  Whatever history
  lengths the constructor computes, the first conditional branch of any thread makes \<open>F\<close> shift by
  \<open>logTagTableSizes[11] - 11\<close>, that is by \<open>-2\<close>.\<close>

theorem ltage_default_undefined:
  assumes "TAGEBase_init len (TAGEBase_new (LTAGE_TAGE k)) = Inr t" and "tid < unat k"
  shows "cp_lookup (LTAGE_ops rnd en) (LTAGE_new t lp sh g e) tid pc None = Inl Undefined"
proof -
  note i = init_shape [OF assms(1)]
  have n: "unat (tp_nHistoryTables (LTAGE_TAGE k)) = 12" "unat (tp_numThreads (LTAGE_TAGE k)) = unat k" by (simp_all add: LTAGE_TAGE_def)
  have tid: "tid < length (tb_threadHistory t)" using i(3) n(2) assms(2) by simp
  have hl: "length (tb_histLengths t) = 13" using i(2) n(1) by simp
  have th: "length (th_computeIndices (tb_threadHistory t ! tid)) = 13" "length (th_computeTags0 (tb_threadHistory t ! tid)) = 13"
      "length (th_computeTags1 (tb_threadHistory t ! tid)) = 13"
    using i(4) [OF nth_mem [OF tid]] n(1) by simp_all
  let ?f = "\<lambda>i. bind_r (gindex t tid pc i) (\<lambda>index. bind_r (gtag t tid pc i) (\<lambda>tag. Inr (index, int (unat tag))))"
  have lg: "length (tp_logTagTableSizes (tb_params t)) = 13" "length (tp_tagTableTagWidths (tb_params t)) = 13"
      "tp_logTagTableSizes (tb_params t) ! 11 = 9"
    by (simp_all add: i(1) LTAGE_TAGE_def)
  have ok: "int j \<le> tp_logTagTableSizes (tb_params t) ! j \<and> tp_logTagTableSizes (tb_params t) ! j < 31" if "j \<in> set [1..<11]" for j
    using that by (auto simp: i(1) LTAGE_TAGE_def upt_conv_Cons)
  have "\<exists>y. ?f j = Inr y" if m: "j \<in> set [1..<11]" for j
  proof -
    have j: "j < 13" using that by simp
    obtain x where "gindex t tid pc j = Inr x" using gindex_returns [of j t tid pc] ok [OF m] j hl lg th tid by auto
    moreover have "\<exists>y. gtag t tid pc j = Inr y" unfolding gtag_def Let_def using j hl lg th tid by (simp add: vec_get_in)
    ultimately show ?thesis by auto
  qed
  moreover have "?f 11 = Inl Undefined" using gindex_undefined [of 11 t tid pc] hl lg th tid by simp
  ultimately have "map_r ?f ([1..<11] @ 11 # [12]) = Inl Undefined" by (rule map_r_Inl)
  moreover have "[1..<tb_n t + 1] = [1..<11] @ 11 # [12]" unfolding i(1) n(1) by (simp add: upt_conv_Cons)
  ultimately have "calculateIndicesAndTags t tid pc bi = Inl Undefined" for bi unfolding calculateIndicesAndTags_def by simp
  then show ?thesis by (simp add: LTAGE_ops_def TAGE_lookup_def LTAGE_predict_def LTAGE_new_def tagePredict_def split_beta)
qed

section \<open>Instances\<close>

definition ltage_env :: "int LTageEnv" where
  "ltage_env = \<lparr>en_loop = LoopPredictor_ops, en_random = (\<lambda>e. ((e, e), e + 1)), en_memory = (\<lambda>e. (False, e))\<rparr>"

lemma default_loop_ok: "LoopPredictorParams_ok default_loop_params" by code_simp



lemma ltage_default_init: "\<exists>t. TAGEBase_init (\<lambda>i. 53 * int i) (TAGEBase_new (LTAGE_TAGE 1)) = Inr t"
  by (simp add: TAGEBase_init_def TAGEBase_new_def LTAGE_TAGE_def calculateParameters_def initFoldedHistories_def FoldedHistory_init_def
      buildTageTables_def upt_conv_Cons Let_def)

theorem ltage_default_undefined_witness:
  "\<exists>t lp0 lp. TAGEBase_init (\<lambda>i. 53 * int i) (TAGEBase_new (LTAGE_TAGE 1)) = Inr t \<and>
     LoopPredictor_new default_loop_params = Inr lp0 \<and> LoopPredictor_init lp0 = Inr lp \<and>
     cp_lookup (LTAGE_ops (\<lambda>g. (g, g + 1)) ltage_env) (LTAGE_new t lp 2 0 0) 0 64 None = Inl Undefined"
proof -
  obtain t where t: "TAGEBase_init (\<lambda>i. 53 * int i) (TAGEBase_new (LTAGE_TAGE 1)) = Inr t" using ltage_default_init by blast
  obtain lp0 lp where lp: "LoopPredictor_new default_loop_params = Inr lp0" "LoopPredictor_init lp0 = Inr lp"
    using loop_construct [OF default_loop_ok] by blast
  have "0 < unat (1 :: u32)" by simp
  from ltage_default_undefined [OF t this, of "\<lambda>g. (g, g + 1)" ltage_env lp 2 0 0 64] t lp show ?thesis by blast
qed

end
