(* ===== verification/Spec2Isabelle.thy ===== *)
theory Spec2Isabelle
  imports LVP_Pipeline Sat_Counter Local_BP Gshare_BP BiMode_BP Tournament_BP Return_Addr_Stack Branch_Target_Buffer Indirect_Predictor
    BPred_Unit_Histories Loop_Predictor_Learning LTage_Runs
begin

text \<open>
  This is a verification development of the branch and value predictors of the repository.  The
  repository is a fork of the gem5 simulator (\<open>src/gem5-fresh\<close>) to which it adds a Markov load value
  predictor, with scripts and micro-benchmarks around it.  All paths below are under
  \<open>src/gem5-fresh/src\<close>.

  \<^bold>\<open>The program.\<close>  The out-of-order processor model asks the branch prediction unit
  (\<open>cpu/pred/bpred_unit.cc\<close>) for the next fetch address.  The unit asks a direction predictor (an
  implementation of \<open>ConditionalPredictor\<close>), a branch target buffer, a return address stack and an
  indirect target predictor.  Each of these changes its histories speculatively and leaves a history
  object with the branch; a branch is later committed, squashed, or corrected after a misprediction.
  Independently, the load value predictor (\<open>cpu/markov_lvp.cc\<close>) is asked for the value of a load at
  dispatch and at commit and is trained at write-back and at commit.

  \<^bold>\<open>Conventions.\<close>  Code that may fail returns a value of \<open>'a result\<close>: an assertion, a \<open>fatal\<close> or
  \<open>panic\<close>, an access outside a container, or undefined behaviour is an \<open>Inl\<close>.  Integers have the
  width of the source (\<open>u8\<close> to \<open>u64\<close>); an \<open>int\<close> of C++ is an integer whose conversions and shifts
  are written out.  A class is a record and its methods take and return it.  Virtual methods are
  records of functions.  What is not in the repository's C++ code is an argument: the simulated clock,
  random numbers, the instruction set's program counter type, and the values of uninitialised
  memory.  Statistics are natural numbers; debug output is left out.

  \<^bold>\<open>The theories.\<close>
  \<^item> \<open>Gem5_Prelude\<close>: results, vectors and arrays with their bounds checks, lemmas on lists and words.
    \<open>Bitfield_Intmath\<close>: the helpers of \<open>base/bitfield.hh\<close> and \<open>base/intmath.hh\<close>; the logarithms are
    correct for every width.  \<open>Sat_Counter\<close>: \<open>base/sat_counter.hh\<close>; a counter refines clamped integers.
  \<^item> \<open>Shift_History\<close>, \<open>Counter_Table\<close>, \<open>Global_History\<close>, \<open>Speculation\<close>, \<open>Conditional_Predictor\<close>,
    \<open>Bounded_History\<close>, \<open>Predictor_Simulation\<close>: the interfaces that several components share, as locales.
    \<open>speculative_history\<close>, \<open>speculation\<close> and \<open>bounded_history\<close> derive from laws on single operations
    what holds after any interleaving of predictions, squashes, corrections and commits;
    \<open>predictor_simulation\<close> relates the runs of a predictor to those of one that extends it.  Every locale
    is interpreted on the model of the code.
  \<^item> \<open>Markov_LVP\<close>, \<open>Markov_LVP_Learning\<close>: \<open>cpu/markov_lvp.cc\<close>.  Every run is safe, the statistics are
    consistent, predictions do not influence training, and a load with a constant stride is
    predicted exactly after a bounded number of updates.  \<open>LVP_Pipeline\<close>: the calls in
    \<open>cpu/o3/iew.cc\<close> and \<open>cpu/o3/lsq_unit.cc\<close> as runs of the predictor.
  \<^item> \<open>Local_BP\<close>, \<open>Gshare_BP\<close>, \<open>BiMode_BP\<close>, \<open>Tournament_BP\<close>: the table-based direction predictors
    (\<open>cpu/pred/2bit_local.cc\<close>, \<open>gshare.cc\<close>, \<open>bi_mode.cc\<close>, \<open>tournament.cc\<close>).  Histories are exact under
    speculation; a branch with a constant outcome is mispredicted a bounded number of times.
  \<^item> \<open>Loop_Predictor\<close>, \<open>Loop_Predictor_Learning\<close>: \<open>cpu/pred/loop_predictor.cc\<close>.  All fields stay within
    their widths, and a loop with a constant number of iterations is learned.
  \<^item> \<open>Tage_Base\<close> (the definitions), \<open>Tage_History\<close> (the circular buffer and the folded histories),
    \<open>Tage_Tables\<close> (indices, prediction and update of the tables), \<open>Tage_Speculation\<close> (one operation on the
    histories of all threads), \<open>Tage\<close> (the predictor and its runs): \<open>cpu/pred/tage_base.cc\<close> and
    \<open>cpu/pred/tage.cc\<close>.  The folded histories, computed incrementally and undone incrementally, are the
    folds of the surviving branches; the prediction is that of the longest match.
  \<^item> \<open>LTage\<close>, \<open>LTage_Runs\<close>: \<open>cpu/pred/ltage.cc\<close>, TAGE with a loop predictor.  The TAGE part runs as if it
    were alone, and a confident loop entry overrides it.
  \<^item> \<open>Return_Addr_Stack\<close>: \<open>cpu/pred/ras.cc\<close>; the buffer agrees with the ideal call stack.
    \<open>Associative_Cache\<close>, \<open>Branch_Target_Buffer\<close>: \<open>base/cache/associative_cache.hh\<close>, the LRU policy and
    \<open>cpu/pred/simple_btb.cc\<close>; lookups return targets that were inserted.  \<open>Indirect_Predictor\<close>:
    \<open>cpu/pred/simple_indirect.cc\<close>.
  \<^item> \<open>BPred_Unit\<close>, \<open>BPred_Unit_Histories\<close>: \<open>cpu/pred/bpred_unit.cc\<close> over any parts that keep their
    contracts.  This theory instantiates the unit with the tournament predictor, \<open>SimpleBTB\<close>, the stack
    and \<open>SimpleIndirectPredictor\<close>, and holds the properties of the whole.

  \<^bold>\<open>Bounds.\<close>  No fuel is used: every loop of the modelled code is a structural recursion or has a
  termination proof.  The parameters are restricted where the code needs it, by predicates such as
  \<open>TAGEBaseParams_ok\<close> and \<open>LoopPredictorParams_ok\<close> that collect the conditions under which shifts and
  array sizes are defined.  For TAGE they require speculative history updates, a table size of at least the
  number of the table in bits, and a history buffer that holds two copies of the part that a rollover
  keeps; at most 500 branches are in flight, since a rollover keeps 1000 bits beyond the longest
  history and a branch adds at most two.  The history lengths of TAGE come from a floating-point power
  and are an argument, between 0 and \<open>maxHist\<close>.

  \<^bold>\<open>Not modelled.\<close>
  \<^item> The statistical corrector, TAGE-SC-L and the multiperspective perceptron predictors
    (\<open>cpu/pred/statistical_corrector.cc\<close>, \<open>tage_sc_l*.cc\<close>, \<open>multiperspective_perceptron*.cc\<close>).  Of TAGE-SC-L
    only the two virtual methods of its loop predictor are modelled.
  \<^item> The stages of the out-of-order pipeline beyond the calls of the value predictor, the other processor
    models, caches, Ruby, devices, GPU and instruction sets: the predictors do not depend on them
    except through the arguments named above.
  \<^item> Replacement and indexing policies other than LRU and the base class; the buffer's results
    hold for every policy that keeps the contract \<open>replacement_policy\<close>.
  \<^item> \<open>calcSaturation\<close> of the saturating counter and the statistics formulas (floating point), probe
    points, debug output and checkpointing.
  \<^item> Python configuration, build scripts, benchmarks and the external libraries under \<open>ext\<close>.
\<close>

section \<open>A branch prediction unit of the modelled parts\<close>

text \<open>
  The default configuration of the unit around the tournament predictor: \<open>SimpleBTB\<close> with LRU
  replacement, the return address stack and \<open>SimpleIndirectPredictor\<close>.  The instruction set is a
  parameter.
\<close>

type_synonym 'pc tournament_unit =
  "(TournamentBP, TournamentBPHistory, ('pc, u64) SimpleBTB, 'pc, 'pc SimpleIndirect, IndirectHistory) BPredUnit"

definition tournament_parts ::
  "'pc PCOps \<Rightarrow> (TournamentBP, TournamentBPHistory, ('pc, u64) SimpleBTB, 'pc, 'pc SimpleIndirect, IndirectHistory) BPUParts" where
  "tournament_parts po = \<lparr>pt_cPred = TournamentBP_ops, pt_btb = SimpleBTB_vtable LRU,
     pt_iPred = SimpleIndirect_vtable (po_instAddr po), pt_pc = po\<rparr>"

record unit_params =
  up_tournament :: TournamentBPParams
  up_btb :: SimpleBTBParams
  up_indirect :: SimpleIndirectParams
  up_rasEntries :: u32
  up_numThreads :: u32
  up_requiresBTBHit :: bool
  up_updateBTBAtSquash :: bool

definition unit_params_ok :: "unit_params \<Rightarrow> bool" where
  "unit_params_ok p \<longleftrightarrow> btb_params_ok (up_btb p) \<and> SimpleIndirectParams_ok (up_indirect p) \<and> up_rasEntries p \<noteq> 0 \<and>
     tnp_numThreads (up_tournament p) = up_numThreads p \<and> sip_numThreads (up_indirect p) = up_numThreads p"

text \<open>The parts and the unit made of them.\<close>

definition unit_init :: "unit_params \<Rightarrow> (TournamentBP \<times> 'pc SimpleIndirect \<times> 'pc tournament_unit) result" where
  "unit_init p =
     bind_r (TournamentBP_init (up_tournament p)) (\<lambda>c.
     bind_r (SimpleBTB_init LRU (up_btb p)) (\<lambda>b.
     bind_r (SimpleIndirect_init (up_indirect p)) (\<lambda>i.
       Inr (c, i, BPredUnit_init (up_numThreads p) (up_requiresBTBHit p) (up_updateBTBAtSquash p) b
         (Some (ReturnAddrStack_init (up_rasEntries p) (up_numThreads p))) c (Some i)))))"

interpretation tunit: bpu "tournament_parts po" TournamentBP_wf tn_cfg tn_br_ok tn_hist_ok tn_view tn_push tn_undo
  "si_tracks c n" si_hist "si_apply (po_instAddr po) (si_ghrMask c)" "\<lambda>tid. tid < n" SimpleBTB_wf
  for po :: "'pc PCOps" and c n
proof (intro bpu.intro)
  show "speculative_history (pt_cPred (tournament_parts po)) TournamentBP_wf tn_cfg tn_br_ok tn_hist_ok tn_view tn_push tn_undo"
    using tournament.speculative_history_axioms by (simp add: tournament_parts_def)
  show "speculation (indirect_spec (pt_iPred (tournament_parts po))) (\<lambda>_ _ _. True) same_kind
      (si_tracks c n) si_hist (si_apply (po_instAddr po) (si_ghrMask c)) (\<lambda>tid. tid < n)"
    using si.speculation_axioms by (simp add: tournament_parts_def)
  show "target_buffer (pt_btb (tournament_parts po)) SimpleBTB_wf"
    using lru.simple_btb.target_buffer_axioms by (simp add: tournament_parts_def)
qed

lemma ras_init_wf:
  assumes "e \<noteq> 0" and "tid < unat numThreads"
  shows "ras_wf (unat e) tid (ReturnAddrStack_init e numThreads)"
  using assms by (simp add: ras_wf_def ReturnAddrStack_init_def AddrStack_init_def AddrStack_reset_def AddrStack_wf_def unat_gt_0)

text \<open>A new unit satisfies the invariant, and every run from it keeps it.\<close>

lemma unit_run:
  fixes po :: "'pc PCOps" and u0 :: "'pc tournament_unit"
  assumes p: "unit_params_ok p" and init: "unit_init p = Inr (c, i, u0)" and tid: "tid < unat (up_numThreads p)"
    and evs: "list_all (bpu_event_ok po) evs"
  shows "\<exists>u log. bpu_run (tournament_parts po) tid (u0, []) evs = Inr (u, log) \<and>
    tunit.run_inv po i (unat (up_numThreads p)) (unat (up_rasEntries p)) (tn_cfg c) (tn_view c) (0, []) tid (u, log) \<and>
    bu_iPred u \<noteq> None \<and> (in_order evs \<longrightarrow> sns tid (u, log) = queue_run evs)"
proof -
  obtain b where ci: "TournamentBP_init (up_tournament p) = Inr c" and bi: "SimpleBTB_init LRU (up_btb p) = Inr b"
    and ii: "SimpleIndirect_init (up_indirect p) = Inr i"
    and u0: "u0 = BPredUnit_init (up_numThreads p) (up_requiresBTBHit p) (up_updateBTBAtSquash p) b
         (Some (ReturnAddrStack_init (up_rasEntries p) (up_numThreads p))) c (Some i)"
    using init by (auto simp: unit_init_def result_iffs)
  have n: "tnp_numThreads (up_tournament p) = up_numThreads p" "sip_numThreads (up_indirect p) = up_numThreads p"
    using p by (simp_all add: unit_params_ok_def)
  note cw = TournamentBP_init_wf [OF ci, unfolded n]
  have bw: "SimpleBTB_wf b"
    using SimpleBTB_init_wf [of "up_btb p", where ?'pc = 'pc, of LRU] p bi by (auto simp: unit_params_ok_def)
  have iw: "si_tracks i (unat (up_numThreads p)) i (\<lambda>_. (0, []))"
    using p ii n by (auto elim!: SimpleIndirect_init_ok [where ?'pc = 'pc]
      simp: unit_params_ok_def si_tracks_def ti_follows_def)
  have rw: "ras_wf (unat (up_rasEntries p)) tid (ReturnAddrStack_init (up_rasEntries p) (up_numThreads p) :: 'pc ReturnAddrStack)"
    using p tid by (intro ras_init_wf) (auto simp: unit_params_ok_def)
  have inv: "tunit.run_inv po i (unat (up_numThreads p)) (unat (up_rasEntries p)) (tn_cfg c) (tn_view c) (0, []) tid (u0, [])"
    unfolding u0 by (rule tunit.init_inv) (use cw bw iw rw tid in auto)
  have ok: "\<forall>br. br_tid br = tid \<longrightarrow> tn_br_ok (tn_cfg c) br" using cw(2) tid by (simp add: tn_br_ok_def tn_cfg_def)
  have po: "list_all (bpu_event_ok (pt_pc (tournament_parts po))) evs" using evs by (simp add: tournament_parts_def)
  have "sns tid (u0, []) = ([], [])" "bu_iPred u0 = Some i" using tid by (simp_all add: sns_def u0 BPredUnit_init_def)
  then show ?thesis using tunit.run_ok [OF inv tid ok po] by (auto simp: queue_run_def)
qed

lemma agrees_views:
  assumes "list_all2 agrees ops hs"
  shows "ideal_ghr m ops = foldr (\<lambda>h g. shift_masked m g (ph_actuallyTaken h)) hs 0"
    and "ideal_path f ops = map (\<lambda>h. f (the (ph_target h))) (filter (\<lambda>h. isIndirectNoReturn (ph_type h)) hs)"
  using assms
proof (induction rule: list_all2_induct)
  case (Cons op ops h hs)
  have "ph_target h = Some (io_target op)" using Cons.hyps(1) by (simp add: agrees_def)
  with Cons show "ideal_ghr m (op # ops) = foldr (\<lambda>h g. shift_masked m g (ph_actuallyTaken h)) (h # hs) 0"
    and "ideal_path f (op # ops) = map (\<lambda>h. f (the (ph_target h))) (filter (\<lambda>h. isIndirectNoReturn (ph_type h)) (h # hs))"
    by (simp_all add: ideal_ghr_def ideal_path_def agrees_def)
qed (simp_all add: ideal_ghr_def ideal_path_def)



text \<open>C32: Every prediction records its direction and a target, and the target comes from a part that may
  give it: the fall-through when there is no provider, and then the branch is not taken; the branch
  target buffer only on a hit of a taken branch; the return address stack only for a return; the
  indirect predictor only for a taken indirect branch that is not a return.  A branch is taken only
  when its direction is taken.\<close>

theorem bpu_prediction_target:
  assumes "BPredUnit_predict_hist pt tick rnd u inst sn pc tid = Inr (taken, target, u', h)"
  shows "ph_predTaken h = taken \<and> ph_actuallyTaken h = taken \<and> ph_target h = Some target \<and>
    (taken \<longrightarrow> direction pt u tid pc inst) \<and>
    (case ph_targetProvider h of
       NoTarget \<Rightarrow> \<not> taken \<and> target = po_advancePC (pt_pc pt) inst pc
     | BTB \<Rightarrow> taken \<and> ph_btbHit h
     | RAS \<Rightarrow> taken = direction pt u tid pc inst \<and> isReturn inst \<and> \<not> isCall inst \<and> branch_detected u h
     | Indirect \<Rightarrow> taken \<and> isIndirectCtrl inst \<and> \<not> isReturn inst \<and> branch_detected u h)"
  using prediction_provider [OF assms] by (auto simp: provider_ok_def split: TargetProvider.splits if_splits)

text \<open>C33: A conditional return that the direction predictor predicts as not taken is recorded as not taken
  and still sent to the address popped from the return address stack instead of the next
  instruction.\<close>

theorem conditional_return_jumps:
  assumes "BPredUnit_predict_hist pt tick rnd u inst sn pc tid = Inr (taken, target, u', h)"
    and "bu_ras u = Some r" and "ReturnAddrStack_pop r tid None = Inr (Some a, r', rh)"
    and "isReturn inst" and "\<not> isCall inst" and "isCondCtrl inst" and "\<not> bu_requiresBTBHit u"
    and "cp_lookup (pt_cPred pt) (bu_cPred u) tid (po_instAddr (pt_pc pt) pc) None = Inr (False, c', ch)"
  shows "\<not> taken \<and> target = a"
  using return_target [OF assms(1-5,7)] prediction_provider [OF assms(1)] assms(6,8) by (simp add: direction_def)

text \<open>A small unit.\<close>

definition po_small :: "Addr PCOps" where
  "po_small = \<lparr>po_instAddr = id, po_set = (\<lambda>_ a. a), po_advancePC = (\<lambda>_ pc. pc + 4),
     po_buildRetPC = (\<lambda>_ pc _. pc + 4), po_size = (\<lambda>_. 4)\<rparr>"

definition unit_small :: unit_params where
  "unit_small = \<lparr>up_tournament = tnp_small, up_btb = sbp_small 2, up_indirect = ip_witness\<lparr>sip_numThreads := 2\<rparr>,
     up_rasEntries = 4, up_numThreads = 2, up_requiresBTBHit = False, up_updateBTBAtSquash = False\<rparr>"

definition inst_jump :: StaticInst where
  "inst_jump = \<lparr>isReturn = False, isCall = False, isDirectCtrl = True, isIndirectCtrl = False, isCondCtrl = True, isUncondCtrl = False\<rparr>"

definition inst_return :: StaticInst where
  "inst_return = \<lparr>isReturn = True, isCall = False, isDirectCtrl = False, isIndirectCtrl = True, isCondCtrl = True, isUncondCtrl = False\<rparr>"

definition evs_small :: "Addr bpu_event list" where
  "evs_small = [Predict inst_jump 1 0x40 5 0, Predict inst_jump 2 0x44 6 0, Predict inst_return 3 0x48 7 0,
     CommitTo 1 8, Correct 2 0x80 True True 9 0]"

lemma unit_small_ok: "unit_params_ok unit_small"
  using sbp_small_ok(2) ip_witness_ok
  by (simp add: unit_params_ok_def unit_small_def tnp_small_def SimpleIndirectParams_ok_def ip_witness_def)

lemma unit_small_init:
  "\<exists>c i u0. unit_init unit_small = Inr (c, i, u0 :: Addr tournament_unit) \<and> unat (tn_globalHistoryBits c) = 3"
proof -
  obtain c where c: "TournamentBP_init tnp_small = Inr c" "unat (tn_globalHistoryBits c) = 3"
    using tnp_small_init by blast
  obtain b :: "(Addr, u64) SimpleBTB" where b: "SimpleBTB_init LRU (sbp_small 2) = Inr b" using sbp_small_init(2) by blast
  have "SimpleIndirectParams_ok (up_indirect unit_small)" using unit_small_ok by (simp add: unit_params_ok_def)
  then obtain i :: "Addr SimpleIndirect" where "SimpleIndirect_init (up_indirect unit_small) = Inr i"
    by (rule SimpleIndirect_init_ok)
  then show ?thesis using b c by (simp add: unit_init_def unit_small_def)
qed



text \<open>A unit of the same parts with one address on its stack.\<close>

lemma unit_with_call:
  "\<exists>(u :: Addr tournament_unit) r taken target u' h. bu_ras u = Some r \<and> \<not> bu_requiresBTBHit u \<and>
    (\<exists>r' rh. ReturnAddrStack_pop r 0 None = Inr (Some 0x44, r', rh)) \<and>
    (\<exists>c' ch. TournamentBP_lookup (bu_cPred u) 0 0x80 None = Inr (False, c', ch)) \<and>
    BPredUnit_predict_hist (tournament_parts po_small) 5 0 u inst_return 1 0x80 0 = Inr (taken, target, u', h)"
proof -
  have "ceilLog2 4 8 = Inr 3" using ceilLog2_pow2 [of 8 3 4] by simp
  then have "\<exists>c. TournamentBP_init tnp_small = Inr c \<and> (\<exists>c' ch. TournamentBP_lookup c 0 0x80 None = Inr (False, c', ch))"
    by (simp add: TournamentBP_init_def tnp_small_def Let_def isPowerOf2_def mask_nbits_def
        GenericSatCounter_def ctr_threshold_r_def TournamentBP_lookup_def TournamentBP_calcLocHistIdx_def pc_index_def)
  then obtain c c' ch where c: "TournamentBP_init tnp_small = Inr c" "TournamentBP_lookup c 0 0x80 None = Inr (False, c', ch)" by blast
  obtain b :: "(Addr, u64) SimpleBTB" where b: "SimpleBTB_init LRU (sbp_small 2) = Inr b" "SimpleBTB_wf b"
    using SimpleBTB_init_wf [OF sbp_small_ok(2), of LRU] by blast
  have w: "ras_wf 4 0 (ReturnAddrStack_init 4 1 :: Addr ReturnAddrStack)" using ras_init_wf [of 4 0 1] by simp
  obtain r h where r: "ReturnAddrStack_push (ReturnAddrStack_init 4 1) 0 (0x44 :: Addr) None = Inr (r, h)" "ras_wf 4 0 r"
    using ras_push_ok [OF w, of None "0x44"] by (auto simp: ras_hist_ok_def)
  have p: "\<exists>r' rh. ReturnAddrStack_pop r 0 None = Inr (Some 0x44, r', rh)"
    using r(1) by (auto simp: ReturnAddrStack_push_def ReturnAddrStack_pop_def ReturnAddrStack_init_def AddrStack_init_def
      AddrStack_reset_def AddrStack_push_def AddrStack_incrTos_def AddrStack_top_def Let_def result_iffs)
  let ?u = "BPredUnit_init 1 False False b (Some r) c None :: Addr tournament_unit"
  note cw = TournamentBP_init_wf [OF c(1)]
  have inv: "tunit.run_inv po_small si_witness 1 4 (tn_cfg c) (tn_view c) (0, []) 0 (?u, [])"
    by (rule tunit.init_inv) (use cw b r in auto)
  then have "tunit.unit_inv po_small si_witness 1 4 (tn_cfg c) (tn_view c) (0, []) 0 ?u [] []"
    by (simp add: tunit.run_inv_def BPredUnit_init_def)
  moreover have "\<forall>br. br_tid br = 0 \<longrightarrow> tn_br_ok (tn_cfg c) br" using cw(2) by (simp add: tn_br_ok_def tn_cfg_def tnp_small_def)
  ultimately have "\<exists>taken target u' h. BPredUnit_predict_hist (tournament_parts po_small) 5 0 ?u inst_return 1 0x80 0 =
      Inr (taken, target, u', h)"
    using tunit.predict_hist_ok [of po_small si_witness 1 4 "tn_cfg c" "tn_view c" "(0, [])" 0 ?u "[]" "[]" inst_return 5 0 1 "0x80"]
    by (auto simp: inst_return_def)
  then show ?thesis using c(2) p by (intro exI [of _ ?u] exI [of _ r]) (auto simp: BPredUnit_init_def)
qed

theorem bpu_prediction_target_witness:
  "\<exists>(u :: Addr tournament_unit) taken target u' h.
     BPredUnit_predict_hist (tournament_parts po_small) 5 0 u inst_return 1 0x80 0 = Inr (taken, target, u', h) \<and>
     ph_actuallyTaken h = taken \<and> ph_target h = Some target"
proof -
  obtain u :: "Addr tournament_unit" and taken target u' h where
    "BPredUnit_predict_hist (tournament_parts po_small) 5 0 u inst_return 1 0x80 0 = Inr (taken, target, u', h)"
    using unit_with_call by blast
  from bpu_prediction_target [OF this] this show ?thesis by blast
qed

theorem conditional_return_jumps_witness:
  "\<exists>(u :: Addr tournament_unit) u' h.
     BPredUnit_predict_hist (tournament_parts po_small) 5 0 u inst_return 1 0x80 0 = Inr (False, 0x44, u', h)"
proof -
  obtain u :: "Addr tournament_unit" and r taken target u' h r' rh c' ch where
    u: "bu_ras u = Some r" "\<not> bu_requiresBTBHit u" "ReturnAddrStack_pop r 0 None = Inr (Some 0x44, r', rh)"
      "TournamentBP_lookup (bu_cPred u) 0 0x80 None = Inr (False, c', ch)"
      "BPredUnit_predict_hist (tournament_parts po_small) 5 0 u inst_return 1 0x80 0 = Inr (taken, target, u', h)"
    using unit_with_call by blast
  have "\<not> taken \<and> target = 0x44"
    using conditional_return_jumps [OF u(5,1,3)] u(2,4)
    by (simp add: inst_return_def tournament_parts_def TournamentBP_ops_def po_small_def)
  then show ?thesis using u(5) by auto
qed

end
